(* ===== verification/Prelude.thy ===== *)
theory Prelude
  imports Main "HOL-Library.Word" "HOL-Library.Monad_Syntax"
begin

text \<open>
  Shared vocabulary of the development: the C integer conversions, array accesses, character
  arrays and error numbers that the sources use, and the generic lemmas on them.

  Conventions. A C integer is an \<open>int\<close>; where the code stores it in a narrower or an unsigned
  type, the conversion is written out (\<open>s32\<close>, \<open>u32\<close>, \<open>s64\<close>, \<open>u64\<close>). An undefined behaviour of C
  (an access outside an array, a null or dangling pointer, a string without terminator) is
  the value \<open>None\<close> of an option type, so that "the code is memory safe here" is the statement
  that a definition returns \<open>Some\<close>. System errors are negative error numbers, as in the code.
\<close>

section \<open>Collections of facts\<close>

named_theorems c_conv \<open>C integer conversions that do nothing in range\<close>
named_theorems c_mem \<open>array and string accesses of C\<close>
named_theorems inv_intros \<open>preservation of component invariants\<close>

section \<open>Integers of C\<close>

definition u16 :: "int \<Rightarrow> int" where
  "u16 x = x mod 65536"

definition u32 :: "int \<Rightarrow> int" where
  "u32 x = x mod 4294967296"

definition u64 :: "int \<Rightarrow> int" where
  "u64 x = x mod 18446744073709551616"

definition s32 :: "int \<Rightarrow> int" where
  "s32 x = (x + 2147483648) mod 4294967296 - 2147483648"

definition s64 :: "int \<Rightarrow> int" where
  "s64 x = (x + 9223372036854775808) mod 18446744073709551616 - 9223372036854775808"

lemma s32_id [c_conv]: "- 2147483648 \<le> x \<Longrightarrow> x < 2147483648 \<Longrightarrow> s32 x = x"
  by (simp add: s32_def)

lemma s64_id [c_conv]:
  "- 9223372036854775808 \<le> x \<Longrightarrow> x < 9223372036854775808 \<Longrightarrow> s64 x = x"
  by (simp add: s64_def)

lemma u32_id [c_conv]: "0 \<le> x \<Longrightarrow> x < 4294967296 \<Longrightarrow> u32 x = x"
  by (simp add: u32_def)

lemma u64_id [c_conv]: "0 \<le> x \<Longrightarrow> x < 18446744073709551616 \<Longrightarrow> u64 x = x"
  by (simp add: u64_def)

lemma u16_id [c_conv]: "0 \<le> x \<Longrightarrow> x < 65536 \<Longrightarrow> u16 x = x"
  by (simp add: u16_def)

lemma s32_range: "- 2147483648 \<le> s32 x" "s32 x < 2147483648"
  using pos_mod_bound [of 4294967296 "x + 2147483648"] pos_mod_sign [of 4294967296 "x + 2147483648"]
  by (simp_all add: s32_def)

lemma u64_range: "0 \<le> u64 x" "u64 x < 18446744073709551616"
  by (simp_all add: u64_def)

lemma u32_range: "0 \<le> u32 x" "u32 x < 4294967296"
  by (simp_all add: u32_def)

lemma u32_s32 [simp]: "u32 (s32 x) = u32 x"
proof -
  have "u32 (s32 x) = ((x + 2147483648) mod 4294967296 - 2147483648) mod 4294967296"
    by (simp add: u32_def s32_def)
  also have "\<dots> = (x + 2147483648 - 2147483648) mod 4294967296"
    by (simp only: mod_diff_left_eq)
  finally show ?thesis by (simp add: u32_def)
qed

lemma s32_u32 [simp]: "s32 (u32 x) = s32 x"
  by (simp add: u32_def s32_def mod_add_left_eq)

lemma u64_u64 [simp]: "u64 (u64 x) = u64 x"
  by (simp add: u64_def)

lemma u64_add_u64 [simp]: "u64 (u64 x + y) = u64 (x + y)" "u64 (x + u64 y) = u64 (x + y)"
  by (simp_all add: u64_def mod_add_left_eq mod_add_right_eq)

text \<open>Division of C truncates towards zero; the remainder has the sign of the dividend.\<close>

definition c_div :: "int \<Rightarrow> int \<Rightarrow> int" where
  "c_div a b = sgn a * sgn b * (\<bar>a\<bar> div \<bar>b\<bar>)"

definition c_mod :: "int \<Rightarrow> int \<Rightarrow> int" where
  "c_mod a b = sgn a * (\<bar>a\<bar> mod \<bar>b\<bar>)"

lemma c_div_nonneg [c_conv]: "0 \<le> a \<Longrightarrow> 0 < b \<Longrightarrow> c_div a b = a div b"
  by (cases "a = 0") (simp_all add: c_div_def)

lemma c_mod_nonneg [c_conv]: "0 \<le> a \<Longrightarrow> 0 < b \<Longrightarrow> c_mod a b = a mod b"
  by (cases "a = 0") (simp_all add: c_mod_def)

text \<open>The increment of a signed \<open>int\<close> is undefined at the largest value.\<close>

definition c_inc :: "int \<Rightarrow> int option" where
  "c_inc x = (if x < 2147483647 then Some (x + 1) else None)"

lemma c_inc_eq_Some_iff: "c_inc x = Some y \<longleftrightarrow> x < 2147483647 \<and> y = x + 1"
  by (auto simp: c_inc_def)

section \<open>Arrays\<close>

definition c_get :: "'a list \<Rightarrow> int \<Rightarrow> 'a option" where
  "c_get xs i = (if 0 \<le> i \<and> i < int (length xs) then Some (xs ! nat i) else None)"

definition c_set :: "'a list \<Rightarrow> int \<Rightarrow> 'a \<Rightarrow> 'a list option" where
  "c_set xs i v = (if 0 \<le> i \<and> i < int (length xs) then Some (xs[nat i := v]) else None)"

lemma c_get_Some [c_mem]: "0 \<le> i \<Longrightarrow> i < int (length xs) \<Longrightarrow> c_get xs i = Some (xs ! nat i)"
  by (simp add: c_get_def)

lemma c_set_Some [c_mem]: "0 \<le> i \<Longrightarrow> i < int (length xs) \<Longrightarrow> c_set xs i v = Some (xs[nat i := v])"
  by (simp add: c_set_def)

lemma c_get_eq_Some_iff:
  "c_get xs i = Some v \<longleftrightarrow> 0 \<le> i \<and> i < int (length xs) \<and> v = xs ! nat i"
  by (auto simp: c_get_def)

lemma c_set_eq_Some_iff:
  "c_set xs i v = Some ys \<longleftrightarrow> 0 \<le> i \<and> i < int (length xs) \<and> ys = xs[nat i := v]"
  by (auto simp: c_set_def)

lemma c_set_None_iff: "c_set xs i v = None \<longleftrightarrow> i < 0 \<or> int (length xs) \<le> i"
  by (auto simp: c_set_def)

lemma c_get_None_iff: "c_get xs i = None \<longleftrightarrow> i < 0 \<or> int (length xs) \<le> i"
  by (auto simp: c_get_def)

section \<open>Character arrays and strings\<close>

abbreviation NUL :: char where
  "NUL \<equiv> CHR 0x00"

text \<open>The string a character array holds, \<open>None\<close> when a reader would run off its end.\<close>

definition cstr :: "char list \<Rightarrow> string option" where
  "cstr buf = (if NUL \<in> set buf then Some (takeWhile (\<lambda>c. c \<noteq> NUL) buf) else None)"

text \<open>A value that can be a C string: no terminator inside.\<close>

definition c_string :: "string \<Rightarrow> bool" where
  "c_string s \<longleftrightarrow> NUL \<notin> set s"

text \<open>\<open>strcpy\<close> into an array: \<open>None\<close> when the string and its terminator do not fit.\<close>

definition strcpy :: "char list \<Rightarrow> string \<Rightarrow> char list option" where
  "strcpy dst s =
     (if length s < length dst then Some (s @ NUL # drop (Suc (length s)) dst) else None)"

text \<open>\<open>strncpy (dst, s, n)\<close> of the C library: at most \<open>n\<close> characters, padded with NULs up to \<open>n\<close>.\<close>

definition strncpy :: "char list \<Rightarrow> string \<Rightarrow> nat \<Rightarrow> char list option" where
  "strncpy dst s n =
     (if n \<le> length dst
      then Some (take n s @ replicate (n - length s) NUL @ drop n dst) else None)"

lemma takeWhile_NUL_append:
  "NUL \<notin> set s \<Longrightarrow> takeWhile (\<lambda>c. c \<noteq> NUL) (s @ NUL # r) = s"
  by (induction s) auto

lemma cstr_append_NUL [c_mem]: "c_string s \<Longrightarrow> cstr (s @ NUL # r) = Some s"
  by (simp add: cstr_def c_string_def takeWhile_NUL_append)

lemma cstr_c_string: "cstr buf = Some s \<Longrightarrow> c_string s"
  by (auto simp: cstr_def c_string_def dest: set_takeWhileD split: if_splits)

lemma length_takeWhile_NUL: "NUL \<in> set buf \<Longrightarrow> length (takeWhile (\<lambda>c. c \<noteq> NUL) buf) < length buf"
  by (induction buf) auto

lemma cstr_length: "cstr buf = Some s \<Longrightarrow> length s < length buf"
  by (auto simp: cstr_def length_takeWhile_NUL split: if_splits)

lemma strcpy_Some [c_mem]:
  "length s < length dst \<Longrightarrow> strcpy dst s = Some (s @ NUL # drop (Suc (length s)) dst)"
  by (simp add: strcpy_def)

lemma strcpy_length: "strcpy dst s = Some b \<Longrightarrow> length b = length dst"
  by (auto simp: strcpy_def split: if_splits)

lemma cstr_strcpy [c_mem]: "c_string s \<Longrightarrow> strcpy dst s = Some b \<Longrightarrow> cstr b = Some s"
  by (auto simp: strcpy_def cstr_append_NUL split: if_splits)

lemma strncpy_length: "strncpy dst s n = Some b \<Longrightarrow> length b = length dst"
  by (auto simp: strncpy_def min_def split: if_splits)

lemma cstr_strncpy [c_mem]:
  assumes "c_string s" and "length s < n" and "strncpy dst s n = Some b"
  shows "cstr b = Some s"
proof -
  obtain k where k: "n - length s = Suc k" using assms(2) by (cases "n - length s") auto
  have "b = s @ NUL # (replicate k NUL @ drop n dst)"
    using assms(2,3) k by (auto simp: strncpy_def split: if_splits)
  with assms(1) show ?thesis by (simp add: cstr_append_NUL)
qed

text \<open>\<open>strcmp (s, buf) == 0\<close>, undefined when it runs off the end of the array \<open>buf\<close>.\<close>

fun str_eq :: "string \<Rightarrow> char list \<Rightarrow> bool option" where
  "str_eq s [] = None"
| "str_eq [] (c # cs) = Some (c = NUL)"
| "str_eq (x # xs) (c # cs) = (if x = c then str_eq xs cs else Some False)"

lemma str_eq_cstr: "c_string s \<Longrightarrow> cstr buf = Some t \<Longrightarrow> str_eq s buf = Some (s = t)"
proof (induction s buf arbitrary: t rule: str_eq.induct)
  case (1 s)
  then show ?case by (simp add: cstr_def)
next
  case (2 c cs)
  then show ?case by (auto simp: cstr_def split: if_splits)
next
  case (3 x xs c cs)
  show ?case
  proof (cases "x = c")
    case True
    with 3 obtain t' where "cstr cs = Some t'" "t = c # t'"
      by (auto simp: cstr_def c_string_def split: if_splits)
    with True 3 show ?thesis by (simp add: c_string_def)
  next
    case False
    with 3 show ?thesis by (auto simp: cstr_def c_string_def split: if_splits)
  qed
qed

section \<open>Error numbers\<close>

text \<open>The error numbers of \<open>errno.h\<close> that the sources name.\<close>

abbreviation (input) EPERM :: int where "EPERM \<equiv> 1"
abbreviation (input) ENOENT :: int where "ENOENT \<equiv> 2"
abbreviation (input) ESRCH :: int where "ESRCH \<equiv> 3"
abbreviation (input) EINTR :: int where "EINTR \<equiv> 4"
abbreviation (input) EBADF :: int where "EBADF \<equiv> 9"
abbreviation (input) EAGAIN :: int where "EAGAIN \<equiv> 11"
abbreviation (input) ENOMEM :: int where "ENOMEM \<equiv> 12"
abbreviation (input) EACCES :: int where "EACCES \<equiv> 13"
abbreviation (input) EFAULT :: int where "EFAULT \<equiv> 14"
abbreviation (input) EBUSY :: int where "EBUSY \<equiv> 16"
abbreviation (input) EEXIST :: int where "EEXIST \<equiv> 17"
abbreviation (input) EISDIR :: int where "EISDIR \<equiv> 21"
abbreviation (input) EINVAL :: int where "EINVAL \<equiv> 22"
abbreviation (input) EFBIG :: int where "EFBIG \<equiv> 27"
abbreviation (input) ENOSPC :: int where "ENOSPC \<equiv> 28"
abbreviation (input) ENAMETOOLONG :: int where "ENAMETOOLONG \<equiv> 36"
abbreviation (input) ENOSYS :: int where "ENOSYS \<equiv> 38"
abbreviation (input) EDQUOT :: int where "EDQUOT \<equiv> 122"

section \<open>Generic lemmas\<close>

lemma bind_Some_iff:
  "Option.bind m f = Some y \<longleftrightarrow> (\<exists>x. m = Some x \<and> f x = Some y)"
  by (cases m) auto

lemma upt_conv_map_add: "[a..<a + n] = map (\<lambda>i. a + i) [0..<n]"
  by (induction n) auto

end
