(* ===== verification/C_Bytes.thy ===== *)
theory C_Bytes
  imports Prelude
begin

text \<open>
  The bytes of C integers in memory and on disk: little-endian, four bytes for an \<open>int\<close> and eight for a \<open>long\<close>, a \<open>size_t\<close> and a
  pointer. The file system uses them for its disk structures, the system calls for what they store in the memory of a process.
\<close>

section \<open>Integers in bytes\<close>

fun le_nat :: "char list \<Rightarrow> nat" where
  "le_nat [] = 0"
| "le_nat (c # cs) = of_char c + 256 * le_nat cs"

fun le_bytes :: "nat \<Rightarrow> nat \<Rightarrow> char list" where
  "le_bytes 0 x = []"
| "le_bytes (Suc n) x = char_of (x mod 256) # le_bytes n (x div 256)"

lemma le_bytes_length [simp]: "length (le_bytes n x) = n"
  by (induction n arbitrary: x) auto

lemma le_nat_bytes: "le_nat (le_bytes n x) = x mod 256 ^ n"
proof (induction n arbitrary: x)
  case 0
  then show ?case by simp
next
  case (Suc n)
  have "x mod 256 ^ Suc n = x mod 256 + 256 * (x div 256 mod 256 ^ n)"
    by (simp add: mod_mult2_eq)
  with Suc show ?case by simp
qed

lemma le_bytes_nat: "le_bytes (length cs) (le_nat cs) = cs"
proof (induction cs)
  case Nil
  then show ?case by simp
next
  case (Cons c cs)
  have "of_char c < (256 :: nat)" by (rule nat_of_char_less_256)
  with Cons show ?case by simp
qed

lemma le_nat_bound: "le_nat cs < 256 ^ length cs"
proof (induction cs)
  case Nil
  then show ?case by simp
next
  case (Cons c cs)
  have "a < 256 \<Longrightarrow> b < m \<Longrightarrow> a + 256 * b < 256 * m" for a b m :: nat by linarith
  from this [OF nat_of_char_less_256 Cons.IH] have "of_char c + 256 * le_nat cs < 256 * 256 ^ length cs" .
  then show ?case by (simp only: le_nat.simps list.size power_Suc add_Suc_right add_0_right)
qed

text \<open>\<open>int\<close>, \<open>long\<close> and \<open>size_t\<close>.\<close>

definition dec_int :: "char list \<Rightarrow> int" where "dec_int bs = s32 (int (le_nat bs))"
definition enc_int :: "int \<Rightarrow> char list" where "enc_int x = le_bytes 4 (nat (u32 x))"
definition dec_long :: "char list \<Rightarrow> int" where "dec_long bs = s64 (int (le_nat bs))"
definition enc_long :: "int \<Rightarrow> char list" where "enc_long x = le_bytes 8 (nat (u64 x))"
definition dec_size :: "char list \<Rightarrow> int" where "dec_size bs = int (le_nat bs)"
definition enc_size :: "int \<Rightarrow> char list" where "enc_size x = le_bytes 8 (nat (u64 x))"

lemma s64_u64 [simp]: "s64 (u64 x) = s64 x"
  by (simp add: u64_def s64_def mod_add_left_eq)

lemma enc_lengths [simp]: "length (enc_int x) = 4" "length (enc_long x) = 8" "length (enc_size x) = 8"
  by (simp_all add: enc_int_def enc_long_def enc_size_def)

lemma dec_enc_int [simp]: "dec_int (enc_int x) = s32 x"
proof -
  have "nat (u32 x) < 4294967296" using u32_range [of x] by simp
  then have "le_nat (enc_int x) = nat (u32 x)" by (simp add: enc_int_def le_nat_bytes)
  then show ?thesis using u32_range [of x] by (simp add: dec_int_def)
qed

lemma le_nat_enc8: "le_nat (le_bytes 8 (nat (u64 x))) = nat (u64 x)"
proof -
  have "nat (u64 x) < 18446744073709551616" using u64_range [of x] by simp
  then show ?thesis by (simp add: le_nat_bytes)
qed

lemma dec_enc_long [simp]: "dec_long (enc_long x) = s64 x"
  using u64_range [of x] by (simp add: dec_long_def enc_long_def le_nat_enc8)

lemma dec_enc_size [simp]: "dec_size (enc_size x) = u64 x"
  using u64_range [of x] by (simp add: dec_size_def enc_size_def le_nat_enc8)

text \<open>Decoding loses nothing either.\<close>

lemma u64_s64 [simp]: "u64 (s64 x) = u64 x"
proof -
  have "s64 x = x - 18446744073709551616 * ((x + 9223372036854775808) div 18446744073709551616)"
    by (simp add: s64_def minus_div_mult_eq_mod [symmetric])
  then show ?thesis by (simp add: u64_def mod_diff_right_eq [symmetric])
qed

lemma u64_le_nat: "length bs = 8 \<Longrightarrow> nat (u64 (int (le_nat bs))) = le_nat bs"
  using le_nat_bound [of bs] by (simp add: u64_id)

lemma enc_dec_int: "length bs = 4 \<Longrightarrow> enc_int (dec_int bs) = bs"
  using le_nat_bound [of bs] le_bytes_nat [of bs] by (simp add: enc_int_def dec_int_def u32_id)

lemma enc_dec_long: "length bs = 8 \<Longrightarrow> enc_long (dec_long bs) = bs"
  using le_bytes_nat [of bs] by (simp add: enc_long_def dec_long_def u64_le_nat)

lemma enc_dec_size: "length bs = 8 \<Longrightarrow> enc_size (dec_size bs) = bs"
  using le_bytes_nat [of bs] by (simp add: enc_size_def dec_size_def u64_le_nat)

section \<open>What a C integer looks like\<close>

text \<open>
  The bytes \<open>bs\<close> represent \<open>x\<close>: little-endian, two's complement for a negative number. The byte at \<open>k\<close> is \<open>\<lfloor>x / 256 ^ k\<rfloor> mod 256\<close>.
\<close>

definition c_value :: "char list \<Rightarrow> int \<Rightarrow> bool" where
  "c_value bs x \<longleftrightarrow> (\<forall>k < length bs. of_char (bs ! k) = x div 256 ^ k mod 256)"

lemma nth_le_bytes: "k < n \<Longrightarrow> of_char (le_bytes n x ! k) = x div 256 ^ k mod 256"
proof (induction n arbitrary: x k)
  case 0
  then show ?case by simp
next
  case (Suc n)
  then show ?case by (cases k) (simp_all add: div_mult2_eq)
qed

lemma byte_of_mod: "k < n \<Longrightarrow> x mod 256 ^ n div 256 ^ k mod 256 = x div 256 ^ k mod (256 :: int)"
proof -
  assume k: "k < n"
  have p: "(256 :: int) ^ m = 2 ^ (8 * m)" for m by (simp add: power_mult)
  have "take_bit 8 (drop_bit (8 * k) (take_bit (8 * n) x)) = take_bit 8 (drop_bit (8 * k) x)"
    using k by (simp add: drop_bit_take_bit min_absorb1)
  then show ?thesis by (simp add: take_bit_eq_mod drop_bit_eq_div p)
qed

lemma c_value_le_bytes: "c_value (le_bytes n (nat (x mod 256 ^ n))) x"
proof -
  have "of_char (le_bytes n (nat (x mod 256 ^ n)) ! k) = x div 256 ^ k mod 256" if "k < n" for k
  proof -
    have "of_char (le_bytes n (nat (x mod 256 ^ n)) ! k) = int (nat (x mod 256 ^ n) div 256 ^ k mod 256)"
      using nth_le_bytes [OF that, of "nat (x mod 256 ^ n)"] by (metis of_nat_of_char)
    also have "\<dots> = x mod 256 ^ n div 256 ^ k mod 256" by (simp add: zdiv_int zmod_int)
    finally show ?thesis using byte_of_mod [OF that] by simp
  qed
  then show ?thesis by (simp add: c_value_def)
qed

lemma c_value_dec:
  "length bs = 4 \<Longrightarrow> c_value bs (dec_int bs)" "length bs = 8 \<Longrightarrow> c_value bs (dec_long bs)"
  "length bs = 8 \<Longrightarrow> c_value bs (dec_size bs)"
  using c_value_le_bytes [of 4 "dec_int bs"] c_value_le_bytes [of 8 "dec_long bs"] c_value_le_bytes [of 8 "dec_size bs"]
    enc_dec_int [of bs] enc_dec_long [of bs] enc_dec_size [of bs]
  by (simp_all add: enc_int_def enc_long_def enc_size_def u32_def u64_def)

end
