(* ===== verification/Car_Queue.thy ===== *)
theory Car_Queue
  imports Prelude
begin

text \<open>
  The circular queue of cars of \<open>src/Semaphore and Synchronization/prodcons.c\<close>: the struct
  \<open>car_queue\<close> and \<open>is_full\<close>, \<open>is_empty\<close>, \<open>enqueue\<close> and \<open>dequeue\<close>.
  Its contract is the locale \<open>bounded_fifo\<close> (a list of at most \<open>cap\<close> elements), which the
  operations are shown to implement; the lemmas on the field \<open>size\<close> say when it is the
  number of queued cars, and when it is not.
\<close>

section \<open>The queue of the program\<close>

definition MAX_QUEUE_SIZE :: int where
  "MAX_QUEUE_SIZE = 30"

record car_queue =
  car :: "int list"
  front :: int
  rear :: int
  q_size :: int

definition is_full :: "car_queue \<Rightarrow> bool" where
  "is_full my_queue \<longleftrightarrow>
     front my_queue = rear my_queue + 1
     \<or> front my_queue = 0 \<and> rear my_queue = MAX_QUEUE_SIZE - 1"

definition is_empty :: "car_queue \<Rightarrow> bool" where
  "is_empty my_queue \<longleftrightarrow> front my_queue = - 1"

text \<open>The expression both operations assign to the field \<open>size\<close>.\<close>

definition new_size :: "car_queue \<Rightarrow> int" where
  "new_size q =
     (if rear q < front q then MAX_QUEUE_SIZE - front q + rear q + 1
      else rear q - front q + 1)"

definition enqueue :: "car_queue \<Rightarrow> int \<Rightarrow> car_queue option" where
  "enqueue my_queue element =
     (if is_full my_queue then Some my_queue
      else do {
        let q = (if front my_queue = - 1 then my_queue\<lparr>front := 0\<rparr> else my_queue);
        let q = q\<lparr>rear := c_mod (rear q + 1) MAX_QUEUE_SIZE\<rparr>;
        cars \<leftarrow> c_set (car q) (rear q) element;
        let q = q\<lparr>car := cars\<rparr>;
        Some (q\<lparr>q_size := new_size q\<rparr>)
      })"

definition dequeue :: "car_queue \<Rightarrow> (int \<times> car_queue) option" where
  "dequeue my_queue =
     (if is_empty my_queue then Some (- 1, my_queue)
      else do {
        element \<leftarrow> c_get (car my_queue) (front my_queue);
        let q = (if front my_queue = rear my_queue then my_queue\<lparr>front := - 1, rear := - 1\<rparr>
                 else my_queue\<lparr>front := c_mod (front my_queue + 1) MAX_QUEUE_SIZE\<rparr>);
        Some (element, q\<lparr>q_size := new_size q\<rparr>)
      })"

text \<open>The queue \<open>main\<close> sets up: anonymous shared memory is zero, and both indices are \<open>- 1\<close>.\<close>

definition init_car_queue :: car_queue where
  "init_car_queue = \<lparr>car = replicate 30 0, front = - 1, rear = - 1, q_size = 0\<rparr>"

text \<open>
  What a queue holds: the cars from \<open>front\<close> to \<open>rear\<close> around the ring, and the states the
  operations keep.
\<close>

definition queue_len :: "car_queue \<Rightarrow> nat" where
  "queue_len q = Suc (nat ((rear q - front q) mod 30))"

definition queue_list :: "car_queue \<Rightarrow> int list" where
  "queue_list q =
     (if front q = - 1 then []
      else map (\<lambda>i. car q ! nat ((front q + int i) mod 30)) [0..<queue_len q])"

definition queue_inv :: "car_queue \<Rightarrow> bool" where
  "queue_inv q \<longleftrightarrow>
     length (car q) = 30
     \<and> (front q = - 1 \<and> rear q = - 1
        \<or> 0 \<le> front q \<and> front q < 30 \<and> 0 \<le> rear q \<and> rear q < 30)"

section \<open>The contract of a bounded queue\<close>

datatype 'a queue_op = Enq 'a | Deq

fun run_queue ::
  "('q \<Rightarrow> 'a \<Rightarrow> 'q option) \<Rightarrow> ('q \<Rightarrow> ('a \<times> 'q) option) \<Rightarrow> 'q \<Rightarrow> 'a queue_op list
     \<Rightarrow> ('a list \<times> 'q) option" where
  "run_queue enq deq q [] = Some ([], q)"
| "run_queue enq deq q (Enq x # ops) = do { q' \<leftarrow> enq q x; run_queue enq deq q' ops }"
| "run_queue enq deq q (Deq # ops) =
     do { (x, q') \<leftarrow> deq q; (out, q'') \<leftarrow> run_queue enq deq q' ops; Some (x # out, q'') }"

text \<open>The specification: a list, full at \<open>cap\<close> elements, \<open>dflt\<close> returned when empty.\<close>

definition fifo_enq :: "nat \<Rightarrow> 'a list \<Rightarrow> 'a \<Rightarrow> 'a list option" where
  "fifo_enq cap xs x = Some (if length xs < cap then xs @ [x] else xs)"

definition fifo_deq :: "'a \<Rightarrow> 'a list \<Rightarrow> ('a \<times> 'a list) option" where
  "fifo_deq dflt xs = Some (case xs of [] \<Rightarrow> (dflt, []) | x # ys \<Rightarrow> (x, ys))"

locale bounded_fifo =
  fixes enq :: "'q \<Rightarrow> 'a \<Rightarrow> 'q option"
    and deq :: "'q \<Rightarrow> ('a \<times> 'q) option"
    and contents :: "'q \<Rightarrow> 'a list"
    and invar :: "'q \<Rightarrow> bool"
    and cap :: nat
    and dflt :: 'a
  assumes enq_refines: "invar q \<Longrightarrow>
      \<exists>q'. enq q x = Some q' \<and> invar q' \<and> fifo_enq cap (contents q) x = Some (contents q')"
    and deq_refines: "invar q \<Longrightarrow>
      \<exists>x q'. deq q = Some (x, q') \<and> invar q' \<and> fifo_deq dflt (contents q) = Some (x, contents q')"
    and contents_bound: "invar q \<Longrightarrow> length (contents q) \<le> cap"
begin

lemma run_refines:
  assumes "invar q"
  shows "\<exists>out q'. run_queue enq deq q ops = Some (out, q') \<and> invar q'
           \<and> run_queue (fifo_enq cap) (fifo_deq dflt) (contents q) ops = Some (out, contents q')"
  using assms
proof (induction ops arbitrary: q)
  case Nil
  then show ?case by simp
next
  case (Cons op ops)
  show ?case
  proof (cases op)
    case (Enq x)
    with enq_refines [OF Cons.prems, of x] Cons.IH show ?thesis by force
  next
    case Deq
    with deq_refines [OF Cons.prems] Cons.IH show ?thesis by force
  qed
qed

lemma run_contents_bound:
  assumes "invar q" and "run_queue enq deq q ops = Some (out, q')"
  shows "length (contents q') \<le> cap"
  using run_refines [OF assms(1), of ops] assms(2) contents_bound by auto

end

section \<open>The circular queue implements it\<close>

lemmas queue_defs = is_full_def is_empty_def new_size_def MAX_QUEUE_SIZE_def

lemma queue_inv_init: "queue_inv init_car_queue"
  by (simp add: queue_inv_def init_car_queue_def)

lemma queue_list_init [simp]: "queue_list init_car_queue = []"
  by (simp add: queue_list_def init_car_queue_def)

lemma length_queue_list:
  "queue_inv q \<Longrightarrow> length (queue_list q) = (if front q = - 1 then 0 else queue_len q)"
  by (simp add: queue_list_def)

lemma queue_list_bound: "queue_inv q \<Longrightarrow> length (queue_list q) \<le> 30"
  using pos_mod_bound [of 30 "rear q - front q"]
  by (simp add: length_queue_list queue_len_def Suc_le_eq nat_less_iff)

lemma ring_distance:
  assumes "0 \<le> f" "f < 30" "0 \<le> r" "r < (30::int)"
  shows "(r - f) mod 30 = (if f \<le> r then r - f else 30 - f + r)"
proof (cases "f \<le> r")
  case True
  with assms show ?thesis by (simp add: mod_pos_pos_trivial)
next
  case False
  have "(r - f) mod 30 = (r - f + 30) mod 30" by simp
  also have "\<dots> = r - f + 30" using assms False by (intro mod_pos_pos_trivial) auto
  finally show ?thesis using False by simp
qed

lemma is_full_iff:
  assumes "queue_inv q" and "front q \<noteq> - 1"
  shows "is_full q \<longleftrightarrow> queue_len q = 30"
proof -
  have "is_full q \<longleftrightarrow> (rear q - front q) mod 30 = 29"
    using assms by (auto simp: queue_inv_def queue_defs ring_distance)
  then show ?thesis
    by (simp add: queue_len_def nat_eq_iff)
qed

lemma is_full_empty: "queue_inv q \<Longrightarrow> front q = - 1 \<Longrightarrow> \<not> is_full q"
  by (auto simp: queue_inv_def queue_defs)

text \<open>The slot \<open>enqueue\<close> writes is the one after the last element, and no other's.\<close>

lemma next_slot:
  assumes "queue_inv q" "front q \<noteq> - 1" "\<not> is_full q"
  shows "(rear q + 1) mod 30 = (front q + int (queue_len q)) mod 30"
    and "(rear q + 1 - front q) mod 30 = (rear q - front q) mod 30 + 1"
    and "i < queue_len q \<Longrightarrow> (front q + int i) mod 30 \<noteq> (rear q + 1) mod 30"
proof -
  have r: "0 \<le> front q" "front q < 30" "0 \<le> rear q" "rear q < 30"
    using assms by (auto simp: queue_inv_def)
  have nf: "(rear q - front q) mod 30 \<noteq> 29"
    using is_full_iff [OF assms(1,2)] assms(3) by (simp add: queue_len_def)
  have len: "int (queue_len q) = (rear q - front q) mod 30 + 1"
    by (simp add: queue_len_def)
  show "(rear q + 1) mod 30 = (front q + int (queue_len q)) mod 30"
    using mod_add_right_eq [of "front q + 1" "rear q - front q" 30] unfolding len
    by (simp add: algebra_simps)
  show "(rear q + 1 - front q) mod 30 = (rear q - front q) mod 30 + 1"
    using nf pos_mod_bound [of 30 "rear q - front q"]
      mod_add_left_eq [of "rear q - front q" 30 1]
    by (simp add: algebra_simps)
  assume "i < queue_len q"
  then have i: "int i \<le> (rear q - front q) mod 30" using len by linarith
  show "(front q + int i) mod 30 \<noteq> (rear q + 1) mod 30"
  proof
    assume "(front q + int i) mod 30 = (rear q + 1) mod 30"
    then have "(rear q + 1 - front q - int i) mod 30 = 0"
      by (metis mod_eq_dvd_iff dvd_imp_mod_0 diff_diff_eq)
    moreover have "(rear q + 1 - front q - int i) mod 30 = ((rear q - front q) mod 30 + (1 - int i)) mod 30"
      using mod_add_left_eq [of "rear q - front q" 30 "1 - int i"] by (simp add: algebra_simps)
    moreover have "((rear q - front q) mod 30 + (1 - int i)) mod 30 = (rear q - front q) mod 30 + (1 - int i)"
      using i nf pos_mod_bound [of 30 "rear q - front q"] by (intro mod_pos_pos_trivial) auto
    ultimately show False using i by linarith
  qed
qed

lemma enqueue_refines:
  assumes "queue_inv q"
  shows "\<exists>q'. enqueue q x = Some q' \<and> queue_inv q'
           \<and> fifo_enq 30 (queue_list q) x = Some (queue_list q')"
proof -
  have len: "length (car q) = 30" using assms by (simp add: queue_inv_def)
  consider (full) "is_full q" | (empty) "front q = - 1" "\<not> is_full q"
    | (some) "front q \<noteq> - 1" "\<not> is_full q" by blast
  then show ?thesis
  proof cases
    case full
    then have "front q \<noteq> - 1" using assms is_full_empty by blast
    with full assms have "length (queue_list q) = 30"
      by (simp add: length_queue_list is_full_iff)
    with full assms show ?thesis by (simp add: enqueue_def fifo_enq_def)
  next
    case empty
    with assms have "rear q = - 1" by (auto simp: queue_inv_def)
    with empty len show ?thesis
      by (simp add: enqueue_def fifo_enq_def queue_inv_def queue_list_def queue_len_def
          c_set_def c_mod_def MAX_QUEUE_SIZE_def Let_def)
  next
    case some
    let ?r = "(rear q + 1) mod 30"
    have r: "0 \<le> front q" "front q < 30" "0 \<le> rear q" "rear q < 30"
      using assms some by (auto simp: queue_inv_def)
    have cm: "c_mod (rear q + 1) 30 = ?r" using r by (simp add: c_mod_nonneg)
    define q' where "q' = q\<lparr>rear := ?r, car := (car q)[nat ?r := x],
        q_size := new_size (q\<lparr>rear := ?r, car := (car q)[nat ?r := x]\<rparr>)\<rparr>"
    have e: "enqueue q x = Some q'"
      using some len by (simp add: enqueue_def q'_def cm c_set_def MAX_QUEUE_SIZE_def nat_less_iff Let_def)
    have i: "queue_inv q'" using r len by (simp add: queue_inv_def q'_def)
    have f: "front q' = front q" "rear q' = ?r" "car q' = (car q)[nat ?r := x]"
      by (simp_all add: q'_def)
    have l: "queue_len q' = Suc (queue_len q)"
      using next_slot(2) [OF assms some] by (simp add: queue_len_def f nat_add_distrib mod_diff_left_eq)
    have "length (queue_list q) < 30"
      using some assms queue_list_bound [OF assms]
      by (simp add: length_queue_list is_full_iff le_neq_implies_less)
    moreover have "car q' ! nat ((front q + int i) mod 30) = car q ! nat ((front q + int i) mod 30)"
      if "i < queue_len q" for i
      using next_slot(3) [OF assms some that] by (simp add: f nat_eq_iff)
    moreover have "car q' ! nat ((front q + int (queue_len q)) mod 30) = x"
      using next_slot(1) [OF assms some] len by (simp add: f nat_less_iff)
    ultimately have "length (queue_list q) < 30" "queue_list q' = queue_list q @ [x]"
      using some by (simp_all add: queue_list_def f(1) l)
    then show ?thesis using e i by (simp add: fifo_enq_def)
  qed
qed

lemma mod_30_pred: "(x::int) mod 30 \<noteq> 0 \<Longrightarrow> x mod 30 = (x - 1) mod 30 + 1"
  using mod_diff_left_eq [of x 30 1] pos_mod_bound [of 30 x] pos_mod_sign [of 30 x]
  by (simp add: mod_pos_pos_trivial)

lemma dequeue_refines:
  assumes "queue_inv q"
  shows "\<exists>x q'. dequeue q = Some (x, q') \<and> queue_inv q'
           \<and> fifo_deq (- 1) (queue_list q) = Some (x, queue_list q')"
proof -
  have len: "length (car q) = 30" using assms by (simp add: queue_inv_def)
  consider (empty) "front q = - 1" | (last) "front q \<noteq> - 1" "front q = rear q"
    | (some) "front q \<noteq> - 1" "front q \<noteq> rear q" by blast
  then show ?thesis
  proof cases
    case empty
    with assms show ?thesis
      by (simp add: dequeue_def is_empty_def fifo_deq_def queue_list_def)
  next
    case last
    with assms len show ?thesis
      by (auto simp: dequeue_def is_empty_def fifo_deq_def queue_list_def queue_len_def
          queue_inv_def c_get_def Let_def)
  next
    case some
    have r: "0 \<le> front q" "front q < 30" "0 \<le> rear q" "rear q < 30"
      using assms some by (auto simp: queue_inv_def)
    let ?f = "(front q + 1) mod 30"
    define q' where "q' = q\<lparr>front := ?f, q_size := new_size (q\<lparr>front := ?f\<rparr>)\<rparr>"
    have cm: "c_mod (front q + 1) 30 = ?f" using r by (simp add: c_mod_nonneg)
    have d: "dequeue q = Some (car q ! nat (front q), q')"
      using some r len
      by (simp add: dequeue_def is_empty_def c_get_def cm q'_def MAX_QUEUE_SIZE_def Let_def)
    have i: "queue_inv q'" using r len by (simp add: queue_inv_def q'_def)
    have m: "(rear q - front q) mod 30 = (rear q - ?f) mod 30 + 1"
    proof -
      have "(rear q - front q) mod 30 \<noteq> 0"
        using r some by (simp add: mod_eq_0_iff_dvd mod_eq_dvd_iff [symmetric])
      moreover have "(rear q - front q - 1) mod 30 = (rear q - ?f) mod 30"
        using mod_diff_right_eq [of "rear q" "front q + 1" 30] by (simp add: algebra_simps)
      ultimately show ?thesis using mod_30_pred by metis
    qed
    have l: "queue_len q = Suc (queue_len q')"
      using m by (simp add: queue_len_def q'_def nat_add_distrib)
    have "front q' \<noteq> - 1" using r by (simp add: q'_def)
    moreover have "(front q + (1 + int k)) mod 30 = (?f + int k) mod 30" for k
      using mod_add_left_eq [of "front q + 1" 30 "int k"] by (simp add: algebra_simps)
    ultimately have "queue_list q = car q ! nat (front q) # queue_list q'"
      using some r unfolding queue_list_def l
      by (simp add: q'_def upt_conv_Cons map_Suc_upt [symmetric] del: upt_Suc)
    with d i show ?thesis by (simp add: fifo_deq_def)
  qed
qed

text \<open>
  The field \<open>size\<close>. After \<open>enqueue\<close> it is the number of queued cars. After \<open>dequeue\<close> it is so
  only while cars remain: removing the last one resets both indices to \<open>- 1\<close> first, and the
  expression then gives 1.
\<close>

lemma new_size_eq:
  assumes "queue_inv q" and "front q \<noteq> - 1"
  shows "new_size q = int (length (queue_list q))"
  using assms by (auto simp: length_queue_list queue_len_def queue_inv_def new_size_def
      MAX_QUEUE_SIZE_def ring_distance)

lemma new_size_q_size [simp]: "new_size (q\<lparr>q_size := n\<rparr>) = new_size q"
  by (simp add: new_size_def)

lemma enqueue_size:
  assumes "queue_inv q" and "enqueue q x = Some q'" and "\<not> is_full q"
  shows "q_size q' = int (length (queue_list q'))"
proof -
  have i: "queue_inv q'" using enqueue_refines [OF assms(1), of x] assms(2) by auto
  have n: "queue_list q' \<noteq> []"
    using enqueue_refines [OF assms(1), of x] assms(2)
    by (auto simp: fifo_enq_def split: if_splits)
  then have "front q' \<noteq> - 1" by (auto simp: queue_list_def)
  moreover have "q_size q' = new_size q'"
    using assms(2,3) by (auto simp: enqueue_def Let_def bind_Some_iff split: if_splits)
  ultimately show ?thesis using new_size_eq [OF i] by simp
qed

lemma dequeue_size:
  assumes "queue_inv q" and "dequeue q = Some (x, q')" and "queue_list q \<noteq> []"
  shows "q_size q' = (if queue_list q' = [] then 1 else int (length (queue_list q')))"
proof -
  have i: "queue_inv q'" using dequeue_refines [OF assms(1)] assms(2) by auto
  have "\<not> is_empty q" using assms(3) by (auto simp: queue_list_def is_empty_def)
  then have s: "q_size q' = new_size q'"
    using assms(2) by (auto simp: dequeue_def Let_def bind_Some_iff split: if_splits)
  show ?thesis
  proof (cases "front q' = - 1")
    case True
    with i have "rear q' = - 1" by (auto simp: queue_inv_def)
    with True s show ?thesis by (simp add: new_size_def queue_list_def)
  next
    case False
    then have "queue_list q' \<noteq> []" by (simp add: queue_list_def queue_len_def)
    with False s new_size_eq [OF i] show ?thesis by simp
  qed
qed

interpretation cq: bounded_fifo enqueue dequeue queue_list queue_inv 30 "- 1"
  by unfold_locales (use enqueue_refines dequeue_refines queue_list_bound in auto)

section \<open>Properties\<close>

text \<open>
  C20. From the empty queue that \<open>main\<close> sets up, every sequence of \<open>enqueue\<close> and \<open>dequeue\<close> calls
  stays inside the array (no call is undefined) and returns exactly what a first-in first-out
  list of at most 30 cars returns, \<open>- 1\<close> when empty; a car that arrives at a full queue is
  dropped.
\<close>

theorem car_queue_fifo:
  "\<exists>out q'. run_queue enqueue dequeue init_car_queue ops = Some (out, q')
     \<and> run_queue (fifo_enq 30) (fifo_deq (- 1)) [] ops = Some (out, queue_list q')
     \<and> length (queue_list q') \<le> 30"
  using cq.run_refines [OF queue_inv_init, of ops] cq.run_contents_bound [OF queue_inv_init]
  by (metis queue_list_init)

text \<open>
  The field \<open>size\<close> that the flag person polls: after a \<open>dequeue\<close> that leaves cars in the queue it is
  their number, but after the \<open>dequeue\<close> of the last car it is 1, not 0.
\<close>

theorem car_queue_size_after_dequeue:
  assumes "queue_inv q" and "queue_list q \<noteq> []"
  shows "\<exists>q'. dequeue q = Some (hd (queue_list q), q') \<and> queue_list q' = tl (queue_list q)
     \<and> q_size q' = (if queue_list q' = [] then 1 else int (length (queue_list q')))"
  using cq.deq_refines [OF assms(1)] dequeue_size [OF assms(1) _ assms(2)] assms(2)
  by (auto simp: fifo_deq_def split: list.splits)

theorem car_queue_size_after_dequeue_witness:
  "\<exists>q q'. enqueue init_car_queue 7 = Some q \<and> dequeue q = Some (7, q')
     \<and> queue_list q' = [] \<and> q_size q' = 1"
proof -
  obtain q where e: "enqueue init_car_queue 7 = Some q" and i: "queue_inv q"
    and l: "queue_list q = [7]"
    using cq.enq_refines [OF queue_inv_init, of 7] by (auto simp: fifo_enq_def)
  then show ?thesis using car_queue_size_after_dequeue [OF i] by auto
qed

end
