(* ===== verification/Kernel_Sem.thy ===== *)
theory Kernel_Sem
  imports Prelude
begin

text \<open>
  The semaphore system calls \<open>csc452_down\<close> and \<open>csc452_up\<close> that the project adds to
  \<open>src/Semaphore and Synchronization/sys.c\<close>.

  The kernel heap is explicit: a \<open>process_queue\<close> node lives at an address, and the walk to the
  last node follows the \<open>next\<close> pointers. \<open>kmalloc\<close>, \<open>kfree\<close> and \<open>wake_up_process\<close> are kernel code
  outside the repository: they are fields of \<open>sem_env\<close>, with their documented behaviour in
  \<open>sem_env_ok\<close>. Each system call runs under \<open>sem_lock\<close>, so it is one atomic function of the
  state, up to the call of \<open>schedule\<close>; a task that is not \<open>TASK_RUNNING\<close> takes no step.
  A store through a null pointer is \<open>None\<close>.
\<close>

section \<open>State\<close>

record process_queue =
  pq_task :: nat
  pq_next :: "nat option"

record csc452_sem =
  sem_value :: int
  sem_process :: "nat option"

datatype task_state = TASK_RUNNING | TASK_INTERRUPTIBLE

record sem_state =
  pq_heap :: "nat \<Rightarrow> process_queue option"
  sems :: "nat \<Rightarrow> csc452_sem"
  tstate :: "nat \<Rightarrow> task_state"

record sem_env =
  kmalloc :: "(nat \<Rightarrow> process_queue option) \<Rightarrow> nat option"
  kfree :: "nat option \<Rightarrow> (nat \<Rightarrow> process_queue option) \<Rightarrow> (nat \<Rightarrow> process_queue option)"
  wake_up_process :: "nat \<Rightarrow> (nat \<Rightarrow> task_state) \<Rightarrow> (nat \<Rightarrow> task_state)"

text \<open>
  The documented behaviour of the kernel services: an allocated block was not in use, freeing
  a null pointer does nothing and freeing a block touches no other, and waking a task makes it
  runnable and changes no other task.
\<close>

definition sem_env_ok :: "sem_env \<Rightarrow> bool" where
  "sem_env_ok env \<longleftrightarrow>
     (\<forall>h a. kmalloc env h = Some a \<longrightarrow> h a = None)
     \<and> (\<forall>h. kfree env None h = h)
     \<and> (\<forall>h a b. b \<noteq> a \<longrightarrow> kfree env (Some a) h b = h b)
     \<and> (\<forall>t st. wake_up_process env t st t = TASK_RUNNING)
     \<and> (\<forall>t st u. u \<noteq> t \<longrightarrow> wake_up_process env t st u = st u)"

section \<open>The system calls\<close>

text \<open>\<open>while (temp->next != NULL) temp = temp->next;\<close> from \<open>p\<close>: the last node, if the walk ends.\<close>

partial_function (option) last_node :: "(nat \<Rightarrow> process_queue option) \<Rightarrow> nat \<Rightarrow> nat option" where
  [code]: "last_node h p =
     (case h p of
        None \<Rightarrow> None
      | Some n \<Rightarrow> (case pq_next n of None \<Rightarrow> Some p | Some q \<Rightarrow> last_node h q))"

definition csc452_down :: "sem_env \<Rightarrow> nat \<Rightarrow> nat \<Rightarrow> sem_state \<Rightarrow> (int \<times> sem_state) option" where
  "csc452_down env current sem s = do {
     let v = s32 (sem_value (sems s sem) - 1);
     let s = s\<lparr>sems := (sems s)(sem := (sems s sem)\<lparr>sem_value := v\<rparr>)\<rparr>;
     if v < 0
     then do {
       let head = sem_process (sems s sem);
       newNode \<leftarrow> kmalloc env (pq_heap s);
       let s = s\<lparr>pq_heap := (pq_heap s)(newNode := Some \<lparr>pq_task = current, pq_next = None\<rparr>)\<rparr>;
       s \<leftarrow> (case head of
               None \<Rightarrow> Some s \<comment> \<open>\<open>head = newNode\<close> assigns the local variable only\<close>
             | Some h \<Rightarrow> do {
                 temp \<leftarrow> last_node (pq_heap s) h;
                 n \<leftarrow> pq_heap s temp;
                 Some (s\<lparr>pq_heap := (pq_heap s)(temp := Some (n\<lparr>pq_next := Some newNode\<rparr>))\<rparr>)
               });
       Some (0, s\<lparr>tstate := (tstate s)(current := TASK_INTERRUPTIBLE)\<rparr>)
     }
     else Some (0, s)
   }"

definition csc452_up :: "sem_env \<Rightarrow> nat \<Rightarrow> sem_state \<Rightarrow> (int \<times> sem_state) option" where
  "csc452_up env sem s = do {
     let v = s32 (sem_value (sems s sem) + 1);
     let s = s\<lparr>sems := (sems s)(sem := (sems s sem)\<lparr>sem_value := v\<rparr>)\<rparr>;
     if v \<le> 0
     then do {
       let head = sem_process (sems s sem);
       s \<leftarrow> (case head of
               None \<Rightarrow> Some s
             | Some h \<Rightarrow> do {
                 n \<leftarrow> pq_heap s h;
                 let s = s\<lparr>sems := (sems s)(sem := (sems s sem)\<lparr>sem_process := pq_next n\<rparr>)\<rparr>;
                 Some (s\<lparr>tstate := wake_up_process env (pq_task n) (tstate s)\<rparr>)
               });
       Some (0, s\<lparr>pq_heap := kfree env head (pq_heap s)\<rparr>)
     }
     else Some (0, s)
   }"

text \<open>Any number of tasks calling the two operations, in any order.\<close>

inductive sem_step :: "sem_env \<Rightarrow> sem_state \<Rightarrow> sem_state \<Rightarrow> bool" for env where
  step_down: "tstate s t = TASK_RUNNING \<Longrightarrow> csc452_down env t sem s = Some (r, s') \<Longrightarrow> sem_step env s s'"
| step_up: "tstate s t = TASK_RUNNING \<Longrightarrow> csc452_up env sem s = Some (r, s') \<Longrightarrow> sem_step env s s'"

text \<open>A script of calls by several tasks, and its result.\<close>

datatype sem_call = Down nat nat | Up nat

fun run_calls :: "sem_env \<Rightarrow> sem_call list \<Rightarrow> sem_state \<Rightarrow> sem_state option" where
  "run_calls env [] s = Some s"
| "run_calls env (Down t sem # cs) s =
     do { (_, s') \<leftarrow> csc452_down env t sem s; run_calls env cs s' }"
| "run_calls env (Up sem # cs) s =
     do { (_, s') \<leftarrow> csc452_up env sem s; run_calls env cs s' }"

text \<open>What the calls on semaphore \<open>i\<close> add to its value.\<close>

fun balance :: "nat \<Rightarrow> sem_call list \<Rightarrow> int" where
  "balance i [] = 0"
| "balance i (Down t sem # cs) = (if sem = i then - 1 else 0) + balance i cs"
| "balance i (Up sem # cs) = (if sem = i then 1 else 0) + balance i cs"

text \<open>
  A concrete set of kernel services, for evaluation: the first free address, and a scheduler
  that changes the state of the woken task only.
\<close>

definition first_free :: "nat \<Rightarrow> (nat \<Rightarrow> process_queue option) \<Rightarrow> nat option" where
  "first_free m h = List.find (\<lambda>a. h a = None) [0..<m]"

definition small_env :: sem_env where
  "small_env = \<lparr>kmalloc = first_free 4,
     kfree = (\<lambda>p h. case p of None \<Rightarrow> h | Some a \<Rightarrow> h(a := None)),
     wake_up_process = (\<lambda>t st. st(t := TASK_RUNNING))\<rparr>"

definition fresh_sems :: "(nat \<Rightarrow> int) \<Rightarrow> sem_state" where
  "fresh_sems v = \<lparr>pq_heap = (\<lambda>_. None), sems = (\<lambda>i. \<lparr>sem_value = v i, sem_process = None\<rparr>),
     tstate = (\<lambda>_. TASK_RUNNING)\<rparr>"

definition one_waiter :: sem_state where
  "one_waiter = \<lparr>pq_heap = (\<lambda>a. if a = 0 then Some \<lparr>pq_task = 5, pq_next = None\<rparr> else None),
     sems = (\<lambda>i. \<lparr>sem_value = - 1, sem_process = Some 0\<rparr>),
     tstate = (\<lambda>t. if t = 5 then TASK_INTERRUPTIBLE else TASK_RUNNING)\<rparr>"

section \<open>Waiting queues in the heap\<close>

text \<open>\<open>waits h p xs\<close>: the list at \<open>p\<close> has the nodes and tasks \<open>xs\<close>, in order.\<close>

primrec waits ::
  "(nat \<Rightarrow> process_queue option) \<Rightarrow> nat option \<Rightarrow> (nat \<times> nat) list \<Rightarrow> bool" where
  "waits h p [] \<longleftrightarrow> p = None"
| "waits h p (x # xs) \<longleftrightarrow>
     p = Some (fst x) \<and> (\<exists>n. h (fst x) = Some n \<and> pq_task n = snd x \<and> waits h (pq_next n) xs)"

definition wait_queue ::
  "(nat \<Rightarrow> process_queue option) \<Rightarrow> nat option \<Rightarrow> (nat \<times> nat) list \<Rightarrow> bool" where
  "wait_queue h p xs \<longleftrightarrow> waits h p xs \<and> distinct (map fst xs)"

lemma waits_cong:
  "waits h p xs \<Longrightarrow> (\<And>a. a \<in> fst ` set xs \<Longrightarrow> h' a = h a) \<Longrightarrow> waits h' p xs"
  by (induction xs arbitrary: p) auto

lemma waits_None_iff [simp]: "waits h None xs \<longleftrightarrow> xs = []"
  by (cases xs) auto

lemma waits_dom: "waits h p xs \<Longrightarrow> a \<in> fst ` set xs \<Longrightarrow> h a \<noteq> None"
  by (induction xs arbitrary: p) auto

lemma last_node_waits:
  "waits h (Some p) xs \<Longrightarrow> last_node h p = Some (fst (last xs))"
proof (induction xs arbitrary: p)
  case Nil
  then show ?case by simp
next
  case (Cons x xs)
  then obtain n where n: "h p = Some n" "waits h (pq_next n) xs" and p: "p = fst x" by auto
  show ?case
  proof (cases "pq_next n")
    case None
    with n p show ?thesis by (simp add: last_node.simps)
  next
    case (Some q)
    with n have "xs \<noteq> []" by auto
    with n p Some Cons.IH [of q] show ?thesis by (simp add: last_node.simps)
  qed
qed

text \<open>Linking a fresh node behind the last one appends to the queue.\<close>

lemma waits_append_node:
  assumes "waits h (Some p) xs" "distinct (map fst xs)" "h b = Some \<lparr>pq_task = t, pq_next = None\<rparr>"
    and "b \<notin> fst ` set xs" "h (fst (last xs)) = Some n"
  shows "waits (h(fst (last xs) := Some (n\<lparr>pq_next := Some b\<rparr>))) (Some p) (xs @ [(b, t)])"
  using assms
proof (induction xs arbitrary: p)
  case Nil
  then show ?case by simp
next
  case (Cons x xs)
  then obtain m where m: "h (fst x) = Some m" "pq_task m = snd x" "waits h (pq_next m) xs"
    and p: "p = fst x" by auto
  show ?case
  proof (cases "xs = []")
    case True
    with m p Cons.prems show ?thesis by auto
  next
    case False
    then obtain q where q: "pq_next m = Some q" using m(3) by (cases "pq_next m") auto
    have "fst (last xs) \<in> fst ` set xs" using False by auto
    moreover have "fst x \<notin> fst ` set xs" using Cons.prems(2) by auto
    ultimately have ne: "fst x \<noteq> fst (last xs)" by metis
    have "waits (h(fst (last xs) := Some (n\<lparr>pq_next := Some b\<rparr>))) (Some q) (xs @ [(b, t)])"
      by (rule Cons.IH) (use Cons.prems False m(3) q in auto)
    with m p q ne False show ?thesis by (simp add: fun_upd_def)
  qed
qed

section \<open>What one call does\<close>

lemma down_passes:
  assumes "0 \<le> s32 (sem_value (sems s sem) - 1)"
  shows "csc452_down env t sem s =
           Some (0, s\<lparr>sems := (sems s)(sem := (sems s sem)\<lparr>sem_value := s32 (sem_value (sems s sem) - 1)\<rparr>)\<rparr>)"
  using assms by (simp add: csc452_down_def)

lemma down_sleeps_empty:
  assumes "s32 (sem_value (sems s sem) - 1) < 0" "sem_process (sems s sem) = None"
    and "kmalloc env (pq_heap s) = Some a"
  shows "csc452_down env t sem s =
           Some (0, s\<lparr>sems := (sems s)(sem := (sems s sem)\<lparr>sem_value := s32 (sem_value (sems s sem) - 1)\<rparr>),
                      pq_heap := (pq_heap s)(a := Some \<lparr>pq_task = t, pq_next = None\<rparr>),
                      tstate := (tstate s)(t := TASK_INTERRUPTIBLE)\<rparr>)"
  using assms by (simp add: csc452_down_def Let_def)

lemma up_empty:
  assumes "sem_env_ok env" "sem_process (sems s sem) = None"
  shows "csc452_up env sem s =
           Some (0, s\<lparr>sems := (sems s)(sem := (sems s sem)\<lparr>sem_value := s32 (sem_value (sems s sem) + 1)\<rparr>)\<rparr>)"
  using assms by (simp add: csc452_up_def Let_def sem_env_ok_def)

text \<open>A call of \<open>down\<close> when no memory is left stores through the null pointer.\<close>

lemma down_no_memory:
  assumes "s32 (sem_value (sems s sem) - 1) < 0" "kmalloc env (pq_heap s) = None"
  shows "csc452_down env t sem s = None"
  using assms by (simp add: csc452_down_def Let_def)

lemma down_sleeps_queued:
  assumes ok: "sem_env_ok env" and v: "s32 (sem_value (sems s sem) - 1) < 0"
    and a: "kmalloc env (pq_heap s) = Some a"
    and q: "wait_queue (pq_heap s) (sem_process (sems s sem)) xs" and ne: "xs \<noteq> []"
  shows "\<exists>s'. csc452_down env t sem s = Some (0, s')
           \<and> wait_queue (pq_heap s') (sem_process (sems s' sem)) (xs @ [(a, t)])
           \<and> tstate s' = (tstate s)(t := TASK_INTERRUPTIBLE)
           \<and> sems s' = (sems s)(sem := (sems s sem)\<lparr>sem_value := s32 (sem_value (sems s sem) - 1)\<rparr>)"
proof -
  let ?h = "(pq_heap s)(a := Some \<lparr>pq_task = t, pq_next = None\<rparr>)"
  have fresh: "pq_heap s a = None" using ok a by (simp add: sem_env_ok_def)
  from q have w: "waits (pq_heap s) (sem_process (sems s sem)) xs" and d: "distinct (map fst xs)"
    by (simp_all add: wait_queue_def)
  obtain p where p: "sem_process (sems s sem) = Some p" using w ne by (cases xs) auto
  have na: "a \<notin> fst ` set xs" using waits_dom [OF w] fresh by blast
  have w': "waits ?h (Some p) xs" by (rule waits_cong [OF w [unfolded p]]) (use na in auto)
  have l: "last_node ?h p = Some (fst (last xs))" by (rule last_node_waits [OF w'])
  obtain n where n: "?h (fst (last xs)) = Some n"
    using waits_dom [OF w', of "fst (last xs)"] ne by auto
  have "waits (?h(fst (last xs) := Some (n\<lparr>pq_next := Some a\<rparr>))) (Some p) (xs @ [(a, t)])"
    by (rule waits_append_node [OF w' d _ na n]) simp
  with v a p l n d na show ?thesis
    by (simp add: csc452_down_def Let_def wait_queue_def)
qed

lemma kfree_other: "sem_env_ok env \<Longrightarrow> b \<noteq> a \<Longrightarrow> kfree env (Some a) h b = h b"
  by (simp add: sem_env_ok_def)

lemma up_wakes_head:
  assumes ok: "sem_env_ok env" and v: "s32 (sem_value (sems s sem) + 1) \<le> 0"
    and q: "wait_queue (pq_heap s) (sem_process (sems s sem)) ((a, t) # xs)"
  shows "\<exists>s'. csc452_up env sem s = Some (0, s')
           \<and> wait_queue (pq_heap s') (sem_process (sems s' sem)) xs
           \<and> tstate s' = (tstate s)(t := TASK_RUNNING)
           \<and> sem_value (sems s' sem) = s32 (sem_value (sems s sem) + 1)"
proof -
  from q obtain n where n: "pq_heap s a = Some n" "pq_task n = t"
    and w: "waits (pq_heap s) (pq_next n) xs" and p: "sem_process (sems s sem) = Some a"
    and na: "a \<notin> fst ` set xs" and d: "distinct (map fst xs)"
    by (auto simp: wait_queue_def)
  have "waits (kfree env (Some a) (pq_heap s)) (pq_next n) xs"
    by (rule waits_cong [OF w]) (metis ok na kfree_other)
  moreover have "wake_up_process env t (tstate s) = (tstate s)(t := TASK_RUNNING)"
    using ok by (auto simp: sem_env_ok_def fun_eq_iff)
  ultimately show ?thesis
    using v n p d by (simp add: csc452_up_def Let_def wait_queue_def)
qed

lemma down_value:
  assumes "csc452_down env t sem s = Some (r, s')"
  shows "sem_value (sems s' i) = (if i = sem then s32 (sem_value (sems s sem) - 1) else sem_value (sems s i))"
    and "sem_process (sems s' i) = sem_process (sems s i)"
  using assms by (auto simp: csc452_down_def Let_def bind_Some_iff split: if_splits option.splits)

lemma up_value:
  assumes "csc452_up env sem s = Some (r, s')"
  shows "sem_value (sems s' i) = (if i = sem then s32 (sem_value (sems s sem) + 1) else sem_value (sems s i))"
  using assms by (auto simp: csc452_up_def Let_def bind_Some_iff split: if_splits option.splits)

section \<open>The contract the callers rely on\<close>

text \<open>
  What a program that shares semaphores between tasks can rely on: \<open>down\<close> takes one unit and
  puts the caller to sleep when none was left, \<open>up\<close> gives one back. The last law is the
  behaviour of this kernel: \<open>up\<close> never wakes anybody.
\<close>

locale sem_service =
  fixes down :: "nat \<Rightarrow> nat \<Rightarrow> 'k \<Rightarrow> (int \<times> 'k) option"
    and up :: "nat \<Rightarrow> 'k \<Rightarrow> (int \<times> 'k) option"
    and val :: "'k \<Rightarrow> nat \<Rightarrow> int"
    and awake :: "'k \<Rightarrow> nat \<Rightarrow> bool"
    and good :: "'k \<Rightarrow> bool"
  assumes down_good: "good k \<Longrightarrow> down t i k = Some (r, k') \<Longrightarrow> good k'"
    and down_val: "good k \<Longrightarrow> down t i k = Some (r, k') \<Longrightarrow> val k' = (val k)(i := s32 (val k i - 1))"
    and down_awake: "good k \<Longrightarrow> down t i k = Some (r, k') \<Longrightarrow>
      awake k' = (if 0 \<le> s32 (val k i - 1) then awake k else (awake k)(t := False))"
    and up_good: "good k \<Longrightarrow> up i k = Some (r, k') \<Longrightarrow> good k'"
    and up_val: "good k \<Longrightarrow> up i k = Some (r, k') \<Longrightarrow> val k' = (val k)(i := s32 (val k i + 1))"
    and up_awake: "good k \<Longrightarrow> up i k = Some (r, k') \<Longrightarrow> awake k' = awake k"
begin

text \<open>
  \<open>mutex_held k i A\<close>: the tasks in \<open>A\<close> have called \<open>down\<close> on the semaphore \<open>i\<close>, initially 1, and not
  yet \<open>up\<close>; at most one of them is awake.
\<close>

definition mutex_held :: "'k \<Rightarrow> nat \<Rightarrow> nat set \<Rightarrow> bool" where
  "mutex_held k i A \<longleftrightarrow> finite A \<and> card A < 1000 \<and> val k i = 1 - int (card A)
     \<and> (\<forall>p q. p \<in> A \<longrightarrow> q \<in> A \<longrightarrow> awake k p \<longrightarrow> awake k q \<longrightarrow> p = q)"

lemma mutex_exclusive:
  "mutex_held k i A \<Longrightarrow> p \<in> A \<Longrightarrow> q \<in> A \<Longrightarrow> awake k p \<Longrightarrow> awake k q \<Longrightarrow> p = q"
  by (simp add: mutex_held_def)

lemma mutex_enter:
  assumes "good k" "mutex_held k i A" "p \<notin> A" "card A < 999" "down p i k = Some (r, k')"
  shows "mutex_held k' i (insert p A)"
proof -
  have v: "val k i = 1 - int (card A)" and f: "finite A" using assms by (simp_all add: mutex_held_def)
  have s: "s32 (val k i - 1) = - int (card A)" using v assms(4) by (simp add: s32_id)
  show ?thesis
  proof (cases "card A = 0")
    case True
    with f have "A = {}" by simp
    with s v show ?thesis
      using down_val [OF assms(1,5)] by (simp add: mutex_held_def)
  next
    case False
    then have "awake k' = (awake k)(p := False)"
      using down_awake [OF assms(1,5)] s by auto
    with assms s f show ?thesis
      using down_val [OF assms(1,5)] by (auto simp: mutex_held_def)
  qed
qed

lemma mutex_leave:
  assumes "good k" "mutex_held k i A" "p \<in> A" "up i k = Some (r, k')"
  shows "mutex_held k' i (A - {p})"
proof -
  have v: "val k i = 1 - int (card A)" and f: "finite A" and c: "card A < 1000"
    using assms by (simp_all add: mutex_held_def)
  have "0 < card A" using assms(3) f card_gt_0_iff by blast
  then have "int (card (A - {p})) = int (card A) - 1" using assms(3) f by simp
  moreover have "s32 (val k i + 1) = 2 - int (card A)" using v c by (simp add: s32_id)
  ultimately show ?thesis
    using up_val [OF assms(1,4)] up_awake [OF assms(1,4)] assms(2) f c
    by (auto simp: mutex_held_def)
qed

lemma mutex_other_down:
  assumes "good k" "mutex_held k i A" "j \<noteq> i" "down p j k = Some (r, k')"
  shows "mutex_held k' i A"
  using down_val [OF assms(1,4)] down_awake [OF assms(1,4)] assms(2,3)
  by (auto simp: mutex_held_def split: if_splits)

lemma mutex_other_up:
  assumes "good k" "mutex_held k i A" "j \<noteq> i" "up j k = Some (r, k')"
  shows "mutex_held k' i A"
  using up_val [OF assms(1,4)] up_awake [OF assms(1,4)] assms(2,3)
  by (auto simp: mutex_held_def)

end

definition sem_good :: "sem_env \<Rightarrow> sem_state \<Rightarrow> bool" where
  "sem_good env s \<longleftrightarrow> sem_env_ok env \<and> (\<forall>i. sem_process (sems s i) = None)"

definition sem_awake :: "sem_state \<Rightarrow> nat \<Rightarrow> bool" where
  "sem_awake s t \<longleftrightarrow> tstate s t = TASK_RUNNING"

lemma down_good_awake:
  assumes "sem_good env s" "csc452_down env t i s = Some (r, s')"
  shows "sem_good env s'"
    and "sem_awake s' = (if 0 \<le> s32 (sem_value (sems s i) - 1) then sem_awake s else (sem_awake s)(t := False))"
proof -
  show "sem_good env s'" using assms by (simp add: sem_good_def down_value(2) [OF assms(2)])
  have p: "sem_process (sems s i) = None" using assms(1) by (simp add: sem_good_def)
  show "sem_awake s' = (if 0 \<le> s32 (sem_value (sems s i) - 1) then sem_awake s else (sem_awake s)(t := False))"
  proof (cases "0 \<le> s32 (sem_value (sems s i) - 1)")
    case True
    with assms(2) show ?thesis by (auto simp: down_passes sem_awake_def fun_eq_iff)
  next
    case False
    then have v: "s32 (sem_value (sems s i) - 1) < 0" by simp
    with assms(2) obtain a where "kmalloc env (pq_heap s) = Some a"
      using down_no_memory [OF v] by (cases "kmalloc env (pq_heap s)") auto
    with assms(2) v p show ?thesis by (auto simp: down_sleeps_empty sem_awake_def fun_eq_iff)
  qed
qed

lemma up_good_awake:
  assumes "sem_good env s" "csc452_up env i s = Some (r, s')"
  shows "sem_good env s'" and "sem_awake s' = sem_awake s"
  using assms by (auto simp: sem_good_def up_empty sem_awake_def fun_eq_iff)

interpretation ks: sem_service "csc452_down env" "csc452_up env" "\<lambda>s i. sem_value (sems s i)"
  sem_awake "sem_good env" for env
proof (unfold_locales, goal_cases)
  case 1
  then show ?case by (rule down_good_awake(1))
next
  case 2
  then show ?case using down_value(1) by (simp add: fun_eq_iff)
next
  case 3
  then show ?case by (rule down_good_awake(2))
next
  case 4
  then show ?case by (rule up_good_awake(1))
next
  case 5
  then show ?case using up_value by (simp add: fun_eq_iff)
next
  case 6
  then show ?case by (rule up_good_awake(2))
qed

section \<open>Properties\<close>

lemma s32_add_s32 [simp]: "s32 (s32 x + y) = s32 (x + y)"
proof -
  have "s32 (u32 (s32 x + y)) = s32 (u32 (x + y))"
    by (metis u32_def u32_s32 mod_add_left_eq)
  then show ?thesis by simp
qed

lemma s32_add_s32_right [simp]: "s32 (y + s32 x) = s32 (y + x)"
  using s32_add_s32 [of x y] by (simp add: add.commute)

lemma run_calls_value:
  "run_calls env cs s = Some s' \<Longrightarrow>
     s32 (sem_value (sems s' i)) = s32 (sem_value (sems s i) + balance i cs)"
proof (induction cs arbitrary: s)
  case Nil
  then show ?case by simp
next
  case (Cons c cs)
  show ?case
  proof (cases c)
    case (Down t sem)
    with Cons.prems obtain r s1 where d: "csc452_down env t sem s = Some (r, s1)"
      and "run_calls env cs s1 = Some s'" by (auto simp: bind_Some_iff)
    with Cons.IH have "s32 (sem_value (sems s' i)) = s32 (sem_value (sems s1 i) + balance i cs)"
      by blast
    then show ?thesis by (simp add: Down down_value(1) [OF d] algebra_simps)
  next
    case (Up sem)
    with Cons.prems obtain r s1 where d: "csc452_up env sem s = Some (r, s1)"
      and "run_calls env cs s1 = Some s'" by (auto simp: bind_Some_iff)
    with Cons.IH have "s32 (sem_value (sems s' i)) = s32 (sem_value (sems s1 i) + balance i cs)"
      by blast
    then show ?thesis by (simp add: Up up_value [OF d] algebra_simps)
  qed
qed

lemma sem_step_good:
  assumes "sem_step env s s'" "sem_good env s"
  shows "sem_good env s' \<and> (\<forall>t. sem_awake s' t \<longrightarrow> sem_awake s t)"
  using assms(1)
proof (cases rule: sem_step.cases)
  case (step_down t sem r)
  with assms(2) ks.down_good ks.down_awake show ?thesis by (auto split: if_splits)
next
  case (step_up t sem r)
  with assms(2) ks.up_good ks.up_awake show ?thesis by fastforce
qed

lemma small_env_ok: "sem_env_ok small_env"
  by (auto simp: sem_env_ok_def small_env_def first_free_def find_Some_iff)

text \<open>
  C1. Lost wake-ups. Where every waiting queue is empty, as all programs set their semaphores
  up, it stays empty whatever \<open>down\<close> and \<open>up\<close> calls the tasks make (\<open>down\<close> links the first
  waiter to a local variable only), and a task that has gone to sleep in \<open>down\<close> is never woken by any \<open>up\<close>.
\<close>

theorem sem_lost_wakeup:
  assumes "sem_env_ok env" and "\<And>i. sem_process (sems s i) = None"
    and "(sem_step env)\<^sup>*\<^sup>* s s'"
  shows "sem_process (sems s' i) = None
     \<and> (tstate s t = TASK_INTERRUPTIBLE \<longrightarrow> tstate s' t = TASK_INTERRUPTIBLE)"
proof -
  have "sem_good env s' \<and> (\<forall>t. sem_awake s' t \<longrightarrow> sem_awake s t)"
    using assms(3)
  proof (induction rule: rtranclp_induct)
    case base
    with assms show ?case by (simp add: sem_good_def)
  next
    case (step s1 s2)
    with sem_step_good show ?case by blast
  qed
  then show ?thesis by (metis sem_good_def sem_awake_def task_state.exhaust task_state.distinct(1))
qed

theorem sem_lost_wakeup_witness:
  "\<exists>s s'. csc452_down small_env 7 0 (fresh_sems (\<lambda>_. 0)) = Some (0, s)
     \<and> csc452_up small_env 0 s = Some (0, s') \<and> tstate s 7 = TASK_INTERRUPTIBLE
     \<and> tstate s' 7 = TASK_INTERRUPTIBLE"
proof -
  obtain s where d: "csc452_down small_env 7 0 (fresh_sems (\<lambda>_. 0)) = Some (0, s)"
    and t: "tstate s 7 = TASK_INTERRUPTIBLE" "tstate s 1 = TASK_RUNNING"
    and p: "\<And>i. sem_process (sems s i) = None"
    using down_sleeps_empty [of "fresh_sems (\<lambda>_. 0)" 0 small_env 0 7]
    by (auto simp: fresh_sems_def small_env_def first_free_def s32_def find_Some_iff2 upt_rec)
  obtain s' where u: "csc452_up small_env 0 s = Some (0, s')"
    using up_empty [OF small_env_ok p] by blast
  have "(sem_step small_env)\<^sup>*\<^sup>* s s'" using step_up [OF t(2) u] by blast
  then show ?thesis using sem_lost_wakeup [OF small_env_ok p] d u t by blast
qed

text \<open>
  With tasks already queued on the semaphore, the calls are first-in first-out: a \<open>down\<close>
  that must wait appends the caller at the end of the queue and puts it to sleep, and an \<open>up\<close>
  unlinks the longest waiting task, makes it runnable and frees its node.
\<close>

theorem sem_queue_fifo:
  assumes "sem_env_ok env" and "wait_queue (pq_heap s) (sem_process (sems s sem)) ((b, u) # xs)"
  shows "(s32 (sem_value (sems s sem) - 1) < 0 \<and> kmalloc env (pq_heap s) = Some a \<longrightarrow>
      (\<exists>s'. csc452_down env t sem s = Some (0, s')
         \<and> wait_queue (pq_heap s') (sem_process (sems s' sem)) ((b, u) # xs @ [(a, t)])
         \<and> tstate s' = (tstate s)(t := TASK_INTERRUPTIBLE)))
    \<and> (s32 (sem_value (sems s sem) + 1) \<le> 0 \<longrightarrow>
      (\<exists>s'. csc452_up env sem s = Some (0, s')
         \<and> wait_queue (pq_heap s') (sem_process (sems s' sem)) xs
         \<and> tstate s' = (tstate s)(u := TASK_RUNNING)))"
  using down_sleeps_queued [OF assms(1) _ _ assms(2)] up_wakes_head [OF assms(1) _ assms(2)]
  by auto

theorem sem_queue_fifo_witness:
  "(\<exists>s'. csc452_down small_env 6 0 one_waiter = Some (0, s')
      \<and> wait_queue (pq_heap s') (sem_process (sems s' 0)) [(0, 5), (1, 6)]
      \<and> tstate s' 6 = TASK_INTERRUPTIBLE)
   \<and> (\<exists>s'. csc452_up small_env 0 one_waiter = Some (0, s') \<and> tstate s' 5 = TASK_RUNNING)"
proof -
  have q: "wait_queue (pq_heap one_waiter) (sem_process (sems one_waiter 0)) ((0, 5) # [])"
    by (simp add: one_waiter_def wait_queue_def)
  have k: "kmalloc small_env (pq_heap one_waiter) = Some 1"
    by (simp add: small_env_def first_free_def one_waiter_def upt_rec)
  have "s32 (sem_value (sems one_waiter 0) - 1) < 0" "s32 (sem_value (sems one_waiter 0) + 1) \<le> 0"
    by (simp_all add: one_waiter_def s32_def)
  with sem_queue_fifo [OF small_env_ok q, of 1 6] k show ?thesis by fastforce
qed

text \<open>
  The value of a semaphore is an exact count: after any script of calls that is defined,
  on any number of semaphores, it is the initial value plus the \<open>up\<close> calls minus the \<open>down\<close>
  calls on it, in 32-bit arithmetic.
\<close>

theorem sem_value_counts:
  assumes "run_calls env cs s = Some s'"
  shows "s32 (sem_value (sems s' i)) = s32 (sem_value (sems s i) + balance i cs)"
  using assms by (rule run_calls_value)

theorem sem_value_counts_witness:
  "\<exists>s'. run_calls small_env [Down 1 0, Up 0, Up 0] (fresh_sems (\<lambda>_. 1)) = Some s'
     \<and> s32 (sem_value (sems s' 0)) = 2"
proof -
  have "\<exists>s'. run_calls small_env [Down 1 0, Up 0, Up 0] (fresh_sems (\<lambda>_. 1)) = Some s'"
    by (simp add: csc452_down_def csc452_up_def fresh_sems_def s32_def small_env_def)
  then obtain s' where r: "run_calls small_env [Down 1 0, Up 0, Up 0] (fresh_sems (\<lambda>_. 1)) = Some s'"
    by blast
  then show ?thesis using sem_value_counts [OF r, of 0] by (simp add: fresh_sems_def s32_def)
qed

end
