(* ===== verification/Sem_Syscalls.thy ===== *)
theory Sem_Syscalls
  imports Kernel_Sem
begin

text \<open>
  How user programs reach the semaphore calls: the two numbers that
  \<open>src/Semaphore and Synchronization/unistd.h\<close> adds to the system-call table, and the wrappers
  \<open>down\<close> and \<open>up\<close> of \<open>trafficsim.c\<close> and \<open>prodcons.c\<close>.
\<close>

definition NR_csc452_down :: nat where
  "NR_csc452_down = 443"

definition NR_csc452_up :: nat where
  "NR_csc452_up = 444"

text \<open>The two entries of the table; any other number is outside this model.\<close>

definition sem_syscall ::
  "sem_env \<Rightarrow> nat \<Rightarrow> nat \<Rightarrow> nat \<Rightarrow> sem_state \<Rightarrow> (int \<times> sem_state) option" where
  "sem_syscall env current nr sem k =
     (if nr = NR_csc452_down then csc452_down env current sem k
      else if nr = NR_csc452_up then csc452_up env sem k
      else None)"

text \<open>The wrappers of \<open>trafficsim.c\<close>.\<close>

definition ts_down :: "sem_env \<Rightarrow> nat \<Rightarrow> nat \<Rightarrow> sem_state \<Rightarrow> (int \<times> sem_state) option" where
  "ts_down env current sem k = sem_syscall env current 443 sem k"

definition ts_up :: "sem_env \<Rightarrow> nat \<Rightarrow> nat \<Rightarrow> sem_state \<Rightarrow> (int \<times> sem_state) option" where
  "ts_up env current sem k = sem_syscall env current 444 sem k"

text \<open>The wrappers of \<open>prodcons.c\<close>.\<close>

definition pc_down :: "sem_env \<Rightarrow> nat \<Rightarrow> nat \<Rightarrow> sem_state \<Rightarrow> (int \<times> sem_state) option" where
  "pc_down env current sem k = sem_syscall env current 443 sem k"

definition pc_up :: "sem_env \<Rightarrow> nat \<Rightarrow> nat \<Rightarrow> sem_state \<Rightarrow> (int \<times> sem_state) option" where
  "pc_up env current sem k = sem_syscall env current 444 sem k"

lemma wrapper_eqs [simp]:
  "ts_down env t i k = csc452_down env t i k" "ts_up env t i k = csc452_up env i k"
  "pc_down env t i k = csc452_down env t i k" "pc_up env t i k = csc452_up env i k"
  by (simp_all add: ts_down_def ts_up_def pc_down_def pc_up_def sem_syscall_def
      NR_csc452_down_def NR_csc452_up_def)

end
