(* ===== verification/Traffic_Sim.thy ===== *)
theory Traffic_Sim
  imports Sem_Syscalls
begin

text \<open>
  The traffic simulation \<open>src/Semaphore and Synchronization/trafficsim.c\<close>: two producers (cars from
  the north and from the south), one consumer (the flag person), five semaphores and two
  circular buffers in shared memory. Each process is a program counter over the statements
  of its loop; every semaphore call and every body between \<open>down (mutex)\<close> and \<open>up (mutex)\<close> is one
  step. The steps run on the kernel semaphores of \<open>Kernel_Sem\<close>, and a process that is asleep in the
  kernel takes none. \<open>rand\<close> is a choice, \<open>sleep\<close> and the time stamps are left out, and what is
  printed is the \<open>log\<close>.
\<close>

section \<open>The program\<close>

datatype dir = North | South

fun other :: "dir \<Rightarrow> dir" where
  "other North = South"
| "other South = North"

definition BUFF_SIZE :: int where
  "BUFF_SIZE = 10"

text \<open>The semaphores are \<open>sem_ptr\<close>, \<open>sem_ptr + 1\<close>, ..., \<open>sem_ptr + 4\<close>.\<close>

fun full_sem :: "dir \<Rightarrow> nat" where
  "full_sem North = 0"
| "full_sem South = 2"

fun empty_sem :: "dir \<Rightarrow> nat" where
  "empty_sem North = 1"
| "empty_sem South = 3"

definition mutex_sem :: nat where
  "mutex_sem = 4"

text \<open>Process identities: the two producers and the consumer.\<close>

fun producer_task :: "dir \<Rightarrow> nat" where
  "producer_task North = 0"
| "producer_task South = 1"

definition consumer_task :: nat where
  "consumer_task = 2"

datatype prod_pc = P_rand | P_down_empty | P_down_mutex | P_crit | P_up_mutex | P_up_full

datatype cons_pc = C_while dir | C_down_full dir | C_down_mutex dir | C_crit dir | C_up_mutex dir
  | C_up_empty dir | C_check dir

datatype traffic_event = Arrived dir int | Blew_horn dir int | Awake | Entered dir int | Left_zone dir int
  | Asleep

record traffic =
  ker :: sem_state
  prod_ix :: "dir \<Rightarrow> int"
  con_ix :: "dir \<Rightarrow> int"
  car_buf :: "dir \<Rightarrow> int list"
  con_sleep :: int
  ppc :: "dir \<Rightarrow> prod_pc"
  cpc :: cons_pc
  log :: "traffic_event list"

definition full_value :: "traffic \<Rightarrow> dir \<Rightarrow> int" where
  "full_value s d = sem_value (sems (ker s) (full_sem d))"

text \<open>The set-up before the first \<open>fork\<close>.\<close>

definition init_traffic :: traffic where
  "init_traffic = \<lparr>
     ker = fresh_sems (\<lambda>i. if i = empty_sem North \<or> i = empty_sem South then BUFF_SIZE
                           else if i = mutex_sem then 1 else 0),
     prod_ix = (\<lambda>_. 0), con_ix = (\<lambda>_. 0), car_buf = (\<lambda>_. replicate 10 0), con_sleep = 1,
     ppc = (\<lambda>_. P_rand), cpc = C_while North, log = []\<rparr>"

text \<open>One producer, the north and the south one alike; \<open>go\<close> is the outcome of \<open>rand () % 10 <= 8\<close>.\<close>

definition producer_crit :: "dir \<Rightarrow> traffic \<Rightarrow> traffic option" where
  "producer_crit d s = do {
     let c = prod_ix s d;
     b \<leftarrow> c_set (car_buf s d) (c_mod c BUFF_SIZE) c;
     p \<leftarrow> c_inc c;
     Some (s\<lparr>car_buf := (car_buf s)(d := b), prod_ix := (prod_ix s)(d := p), log := log s @ [Arrived d c]\<rparr>)
   }"

definition producer :: "sem_env \<Rightarrow> dir \<Rightarrow> bool \<Rightarrow> traffic \<Rightarrow> traffic option" where
  "producer env d go s =
     (case ppc s d of
        P_rand \<Rightarrow> Some (if go then s\<lparr>ppc := (ppc s)(d := P_down_empty)\<rparr> else s)
      | P_down_empty \<Rightarrow> do {
          (_, k) \<leftarrow> ts_down env (producer_task d) (empty_sem d) (ker s);
          Some (s\<lparr>ker := k, ppc := (ppc s)(d := P_down_mutex)\<rparr>) }
      | P_down_mutex \<Rightarrow> do {
          (_, k) \<leftarrow> ts_down env (producer_task d) mutex_sem (ker s);
          Some (s\<lparr>ker := k, ppc := (ppc s)(d := P_crit)\<rparr>) }
      | P_crit \<Rightarrow> do {
          s \<leftarrow> producer_crit d s;
          Some (s\<lparr>ppc := (ppc s)(d := P_up_mutex)\<rparr>) }
      | P_up_mutex \<Rightarrow> do {
          (_, k) \<leftarrow> ts_up env (producer_task d) mutex_sem (ker s);
          Some (s\<lparr>ker := k, ppc := (ppc s)(d := P_up_full)\<rparr>) }
      | P_up_full \<Rightarrow> do {
          (_, k) \<leftarrow> ts_up env (producer_task d) (full_sem d) (ker s);
          Some (s\<lparr>ker := k, ppc := (ppc s)(d := P_rand)\<rparr>) })"

text \<open>The consumer.\<close>

definition consumer_crit :: "dir \<Rightarrow> traffic \<Rightarrow> traffic option" where
  "consumer_crit d s = do {
     let c = con_ix s d;
     n \<leftarrow> c_inc c;
     let s = s\<lparr>con_ix := (con_ix s)(d := n)\<rparr>;
     let horn = (if con_sleep s = 1 then [Blew_horn d c, Awake] else []);
     let s = (if con_sleep s = 1 then s\<lparr>con_sleep := 0\<rparr> else s);
     Some (s\<lparr>log := log s @ horn @ [Entered d c, Left_zone d c]\<rparr>)
   }"

definition fall_asleep :: "traffic \<Rightarrow> traffic" where
  "fall_asleep s =
     (if full_value s North = 0 \<and> full_value s South = 0 \<and> con_sleep s = 0
      then s\<lparr>con_sleep := 1, log := log s @ [Asleep]\<rparr> else s)"

definition consumer :: "sem_env \<Rightarrow> traffic \<Rightarrow> traffic option" where
  "consumer env s =
     (case cpc s of
        C_while d \<Rightarrow>
          Some (s\<lparr>cpc := (if full_value s (other d) < 10 \<and> 0 < full_value s d then C_down_full d
                           else C_check d)\<rparr>)
      | C_down_full d \<Rightarrow> do {
          (_, k) \<leftarrow> ts_down env consumer_task (full_sem d) (ker s);
          Some (s\<lparr>ker := k, cpc := C_down_mutex d\<rparr>) }
      | C_down_mutex d \<Rightarrow> do {
          (_, k) \<leftarrow> ts_down env consumer_task mutex_sem (ker s);
          Some (s\<lparr>ker := k, cpc := C_crit d\<rparr>) }
      | C_crit d \<Rightarrow> do {
          s \<leftarrow> consumer_crit d s;
          Some (s\<lparr>cpc := C_up_mutex d\<rparr>) }
      | C_up_mutex d \<Rightarrow> do {
          (_, k) \<leftarrow> ts_up env consumer_task mutex_sem (ker s);
          Some (s\<lparr>ker := k, cpc := C_up_empty d\<rparr>) }
      | C_up_empty d \<Rightarrow> do {
          (_, k) \<leftarrow> ts_up env consumer_task (empty_sem d) (ker s);
          Some (s\<lparr>ker := k, cpc := C_while d\<rparr>) }
      | C_check d \<Rightarrow> Some ((fall_asleep s)\<lparr>cpc := C_while (other d)\<rparr>))"

text \<open>The processes interleave; a process asleep in the kernel waits.\<close>

inductive traffic_step :: "sem_env \<Rightarrow> traffic \<Rightarrow> traffic \<Rightarrow> bool" for env where
  produce: "sem_awake (ker s) (producer_task d) \<Longrightarrow> producer env d go s = Some s' \<Longrightarrow> traffic_step env s s'"
| consume: "sem_awake (ker s) consumer_task \<Longrightarrow> consumer env s = Some s' \<Longrightarrow> traffic_step env s s'"

text \<open>A schedule, to run the program: which process moves, and the producers' choices.\<close>

datatype turn = Prod dir bool | Cons

fun traffic_exec :: "sem_env \<Rightarrow> turn list \<Rightarrow> traffic \<Rightarrow> traffic option" where
  "traffic_exec env [] s = Some s"
| "traffic_exec env (Prod d go # ts) s =
     (if sem_awake (ker s) (producer_task d)
      then do { s' \<leftarrow> producer env d go s; traffic_exec env ts s' } else None)"
| "traffic_exec env (Cons # ts) s =
     (if sem_awake (ker s) consumer_task
      then do { s' \<leftarrow> consumer env s; traffic_exec env ts s' } else None)"

section \<open>Invariant\<close>

text \<open>The processes between \<open>down (mutex)\<close> and \<open>up (mutex)\<close>.\<close>

definition in_producer :: "prod_pc \<Rightarrow> bool" where
  "in_producer p \<longleftrightarrow> p = P_crit \<or> p = P_up_mutex"

fun in_consumer :: "cons_pc \<Rightarrow> bool" where
  "in_consumer (C_crit d) = True"
| "in_consumer (C_up_mutex d) = True"
| "in_consumer _ = False"

definition inside :: "traffic \<Rightarrow> nat set" where
  "inside s = (if in_producer (ppc s North) then {producer_task North} else {})
     \<union> (if in_producer (ppc s South) then {producer_task South} else {})
     \<union> (if in_consumer (cpc s) then {consumer_task} else {})"

text \<open>The cars that arrived and left on one side, from the log.\<close>

fun arrived :: "dir \<Rightarrow> traffic_event list \<Rightarrow> int list" where
  "arrived d [] = []"
| "arrived d (Arrived e c # es) = (if e = d then c # arrived d es else arrived d es)"
| "arrived d (_ # es) = arrived d es"

fun departed :: "dir \<Rightarrow> traffic_event list \<Rightarrow> int list" where
  "departed d [] = []"
| "departed d (Left_zone e c # es) = (if e = d then c # departed d es else departed d es)"
| "departed d (_ # es) = departed d es"

text \<open>Units of the two counting semaphores that are on their way.\<close>

fun full_owed :: "prod_pc \<Rightarrow> int" where
  "full_owed P_up_mutex = 1"
| "full_owed P_up_full = 1"
| "full_owed _ = 0"

fun empty_taken :: "prod_pc \<Rightarrow> int" where
  "empty_taken P_down_mutex = 1"
| "empty_taken P_crit = 1"
| "empty_taken _ = 0"

fun full_taken :: "dir \<Rightarrow> cons_pc \<Rightarrow> int" where
  "full_taken d (C_down_mutex e) = (if e = d then 1 else 0)"
| "full_taken d (C_crit e) = (if e = d then 1 else 0)"
| "full_taken d _ = 0"

fun empty_owed :: "dir \<Rightarrow> cons_pc \<Rightarrow> int" where
  "empty_owed d (C_up_mutex e) = (if e = d then 1 else 0)"
| "empty_owed d (C_up_empty e) = (if e = d then 1 else 0)"
| "empty_owed d _ = 0"

definition empty_value :: "traffic \<Rightarrow> dir \<Rightarrow> int" where
  "empty_value s d = sem_value (sems (ker s) (empty_sem d))"

text \<open>Indices and semaphore values of one side.\<close>

definition count_inv :: "traffic \<Rightarrow> dir \<Rightarrow> bool" where
  "count_inv s d \<longleftrightarrow>
     con_ix s d \<le> prod_ix s d \<and> prod_ix s d - con_ix s d \<le> 10
     \<and> full_value s d = prod_ix s d - con_ix s d - full_owed (ppc s d) - full_taken d (cpc s)
     \<and> empty_value s d = 10 - (prod_ix s d - con_ix s d) - empty_taken (ppc s d) - empty_owed d (cpc s)
     \<and> 0 \<le> full_value s d
     \<and> (cpc s = C_down_full d \<longrightarrow> 0 < full_value s d)
     \<and> (ppc s d = P_crit \<or> ppc s d = P_down_mutex \<and> sem_awake (ker s) (producer_task d)
          \<longrightarrow> 0 \<le> empty_value s d)"

text \<open>Buffer and log of one side.\<close>

definition data_inv :: "traffic \<Rightarrow> dir \<Rightarrow> bool" where
  "data_inv s d \<longleftrightarrow>
     0 \<le> con_ix s d \<and> 0 \<le> prod_ix s d
     \<and> length (car_buf s d) = 10
     \<and> (\<forall>k. con_ix s d \<le> k \<longrightarrow> k < prod_ix s d \<longrightarrow> car_buf s d ! nat (k mod 10) = k)
     \<and> arrived d (log s) = map int [0..<nat (prod_ix s d)]
     \<and> departed d (log s) = map int [0..<nat (con_ix s d)]"

definition traffic_inv :: "sem_env \<Rightarrow> traffic \<Rightarrow> bool" where
  "traffic_inv env s \<longleftrightarrow>
     sem_good env (ker s) \<and> ks.mutex_held (ker s) mutex_sem (inside s)
     \<and> (\<forall>d. count_inv s d \<and> data_inv s d)"

lemmas pending_defs = full_value_def empty_value_def

lemma count_ranges:
  assumes "count_inv s d"
  shows "0 \<le> full_value s d" "full_value s d \<le> 10" "- 2 \<le> empty_value s d" "empty_value s d \<le> 10"
  using assms by (cases "ppc s d"; cases "cpc s"; auto simp: count_inv_def split: if_splits)+

lemma awake_down:
  assumes "sem_good env k" "csc452_down env t i k = Some (r, k')"
  shows "sem_awake k' u \<longleftrightarrow> sem_awake k u \<and> (u = t \<longrightarrow> 0 \<le> s32 (sem_value (sems k i) - 1))"
  using ks.down_awake [OF assms] by auto

lemma awake_up:
  assumes "sem_good env k" "csc452_up env i k = Some (r, k')"
  shows "sem_awake k' = sem_awake k"
  using ks.up_awake [OF assms] .

lemma sem_ids [simp]:
  "full_sem d \<noteq> empty_sem e" "empty_sem e \<noteq> full_sem d" "full_sem d = full_sem e \<longleftrightarrow> d = e"
  "empty_sem d = empty_sem e \<longleftrightarrow> d = e" "full_sem d \<noteq> mutex_sem" "mutex_sem \<noteq> full_sem d"
  "empty_sem d \<noteq> mutex_sem" "mutex_sem \<noteq> empty_sem d" "producer_task d = producer_task e \<longleftrightarrow> d = e"
  "producer_task d \<noteq> consumer_task" "consumer_task \<noteq> producer_task d" "other d \<noteq> d"
  by (cases d; cases e; simp add: mutex_sem_def consumer_task_def)+

lemma count_frame:
  assumes "count_inv s e"
    and "ppc s' e = ppc s e" "cpc s' = cpc s" "prod_ix s' e = prod_ix s e" "con_ix s' e = con_ix s e"
    and "full_value s' e = full_value s e" "empty_value s' e = empty_value s e"
    and "sem_awake (ker s') (producer_task e) \<Longrightarrow> sem_awake (ker s) (producer_task e)"
  shows "count_inv s' e"
  using assms unfolding count_inv_def by auto

lemma count_down_empty:
  assumes g: "sem_good env (ker s)" and c: "\<And>e. count_inv s e" and pc: "ppc s d = P_down_empty"
    and k: "csc452_down env (producer_task d) (empty_sem d) (ker s) = Some (x, k)"
  shows "count_inv (s\<lparr>ker := k, ppc := (ppc s)(d := P_down_mutex)\<rparr>) e" (is "count_inv ?s e")
proof (cases "e = d")
  case True
  have v: "s32 (sem_value (sems (ker s) (empty_sem d)) - 1) = empty_value s d - 1"
    using count_ranges [OF c, of d] by (simp add: s32_id empty_value_def)
  have "empty_value ?s d = empty_value s d - 1" "full_value ?s d = full_value s d"
    "sem_awake (ker ?s) (producer_task d) \<Longrightarrow> 0 \<le> empty_value s d - 1"
    "ppc ?s d = P_down_mutex" "cpc ?s = cpc s" "prod_ix ?s = prod_ix s" "con_ix ?s = con_ix s"
    using v by (simp_all add: pending_defs down_value(1) [OF k] awake_down [OF g k])
  with True pc c [of d] show ?thesis by (auto simp: count_inv_def)
next
  case False
  then show ?thesis
    by (intro count_frame [OF c [of e]]) (simp_all add: pending_defs down_value(1) [OF k] awake_down [OF g k])
qed

lemma count_down_mutex:
  assumes g: "sem_good env (ker s)" and c: "\<And>e. count_inv s e" and pc: "ppc s d = P_down_mutex" and a: "sem_awake (ker s) (producer_task d)"
    and k: "csc452_down env (producer_task d) mutex_sem (ker s) = Some (x, k)"
  shows "count_inv (s\<lparr>ker := k, ppc := (ppc s)(d := P_crit)\<rparr>) e"
proof (cases "e = d")
  case True
  with pc c [of d] a show ?thesis
    by (auto simp: count_inv_def pending_defs down_value(1) [OF k] awake_down [OF g k])
next
  case False
  then show ?thesis
    by (intro count_frame [OF c [of e]]) (simp_all add: pending_defs down_value(1) [OF k] awake_down [OF g k])
qed

lemma producer_count:
  assumes g: "sem_good env (ker s)" and c: "\<And>e. count_inv s e"
    and a: "sem_awake (ker s) (producer_task d)"
    and st: "producer env d go s = Some s'"
  shows "count_inv s' e"
proof -
  note r = count_ranges [OF c, of d]
  show ?thesis
  proof (cases "ppc s d")
    case P_rand
    with st c [of e] show ?thesis
      by (auto simp: producer_def count_inv_def pending_defs split: if_splits)
  next
    case P_down_empty
    with st show ?thesis using count_down_empty [OF g c P_down_empty] by (auto simp: producer_def bind_Some_iff)
  next
    case P_down_mutex
    with st show ?thesis using count_down_mutex [OF g c P_down_mutex a] by (auto simp: producer_def bind_Some_iff)
  next
    case P_crit
    with st obtain b where s': "s' = s\<lparr>car_buf := b, prod_ix := (prod_ix s)(d := prod_ix s d + 1),
        log := log s @ [Arrived d (prod_ix s d)], ppc := (ppc s)(d := P_up_mutex)\<rparr>"
      by (auto simp: producer_def producer_crit_def bind_Some_iff c_inc_eq_Some_iff Let_def)
    have "0 \<le> empty_owed d (cpc s)" by (cases "cpc s") simp_all
    with s' P_crit c [of e] r show ?thesis
      by (cases "e = d") (auto simp: count_inv_def pending_defs)
  next
    case P_up_mutex
    with st obtain x k where k: "csc452_up env mutex_sem (ker s) = Some (x, k)"
      and s': "s' = s\<lparr>ker := k, ppc := (ppc s)(d := P_up_full)\<rparr>"
      by (auto simp: producer_def bind_Some_iff)
    with P_up_mutex c [of e] show ?thesis unfolding s'
      by (cases "e = d") (auto simp: count_inv_def pending_defs up_value [OF k] awake_up [OF g k])
  next
    case P_up_full
    with st obtain x k where k: "csc452_up env (full_sem d) (ker s) = Some (x, k)"
      and s': "s' = s\<lparr>ker := k, ppc := (ppc s)(d := P_rand)\<rparr>"
      by (auto simp: producer_def bind_Some_iff)
    have "s32 (full_value s d + 1) = full_value s d + 1" using r by (simp add: s32_id)
    with P_up_full c [of e] show ?thesis unfolding s'
      by (cases "e = d") (auto simp: count_inv_def pending_defs up_value [OF k] awake_up [OF g k])
  qed
qed

lemma consumer_count:
  assumes g: "sem_good env (ker s)" and c: "\<And>e. count_inv s e"
    and a: "sem_awake (ker s) consumer_task"
    and st: "consumer env s = Some s'"
  shows "count_inv s' e"
proof (cases "cpc s")
  case (C_while d)
  with st c [of e] show ?thesis
    by (auto simp: consumer_def count_inv_def pending_defs split: if_splits)
next
  case (C_down_full d)
  with st obtain x k where k: "csc452_down env consumer_task (full_sem d) (ker s) = Some (x, k)"
    and s': "s' = s\<lparr>ker := k, cpc := C_down_mutex d\<rparr>"
    by (auto simp: consumer_def bind_Some_iff)
  have "s32 (full_value s d - 1) = full_value s d - 1" using count_ranges [OF c, of d] by (simp add: s32_id)
  with C_down_full c [of e] show ?thesis unfolding s'
    by (cases "e = d") (auto simp: count_inv_def pending_defs down_value(1) [OF k] awake_down [OF g k])
next
  case (C_down_mutex d)
  with st obtain x k where k: "csc452_down env consumer_task mutex_sem (ker s) = Some (x, k)"
    and s': "s' = s\<lparr>ker := k, cpc := C_crit d\<rparr>"
    by (auto simp: consumer_def bind_Some_iff)
  with C_down_mutex c [of e] show ?thesis unfolding s'
    by (cases "e = d") (auto simp: count_inv_def pending_defs down_value(1) [OF k] awake_down [OF g k])
next
  case (C_crit d)
  with st have "ker s' = ker s" "ppc s' = ppc s" "prod_ix s' = prod_ix s" "cpc s' = C_up_mutex d"
    "con_ix s' = (con_ix s)(d := con_ix s d + 1)"
    by (auto simp: consumer_def consumer_crit_def bind_Some_iff c_inc_eq_Some_iff Let_def)
  then have "full_value s' e = full_value s e" "empty_value s' e = empty_value s e"
    "cpc s' = C_up_mutex d" "ppc s' e = ppc s e" "ker s' = ker s" "prod_ix s' e = prod_ix s e"
    "con_ix s' e = con_ix s e + (if e = d then 1 else 0)"
    by (simp_all add: pending_defs)
  moreover have "0 \<le> full_owed (ppc s e)" by (cases "ppc s e") simp_all
  ultimately show ?thesis using C_crit c [of e] by (auto simp: count_inv_def)
next
  case (C_up_mutex d)
  with st obtain x k where k: "csc452_up env mutex_sem (ker s) = Some (x, k)"
    and s': "s' = s\<lparr>ker := k, cpc := C_up_empty d\<rparr>"
    by (auto simp: consumer_def bind_Some_iff)
  with C_up_mutex c [of e] show ?thesis unfolding s'
    by (cases "e = d") (auto simp: count_inv_def pending_defs up_value [OF k] awake_up [OF g k])
next
  case (C_up_empty d)
  with st obtain x k where k: "csc452_up env (empty_sem d) (ker s) = Some (x, k)"
    and s': "s' = s\<lparr>ker := k, cpc := C_while d\<rparr>"
    by (auto simp: consumer_def bind_Some_iff)
  have "s32 (empty_value s d + 1) = empty_value s d + 1" using count_ranges [OF c, of d] by (simp add: s32_id)
  with C_up_empty c [of e] show ?thesis unfolding s'
    by (cases "e = d") (auto simp: count_inv_def pending_defs up_value [OF k] awake_up [OF g k])
next
  case (C_check d)
  with st c [of e] show ?thesis
    by (auto simp: consumer_def fall_asleep_def count_inv_def pending_defs split: if_splits)
qed

lemma arrived_append [simp]: "arrived d (xs @ ys) = arrived d xs @ arrived d ys"
  by (induction xs rule: arrived.induct) auto

lemma departed_append [simp]: "departed d (xs @ ys) = departed d xs @ departed d ys"
  by (induction xs rule: departed.induct) auto

lemma upt_int_snoc: "0 \<le> n \<Longrightarrow> map int [0..<nat (n + 1)] = map int [0..<nat n] @ [n]"
  by (simp add: nat_add_distrib)

lemma slot_distinct: "0 < p - k \<Longrightarrow> p - k < 10 \<Longrightarrow> k mod 10 \<noteq> (p::int) mod 10"
  by (metis mod_eq_dvd_iff zdvd_not_zless)

lemma producer_data:
  assumes c: "count_inv s d" and i: "\<And>e. data_inv s e" and st: "producer env d go s = Some s'"
  shows "data_inv s' e"
proof (cases "ppc s d = P_crit")
  case True
  let ?p = "prod_ix s d"
  from i [of d] have p: "0 \<le> ?p" and l: "length (car_buf s d) = 10" by (auto simp: data_inv_def)
  have diff: "?p - con_ix s d \<le> 9"
    using c True by (cases "cpc s") (auto simp: count_inv_def split: if_splits)
  have m: "c_mod ?p BUFF_SIZE = ?p mod 10" using p by (simp add: BUFF_SIZE_def c_mod_nonneg)
  from True st have s': "s' = s\<lparr>car_buf := (car_buf s)(d := (car_buf s d)[nat (?p mod 10) := ?p]),
      prod_ix := (prod_ix s)(d := ?p + 1), log := log s @ [Arrived d ?p], ppc := (ppc s)(d := P_up_mutex)\<rparr>"
    using l by (auto simp: producer_def producer_crit_def bind_Some_iff c_inc_eq_Some_iff Let_def m c_set_def
        split: if_splits)
  have "(car_buf s d)[nat (?p mod 10) := ?p] ! nat (k mod 10) = k"
    if "con_ix s d \<le> k" "k < ?p + 1" for k
  proof (cases "k = ?p")
    case True
    then show ?thesis using l by (simp add: nat_less_iff)
  next
    case False
    with that diff have "k mod 10 \<noteq> ?p mod 10" by (intro slot_distinct) auto
    with False that i [of d] show ?thesis by (auto simp: data_inv_def nat_eq_iff)
  qed
  with i [of e] p l show ?thesis
    by (cases "e = d") (auto simp: s' data_inv_def upt_int_snoc)
next
  case False
  with st have "car_buf s' = car_buf s" "prod_ix s' = prod_ix s" "con_ix s' = con_ix s" "log s' = log s"
    by (auto simp: producer_def bind_Some_iff split: prod_pc.splits if_splits)
  with i [of e] show ?thesis by (simp add: data_inv_def)
qed

lemma consumer_data:
  assumes i: "\<And>e. data_inv s e" and st: "consumer env s = Some s'"
  shows "data_inv s' e"
proof (cases "\<exists>d. cpc s = C_crit d")
  case True
  then obtain d where d: "cpc s = C_crit d" by blast
  with st have "car_buf s' = car_buf s" "prod_ix s' = prod_ix s"
    "con_ix s' = (con_ix s)(d := con_ix s d + 1)"
    "arrived e (log s') = arrived e (log s)"
    "departed e (log s') = departed e (log s) @ (if e = d then [con_ix s d] else [])"
    by (auto simp: consumer_def consumer_crit_def bind_Some_iff c_inc_eq_Some_iff Let_def)
  with i [of e] show ?thesis by (cases "e = d") (auto simp: data_inv_def upt_int_snoc)
next
  case False
  with st have "car_buf s' = car_buf s" "prod_ix s' = prod_ix s" "con_ix s' = con_ix s"
    "arrived e (log s') = arrived e (log s)" "departed e (log s') = departed e (log s)"
    by (auto simp: consumer_def fall_asleep_def bind_Some_iff split: cons_pc.splits if_splits)
  with i [of e] show ?thesis by (simp add: data_inv_def)
qed

text \<open>
  What one process may do to the mutex while the processes in \<open>A\<close> hold it or wait for it: leave it alone, ask for it, or give it back.
  Both programs keep to this, and the contract of the semaphores gives mutual exclusion.
\<close>

inductive mutex_use :: "sem_env \<Rightarrow> nat \<Rightarrow> sem_state \<Rightarrow> nat set \<Rightarrow> sem_state \<Rightarrow> nat set \<Rightarrow> bool" for env p k A where
  use_none: "mutex_use env p k A k A"
| use_other_down: "csc452_down env p i k = Some (r, k') \<Longrightarrow> i \<noteq> mutex_sem \<Longrightarrow> mutex_use env p k A k' A"
| use_other_up: "csc452_up env i k = Some (r, k') \<Longrightarrow> i \<noteq> mutex_sem \<Longrightarrow> mutex_use env p k A k' A"
| use_enter: "csc452_down env p mutex_sem k = Some (r, k') \<Longrightarrow> p \<notin> A \<Longrightarrow> mutex_use env p k A k' (insert p A)"
| use_leave: "csc452_up env mutex_sem k = Some (r, k') \<Longrightarrow> p \<in> A \<Longrightarrow> mutex_use env p k A k' (A - {p})"

text \<open>A call on one of the four counting semaphores.\<close>

definition other_call :: "sem_env \<Rightarrow> nat \<Rightarrow> sem_state \<Rightarrow> sem_state \<Rightarrow> bool" where
  "other_call env p k k' \<longleftrightarrow> (\<exists>i r. i \<noteq> mutex_sem \<and> (csc452_down env p i k = Some (r, k') \<or> csc452_up env i k = Some (r, k')))"

lemma other_callI:
  "csc452_down env p (empty_sem d) k = Some (r, k') \<Longrightarrow> other_call env p k k'"
  "csc452_down env p (full_sem d) k = Some (r, k') \<Longrightarrow> other_call env p k k'"
  "csc452_up env (empty_sem d) k = Some (r, k') \<Longrightarrow> other_call env p k k'"
  "csc452_up env (full_sem d) k = Some (r, k') \<Longrightarrow> other_call env p k k'"
  unfolding other_call_def using sem_ids(5,7) by blast+

text \<open>The same by membership: whether \<open>p\<close> was inside before (\<open>b\<close>) and is afterwards (\<open>b'\<close>).\<close>

definition mutex_protocol :: "sem_env \<Rightarrow> nat \<Rightarrow> sem_state \<Rightarrow> sem_state \<Rightarrow> bool \<Rightarrow> bool \<Rightarrow> bool" where
  "mutex_protocol env p k k' b b' \<longleftrightarrow>
     k' = k \<and> b' = b
     \<or> (\<exists>r. csc452_down env p mutex_sem k = Some (r, k')) \<and> \<not> b \<and> b'
     \<or> (\<exists>r. csc452_up env mutex_sem k = Some (r, k')) \<and> b \<and> \<not> b'
     \<or> other_call env p k k' \<and> \<not> b \<and> \<not> b'"

lemma mutex_useI:
  assumes A': "A' = (if b' then insert p A else A - {p})" and b: "p \<in> A \<longleftrightarrow> b" and "mutex_protocol env p k k' b b'"
  shows "mutex_use env p k A k' A'"
  using assms(3) unfolding mutex_protocol_def
proof (elim disjE conjE exE)
  assume "k' = k" "b' = b"
  then show ?thesis using A' b by (simp add: use_none insert_absorb)
next
  fix r assume "csc452_down env p mutex_sem k = Some (r, k')" "\<not> b" b'
  then show ?thesis using A' b by (simp add: use_enter)
next
  fix r assume "csc452_up env mutex_sem k = Some (r, k')" b "\<not> b'"
  then show ?thesis using A' b by (simp add: use_leave)
next
  assume "other_call env p k k'" "\<not> b" "\<not> b'"
  moreover from this have "A' = A" using A' b by simp
  ultimately show ?thesis unfolding other_call_def by (auto intro: use_other_down use_other_up)
qed

lemma mutex_use_held:
  assumes "mutex_use env p k A k' A'" "sem_good env k" "ks.mutex_held k mutex_sem A" "A \<subseteq> {0, 1, 2}"
  shows "ks.mutex_held k' mutex_sem A'"
  using assms(1)
proof cases
  case (use_enter r)
  have "card A < 999" using card_mono [OF _ assms(4)] by (simp add: card_insert_if)
  then show ?thesis using ks.mutex_enter [OF assms(2,3)] use_enter by blast
next
  case (use_leave r)
  then show ?thesis using ks.mutex_leave [OF assms(2,3)] by blast
qed (use assms(3) ks.mutex_other_down [OF assms(2,3)] ks.mutex_other_up [OF assms(2,3)] in auto)

lemma inside_subset: "inside s \<subseteq> {0, 1, 2}"
  by (auto simp: inside_def consumer_task_def)

lemma mem_inside [simp]:
  "producer_task d \<in> inside s \<longleftrightarrow> in_producer (ppc s d)" "consumer_task \<in> inside s \<longleftrightarrow> in_consumer (cpc s)"
  by (cases d; auto simp: inside_def consumer_task_def)+

lemma inside_producer:
  assumes "ppc s' = (ppc s)(d := p)" "cpc s' = cpc s"
  shows "inside s' =
    (if in_producer p then insert (producer_task d) (inside s) else inside s - {producer_task d})"
  using assms by (cases d) (auto simp: inside_def consumer_task_def)

lemma inside_consumer:
  assumes "ppc s' = ppc s"
  shows "inside s' =
    (if in_consumer (cpc s') then insert consumer_task (inside s) else inside s - {consumer_task})"
  using assms by (auto simp: inside_def consumer_task_def)

lemma producer_uses:
  assumes st: "producer env d go s = Some s'"
  shows "mutex_use env (producer_task d) (ker s) (inside s) (ker s') (inside s')"
proof (rule mutex_useI [OF inside_producer mem_inside(1)])
  note d = producer_def producer_crit_def bind_Some_iff Let_def
  show "ppc s' = (ppc s)(d := ppc s' d)" "cpc s' = cpc s"
    using st by (auto simp: d split: prod_pc.splits if_splits)
  show "mutex_protocol env (producer_task d) (ker s) (ker s') (in_producer (ppc s d)) (in_producer (ppc s' d))"
    using st unfolding mutex_protocol_def by (cases "ppc s d") (auto simp: d in_producer_def intro: other_callI split: if_splits)
qed

lemma consumer_uses:
  assumes st: "consumer env s = Some s'"
  shows "mutex_use env consumer_task (ker s) (inside s) (ker s') (inside s')"
proof (rule mutex_useI [OF inside_consumer mem_inside(2)])
  note d = consumer_def consumer_crit_def fall_asleep_def bind_Some_iff Let_def
  show "ppc s' = ppc s" using st by (auto simp: d split: cons_pc.splits if_splits)
  show "mutex_protocol env consumer_task (ker s) (ker s') (in_consumer (cpc s)) (in_consumer (cpc s'))"
    using st unfolding mutex_protocol_def by (cases "cpc s") (auto simp: d intro: other_callI split: if_splits)
qed

lemma producer_mutex:
  "sem_good env (ker s) \<Longrightarrow> ks.mutex_held (ker s) mutex_sem (inside s) \<Longrightarrow> producer env d go s = Some s'
     \<Longrightarrow> ks.mutex_held (ker s') mutex_sem (inside s')"
  by (rule mutex_use_held [OF producer_uses _ _ inside_subset])

lemma consumer_mutex:
  "sem_good env (ker s) \<Longrightarrow> ks.mutex_held (ker s) mutex_sem (inside s) \<Longrightarrow> consumer env s = Some s'
     \<Longrightarrow> ks.mutex_held (ker s') mutex_sem (inside s')"
  by (rule mutex_use_held [OF consumer_uses _ _ inside_subset])

section \<open>Reachable states\<close>

lemma producer_good: "sem_good env (ker s) \<Longrightarrow> producer env d go s = Some s' \<Longrightarrow> sem_good env (ker s')"
  by (auto simp: producer_def producer_crit_def bind_Some_iff Let_def dest: ks.down_good ks.up_good
      split: prod_pc.splits if_splits)

lemma consumer_good: "sem_good env (ker s) \<Longrightarrow> consumer env s = Some s' \<Longrightarrow> sem_good env (ker s')"
  by (auto simp: consumer_def consumer_crit_def fall_asleep_def bind_Some_iff Let_def
      dest: ks.down_good ks.up_good split: cons_pc.splits if_splits)

lemma traffic_step_inv:
  assumes "traffic_step env s s'" "traffic_inv env s"
  shows "traffic_inv env s'"
  using assms(1)
proof cases
  case (produce d go)
  with assms(2) show ?thesis
    using producer_count [of env s d go s'] producer_data [of s d env go s'] producer_mutex [of env s d go s']
      producer_good [of env s d go s']
    by (auto simp: traffic_inv_def)
next
  case consume
  with assms(2) show ?thesis
    using consumer_count [of env s s'] consumer_data [of s env s'] consumer_mutex [of env s s']
      consumer_good [of env s s']
    by (auto simp: traffic_inv_def)
qed

lemma init_traffic_inv:
  assumes "sem_env_ok env"
  shows "traffic_inv env init_traffic"
proof -
  have "inside init_traffic = {}"
    by (simp add: inside_def init_traffic_def in_producer_def)
  moreover have "sem_value (sems (ker init_traffic) mutex_sem) = 1"
    by (simp add: init_traffic_def fresh_sems_def mutex_sem_def)
  ultimately have "ks.mutex_held (ker init_traffic) mutex_sem (inside init_traffic)"
    by (simp add: ks.mutex_held_def)
  moreover have "count_inv init_traffic d" "data_inv init_traffic d" for d
    by (cases d; simp add: init_traffic_def count_inv_def data_inv_def fresh_sems_def pending_defs
        mutex_sem_def BUFF_SIZE_def)+
  ultimately show ?thesis
    using assms by (simp add: traffic_inv_def sem_good_def init_traffic_def fresh_sems_def)
qed

lemma traffic_reachable_inv:
  assumes "(traffic_step env)\<^sup>*\<^sup>* init_traffic s" "sem_env_ok env"
  shows "traffic_inv env s"
  using assms by (induction rule: rtranclp_induct) (auto intro: init_traffic_inv traffic_step_inv)

lemma traffic_exec_reachable:
  "traffic_exec env ts s = Some s' \<Longrightarrow> (traffic_step env)\<^sup>*\<^sup>* s s'"
proof (induction env ts s rule: traffic_exec.induct)
  case (2 env d go ts s)
  then obtain s1 where "traffic_step env s s1" "(traffic_step env)\<^sup>*\<^sup>* s1 s'"
    by (auto simp: bind_Some_iff intro: produce split: if_splits)
  then show ?case by (rule converse_rtranclp_into_rtranclp)
next
  case (3 env ts s)
  then obtain s1 where "traffic_step env s s1" "(traffic_step env)\<^sup>*\<^sup>* s1 s'"
    by (auto simp: bind_Some_iff intro: consume split: if_splits)
  then show ?case by (rule converse_rtranclp_into_rtranclp)
qed simp

text \<open>A schedule that ends with all three processes asleep in the kernel, and one that serves a car.\<close>

definition deadlock_schedule :: "turn list" where
  "deadlock_schedule =
     [Prod North True, Prod North True, Prod North True, Prod South True, Prod South True, Prod South True,
      Prod North True, Prod North True, Prod North True, Prod North True, Prod North True, Prod North True,
      Cons, Cons, Cons]"

definition service_schedule :: "turn list" where
  "service_schedule =
     [Prod North True, Prod North True, Prod North True, Prod North True, Prod North True, Prod North True,
      Cons, Cons, Cons, Cons]"

lemmas traffic_eval = producer_def producer_crit_def consumer_def consumer_crit_def fall_asleep_def
  csc452_down_def csc452_up_def init_traffic_def fresh_sems_def small_env_def first_free_def
  sem_awake_def full_value_def mutex_sem_def consumer_task_def BUFF_SIZE_def s32_def
  c_set_def c_inc_def c_mod_def Let_def upt_rec

section \<open>Properties\<close>

text \<open>
  C4. Mutual exclusion in the traffic simulation: in every reachable state, of the processes that
  have passed \<open>down (mutex)\<close> and not yet called \<open>up (mutex)\<close>, at most one is awake.
\<close>

theorem traffic_mutual_exclusion:
  assumes "sem_env_ok env" "(traffic_step env)\<^sup>*\<^sup>* init_traffic s"
    and "p \<in> inside s" "q \<in> inside s" "sem_awake (ker s) p" "sem_awake (ker s) q"
  shows "p = q"
proof -
  have "ks.mutex_held (ker s) mutex_sem (inside s)"
    using traffic_reachable_inv [OF assms(2,1)] by (simp add: traffic_inv_def)
  from ks.mutex_exclusive [OF this assms(3-6)] show ?thesis .
qed

theorem traffic_mutual_exclusion_witness:
  "\<exists>s. (traffic_step small_env)\<^sup>*\<^sup>* init_traffic s \<and> 0 \<in> inside s \<and> 1 \<in> inside s
     \<and> sem_awake (ker s) 0 \<and> \<not> sem_awake (ker s) 1"
proof -
  have "\<exists>s. traffic_exec small_env (take 6 deadlock_schedule) init_traffic = Some s
      \<and> producer_task North \<in> inside s \<and> producer_task South \<in> inside s \<and> sem_awake (ker s) 0"
    by (simp add: deadlock_schedule_def traffic_eval in_producer_def inside_def)
  then obtain s where e: "traffic_exec small_env (take 6 deadlock_schedule) init_traffic = Some s"
    and i: "0 \<in> inside s" "1 \<in> inside s" and a: "sem_awake (ker s) 0" by auto
  have r: "(traffic_step small_env)\<^sup>*\<^sup>* init_traffic s" by (rule traffic_exec_reachable [OF e])
  have "\<not> sem_awake (ker s) 1"
    using traffic_mutual_exclusion [OF small_env_ok r i a] by auto
  with r i a show ?thesis by blast
qed

text \<open>
  C5. The bounded buffers lose nothing and duplicate nothing. In every reachable state and on either
  side, between 0 and 10 cars are waiting, the slots of the circular buffer hold exactly the waiting car
  numbers, the cars that arrived are \<open>0, 1, 2, ...\<close> in order, and the cars that left the zone are an initial part of
  them, in the same order.
\<close>

theorem traffic_no_loss:
  assumes "sem_env_ok env" "(traffic_step env)\<^sup>*\<^sup>* init_traffic s"
  shows "0 \<le> con_ix s d \<and> con_ix s d \<le> prod_ix s d \<and> prod_ix s d \<le> con_ix s d + BUFF_SIZE
    \<and> (\<forall>k. con_ix s d \<le> k \<longrightarrow> k < prod_ix s d \<longrightarrow> c_get (car_buf s d) (c_mod k BUFF_SIZE) = Some k)
    \<and> arrived d (log s) = map int [0..<nat (prod_ix s d)]
    \<and> (\<exists>waiting. arrived d (log s) = departed d (log s) @ waiting \<and> length waiting \<le> 10)"
proof -
  have c: "count_inv s d" and i: "data_inv s d"
    using traffic_reachable_inv [OF assms(2,1)] by (simp_all add: traffic_inv_def)
  then have le: "0 \<le> con_ix s d" "con_ix s d \<le> prod_ix s d" "prod_ix s d \<le> con_ix s d + 10"
    by (auto simp: count_inv_def data_inv_def)
  have b: "\<forall>k. con_ix s d \<le> k \<longrightarrow> k < prod_ix s d \<longrightarrow> c_get (car_buf s d) (c_mod k BUFF_SIZE) = Some k"
    using i le by (auto simp: data_inv_def BUFF_SIZE_def c_mod_nonneg c_get_def nat_less_iff)
  have "[0..<nat (prod_ix s d)] = [0..<nat (con_ix s d)] @ [nat (con_ix s d)..<nat (prod_ix s d)]"
    using le by (metis nat_mono upt_add_eq_append le_add_diff_inverse zero_le)
  then have "arrived d (log s) = departed d (log s) @ map int [nat (con_ix s d)..<nat (prod_ix s d)]"
    using i by (simp add: data_inv_def)
  moreover have "length (map int [nat (con_ix s d)..<nat (prod_ix s d)]) \<le> 10" using le by simp
  ultimately show ?thesis using le b i by (auto simp: data_inv_def BUFF_SIZE_def)
qed

theorem traffic_no_loss_witness:
  "\<exists>s. (traffic_step small_env)\<^sup>*\<^sup>* init_traffic s
     \<and> log s = [Arrived North 0, Blew_horn North 0, Awake, Entered North 0, Left_zone North 0]
     \<and> arrived North (log s) = map int [0..<nat (prod_ix s North)]"
proof -
  have "\<exists>s. traffic_exec small_env service_schedule init_traffic = Some s
      \<and> log s = [Arrived North 0, Blew_horn North 0, Awake, Entered North 0, Left_zone North 0]"
    by (simp add: service_schedule_def traffic_eval)
  then show ?thesis
    using traffic_exec_reachable traffic_no_loss [OF small_env_ok] by blast
qed

text \<open>Memory for the nodes of three waiting tasks.\<close>

definition room_for_three :: "sem_env \<Rightarrow> bool" where
  "room_for_three env \<longleftrightarrow> (\<forall>h. finite (dom h) \<and> card (dom h) < 3 \<longrightarrow> kmalloc env h \<noteq> None)"

lemma room_for_threeD:
  assumes "room_for_three env"
  shows "\<exists>a. kmalloc env (\<lambda>_. None) = Some a" "\<exists>b. kmalloc env [a \<mapsto> m] = Some b"
    "\<exists>c. kmalloc env [a \<mapsto> m, b \<mapsto> n] = Some c"
proof -
  have "\<exists>c. kmalloc env h = Some c" if "dom h \<subseteq> {a, b}" for h
  proof -
    have "finite (dom h)" "card (dom h) < 3"
      using finite_subset [OF that] card_mono [OF _ that] card_insert_le_m1 [of 2 "{b}" a] by simp_all
    with assms show ?thesis by (auto simp: room_for_three_def)
  qed
  then show "\<exists>a. kmalloc env (\<lambda>_. None) = Some a" "\<exists>b. kmalloc env [a \<mapsto> m] = Some b"
    "\<exists>c. kmalloc env [a \<mapsto> m, b \<mapsto> n] = Some c" by auto
qed

text \<open>
  C19. The simulation can deadlock. As long as memory for three nodes can be had, a schedule of fifteen steps, in which
  each process runs only while it is awake, brings the simulation into a state where both producers and the consumer are
  asleep, all three inside a call of \<open>down (mutex)\<close>: the value of the mutex counts three units taken, but its queue is empty,
  so that no \<open>up\<close> could wake one of them. The producer from the north is there for the second time, its first car has arrived.
  From there no step is possible any more: the state never changes again.
\<close>

theorem traffic_deadlock:
  assumes "sem_env_ok env" "room_for_three env"
  shows "\<exists>s. traffic_exec env deadlock_schedule init_traffic = Some s \<and> (traffic_step env)\<^sup>*\<^sup>* init_traffic s
    \<and> (\<forall>p \<in> {producer_task North, producer_task South, consumer_task}. \<not> sem_awake (ker s) p \<and> p \<in> inside s)
    \<and> sem_value (sems (ker s) mutex_sem) = - 2 \<and> sem_process (sems (ker s) mutex_sem) = None
    \<and> arrived North (log s) = [0] \<and> arrived South (log s) = []
    \<and> (\<forall>s'. (traffic_step env)\<^sup>*\<^sup>* s s' \<longrightarrow> s' = s)"
proof -
  note room = room_for_threeD [OF assms(2)]
  obtain a where a: "kmalloc env (\<lambda>_. None) = Some a" using room(1) by blast
  obtain b where b: "kmalloc env [a \<mapsto> \<lparr>pq_task = 1, pq_next = None\<rparr>] = Some b" using room(2) by blast
  obtain c where c: "kmalloc env [a \<mapsto> \<lparr>pq_task = 1, pq_next = None\<rparr>, b \<mapsto> \<lparr>pq_task = 0, pq_next = None\<rparr>] = Some c"
    using room(3) by blast
  have free: "kfree env None h = h" for h using assms(1) by (simp add: sem_env_ok_def)
  have "\<exists>s. traffic_exec env deadlock_schedule init_traffic = Some s
      \<and> ppc s North = P_crit \<and> ppc s South = P_crit \<and> cpc s = C_crit North
      \<and> \<not> sem_awake (ker s) (producer_task North) \<and> \<not> sem_awake (ker s) (producer_task South) \<and> \<not> sem_awake (ker s) consumer_task
      \<and> sem_value (sems (ker s) mutex_sem) = - 2 \<and> sem_process (sems (ker s) mutex_sem) = None
      \<and> arrived North (log s) = [0] \<and> arrived South (log s) = []"
    by (simp add: deadlock_schedule_def traffic_eval a b [unfolded One_nat_def] c [unfolded One_nat_def] free)
  then obtain s where e: "traffic_exec env deadlock_schedule init_traffic = Some s"
    and pc: "ppc s North = P_crit" "ppc s South = P_crit" "cpc s = C_crit North"
    and asleep: "\<not> sem_awake (ker s) (producer_task North)" "\<not> sem_awake (ker s) (producer_task South)" "\<not> sem_awake (ker s) consumer_task"
    and rest: "sem_value (sems (ker s) mutex_sem) = - 2" "sem_process (sems (ker s) mutex_sem) = None"
      "arrived North (log s) = [0]" "arrived South (log s) = []" by blast
  from pc have inside: "\<forall>p \<in> {producer_task North, producer_task South, consumer_task}. p \<in> inside s"
    by (simp add: inside_def in_producer_def)
  have "\<not> sem_awake (ker s) (producer_task d)" for d using asleep by (cases d) simp_all
  with asleep(3) have "\<not> traffic_step env s s'" for s' by (auto elim: traffic_step.cases)
  then have "\<forall>s'. (traffic_step env)\<^sup>*\<^sup>* s s' \<longrightarrow> s' = s" by (metis converse_rtranclpE)
  with e asleep inside rest traffic_exec_reachable [OF e] show ?thesis by blast
qed

theorem traffic_deadlock_witness:
  "\<exists>s. (traffic_step small_env)\<^sup>*\<^sup>* init_traffic s \<and> \<not> sem_awake (ker s) 0 \<and> \<not> sem_awake (ker s) 1 \<and> \<not> sem_awake (ker s) 2
     \<and> (\<forall>s'. (traffic_step small_env)\<^sup>*\<^sup>* s s' \<longrightarrow> s' = s)"
proof -
  have "first_free 4 h \<noteq> None" if "finite (dom h)" "card (dom h) < 3" for h
  proof
    assume "first_free 4 h = None"
    then have "{0..<4} \<subseteq> dom h" by (auto simp: first_free_def find_None_iff)
    with card_mono [OF that(1) this] that(2) show False by simp
  qed
  then have "room_for_three small_env" by (simp add: room_for_three_def small_env_def)
  from traffic_deadlock [OF small_env_ok this] show ?thesis by (auto simp: consumer_task_def)
qed

end
