(* ===== verification/Prodcons.thy ===== *)
theory Prodcons
  imports Traffic_Sim Car_Queue
begin

text \<open>
  The earlier version of the simulation, \<open>main\<close> of \<open>src/Semaphore and Synchronization/prodcons.c\<close>: the circular car queues of \<open>Car_Queue\<close>
  between two producers and the flag person, on the kernel semaphores. The processes are program counters as in \<open>Traffic_Sim\<close>; \<open>rand\<close> and \<open>sleep\<close>
  only delay a producer and are left out, and what is printed, without the times, is the \<open>out\<close>.

  After \<open>fork\<close> each process has its own copy of the variables \<open>is_sleep\<close> and \<open>total_car\<close>. The latter is a pointer to a page of shared memory
  that was zero: \<open>page\<close> is its integers and \<open>car_ptr\<close> the index of the south producer's pointer, which \<open>*total_car++\<close> advances.
\<close>

section \<open>The program\<close>

datatype flag_pc = F_check | F_while dir | F_down_full dir | F_down_mutex dir | F_crit dir | F_up_mutex dir | F_up_empty dir

datatype pc_event = Flag_awake | Flag_asleep | Horn dir int | Car_arrived dir int | Car_left dir int

record prodcons =
  pk :: sem_state
  page :: "int list"
  car_ptr :: nat
  road :: "dir \<Rightarrow> car_queue"
  prod_sleep :: "dir \<Rightarrow> int"
  flag_sleep :: int
  prod_at :: "dir \<Rightarrow> prod_pc"
  flag_at :: flag_pc
  out :: "pc_event list"

text \<open>A page holds 1024 integers.\<close>

definition init_prodcons :: prodcons where
  "init_prodcons = \<lparr>
     pk = fresh_sems (\<lambda>i. if i = empty_sem North \<or> i = empty_sem South then 10 else if i = mutex_sem then 1 else 0),
     page = 1 # replicate 1023 0, car_ptr = 0, road = (\<lambda>_. init_car_queue), prod_sleep = (\<lambda>_. 1), flag_sleep = 1,
     prod_at = (\<lambda>_. P_down_empty), flag_at = F_check, out = [Flag_asleep]\<rparr>"

definition north_crit :: "prodcons \<Rightarrow> prodcons option" where
  "north_crit s = do {
     total_car \<leftarrow> c_get (page s) 0;
     let horn = (if prod_sleep s North = 1 then [Flag_awake, Horn North total_car] else []);
     q \<leftarrow> enqueue (road s North) total_car;
     Some (s\<lparr>prod_sleep := (if prod_sleep s North = 1 then (prod_sleep s)(North := 0) else prod_sleep s),
       out := out s @ horn @ [Car_arrived North total_car], road := (road s)(North := q)\<rparr>)
   }"

definition south_crit :: "prodcons \<Rightarrow> prodcons option" where
  "south_crit s = do {
     total_car \<leftarrow> c_get (page s) (int (car_ptr s));
     let horn = (if prod_sleep s South = 1 then [Horn South total_car] else []);
     q \<leftarrow> enqueue (road s South) total_car;
     let p = car_ptr s + 1;
     v \<leftarrow> c_get (page s) (int p);
     cells \<leftarrow> c_set (page s) (int p) (v + 1);
     Some (s\<lparr>prod_sleep := (if prod_sleep s South = 1 then (prod_sleep s)(South := 0) else prod_sleep s),
       out := out s @ horn @ [Car_arrived South total_car], road := (road s)(South := q), car_ptr := p, page := cells\<rparr>)
   }"

definition pc_producer :: "sem_env \<Rightarrow> dir \<Rightarrow> prodcons \<Rightarrow> prodcons option" where
  "pc_producer env d s =
     (case prod_at s d of
        P_down_empty \<Rightarrow> do {
          (_, k) \<leftarrow> pc_down env (producer_task d) (empty_sem d) (pk s);
          Some (s\<lparr>pk := k, prod_at := (prod_at s)(d := P_down_mutex)\<rparr>) }
      | P_down_mutex \<Rightarrow> do {
          (_, k) \<leftarrow> pc_down env (producer_task d) mutex_sem (pk s);
          Some (s\<lparr>pk := k, prod_at := (prod_at s)(d := P_crit)\<rparr>) }
      | P_crit \<Rightarrow> do {
          s \<leftarrow> (case d of North \<Rightarrow> north_crit s | South \<Rightarrow> south_crit s);
          Some (s\<lparr>prod_at := (prod_at s)(d := P_up_mutex)\<rparr>) }
      | P_up_mutex \<Rightarrow> do {
          (_, k) \<leftarrow> pc_up env (producer_task d) mutex_sem (pk s);
          Some (s\<lparr>pk := k, prod_at := (prod_at s)(d := P_up_full)\<rparr>) }
      | P_up_full \<Rightarrow> do {
          (_, k) \<leftarrow> pc_up env (producer_task d) (full_sem d) (pk s);
          Some (s\<lparr>pk := k, prod_at := (prod_at s)(d := P_rand)\<rparr>) }
      | P_rand \<Rightarrow> Some (s\<lparr>prod_at := (prod_at s)(d := P_down_empty)\<rparr>))"

text \<open>The conditions of the two loops of the flag person.\<close>

definition flag_goes :: "dir \<Rightarrow> prodcons \<Rightarrow> bool" where
  "flag_goes d s \<longleftrightarrow> q_size (road s d) > 0 \<and> q_size (road s (other d)) < 10"

definition flagperson :: "sem_env \<Rightarrow> prodcons \<Rightarrow> prodcons option" where
  "flagperson env s =
     (case flag_at s of
        F_check \<Rightarrow>
          Some ((if q_size (road s North) = 0 \<and> q_size (road s South) = 0 \<and> flag_sleep s = 0
                 then s\<lparr>flag_sleep := 1, out := out s @ [Flag_asleep]\<rparr> else s)\<lparr>flag_at := F_while North\<rparr>)
      | F_while North \<Rightarrow> Some (s\<lparr>flag_at := (if flag_goes North s then F_down_full North else F_while South)\<rparr>)
      | F_while South \<Rightarrow> Some (s\<lparr>flag_at := (if flag_goes South s then F_down_full South else F_check)\<rparr>)
      | F_down_full d \<Rightarrow> do {
          (_, k) \<leftarrow> pc_down env consumer_task (full_sem d) (pk s);
          Some (s\<lparr>pk := k, flag_at := F_down_mutex d\<rparr>) }
      | F_down_mutex d \<Rightarrow> do {
          (_, k) \<leftarrow> pc_down env consumer_task mutex_sem (pk s);
          Some (s\<lparr>pk := k, flag_at := F_crit d\<rparr>) }
      | F_crit d \<Rightarrow> do {
          (c, q) \<leftarrow> dequeue (road s d);
          Some (s\<lparr>road := (road s)(d := q), out := out s @ [Car_left d c], flag_at := F_up_mutex d\<rparr>) }
      | F_up_mutex d \<Rightarrow> do {
          (_, k) \<leftarrow> pc_up env consumer_task mutex_sem (pk s);
          Some (s\<lparr>pk := k, flag_at := F_up_empty d\<rparr>) }
      | F_up_empty d \<Rightarrow> do {
          (_, k) \<leftarrow> pc_up env consumer_task (empty_sem d) (pk s);
          Some (s\<lparr>pk := k, flag_at := F_while d\<rparr>) })"

inductive pc_step :: "sem_env \<Rightarrow> prodcons \<Rightarrow> prodcons \<Rightarrow> bool" for env where
  pc_produce: "sem_awake (pk s) (producer_task d) \<Longrightarrow> pc_producer env d s = Some s' \<Longrightarrow> pc_step env s s'"
| pc_flag: "sem_awake (pk s) consumer_task \<Longrightarrow> flagperson env s = Some s' \<Longrightarrow> pc_step env s s'"

inductive_cases pc_stepE: "pc_step env s s'"

text \<open>A schedule: the producer that moves, or the flag person (\<open>None\<close>).\<close>

fun pc_exec :: "sem_env \<Rightarrow> dir option list \<Rightarrow> prodcons \<Rightarrow> prodcons option" where
  "pc_exec env [] s = Some s"
| "pc_exec env (Some d # ts) s =
     (if sem_awake (pk s) (producer_task d) then do { s' \<leftarrow> pc_producer env d s; pc_exec env ts s' } else None)"
| "pc_exec env (None # ts) s =
     (if sem_awake (pk s) consumer_task then do { s' \<leftarrow> flagperson env s; pc_exec env ts s' } else None)"

lemma pc_exec_reachable: "pc_exec env ts s = Some s' \<Longrightarrow> (pc_step env)\<^sup>*\<^sup>* s s'"
proof (induction env ts s rule: pc_exec.induct)
  case (2 env d ts s)
  then obtain s1 where "pc_step env s s1" "(pc_step env)\<^sup>*\<^sup>* s1 s'" by (auto simp: bind_Some_iff intro: pc_produce split: if_splits)
  then show ?case by (rule converse_rtranclp_into_rtranclp)
next
  case (3 env ts s)
  then obtain s1 where "pc_step env s s1" "(pc_step env)\<^sup>*\<^sup>* s1 s'" by (auto simp: bind_Some_iff intro: pc_flag split: if_splits)
  then show ?case by (rule converse_rtranclp_into_rtranclp)
qed simp

section \<open>The invariant\<close>

text \<open>
  Every integer a process reads as a car number is 1: the first one of the page, and each further one when the south producer
  reaches it. The queues hold only ones, and the flag person never leaves the state he was created in.
\<close>

definition page_ok :: "prodcons \<Rightarrow> bool" where
  "page_ok s \<longleftrightarrow> length (page s) = 1024 \<and> car_ptr s < 1024 \<and> (\<forall>i \<le> car_ptr s. page s ! i = 1)
     \<and> (\<forall>i. car_ptr s < i \<longrightarrow> i < 1024 \<longrightarrow> page s ! i = 0)"

definition road_ok :: "car_queue \<Rightarrow> bool" where
  "road_ok q \<longleftrightarrow> queue_inv q \<and> set (queue_list q) \<subseteq> {1}"

fun event_ok :: "pc_event \<Rightarrow> bool" where
  "event_ok Flag_awake \<longleftrightarrow> True"
| "event_ok Flag_asleep \<longleftrightarrow> False"
| "event_ok (Horn d c) \<longleftrightarrow> c = 1"
| "event_ok (Car_arrived d c) \<longleftrightarrow> c = 1"
| "event_ok (Car_left d c) \<longleftrightarrow> c = 1 \<or> c = - 1"

definition pc_inv :: "sem_env \<Rightarrow> prodcons \<Rightarrow> bool" where
  "pc_inv env s \<longleftrightarrow> sem_good env (pk s) \<and> page_ok s \<and> (\<forall>d. road_ok (road s d)) \<and> flag_sleep s = 1
     \<and> (\<exists>es. out s = Flag_asleep # es \<and> list_all event_ok es)"

lemma road_enqueue: "road_ok q \<Longrightarrow> enqueue q 1 = Some q' \<Longrightarrow> road_ok q'"
proof -
  assume q: "road_ok q" and e: "enqueue q 1 = Some q'"
  then have i: "queue_inv q'" and l: "queue_list q' = (if length (queue_list q) < 30 then queue_list q @ [1] else queue_list q)"
    using cq.enq_refines [of q 1] by (auto simp: road_ok_def fifo_enq_def)
  from q show ?thesis unfolding road_ok_def l using i by auto
qed

lemma road_dequeue: "road_ok q \<Longrightarrow> dequeue q = Some (c, q') \<Longrightarrow> road_ok q' \<and> (c = 1 \<or> c = - 1)"
  using cq.deq_refines [of q] by (auto simp: road_ok_def fifo_deq_def split: list.splits)

lemma north_crit_inv: "pc_inv env s \<Longrightarrow> north_crit s = Some s' \<Longrightarrow> pc_inv env s'"
proof -
  assume i: "pc_inv env s" and c: "north_crit s = Some s'"
  from i have "c_get (page s) 0 = Some 1" by (simp add: pc_inv_def page_ok_def c_get_def)
  with c obtain q where q: "enqueue (road s North) 1 = Some q"
    and s': "s' = s\<lparr>prod_sleep := (if prod_sleep s North = 1 then (prod_sleep s)(North := 0) else prod_sleep s),
       out := out s @ (if prod_sleep s North = 1 then [Flag_awake, Horn North 1] else []) @ [Car_arrived North 1], road := (road s)(North := q)\<rparr>"
    by (auto simp: north_crit_def bind_Some_iff)
  have "road_ok q" using i q road_enqueue by (auto simp: pc_inv_def)
  with i show ?thesis by (auto simp: s' pc_inv_def page_ok_def)
qed

lemma south_crit_inv: "pc_inv env s \<Longrightarrow> south_crit s = Some s' \<Longrightarrow> pc_inv env s'"
proof -
  assume i: "pc_inv env s" and c: "south_crit s = Some s'"
  let ?p = "car_ptr s + 1"
  from i have p: "page_ok s" by (simp add: pc_inv_def)
  then have "c_get (page s) (int (car_ptr s)) = Some 1" by (simp add: page_ok_def c_get_def)
  with c obtain q v cells where q: "enqueue (road s South) 1 = Some q" and v: "c_get (page s) (int ?p) = Some v"
    and cells: "c_set (page s) (int ?p) (v + 1) = Some cells"
    and s': "s' = s\<lparr>prod_sleep := (if prod_sleep s South = 1 then (prod_sleep s)(South := 0) else prod_sleep s),
       out := out s @ (if prod_sleep s South = 1 then [Horn South 1] else []) @ [Car_arrived South 1], road := (road s)(South := q),
       car_ptr := ?p, page := cells\<rparr>"
    by (auto simp: south_crit_def bind_Some_iff)
  have b: "?p < 1024" and "v = 0" using v p by (auto simp: c_get_def page_ok_def split: if_splits)
  then have pg: "cells = (page s)[?p := 1]" using cells by (auto simp: c_set_def nat_add_distrib split: if_splits)
  have "page_ok s'" using p b by (auto simp: page_ok_def s' pg nth_list_update)
  moreover have "road_ok q" using i q road_enqueue by (auto simp: pc_inv_def)
  ultimately show ?thesis using i by (auto simp: s' pc_inv_def)
qed

lemma pc_producer_inv:
  assumes "pc_inv env s" "pc_producer env d s = Some s'"
  shows "pc_inv env s'"
proof (cases "prod_at s d = P_crit")
  case True
  with assms(2) obtain s1 where s1: "(case d of North \<Rightarrow> north_crit s | South \<Rightarrow> south_crit s) = Some s1"
    and s': "s' = s1\<lparr>prod_at := (prod_at s1)(d := P_up_mutex)\<rparr>" by (auto simp: pc_producer_def bind_Some_iff)
  have "pc_inv env s1"
  proof (cases d)
    case North
    then show ?thesis using s1 north_crit_inv [OF assms(1)] by simp
  next
    case South
    then show ?thesis using s1 south_crit_inv [OF assms(1)] by simp
  qed
  then show ?thesis by (simp add: s' pc_inv_def page_ok_def)
next
  case False
  with assms show ?thesis
    by (auto simp: pc_producer_def pc_inv_def page_ok_def bind_Some_iff dest: ks.down_good ks.up_good split: prod_pc.splits)
qed

lemma flagperson_inv:
  assumes "pc_inv env s" "flagperson env s = Some s'"
  shows "pc_inv env s'"
proof (cases "\<exists>d. flag_at s = F_crit d")
  case True
  then obtain d where "flag_at s = F_crit d" by blast
  with assms(2) obtain c q where c: "dequeue (road s d) = Some (c, q)"
    and s': "s' = s\<lparr>road := (road s)(d := q), out := out s @ [Car_left d c], flag_at := F_up_mutex d\<rparr>"
    by (auto simp: flagperson_def bind_Some_iff)
  have "road_ok q" "c = 1 \<or> c = - 1" using road_dequeue [OF _ c] assms(1) by (auto simp: pc_inv_def)
  with assms(1) show ?thesis by (auto simp: s' pc_inv_def page_ok_def)
next
  case False
  with assms show ?thesis
    by (auto simp: flagperson_def pc_inv_def page_ok_def bind_Some_iff dest: ks.down_good ks.up_good
      split: flag_pc.splits dir.splits)
qed

lemma pc_step_inv: "pc_step env s s' \<Longrightarrow> pc_inv env s \<Longrightarrow> pc_inv env s'"
  by (auto elim!: pc_stepE intro: pc_producer_inv flagperson_inv)

lemma init_prodcons_inv: "sem_env_ok env \<Longrightarrow> pc_inv env init_prodcons"
  by (auto simp: pc_inv_def init_prodcons_def sem_good_def fresh_sems_def page_ok_def road_ok_def queue_inv_init nth_Cons split: nat.splits)

lemma pc_reachable_inv: "(pc_step env)\<^sup>*\<^sup>* init_prodcons s \<Longrightarrow> sem_env_ok env \<Longrightarrow> pc_inv env s"
  by (induction rule: rtranclp_induct) (auto intro: init_prodcons_inv pc_step_inv)

text \<open>A process that sleeps in the kernel stays asleep, and a sleeping flag person lets no car pass.\<close>

lemma awake_pc_down: "sem_good env k \<Longrightarrow> csc452_down env t i k = Some (r, k') \<Longrightarrow> sem_awake k' u \<Longrightarrow> sem_awake k u"
  using awake_down by blast

lemma pc_step_kernel:
  assumes "pc_step env s s'"
  obtains "pk s' = pk s" | t i r where "csc452_down env t i (pk s) = Some (r, pk s')" | i r where "csc452_up env i (pk s) = Some (r, pk s')"
  using assms
  by (auto elim!: pc_stepE simp: pc_producer_def flagperson_def north_crit_def south_crit_def bind_Some_iff
    split: prod_pc.splits dir.splits flag_pc.splits)

lemma pc_step_asleep:
  assumes "pc_step env s s'" "pc_inv env s" "\<not> sem_awake (pk s) t"
  shows "\<not> sem_awake (pk s') t"
proof -
  have g: "sem_good env (pk s)" using assms(2) by (simp add: pc_inv_def)
  from assms(1) show ?thesis
    by (cases rule: pc_step_kernel) (use g assms(3) awake_pc_down awake_up in auto)
qed

fun cars_left :: "pc_event list \<Rightarrow> int list" where
  "cars_left [] = []"
| "cars_left (Car_left d c # es) = c # cars_left es"
| "cars_left (_ # es) = cars_left es"

lemma cars_left_append [simp]: "cars_left (xs @ ys) = cars_left xs @ cars_left ys"
  by (induction xs rule: cars_left.induct) auto

lemma pc_producer_cars_left: "pc_producer env d s = Some s' \<Longrightarrow> cars_left (out s') = cars_left (out s)"
  by (auto simp: pc_producer_def north_crit_def south_crit_def bind_Some_iff split: prod_pc.splits dir.splits)

lemma pc_step_cars_left: "pc_step env s s' \<Longrightarrow> \<not> sem_awake (pk s) consumer_task \<Longrightarrow> cars_left (out s') = cars_left (out s)"
  by (auto elim!: pc_stepE dest: pc_producer_cars_left)

section \<open>Properties\<close>

text \<open>
  What the simulation can ever print. In every reachable state the queues stay inside their arrays, every car that arrives on either side has the number 1, each car that leaves has it too
  or is the \<open>- 1\<close> of an empty queue, and after the first line the flag person never reports that he fell asleep. The pointer of the south producer has stayed in its page.
\<close>

theorem prodcons_output:
  assumes "sem_env_ok env" "(pc_step env)\<^sup>*\<^sup>* init_prodcons s"
  shows "queue_inv (road s d) \<and> set (queue_list (road s d)) \<subseteq> {1} \<and> car_ptr s < 1024
    \<and> (Car_arrived e c \<in> set (out s) \<longrightarrow> c = 1) \<and> (Car_left e c \<in> set (out s) \<longrightarrow> c = 1 \<or> c = - 1)
    \<and> hd (out s) = Flag_asleep \<and> Flag_asleep \<notin> set (tl (out s))"
proof -
  have i: "pc_inv env s" using pc_reachable_inv [OF assms(2,1)] .
  then obtain es where es: "out s = Flag_asleep # es" "\<forall>x \<in> set es. event_ok x" by (auto simp: pc_inv_def list_all_iff)
  have "Car_arrived e c \<in> set es \<Longrightarrow> c = 1" "Car_left e c \<in> set es \<Longrightarrow> c = 1 \<or> c = - 1" "Flag_asleep \<notin> set es"
    using es(2) event_ok.simps by blast+
  with i es(1) show ?thesis by (simp add: pc_inv_def road_ok_def page_ok_def)
qed

definition one_car :: "dir option list" where
  "one_car = replicate 5 (Some North) @ replicate 9 None"

lemmas prodcons_eval = pc_producer_def flagperson_def north_crit_def flag_goes_def init_prodcons_def enqueue_def dequeue_def queue_defs init_car_queue_def
  csc452_down_def csc452_up_def fresh_sems_def small_env_def first_free_def sem_awake_def mutex_sem_def consumer_task_def s32_def
  c_get_def c_set_def c_mod_def Let_def upt_rec

lemma one_car_run:
  "\<exists>s. pc_exec small_env one_car init_prodcons = Some s \<and> \<not> sem_awake (pk s) consumer_task \<and> cars_left (out s) = [1]"
  by (simp add: one_car_def numeral_eq_Suc prodcons_eval)

theorem prodcons_output_witness:
  "\<exists>s. (pc_step small_env)\<^sup>*\<^sup>* init_prodcons s \<and> cars_left (out s) = [1] \<and> Flag_asleep \<notin> set (tl (out s))"
  using one_car_run pc_exec_reachable prodcons_output [OF small_env_ok] by blast

text \<open>
  C34. The flag person stops after the first car. A schedule of fourteen steps, in which each process runs only while it is awake, lets one car through: removing it leaves the size of its queue at 1,
  so the flag person waits for a second one that is not there. Whatever happens from then on, he stays asleep and no other car ever leaves the zone.
\<close>

theorem prodcons_stuck:
  "\<exists>s. (pc_step small_env)\<^sup>*\<^sup>* init_prodcons s \<and> cars_left (out s) = [1]
     \<and> (\<forall>s'. (pc_step small_env)\<^sup>*\<^sup>* s s' \<longrightarrow> \<not> sem_awake (pk s') consumer_task \<and> cars_left (out s') = [1])"
proof -
  obtain s where e: "pc_exec small_env one_car init_prodcons = Some s" and a: "\<not> sem_awake (pk s) consumer_task" "cars_left (out s) = [1]"
    using one_car_run by blast
  note r = pc_exec_reachable [OF e]
  have "pc_inv small_env s' \<and> \<not> sem_awake (pk s') consumer_task \<and> cars_left (out s') = [1]" if "(pc_step small_env)\<^sup>*\<^sup>* s s'" for s'
    using that
  proof (induction rule: rtranclp_induct)
    case base
    then show ?case using a pc_reachable_inv [OF r small_env_ok] by simp
  next
    case (step s1 s2)
    then show ?case using pc_step_inv pc_step_asleep pc_step_cars_left by metis
  qed
  with r a(2) show ?thesis by blast
qed

theorem prodcons_stuck_witness: "\<exists>s. (pc_step small_env)\<^sup>*\<^sup>* init_prodcons s \<and> \<not> sem_awake (pk s) consumer_task"
  using prodcons_stuck by blast

end
