(* ===== verification/Prodcons_Safe.thy ===== *)
theory Prodcons_Safe
  imports Prodcons
begin

text \<open>
  What the semaphores of \<open>prodcons.c\<close> achieve: mutual exclusion between \<open>down (mutex)\<close> and \<open>up (mutex)\<close>, queues of at most ten cars,
  and no car lost, duplicated or invented. The proof counts: on each side the values of the two counting semaphores are the queued cars and the
  free places, less the units that a process has taken or still owes at its program counter.
\<close>

section \<open>The invariant of one side\<close>

definition waiting :: "prodcons \<Rightarrow> dir \<Rightarrow> int list" where
  "waiting s d = queue_list (road s d)"

definition pc_full :: "prodcons \<Rightarrow> dir \<Rightarrow> int" where
  "pc_full s d = sem_value (sems (pk s) (full_sem d))"

definition pc_empty :: "prodcons \<Rightarrow> dir \<Rightarrow> int" where
  "pc_empty s d = sem_value (sems (pk s) (empty_sem d))"

lemmas pc_values = waiting_def pc_full_def pc_empty_def Suc_le_eq

fun flag_taken :: "dir \<Rightarrow> flag_pc \<Rightarrow> int" where
  "flag_taken d (F_down_mutex e) = (if e = d then 1 else 0)"
| "flag_taken d (F_crit e) = (if e = d then 1 else 0)"
| "flag_taken d _ = 0"

fun flag_owed :: "dir \<Rightarrow> flag_pc \<Rightarrow> int" where
  "flag_owed d (F_up_mutex e) = (if e = d then 1 else 0)"
| "flag_owed d (F_up_empty e) = (if e = d then 1 else 0)"
| "flag_owed d _ = 0"

text \<open>The cars that came and went on one side, from what was printed.\<close>

fun came :: "dir \<Rightarrow> pc_event list \<Rightarrow> int list" where
  "came d [] = []"
| "came d (Car_arrived e c # es) = (if e = d then c # came d es else came d es)"
| "came d (_ # es) = came d es"

fun went :: "dir \<Rightarrow> pc_event list \<Rightarrow> int list" where
  "went d [] = []"
| "went d (Car_left e c # es) = (if e = d then c # went d es else went d es)"
| "went d (_ # es) = went d es"

lemma came_append [simp]: "came d (xs @ ys) = came d xs @ came d ys"
  by (induction xs rule: came.induct) auto

lemma went_append [simp]: "went d (xs @ ys) = went d xs @ went d ys"
  by (induction xs rule: went.induct) auto

lemma flag_units: "0 \<le> flag_taken d f" "flag_taken d f \<le> 1" "0 \<le> flag_owed d f" "flag_owed d f \<le> 1"
  by (cases f; simp)+

lemma prod_units: "0 \<le> full_owed p" "full_owed p \<le> 1" "0 \<le> empty_taken p" "empty_taken p \<le> 1"
  by (cases p; simp)+

definition side_inv :: "prodcons \<Rightarrow> dir \<Rightarrow> bool" where
  "side_inv s d \<longleftrightarrow>
     length (waiting s d) \<le> 10 \<and> full_owed (prod_at s d) \<le> int (length (waiting s d))
     \<and> pc_full s d = int (length (waiting s d)) - full_owed (prod_at s d) - flag_taken d (flag_at s)
     \<and> pc_empty s d = 10 - int (length (waiting s d)) - empty_taken (prod_at s d) - flag_owed d (flag_at s)
     \<and> (flag_at s = F_crit d \<or> flag_at s = F_down_mutex d \<and> sem_awake (pk s) consumer_task \<longrightarrow> 0 \<le> pc_full s d)
     \<and> (prod_at s d = P_crit \<or> prod_at s d = P_down_mutex \<and> sem_awake (pk s) (producer_task d) \<longrightarrow> 0 \<le> pc_empty s d)
     \<and> came d (out s) = went d (out s) @ waiting s d"

lemma side_ranges:
  assumes "side_inv s d"
  shows "- 1 \<le> pc_full s d" "pc_full s d \<le> 10" "- 2 \<le> pc_empty s d" "pc_empty s d \<le> 10"
  using assms flag_units [of d "flag_at s"] prod_units [of "prod_at s d"] unfolding side_inv_def by linarith+

text \<open>What a side does not see: the other side's steps and the mutex.\<close>

lemma side_frame:
  assumes "side_inv s e"
    and "prod_at s' e = prod_at s e" "flag_at s' = flag_at s \<or> (\<forall>p. flag_at s' \<noteq> F_crit e \<and> flag_at s' \<noteq> F_down_mutex e)"
    and "flag_taken e (flag_at s') = flag_taken e (flag_at s)" "flag_owed e (flag_at s') = flag_owed e (flag_at s)"
    and "waiting s' e = waiting s e" "pc_full s' e = pc_full s e" "pc_empty s' e = pc_empty s e"
    and "came e (out s') = came e (out s)" "went e (out s') = went e (out s)"
    and "sem_awake (pk s') consumer_task \<Longrightarrow> sem_awake (pk s) consumer_task"
    and "sem_awake (pk s') (producer_task e) \<Longrightarrow> sem_awake (pk s) (producer_task e)"
  shows "side_inv s' e"
  using assms unfolding side_inv_def by auto

section \<open>The producers keep it\<close>

lemma side_down_empty:
  assumes g: "sem_good env (pk s)" and c: "\<And>e. side_inv s e" and pc: "prod_at s d = P_down_empty"
    and k: "csc452_down env (producer_task d) (empty_sem d) (pk s) = Some (x, k)"
  shows "side_inv (s\<lparr>pk := k, prod_at := (prod_at s)(d := P_down_mutex)\<rparr>) e"
proof (cases "e = d")
  case True
  have "s32 (pc_empty s d - 1) = pc_empty s d - 1" using side_ranges [OF c, of d] by (simp add: s32_id)
  with True pc c [of d] show ?thesis
    by (auto simp: side_inv_def pc_values down_value(1) [OF k] awake_down [OF g k])
next
  case False
  then show ?thesis
    by (intro side_frame [OF c [of e]]) (simp_all add: pc_values down_value(1) [OF k] awake_down [OF g k])
qed

lemma side_down_mutex:
  assumes g: "sem_good env (pk s)" and c: "\<And>e. side_inv s e" and pc: "prod_at s d = P_down_mutex"
    and a: "sem_awake (pk s) (producer_task d)"
    and k: "csc452_down env (producer_task d) mutex_sem (pk s) = Some (x, k)"
  shows "side_inv (s\<lparr>pk := k, prod_at := (prod_at s)(d := P_crit)\<rparr>) e"
proof (cases "e = d")
  case True
  with pc c [of d] a show ?thesis
    by (auto simp: side_inv_def pc_values down_value(1) [OF k] awake_down [OF g k])
next
  case False
  then show ?thesis
    by (intro side_frame [OF c [of e]]) (simp_all add: pc_values down_value(1) [OF k] awake_down [OF g k])
qed

lemma side_up_mutex:
  assumes g: "sem_good env (pk s)" and c: "\<And>e. side_inv s e" and pc: "prod_at s d = P_up_mutex"
    and k: "csc452_up env mutex_sem (pk s) = Some (x, k)"
  shows "side_inv (s\<lparr>pk := k, prod_at := (prod_at s)(d := P_up_full)\<rparr>) e"
  using pc c [of e] by (cases "e = d") (auto simp: side_inv_def pc_values up_value [OF k] awake_up [OF g k])

lemma side_up_full:
  assumes g: "sem_good env (pk s)" and c: "\<And>e. side_inv s e" and pc: "prod_at s d = P_up_full"
    and k: "csc452_up env (full_sem d) (pk s) = Some (x, k)"
  shows "side_inv (s\<lparr>pk := k, prod_at := (prod_at s)(d := P_rand)\<rparr>) e"
proof -
  have "s32 (pc_full s d + 1) = pc_full s d + 1" using side_ranges [OF c, of d] by (simp add: s32_id)
  with pc c [of e] show ?thesis
    by (cases "e = d") (auto simp: side_inv_def pc_values up_value [OF k] awake_up [OF g k])
qed

text \<open>A producer in its critical section adds one car to its own road.\<close>

lemma enqueue_waiting:
  "queue_inv q \<Longrightarrow> length (queue_list q) < 30 \<Longrightarrow> enqueue q x = Some q' \<Longrightarrow> queue_list q' = queue_list q @ [x]"
  using cq.enq_refines [of q x] by (auto simp: fifo_enq_def)

lemma side_crit:
  assumes c: "\<And>e. side_inv s e" and pc: "prod_at s d = P_crit" and q: "\<And>e. queue_inv (road s e)"
    and st: "(case d of North \<Rightarrow> north_crit s | South \<Rightarrow> south_crit s) = Some s'"
  shows "side_inv (s'\<lparr>prod_at := (prod_at s')(d := P_up_mutex)\<rparr>) e"
proof -
  have "0 \<le> pc_empty s d" "pc_empty s d = 9 - int (length (waiting s d)) - flag_owed d (flag_at s)"
    using c [of d] pc by (simp_all add: side_inv_def)
  then have "length (waiting s d) < 10" using flag_units(3) [of d "flag_at s"] by linarith
  then have l: "length (queue_list (road s d)) < 30" by (simp add: waiting_def)
  obtain x r where x: "enqueue (road s d) x = Some r" and f: "pk s' = pk s" "flag_at s' = flag_at s" "prod_at s' = prod_at s"
      "road s' = (road s)(d := r)" "\<forall>e. came e (out s') = came e (out s) @ (if e = d then [x] else []) \<and> went e (out s') = went e (out s)"
    using st by (cases d) (auto simp: north_crit_def south_crit_def bind_Some_iff Let_def)
  from enqueue_waiting [OF q l x] have w: "queue_list r = queue_list (road s d) @ [x]" .
  show ?thesis using c [of e] pc \<open>length (waiting s d) < 10\<close>
    by (cases "e = d") (auto simp: side_inv_def pc_values f w)
qed

lemma pc_producer_side:
  assumes i: "pc_inv env s" and c: "\<And>e. side_inv s e" and a: "sem_awake (pk s) (producer_task d)"
    and st: "pc_producer env d s = Some s'"
  shows "side_inv s' e"
proof -
  from i have g: "sem_good env (pk s)" and q: "queue_inv (road s e)" for e by (auto simp: pc_inv_def road_ok_def)
  show ?thesis
  proof (cases "prod_at s d")
    case P_rand
    with st c [of e] show ?thesis by (cases "e = d") (auto simp: pc_producer_def side_inv_def pc_values)
  next
    case P_down_empty
    with st show ?thesis using side_down_empty [OF g c P_down_empty] by (auto simp: pc_producer_def bind_Some_iff)
  next
    case P_down_mutex
    with st show ?thesis using side_down_mutex [OF g c P_down_mutex a] by (auto simp: pc_producer_def bind_Some_iff)
  next
    case P_crit
    with st show ?thesis using side_crit [OF c P_crit q] by (auto simp: pc_producer_def bind_Some_iff)
  next
    case P_up_mutex
    with st show ?thesis using side_up_mutex [OF g c P_up_mutex] by (auto simp: pc_producer_def bind_Some_iff)
  next
    case P_up_full
    with st show ?thesis using side_up_full [OF g c P_up_full] by (auto simp: pc_producer_def bind_Some_iff)
  qed
qed

section \<open>The flag person keeps it\<close>

lemma side_flag_down_full:
  assumes g: "sem_good env (pk s)" and c: "\<And>e. side_inv s e" and pc: "flag_at s = F_down_full d"
    and k: "csc452_down env consumer_task (full_sem d) (pk s) = Some (x, k)"
  shows "side_inv (s\<lparr>pk := k, flag_at := F_down_mutex d\<rparr>) e"
proof -
  have "s32 (pc_full s d - 1) = pc_full s d - 1" using side_ranges [OF c, of d] by (simp add: s32_id)
  with pc c [of e] show ?thesis
    by (cases "e = d") (auto simp: side_inv_def pc_values down_value(1) [OF k] awake_down [OF g k])
qed

lemma side_flag_down_mutex:
  assumes g: "sem_good env (pk s)" and c: "\<And>e. side_inv s e" and pc: "flag_at s = F_down_mutex d"
    and a: "sem_awake (pk s) consumer_task" and k: "csc452_down env consumer_task mutex_sem (pk s) = Some (x, k)"
  shows "side_inv (s\<lparr>pk := k, flag_at := F_crit d\<rparr>) e"
  using pc a c [of e]
  by (cases "e = d") (auto simp: side_inv_def pc_values down_value(1) [OF k] awake_down [OF g k])

lemma dequeue_waiting:
  "queue_inv q \<Longrightarrow> queue_list q \<noteq> [] \<Longrightarrow> dequeue q = Some (x, q') \<Longrightarrow> queue_list q = x # queue_list q'"
  using cq.deq_refines [of q] by (auto simp: fifo_deq_def split: list.splits)

lemma side_flag_crit:
  assumes c: "\<And>e. side_inv s e" and pc: "flag_at s = F_crit d" and q: "queue_inv (road s d)"
    and x: "dequeue (road s d) = Some (x, r)"
  shows "side_inv (s\<lparr>road := (road s)(d := r), out := out s @ [Car_left d x], flag_at := F_up_mutex d\<rparr>) e"
proof -
  have "0 < length (waiting s d)" using c [of d] pc by (cases "prod_at s d") (auto simp: side_inv_def)
  then have w: "queue_list (road s d) = x # queue_list r" using dequeue_waiting [OF q _ x] by (simp add: waiting_def)
  show ?thesis using c [of e] pc by (cases "e = d") (auto simp: side_inv_def pc_values w)
qed

lemma side_flag_up_mutex:
  assumes g: "sem_good env (pk s)" and c: "\<And>e. side_inv s e" and pc: "flag_at s = F_up_mutex d"
    and k: "csc452_up env mutex_sem (pk s) = Some (x, k)"
  shows "side_inv (s\<lparr>pk := k, flag_at := F_up_empty d\<rparr>) e"
  using pc c [of e] by (cases "e = d") (auto simp: side_inv_def pc_values up_value [OF k] awake_up [OF g k])

lemma side_flag_up_empty:
  assumes g: "sem_good env (pk s)" and c: "\<And>e. side_inv s e" and pc: "flag_at s = F_up_empty d"
    and k: "csc452_up env (empty_sem d) (pk s) = Some (x, k)"
  shows "side_inv (s\<lparr>pk := k, flag_at := F_while d\<rparr>) e"
proof -
  have "s32 (pc_empty s d + 1) = pc_empty s d + 1" using side_ranges [OF c, of d] by (simp add: s32_id)
  with pc c [of e] show ?thesis
    by (cases "e = d") (auto simp: side_inv_def pc_values up_value [OF k] awake_up [OF g k])
qed

lemma flagperson_side:
  assumes i: "pc_inv env s" and c: "\<And>e. side_inv s e" and a: "sem_awake (pk s) consumer_task"
    and st: "flagperson env s = Some s'"
  shows "side_inv s' e"
proof -
  from i have g: "sem_good env (pk s)" and q: "queue_inv (road s e)" for e by (auto simp: pc_inv_def road_ok_def)
  show ?thesis
  proof (cases "flag_at s")
    case F_check
    with st c [of e] show ?thesis by (auto simp: flagperson_def side_inv_def pc_values)
  next
    case (F_while d)
    with st c [of e] show ?thesis by (cases d) (auto simp: flagperson_def side_inv_def pc_values)
  next
    case (F_down_full d)
    with st show ?thesis using side_flag_down_full [OF g c F_down_full] by (auto simp: flagperson_def bind_Some_iff)
  next
    case (F_down_mutex d)
    with st show ?thesis using side_flag_down_mutex [OF g c F_down_mutex a] by (auto simp: flagperson_def bind_Some_iff)
  next
    case (F_crit d)
    with st show ?thesis using side_flag_crit [OF c F_crit q] by (auto simp: flagperson_def bind_Some_iff)
  next
    case (F_up_mutex d)
    with st show ?thesis using side_flag_up_mutex [OF g c F_up_mutex] by (auto simp: flagperson_def bind_Some_iff)
  next
    case (F_up_empty d)
    with st show ?thesis using side_flag_up_empty [OF g c F_up_empty] by (auto simp: flagperson_def bind_Some_iff)
  qed
qed

section \<open>The mutex\<close>

fun flag_inside :: "flag_pc \<Rightarrow> bool" where
  "flag_inside (F_crit d) = True"
| "flag_inside (F_up_mutex d) = True"
| "flag_inside _ = False"

definition pc_inside :: "prodcons \<Rightarrow> nat set" where
  "pc_inside s = (if in_producer (prod_at s North) then {producer_task North} else {})
     \<union> (if in_producer (prod_at s South) then {producer_task South} else {})
     \<union> (if flag_inside (flag_at s) then {consumer_task} else {})"

lemma pc_inside_subset: "pc_inside s \<subseteq> {0, 1, 2}"
  by (auto simp: pc_inside_def consumer_task_def)

lemma mem_pc_inside:
  "producer_task d \<in> pc_inside s \<longleftrightarrow> in_producer (prod_at s d)" "consumer_task \<in> pc_inside s \<longleftrightarrow> flag_inside (flag_at s)"
  by (cases d; auto simp: pc_inside_def consumer_task_def)+

lemma pc_inside_producer:
  assumes "prod_at s' = (prod_at s)(d := p)" "flag_at s' = flag_at s"
  shows "pc_inside s' = (if in_producer p then insert (producer_task d) (pc_inside s) else pc_inside s - {producer_task d})"
  using assms by (cases d) (auto simp: pc_inside_def consumer_task_def)

lemma pc_inside_flag:
  assumes "prod_at s' = prod_at s"
  shows "pc_inside s' = (if flag_inside (flag_at s') then insert consumer_task (pc_inside s) else pc_inside s - {consumer_task})"
  using assms by (auto simp: pc_inside_def consumer_task_def)

lemma pc_producer_uses:
  assumes st: "pc_producer env d s = Some s'"
  shows "mutex_use env (producer_task d) (pk s) (pc_inside s) (pk s') (pc_inside s')"
proof (rule mutex_useI [OF pc_inside_producer mem_pc_inside(1)])
  note d = pc_producer_def north_crit_def south_crit_def bind_Some_iff Let_def
  show "prod_at s' = (prod_at s)(d := prod_at s' d)" "flag_at s' = flag_at s"
    using st by (auto simp: d split: prod_pc.splits dir.splits)
  show "mutex_protocol env (producer_task d) (pk s) (pk s') (in_producer (prod_at s d)) (in_producer (prod_at s' d))"
    using st unfolding mutex_protocol_def
    by (cases "prod_at s d") (auto simp: d in_producer_def intro: other_callI split: dir.splits)
qed

lemma flagperson_uses:
  assumes st: "flagperson env s = Some s'"
  shows "mutex_use env consumer_task (pk s) (pc_inside s) (pk s') (pc_inside s')"
proof (rule mutex_useI [OF pc_inside_flag mem_pc_inside(2)])
  show "prod_at s' = prod_at s"
    using st by (auto simp: flagperson_def bind_Some_iff split: flag_pc.splits dir.splits)
  show "mutex_protocol env consumer_task (pk s) (pk s') (flag_inside (flag_at s)) (flag_inside (flag_at s'))"
    using st unfolding mutex_protocol_def
    by (cases "flag_at s") (auto simp: flagperson_def bind_Some_iff intro: other_callI split: dir.splits if_splits)
qed

section \<open>Reachable states\<close>

definition pc_safe :: "sem_env \<Rightarrow> prodcons \<Rightarrow> bool" where
  "pc_safe env s \<longleftrightarrow> pc_inv env s \<and> ks.mutex_held (pk s) mutex_sem (pc_inside s) \<and> (\<forall>d. side_inv s d)"

lemma pc_step_safe:
  assumes "pc_step env s s'" "pc_safe env s"
  shows "pc_safe env s'"
proof -
  from assms(2) have i: "pc_inv env s" "sem_good env (pk s)" and m: "ks.mutex_held (pk s) mutex_sem (pc_inside s)"
    and c: "side_inv s e" for e by (auto simp: pc_safe_def pc_inv_def)
  from assms(1) have "ks.mutex_held (pk s') mutex_sem (pc_inside s') \<and> side_inv s' e" for e
  proof cases
    case (pc_produce d)
    then show ?thesis
      using mutex_use_held [OF pc_producer_uses i(2) m pc_inside_subset] pc_producer_side [OF i(1) c] by blast
  next
    case pc_flag
    then show ?thesis
      using mutex_use_held [OF flagperson_uses i(2) m pc_inside_subset] flagperson_side [OF i(1) c] by blast
  qed
  then show ?thesis using pc_step_inv [OF assms(1) i(1)] by (simp add: pc_safe_def)
qed

lemma init_prodcons_safe:
  assumes "sem_env_ok env"
  shows "pc_safe env init_prodcons"
proof -
  have "pc_inside init_prodcons = {}" "sem_value (sems (pk init_prodcons) mutex_sem) = 1"
    by (simp_all add: pc_inside_def init_prodcons_def in_producer_def fresh_sems_def mutex_sem_def)
  moreover have "side_inv init_prodcons d" for d
    by (cases d; simp add: side_inv_def pc_values init_prodcons_def fresh_sems_def mutex_sem_def)
  ultimately show ?thesis using init_prodcons_inv [OF assms] by (simp add: pc_safe_def ks.mutex_held_def)
qed

lemma pc_reachable_safe: "(pc_step env)\<^sup>*\<^sup>* init_prodcons s \<Longrightarrow> sem_env_ok env \<Longrightarrow> pc_safe env s"
  by (induction rule: rtranclp_induct) (auto intro: init_prodcons_safe pc_step_safe)

text \<open>Every number printed is 1: cars that leave came before, and cars that come have that number.\<close>

lemma came_iff: "c \<in> set (came d es) \<longleftrightarrow> Car_arrived d c \<in> set es"
  by (induction d es rule: came.induct) auto

lemma went_iff: "c \<in> set (went d es) \<longleftrightarrow> Car_left d c \<in> set es"
  by (induction d es rule: went.induct) auto

lemma pc_safe_numbers:
  assumes "pc_safe env s" "Car_arrived d c \<in> set (out s) \<or> Car_left d c \<in> set (out s)"
  shows "c = 1"
proof -
  have "came d (out s) = went d (out s) @ waiting s d" using assms(1) by (auto simp: pc_safe_def side_inv_def)
  then have "Car_arrived d c \<in> set (out s)" using assms(2) by (auto simp: went_iff [symmetric] came_iff [symmetric])
  moreover obtain es where "out s = Flag_asleep # es" "\<forall>e \<in> set es. event_ok e"
    using assms(1) by (auto simp: pc_safe_def pc_inv_def list_all_iff)
  ultimately show ?thesis by auto
qed

section \<open>Property\<close>

text \<open>
  C6. The simulation \<open>prodcons.c\<close> is safe. In every state reachable by any interleaving, of the processes between \<open>down (mutex)\<close> and \<open>up (mutex)\<close> at most one is
  awake, and on each side at most 10 cars wait and the cars that arrived are, in order, those that left followed by those that wait: none is lost or served
  twice, and the flag person never reports the \<open>- 1\<close> of an empty queue. Every car has the number 1.
\<close>

theorem prodcons_safe:
  assumes "sem_env_ok env" "(pc_step env)\<^sup>*\<^sup>* init_prodcons s"
  shows "(p \<in> pc_inside s \<and> q \<in> pc_inside s \<and> sem_awake (pk s) p \<and> sem_awake (pk s) q \<longrightarrow> p = q)
    \<and> length (queue_list (road s d)) \<le> 10 \<and> came d (out s) = went d (out s) @ queue_list (road s d)
    \<and> (Car_arrived d c \<in> set (out s) \<or> Car_left d c \<in> set (out s) \<longrightarrow> c = 1)"
proof -
  have s: "pc_safe env s" using pc_reachable_safe [OF assms(2,1)] .
  then have "ks.mutex_held (pk s) mutex_sem (pc_inside s)" "side_inv s d" by (auto simp: pc_safe_def)
  then show ?thesis
    using ks.mutex_exclusive pc_safe_numbers [OF s] by (auto simp: side_inv_def waiting_def)
qed

lemma one_car_went: "\<exists>s. pc_exec small_env one_car init_prodcons = Some s \<and> went North (out s) = [1]"
  by (simp add: one_car_def numeral_eq_Suc prodcons_eval)

theorem prodcons_safe_witness:
  "\<exists>s. (pc_step small_env)\<^sup>*\<^sup>* init_prodcons s \<and> went North (out s) = [1] \<and> came North (out s) = [1] @ queue_list (road s North)"
proof -
  obtain s where e: "pc_exec small_env one_car init_prodcons = Some s" and w: "went North (out s) = [1]"
    using one_car_went by blast
  have "came North (out s) = went North (out s) @ queue_list (road s North)"
    using prodcons_safe [OF small_env_ok pc_exec_reachable [OF e], where d = North] by blast
  with pc_exec_reachable [OF e] w show ?thesis by metis
qed

end
