(* ===== verification/Mailbox.thy ===== *)
theory Mailbox
  imports Prelude
begin

text \<open>
  The message system calls \<open>csc452_send_msg\<close> and \<open>csc452_get_msg\<close> that the project adds to
  \<open>src/Syscall Implementation/sys.c\<close>: one global linked list of messages in kernel memory.

  The heap is explicit. A block that \<open>kmalloc\<close> returns holds arbitrary contents, so the
  allocator gives an address together with the node that happens to be in memory there.
  \<open>kmalloc\<close>, \<open>kfree\<close> and \<open>strncpy_from_user\<close> are kernel code outside the repository: fields of
  \<open>msg_env\<close>, with their documented behaviour in \<open>msg_env_ok\<close>. A pointer of the caller is
  \<open>Some s\<close> for a readable terminated string and \<open>None\<close> for an address that faults.
\<close>

section \<open>State\<close>

record msg_node =
  m_from :: "char list"
  m_to :: "char list"
  m_msg :: "char list"
  m_next :: "nat option"

type_synonym msg_heap = "nat \<Rightarrow> msg_node option"

record msg_state =
  msg_heap :: msg_heap
  msg_head :: "nat option"

type_synonym user_ptr = "string option"

record msg_env =
  msg_kmalloc :: "msg_heap \<Rightarrow> (nat \<times> msg_node) option"
  msg_kfree :: "nat \<Rightarrow> msg_heap \<Rightarrow> msg_heap"
  strncpy_from_user :: "char list \<Rightarrow> user_ptr \<Rightarrow> nat \<Rightarrow> int \<times> char list"

text \<open>The block has the layout of the struct, whatever it contains.\<close>

definition node_shape :: "msg_node \<Rightarrow> bool" where
  "node_shape n \<longleftrightarrow> length (m_from n) = 33 \<and> length (m_to n) = 33 \<and> length (m_msg n) = 1024"

text \<open>
  \<open>strncpy_from_user\<close> copies up to and including the terminator, at most \<open>n\<close> bytes, and returns
  the length of the string, \<open>n\<close> when it was cut, or \<open>- EFAULT\<close>.
\<close>

definition user_copy :: "char list \<Rightarrow> string \<Rightarrow> nat \<Rightarrow> int \<times> char list" where
  "user_copy dst s n =
     (if length s < n then (int (length s), s @ NUL # drop (Suc (length s)) dst)
      else (int n, take n s @ drop n dst))"

definition msg_env_ok :: "msg_env \<Rightarrow> bool" where
  "msg_env_ok env \<longleftrightarrow>
     (\<forall>h a n. msg_kmalloc env h = Some (a, n) \<longrightarrow> h a = None \<and> node_shape n)
     \<and> (\<forall>h a b. b \<noteq> a \<longrightarrow> msg_kfree env a h b = h b)
     \<and> (\<forall>dst s n. c_string s \<longrightarrow> n \<le> length dst \<longrightarrow> strncpy_from_user env dst (Some s) n = user_copy dst s n)
     \<and> (\<forall>dst n. n \<le> length dst \<longrightarrow> fst (strncpy_from_user env dst None n) = - EFAULT
          \<and> length (snd (strncpy_from_user env dst None n)) = length dst)"

section \<open>The system calls\<close>

text \<open>The three copies into a node; their results are ignored.\<close>

definition fill_node :: "msg_env \<Rightarrow> user_ptr \<Rightarrow> user_ptr \<Rightarrow> user_ptr \<Rightarrow> msg_node \<Rightarrow> msg_node" where
  "fill_node env to msg from n =
     (let n = n\<lparr>m_from := snd (strncpy_from_user env (m_from n) from 33)\<rparr>;
          n = n\<lparr>m_to := snd (strncpy_from_user env (m_to n) to 33)\<rparr>
      in n\<lparr>m_msg := snd (strncpy_from_user env (m_msg n) msg 1024)\<rparr>)"

text \<open>\<open>while (temp->next != NULL) temp = temp->next;\<close>\<close>

partial_function (option) msg_last :: "msg_heap \<Rightarrow> nat \<Rightarrow> nat option" where
  [code]: "msg_last h temp =
     (case h temp of
        None \<Rightarrow> None
      | Some n \<Rightarrow> (case m_next n of None \<Rightarrow> Some temp | Some q \<Rightarrow> msg_last h q))"

definition csc452_send_msg ::
  "msg_env \<Rightarrow> user_ptr \<Rightarrow> user_ptr \<Rightarrow> user_ptr \<Rightarrow> msg_state \<Rightarrow> (int \<times> msg_state) option" where
  "csc452_send_msg env to msg from s =
     (case msg_head s of
        None \<Rightarrow>
          (case msg_kmalloc env (msg_heap s) of
             None \<Rightarrow> Some (- 1, s)
           | Some (a, n) \<Rightarrow>
               Some (0, s\<lparr>msg_head := Some a,
                          msg_heap := (msg_heap s)(a := Some (fill_node env to msg from n))\<rparr>))
      | Some first \<Rightarrow>
          (case msg_kmalloc env (msg_heap s) of
             None \<Rightarrow> Some (- 1, s)
           | Some (a, n) \<Rightarrow> do {
               let newNode = fill_node env to msg from n;
               let h = (msg_heap s)(a := Some newNode);
               temp \<leftarrow> msg_last h first;
               t \<leftarrow> h temp;
               let h = h(temp := Some (t\<lparr>m_next := Some a\<rparr>));
               n \<leftarrow> h a;
               Some (0, s\<lparr>msg_heap := h(a := Some (n\<lparr>m_next := None\<rparr>))\<rparr>)
             }))"

text \<open>\<open>strncpy (dst, src, n)\<close> from an array \<open>src\<close>.\<close>

definition strncpy_arr :: "char list \<Rightarrow> char list \<Rightarrow> nat \<Rightarrow> char list option" where
  "strncpy_arr dst src n =
     (if n \<le> length src \<or> NUL \<in> set src then strncpy dst (takeWhile (\<lambda>c. c \<noteq> NUL) src) n else None)"

text \<open>The search loop: the predecessor and the first node addressed to \<open>to\<close>.\<close>

partial_function (option) msg_find ::
  "msg_heap \<Rightarrow> string \<Rightarrow> nat \<Rightarrow> nat option \<Rightarrow> (nat \<times> nat) option option" where
  [code]: "msg_find h to before temp =
     (if temp = None then Some None
      else do {
        n \<leftarrow> h (the temp);
        b \<leftarrow> str_eq to (m_to n);
        if b then Some (Some (before, the temp)) else msg_find h to (the temp) (m_next n)
      })"

definition csc452_get_msg ::
  "msg_env \<Rightarrow> user_ptr \<Rightarrow> char list \<Rightarrow> char list \<Rightarrow> msg_state
     \<Rightarrow> (int \<times> char list \<times> char list \<times> msg_state) option" where
  "csc452_get_msg env to msg from s =
     (case msg_head s of
        None \<Rightarrow> Some (0, msg, from, s)
      | Some first \<Rightarrow> do {
          to \<leftarrow> to;
          r \<leftarrow> msg_find (msg_heap s) to first (Some first);
          (case r of
             None \<Rightarrow> Some (0, msg, from, s)
           | Some (before, temp) \<Rightarrow> do {
               n \<leftarrow> msg_heap s temp;
               msg \<leftarrow> strncpy_arr msg (m_msg n) 1024;
               from \<leftarrow> strncpy_arr from (m_from n) 33;
               if temp = first
               then Some (1, msg, from, s\<lparr>msg_head := m_next n, msg_heap := msg_kfree env temp (msg_heap s)\<rparr>)
               else do {
                 b \<leftarrow> msg_heap s before;
                 let h = (msg_heap s)(before := Some (b\<lparr>m_next := (if m_next n = None then None else m_next n)\<rparr>));
                 Some (1, msg, from, s\<lparr>msg_heap := msg_kfree env temp h\<rparr>)
               }
             })
        })"

text \<open>Before the first message.\<close>

definition init_msgs :: msg_state where
  "init_msgs = \<lparr>msg_heap = (\<lambda>_. None), msg_head = None\<rparr>"

section \<open>Specification: a list of messages\<close>

record mail =
  mail_from :: string
  mail_to :: string
  mail_msg :: string

text \<open>The first message to \<open>to\<close>, and the others.\<close>

definition spec_get :: "string \<Rightarrow> mail list \<Rightarrow> (mail \<times> mail list) option" where
  "spec_get to ms =
     (case dropWhile (\<lambda>m. mail_to m \<noteq> to) ms of
        [] \<Rightarrow> None
      | m # rest \<Rightarrow> Some (m, takeWhile (\<lambda>m. mail_to m \<noteq> to) ms @ rest))"

lemma spec_get_None_iff: "spec_get to ms = None \<longleftrightarrow> (\<forall>m \<in> set ms. mail_to m \<noteq> to)"
proof -
  have "spec_get to ms = None \<longleftrightarrow> dropWhile (\<lambda>m. mail_to m \<noteq> to) ms = []"
    by (cases "dropWhile (\<lambda>m. mail_to m \<noteq> to) ms") (simp_all add: spec_get_def del: dropWhile_eq_Nil_conv)
  then show ?thesis by (simp add: dropWhile_eq_Nil_conv)
qed

lemma spec_get_Some_iff:
  "spec_get to ms = Some (m, rest) \<longleftrightarrow>
     (\<exists>ys zs. ms = ys @ m # zs \<and> rest = ys @ zs \<and> mail_to m = to \<and> (\<forall>y \<in> set ys. mail_to y \<noteq> to))"
proof
  assume g: "spec_get to ms = Some (m, rest)"
  let ?P = "\<lambda>m. mail_to m \<noteq> to"
  from g obtain zs where z: "dropWhile ?P ms = m # zs" "rest = takeWhile ?P ms @ zs"
    by (auto simp: spec_get_def split: list.splits)
  have "ms = takeWhile ?P ms @ m # zs" using z(1) takeWhile_dropWhile_id [of ?P ms] by simp
  moreover have "mail_to m = to" using z(1) hd_dropWhile [of ?P ms] by auto
  moreover have "\<forall>y \<in> set (takeWhile ?P ms). mail_to y \<noteq> to" by (auto dest: set_takeWhileD)
  ultimately show "\<exists>ys zs. ms = ys @ m # zs \<and> rest = ys @ zs \<and> mail_to m = to \<and> (\<forall>y \<in> set ys. mail_to y \<noteq> to)"
    using z(2) by blast
next
  assume "\<exists>ys zs. ms = ys @ m # zs \<and> rest = ys @ zs \<and> mail_to m = to \<and> (\<forall>y \<in> set ys. mail_to y \<noteq> to)"
  then show "spec_get to ms = Some (m, rest)"
    by (auto simp: spec_get_def dropWhile_append takeWhile_append)
qed

section \<open>Messages in the heap\<close>

definition node_holds :: "msg_node \<Rightarrow> mail \<Rightarrow> bool" where
  "node_holds n m \<longleftrightarrow> node_shape n \<and> cstr (m_from n) = Some (mail_from m)
     \<and> cstr (m_to n) = Some (mail_to m) \<and> cstr (m_msg n) = Some (mail_msg m)"

text \<open>\<open>mseg h p xs q\<close>: following the links from \<open>p\<close> one meets the nodes and messages \<open>xs\<close>, then \<open>q\<close>.\<close>

primrec mseg :: "msg_heap \<Rightarrow> nat option \<Rightarrow> (nat \<times> mail) list \<Rightarrow> nat option \<Rightarrow> bool" where
  "mseg h p [] q \<longleftrightarrow> p = q"
| "mseg h p (x # xs) q \<longleftrightarrow>
     p = Some (fst x) \<and> (\<exists>n. h (fst x) = Some n \<and> node_holds n (snd x) \<and> mseg h (m_next n) xs q)"

definition mailbox :: "msg_state \<Rightarrow> (nat \<times> mail) list \<Rightarrow> bool" where
  "mailbox s xs \<longleftrightarrow> mseg (msg_heap s) (msg_head s) xs None \<and> distinct (map fst xs)"

lemma node_holds_next [simp]: "node_holds (n\<lparr>m_next := q\<rparr>) m = node_holds n m"
  by (simp add: node_holds_def node_shape_def)

lemma mseg_append: "mseg h p (xs @ ys) q \<longleftrightarrow> (\<exists>r. mseg h p xs r \<and> mseg h r ys q)"
  by (induction xs arbitrary: p) auto

lemma mseg_cong:
  "mseg h p xs q \<Longrightarrow> (\<And>a. a \<in> fst ` set xs \<Longrightarrow> h' a = h a) \<Longrightarrow> mseg h' p xs q"
  by (induction xs arbitrary: p) auto

lemma mseg_dom: "mseg h p xs q \<Longrightarrow> a \<in> fst ` set xs \<Longrightarrow> h a \<noteq> None"
  by (induction xs arbitrary: p) auto

lemma mseg_None_iff: "mseg h None xs None \<longleftrightarrow> xs = []"
  by (cases xs) auto

text \<open>Storing a link in the last node of a segment redirects the segment.\<close>

lemma mseg_set_last:
  assumes "mseg h p (ys @ [y]) q" "distinct (map fst (ys @ [y]))" "h (fst y) = Some n"
  shows "mseg (h(fst y := Some (n\<lparr>m_next := r\<rparr>))) p (ys @ [y]) r"
proof -
  from assms obtain t where "mseg h p ys t" "t = Some (fst y)" "node_holds n (snd y)"
    by (auto simp: mseg_append)
  moreover have "mseg (h(fst y := Some (n\<lparr>m_next := r\<rparr>))) p ys t"
    by (rule mseg_cong [OF \<open>mseg h p ys t\<close>]) (use assms(2) in \<open>auto simp: rev_image_eqI\<close>)
  ultimately show ?thesis by (auto simp: mseg_append)
qed

lemma msg_last_mseg: "mseg h (Some p) xs None \<Longrightarrow> msg_last h p = Some (fst (last xs))"
proof (induction xs arbitrary: p)
  case Nil
  then show ?case by simp
next
  case (Cons x xs)
  then obtain n where n: "h p = Some n" "mseg h (m_next n) xs None" "p = fst x" by auto
  show ?case
  proof (cases "m_next n")
    case None
    with n have "xs = []" by (simp add: mseg_None_iff)
    with n None show ?thesis by (simp add: msg_last.simps)
  next
    case (Some q)
    with n Cons.IH [of q] show ?thesis by (auto simp: msg_last.simps)
  qed
qed

lemma msg_find_step:
  assumes "h t = Some n" "node_holds n m" "c_string to"
  shows "msg_find h to b (Some t) = (if mail_to m = to then Some (Some (b, t)) else msg_find h to t (m_next n))"
  using assms str_eq_cstr [of to "m_to n" "mail_to m"]
  by (subst msg_find.simps) (auto simp: node_holds_def)

text \<open>The search loop ends, with the first matching node and its predecessor, or with none.\<close>

lemma msg_find_skip:
  "mseg h p ys q \<Longrightarrow> c_string to \<Longrightarrow> (\<forall>y \<in> set ys. mail_to (snd y) \<noteq> to) \<Longrightarrow>
     msg_find h to b p = msg_find h to (if ys = [] then b else fst (last ys)) q"
proof (induction ys arbitrary: p b)
  case Nil
  then show ?case by simp
next
  case (Cons y ys)
  then obtain n where n: "p = Some (fst y)" "h (fst y) = Some n" "node_holds n (snd y)"
    "mseg h (m_next n) ys q" by auto
  have "msg_find h to b p = msg_find h to (fst y) (m_next n)"
    using n Cons.prems msg_find_step [of h "fst y" n "snd y" to b] by simp
  also have "\<dots> = msg_find h to (if ys = [] then fst y else fst (last ys)) q"
    using Cons.IH [OF n(4), of "fst y"] Cons.prems by simp
  finally show ?case by simp
qed

lemma msg_find_None: "msg_find h to b None = Some None"
  by (simp add: msg_find.simps)

section \<open>Sending\<close>

text \<open>A message that fits the arrays of a node.\<close>

definition mail_fits :: "mail \<Rightarrow> bool" where
  "mail_fits m \<longleftrightarrow> c_string (mail_from m) \<and> c_string (mail_to m) \<and> c_string (mail_msg m)
     \<and> length (mail_from m) < 33 \<and> length (mail_to m) < 33 \<and> length (mail_msg m) < 1024"

lemma fill_node_holds:
  assumes "msg_env_ok env" "node_shape n" "mail_fits m"
  shows "node_holds (fill_node env (Some (mail_to m)) (Some (mail_msg m)) (Some (mail_from m)) n) m"
  using assms by (simp add: fill_node_def msg_env_ok_def node_holds_def node_shape_def mail_fits_def
      user_copy_def cstr_append_NUL)

lemma fill_node_next [simp]: "m_next (fill_node env t m f n) = m_next n"
  by (simp add: fill_node_def Let_def)

lemma send_appends:
  assumes ok: "msg_env_ok env" and mb: "mailbox s xs" and ne: "xs \<noteq> []"
    and a: "msg_kmalloc env (msg_heap s) = Some (a, junk)" and fits: "mail_fits m"
  shows "\<exists>s'. csc452_send_msg env (Some (mail_to m)) (Some (mail_msg m)) (Some (mail_from m)) s = Some (0, s')
           \<and> mailbox s' (xs @ [(a, m)])"
proof -
  let ?n = "fill_node env (Some (mail_to m)) (Some (mail_msg m)) (Some (mail_from m)) junk"
  let ?h = "(msg_heap s)(a := Some ?n)"
  have fresh: "msg_heap s a = None" and sh: "node_shape junk" using ok a by (auto simp: msg_env_ok_def)
  have holds: "node_holds ?n m"
    by (rule fill_node_holds [OF ok sh fits])
  from ne obtain ys y where xs: "xs = ys @ [y]" by (meson rev_exhaust)
  from mb have seg: "mseg (msg_heap s) (msg_head s) (ys @ [y]) None" and d: "distinct (map fst (ys @ [y]))"
    by (simp_all add: mailbox_def xs)
  have na: "a \<notin> fst ` set (ys @ [y])" using mseg_dom [OF seg] fresh by blast
  obtain p where p: "msg_head s = Some p" using seg by (cases ys) auto
  have seg': "mseg ?h (Some p) (ys @ [y]) None"
    by (rule mseg_cong [OF seg [unfolded p]]) (use na in auto)
  obtain t where t: "?h (fst y) = Some t" using mseg_dom [OF seg', of "fst y"] by auto
  have l: "msg_last ?h p = Some (fst y)" using msg_last_mseg [OF seg'] by simp
  let ?h2 = "?h(fst y := Some (t\<lparr>m_next := Some a\<rparr>))"
  let ?h3 = "?h2(a := Some (?n\<lparr>m_next := None\<rparr>))"
  have "mseg ?h2 (Some p) (ys @ [y]) (Some a)" by (rule mseg_set_last [OF seg' d t])
  then have "mseg ?h3 (Some p) (ys @ [y]) (Some a)" by (rule mseg_cong) (use na in auto)
  moreover have "mseg ?h3 (Some a) [(a, m)] None" using holds by simp
  ultimately have "mseg ?h3 (Some p) (xs @ [(a, m)]) None" unfolding xs by (subst mseg_append) blast
  moreover have "?h2 a = Some ?n" using na by simp
  moreover have "distinct (map fst (xs @ [(a, m)]))" using d na by (simp add: xs)
  ultimately show ?thesis
    using p a l t unfolding csc452_send_msg_def mailbox_def by (simp add: Let_def)
qed

text \<open>
  The first message: \<open>next\<close> of the new node is never assigned, so the list is well formed exactly
  when the memory happened to hold a null pointer there.
\<close>

lemma send_first:
  assumes ok: "msg_env_ok env" and mb: "mailbox s []"
    and a: "msg_kmalloc env (msg_heap s) = Some (a, junk)" and fits: "mail_fits m"
  shows "\<exists>s'. csc452_send_msg env (Some (mail_to m)) (Some (mail_msg m)) (Some (mail_from m)) s = Some (0, s')
           \<and> (mailbox s' [(a, m)] \<longleftrightarrow> m_next junk = None)
           \<and> msg_head s' = Some a
           \<and> (\<exists>n. msg_heap s' = (msg_heap s)(a := Some n) \<and> node_holds n m \<and> m_next n = m_next junk)"
proof -
  have "node_shape junk" using ok a by (auto simp: msg_env_ok_def)
  from fill_node_holds [OF ok this fits] mb a show ?thesis
    by (auto simp: mailbox_def csc452_send_msg_def intro: exI [of _ "fill_node env _ _ _ junk"])
qed

lemma send_no_memory:
  "msg_kmalloc env (msg_heap s) = None \<Longrightarrow> csc452_send_msg env t m f s = Some (- 1, s)"
  by (simp add: csc452_send_msg_def split: option.split)

section \<open>Receiving\<close>

lemma strncpy_arr_cstr:
  assumes "cstr src = Some t" "n \<le> length dst" "length t < n"
  shows "\<exists>b. strncpy_arr dst src n = Some b \<and> length b = length dst \<and> cstr b = Some t"
proof -
  have "NUL \<in> set src" and t: "takeWhile (\<lambda>c. c \<noteq> NUL) src = t"
    using assms(1) by (auto simp: cstr_def split: if_splits)
  then obtain b where b: "strncpy dst t n = Some b" "strncpy_arr dst src n = Some b"
    using assms(2) by (auto simp: strncpy_arr_def strncpy_def)
  with cstr_strncpy [OF cstr_c_string [OF assms(1)] assms(3) b(1)] strncpy_length [OF b(1)]
  show ?thesis by blast
qed

lemma kfree_msg_other: "msg_env_ok env \<Longrightarrow> b \<noteq> a \<Longrightarrow> msg_kfree env a h b = h b"
  by (simp add: msg_env_ok_def)

lemma get_found:
  assumes ok: "msg_env_ok env" and mb: "mailbox s (ys @ (a, m) # zs)" and to: "c_string to"
    and m: "mail_to m = to" and ys: "\<forall>y \<in> set ys. mail_to (snd y) \<noteq> to"
    and len: "1024 \<le> length msg" "33 \<le> length from"
  shows "\<exists>msg' from' s'. csc452_get_msg env (Some to) msg from s = Some (1, msg', from', s')
           \<and> cstr msg' = Some (mail_msg m) \<and> cstr from' = Some (mail_from m)
           \<and> length msg' = length msg \<and> length from' = length from \<and> mailbox s' (ys @ zs)"
proof -
  let ?h = "msg_heap s"
  from mb have d: "distinct (map fst (ys @ (a, m) # zs))"
    and "mseg ?h (msg_head s) (ys @ (a, m) # zs) None" by (simp_all add: mailbox_def)
  then obtain n where seg: "mseg ?h (msg_head s) ys (Some a)" and n: "?h a = Some n" "node_holds n m"
    and rest: "mseg ?h (m_next n) zs None" by (auto simp: mseg_append)
  have len_n: "length (mail_msg m) < 1024" "length (mail_from m) < 33"
    and cs: "cstr (m_msg n) = Some (mail_msg m)" "cstr (m_from n) = Some (mail_from m)"
    using n(2) cstr_length by (fastforce simp: node_holds_def node_shape_def)+
  obtain msg' where msg': "strncpy_arr msg (m_msg n) 1024 = Some msg'" "length msg' = length msg"
    "cstr msg' = Some (mail_msg m)" using strncpy_arr_cstr [OF cs(1) len(1) len_n(1)] by blast
  obtain from' where from': "strncpy_arr from (m_from n) 33 = Some from'" "length from' = length from"
    "cstr from' = Some (mail_from m)" using strncpy_arr_cstr [OF cs(2) len(2) len_n(2)] by blast
  obtain p where p: "msg_head s = Some p" using seg by (cases ys) auto
  have find: "msg_find ?h to p (Some p) = Some (Some (if ys = [] then p else fst (last ys), a))"
    using msg_find_skip [OF seg to ys, of p] msg_find_step [of ?h a n m to] n to m p by simp
  have free: "mseg (msg_kfree env a h) q vs r" if "mseg h q vs r" "a \<notin> fst ` set vs" for h q vs r
    by (rule mseg_cong [OF that(1)]) (metis ok that(2) kfree_msg_other)
  have a: "a \<notin> fst ` set ys" "a \<notin> fst ` set zs" using d by auto
  show ?thesis
  proof (cases "ys = []")
    case True
    then have "p = a" using seg p by simp
    with True p find n msg' from' free [OF rest] a d show ?thesis
      by (simp add: csc452_get_msg_def mailbox_def)
  next
    case False
    then obtain us u where us: "ys = us @ [u]" by (meson rev_exhaust)
    have "p \<noteq> a" using seg p a us by (cases us) auto
    obtain b where b: "?h (fst u) = Some b" using mseg_dom [OF seg, of "fst u"] us by auto
    let ?h2 = "?h(fst u := Some (b\<lparr>m_next := m_next n\<rparr>))"
    have "mseg ?h2 (Some p) ys (m_next n)"
      using mseg_set_last [of ?h "Some p" us u "Some a" b "m_next n"] seg d b us p by simp
    moreover have "mseg ?h2 (m_next n) zs None"
      by (rule mseg_cong [OF rest]) (use d us in \<open>auto simp: rev_image_eqI\<close>)
    ultimately have "mseg ?h2 (Some p) (ys @ zs) None" by (subst mseg_append) blast
    then have "mailbox (s\<lparr>msg_heap := msg_kfree env a ?h2\<rparr>) (ys @ zs)"
      using free [of ?h2 "Some p" "ys @ zs" None] a d p by (simp add: mailbox_def image_Un)
    moreover have "(if m_next n = None then None else m_next n) = m_next n" by simp
    then have "csc452_get_msg env (Some to) msg from s
        = Some (1, msg', from', s\<lparr>msg_heap := msg_kfree env a ?h2\<rparr>)"
      using \<open>p \<noteq> a\<close> False us p find n(1) b msg' from' by (simp add: csc452_get_msg_def Let_def)
    ultimately show ?thesis using msg' from' by blast
  qed
qed

lemma get_not_found:
  assumes "mailbox s xs" "c_string to" "\<forall>x \<in> set xs. mail_to (snd x) \<noteq> to"
  shows "csc452_get_msg env (Some to) msg from s = Some (0, msg, from, s)"
proof (cases "msg_head s")
  case None
  then show ?thesis by (simp add: csc452_get_msg_def)
next
  case (Some p)
  with assms have "msg_find (msg_heap s) to p (Some p) = Some None"
    using msg_find_skip [of "msg_heap s" "Some p" xs None to p] by (simp add: mailbox_def msg_find_None)
  with Some show ?thesis by (simp add: csc452_get_msg_def)
qed

section \<open>The contract the callers rely on\<close>

definition inbox :: "msg_state \<Rightarrow> mail list \<Rightarrow> bool" where
  "inbox s ms \<longleftrightarrow> (\<exists>xs. mailbox s xs \<and> map snd xs = ms)"

text \<open>Receiving one message: the first one to the caller is delivered and removed.\<close>

locale mail_service =
  fixes get :: "user_ptr \<Rightarrow> char list \<Rightarrow> char list \<Rightarrow> 'k \<Rightarrow> (int \<times> char list \<times> char list \<times> 'k) option"
    and box :: "'k \<Rightarrow> mail list \<Rightarrow> bool"
  assumes get_one: "box k ms \<Longrightarrow> c_string to \<Longrightarrow> 1024 \<le> length msg \<Longrightarrow> 33 \<le> length from \<Longrightarrow>
      spec_get to ms = Some (m, rest) \<Longrightarrow>
      \<exists>msg' from' k'. get (Some to) msg from k = Some (1, msg', from', k')
         \<and> cstr msg' = Some (mail_msg m) \<and> cstr from' = Some (mail_from m)
         \<and> length msg' = length msg \<and> length from' = length from \<and> box k' rest"
    and get_none: "box k ms \<Longrightarrow> c_string to \<Longrightarrow> spec_get to ms = None \<Longrightarrow>
      get (Some to) msg from k = Some (0, msg, from, k)"

lemma inbox_get_one:
  assumes "msg_env_ok env" "inbox s ms" "c_string to" "1024 \<le> length msg" "33 \<le> length from"
    and "spec_get to ms = Some (m, rest)"
  shows "\<exists>msg' from' s'. csc452_get_msg env (Some to) msg from s = Some (1, msg', from', s')
           \<and> cstr msg' = Some (mail_msg m) \<and> cstr from' = Some (mail_from m)
           \<and> length msg' = length msg \<and> length from' = length from \<and> inbox s' rest"
proof -
  from assms(6) obtain ys zs where ms: "ms = ys @ m # zs" "rest = ys @ zs" "mail_to m = to"
    and ne: "\<forall>y \<in> set ys. mail_to y \<noteq> to" by (auto simp: spec_get_Some_iff)
  from assms(2) obtain xs where mb: "mailbox s xs" and xs: "map snd xs = ys @ m # zs"
    by (auto simp: inbox_def ms)
  from xs obtain us a vs where "xs = us @ (a, m) # vs" "map snd us = ys" "map snd vs = zs"
    by (auto simp: map_eq_append_conv map_eq_Cons_conv)
  with get_found [of env s us a m vs to msg "from"] mb assms ms ne show ?thesis
    by (force simp: inbox_def)
qed

lemma inbox_get_none:
  assumes "inbox s ms" "c_string to" "spec_get to ms = None"
  shows "csc452_get_msg env (Some to) msg from s = Some (0, msg, from, s)"
  using assms get_not_found by (fastforce simp: inbox_def spec_get_None_iff)

text \<open>A concrete allocator, for evaluation: address 0, 1 or 2, with the link that \<open>junk\<close> says.\<close>

definition blank_node :: "nat option \<Rightarrow> msg_node" where
  "blank_node junk = \<lparr>m_from = replicate 33 (CHR ''x''), m_to = replicate 33 (CHR ''x''),
     m_msg = replicate 1024 (CHR ''x''), m_next = junk\<rparr>"

definition tiny_msg_env :: "nat option \<Rightarrow> msg_env" where
  "tiny_msg_env junk = \<lparr>
     msg_kmalloc = (\<lambda>h. map_option (\<lambda>a. (a, blank_node junk)) (List.find (\<lambda>a. h a = None) [0..<3])),
     msg_kfree = (\<lambda>a h. h(a := None)),
     strncpy_from_user = (\<lambda>dst p n. case p of None \<Rightarrow> (- EFAULT, dst) | Some s \<Rightarrow> user_copy dst s n)\<rparr>"

lemma tiny_msg_env_ok: "msg_env_ok (tiny_msg_env junk)"
  by (auto simp: msg_env_ok_def tiny_msg_env_def blank_node_def node_shape_def find_Some_iff)

lemma inbox_init: "inbox init_msgs []"
  by (simp add: inbox_def mailbox_def init_msgs_def)

definition hello_mail :: mail where
  "hello_mail = \<lparr>mail_from = ''ann'', mail_to = ''bob'', mail_msg = ''hi''\<rparr>"

lemma hello_mail_fits: "mail_fits hello_mail"
  by (simp add: mail_fits_def hello_mail_def c_string_def)

section \<open>Properties\<close>

text \<open>
  C22. Sending. When the list is not empty and there is memory, the call succeeds and the message is appended
  at the end, the others untouched. Into an empty list it succeeds as well, but since the code does not
  assign \<open>next\<close> of the first node, the list is well formed afterwards exactly when the fresh block happened
  to hold a null pointer there. Without memory the call returns \<open>- 1\<close> and changes nothing.
\<close>

theorem send_msg_correct:
  assumes "msg_env_ok env" "inbox s ms" "mail_fits m"
  shows "case msg_kmalloc env (msg_heap s) of
     None \<Rightarrow> csc452_send_msg env (Some (mail_to m)) (Some (mail_msg m)) (Some (mail_from m)) s = Some (- 1, s)
   | Some (a, junk) \<Rightarrow>
       (\<exists>s'. csc452_send_msg env (Some (mail_to m)) (Some (mail_msg m)) (Some (mail_from m)) s = Some (0, s')
          \<and> (ms \<noteq> [] \<or> m_next junk = None \<longleftrightarrow> inbox s' (ms @ [m])))"
proof -
  obtain xs where mb: "mailbox s xs" and xs: "map snd xs = ms" using assms(2) by (auto simp: inbox_def)
  show ?thesis
  proof (cases "msg_kmalloc env (msg_heap s)")
    case None
    then show ?thesis by (simp add: send_no_memory)
  next
    case (Some aj)
    obtain a junk where aj: "aj = (a, junk)" by fastforce
    show ?thesis
    proof (cases "xs = []")
      case True
      with send_first [OF assms(1) _ _ assms(3), of s a junk] mb Some aj obtain s' n where
        s': "csc452_send_msg env (Some (mail_to m)) (Some (mail_msg m)) (Some (mail_from m)) s = Some (0, s')"
        "mailbox s' [(a, m)] \<longleftrightarrow> m_next junk = None" "msg_head s' = Some a" "msg_heap s' a = Some n"
        "m_next n = m_next junk" by (metis fun_upd_same)
      then have "inbox s' [m] \<longleftrightarrow> m_next junk = None"
        by (auto simp: inbox_def mailbox_def intro!: exI [of _ "[(a, m)]"])
      with True xs s' Some aj show ?thesis by auto
    next
      case False
      with send_appends [OF assms(1) mb False _ assms(3), of a junk] xs Some aj show ?thesis
        by (force simp: inbox_def)
    qed
  qed
qed

theorem send_msg_correct_witness:
  "\<exists>s1 s2. csc452_send_msg (tiny_msg_env None) (Some ''bob'') (Some ''hi'') (Some ''ann'') init_msgs = Some (0, s1)
     \<and> inbox s1 [hello_mail]
     \<and> csc452_send_msg (tiny_msg_env (Some 9)) (Some ''bob'') (Some ''hi'') (Some ''ann'') init_msgs = Some (0, s2)
     \<and> \<not> inbox s2 [hello_mail]"
proof -
  have k: "msg_kmalloc (tiny_msg_env j) (msg_heap init_msgs) = Some (0, blank_node j)" for j
    by (simp add: tiny_msg_env_def init_msgs_def upt_rec)
  have f: "mail_to hello_mail = ''bob''" "mail_msg hello_mail = ''hi''" "mail_from hello_mail = ''ann''"
    by (simp_all add: hello_mail_def)
  note c = send_msg_correct [OF tiny_msg_env_ok inbox_init hello_mail_fits, unfolded k f, simplified]
  from c [of None] c [of "Some 9"] show ?thesis by (auto simp: blank_node_def)
qed

text \<open>
  C8. Receiving. If a message to the caller is in the list, the oldest one is delivered: the call
  returns 1, both buffers hold terminated copies of its text and of its sender, and exactly
  that message is removed, the others keeping their order. Otherwise the call returns 0 and changes nothing.
\<close>

theorem get_msg_correct:
  assumes "msg_env_ok env" "inbox s ms" "c_string to" "1024 \<le> length msg" "33 \<le> length from"
  shows "case spec_get to ms of
     None \<Rightarrow> csc452_get_msg env (Some to) msg from s = Some (0, msg, from, s)
   | Some (m, rest) \<Rightarrow>
       (\<exists>msg' from' s'. csc452_get_msg env (Some to) msg from s = Some (1, msg', from', s')
          \<and> cstr msg' = Some (mail_msg m) \<and> cstr from' = Some (mail_from m) \<and> inbox s' rest)"
proof (cases "spec_get to ms")
  case None
  with inbox_get_none [OF assms(2,3)] show ?thesis by simp
next
  case (Some r)
  with inbox_get_one [OF assms, of "fst r" "snd r"] show ?thesis by (auto split: prod.split)
qed

theorem get_msg_correct_witness:
  "\<exists>s msg' from' s'.
     csc452_send_msg (tiny_msg_env None) (Some ''bob'') (Some ''hi'') (Some ''ann'') init_msgs = Some (0, s)
     \<and> csc452_get_msg (tiny_msg_env None) (Some ''bob'') (replicate 1024 NUL) (replicate 33 NUL) s
         = Some (1, msg', from', s')
     \<and> cstr msg' = Some ''hi'' \<and> cstr from' = Some ''ann'' \<and> inbox s' []"
proof -
  have f: "mail_to hello_mail = ''bob''" "mail_msg hello_mail = ''hi''" "mail_from hello_mail = ''ann''"
    by (simp_all add: hello_mail_def)
  have k: "msg_kmalloc (tiny_msg_env None) (msg_heap init_msgs) = Some (0, blank_node None)"
    by (simp add: tiny_msg_env_def init_msgs_def upt_rec)
  have "mailbox init_msgs []" by (simp add: mailbox_def init_msgs_def)
  from send_first [OF tiny_msg_env_ok this k hello_mail_fits] obtain s where
    s: "csc452_send_msg (tiny_msg_env None) (Some ''bob'') (Some ''hi'') (Some ''ann'') init_msgs = Some (0, s)"
    "mailbox s [(0, hello_mail)]" by (auto simp: f blank_node_def)
  then have i: "inbox s [hello_mail]" by (force simp: inbox_def)
  have g: "spec_get ''bob'' [hello_mail] = Some (hello_mail, [])" by (simp add: spec_get_def f)
  have "c_string ''bob''" by (simp add: c_string_def)
  from get_msg_correct [OF tiny_msg_env_ok i this, of "replicate 1024 NUL" "replicate 33 NUL"] s(1) g f
  show ?thesis by auto
qed

end
