(* ===== verification/Osmsg.thy ===== *)
theory Osmsg
  imports Mailbox
begin

text \<open>
  The command-line program \<open>src/Syscall Implementation/osmsg.c\<close> on top of the message system calls:
  its two wrappers, the numbers they use (\<open>src/Syscall Implementation/unistd.h\<close>) and \<open>main\<close>.
  The printed lines are returned as a list; \<open>getenv ("USER")\<close> is an argument, as is what the two
  uninitialised buffers happen to contain.
\<close>

definition NR_csc452_send_msg :: nat where
  "NR_csc452_send_msg = 443"

definition NR_csc452_get_msg :: nat where
  "NR_csc452_get_msg = 444"

text \<open>\<open>syscall (nr, to, msg, from)\<close> for the call that only reads the strings, and for the one that fills them.\<close>

definition syscall_in ::
  "msg_env \<Rightarrow> nat \<Rightarrow> user_ptr \<Rightarrow> user_ptr \<Rightarrow> user_ptr \<Rightarrow> msg_state \<Rightarrow> (int \<times> msg_state) option" where
  "syscall_in env nr to msg from s =
     (if nr = NR_csc452_send_msg then csc452_send_msg env to msg from s else None)"

definition syscall_out ::
  "msg_env \<Rightarrow> nat \<Rightarrow> user_ptr \<Rightarrow> char list \<Rightarrow> char list \<Rightarrow> msg_state
     \<Rightarrow> (int \<times> char list \<times> char list \<times> msg_state) option" where
  "syscall_out env nr to msg from s =
     (if nr = NR_csc452_get_msg then csc452_get_msg env to msg from s else None)"

definition send_msg :: "msg_env \<Rightarrow> string \<Rightarrow> string \<Rightarrow> string \<Rightarrow> msg_state \<Rightarrow> (int \<times> msg_state) option" where
  "send_msg env to msg from s = syscall_in env 443 (Some to) (Some msg) (Some from) s"

definition get_msg ::
  "msg_env \<Rightarrow> user_ptr \<Rightarrow> char list \<Rightarrow> char list \<Rightarrow> msg_state
     \<Rightarrow> (int \<times> char list \<times> char list \<times> msg_state) option" where
  "get_msg env to msg from s = syscall_out env 444 to msg from s"

lemma msg_wrapper_eqs [simp]:
  "send_msg env t m f s = csc452_send_msg env (Some t) (Some m) (Some f) s"
  "get_msg env p mb fb s = csc452_get_msg env p mb fb s"
  by (simp_all add: send_msg_def get_msg_def syscall_in_def syscall_out_def
      NR_csc452_send_msg_def NR_csc452_get_msg_def)

definition said_line :: "string \<Rightarrow> string \<Rightarrow> string" where
  "said_line from msg = from @ '' said: '' @ msg @ [CHR 0x0A]"

text \<open>\<open>while (get_msg (user, msg, from) == 1) printf (...)\<close>, with the system call as an argument.\<close>

partial_function (option) drain ::
  "(user_ptr \<Rightarrow> char list \<Rightarrow> char list \<Rightarrow> 'k \<Rightarrow> (int \<times> char list \<times> char list \<times> 'k) option)
     \<Rightarrow> string \<Rightarrow> char list \<Rightarrow> char list \<Rightarrow> string list \<Rightarrow> 'k \<Rightarrow> (string list \<times> 'k) option" where
  [code]: "drain get user msg from out k = do {
     r \<leftarrow> get (Some user) msg from k;
     if fst r = 1
     then do {
       f \<leftarrow> cstr (fst (snd (snd r)));
       m \<leftarrow> cstr (fst (snd r));
       drain get user (fst (snd r)) (fst (snd (snd r))) (out @ [said_line f m]) (snd (snd (snd r)))
     }
     else Some (out, snd (snd (snd r)))
   }"

text \<open>
  \<open>main\<close>: the exit status, the lines printed and the kernel state. \<open>argv\<close> has the program name
  first; \<open>junk\<close> is what the local buffers \<open>user\<close>, \<open>from\<close> and \<open>msg\<close> contain before they are written.
\<close>

definition osmsg_main ::
  "msg_env \<Rightarrow> string option \<Rightarrow> (nat \<Rightarrow> char list) \<Rightarrow> (int \<Rightarrow> string) \<Rightarrow> string list \<Rightarrow> msg_state
     \<Rightarrow> (int \<times> string list \<times> msg_state) option" where
  "osmsg_main env USER junk show argv s =
     (let argc = length argv in
      if \<not> (argc = 2 \<or> argc = 4)
      then Some (- 1, [''Please have correct number of argument(s), the current count is '' @ show (int argc) @ [CHR 0x0A]], s)
      else if argc = 2 \<and> argv ! 1 \<noteq> ''-r'' \<or> argc = 4 \<and> argv ! 1 \<noteq> ''-s''
      then Some (- 1, [''Invalid commands'' @ [CHR 0x0A]], s)
      else do {
        u \<leftarrow> USER;
        ubuf \<leftarrow> strcpy (junk 33) u;
        user \<leftarrow> cstr ubuf;
        if argv ! 1 = ''-s''
        then do {
          (r, s) \<leftarrow> send_msg env (argv ! 2) (argv ! 3) user s;
          Some (if r = 0 then (0, [''Send successful'' @ [CHR 0x0A]], s)
                else (- 1, [''Send failed'' @ [CHR 0x0A]], s))
        }
        else do {
          (out, s) \<leftarrow> drain (get_msg env) user (junk 1024) (junk 33) [] s;
          Some (0, out, s)
        }
      })"

section \<open>The receive loop\<close>

context mail_service
begin

text \<open>The loop ends after one round for each message to the user, and prints them in order.\<close>

lemma drain_all:
  assumes "box k ms" "c_string user" "1024 \<le> length msg" "33 \<le> length from"
  shows "\<exists>k'. drain get user msg from out k
      = Some (out @ map (\<lambda>m. said_line (mail_from m) (mail_msg m)) (filter (\<lambda>m. mail_to m = user) ms), k')
      \<and> box k' (filter (\<lambda>m. mail_to m \<noteq> user) ms)"
  using assms
proof (induction "length ms" arbitrary: k ms msg "from" out rule: less_induct)
  case less
  show ?case
  proof (cases "spec_get user ms")
    case None
    from get_none [OF less.prems(1,2) None]
    have "drain get user msg from out k = Some (out, k)" by (subst drain.simps) simp
    moreover have "\<forall>m \<in> set ms. mail_to m \<noteq> user" using None by (simp add: spec_get_None_iff)
    ultimately show ?thesis using less.prems(1) by (simp add: filter_False filter_True)
  next
    case (Some r)
    obtain m rest where r: "r = (m, rest)" by fastforce
    with Some obtain ys zs where ms: "ms = ys @ m # zs" "rest = ys @ zs" "mail_to m = user"
      and ne: "\<forall>y \<in> set ys. mail_to y \<noteq> user" by (auto simp: spec_get_Some_iff)
    from get_one [OF less.prems] Some r obtain msg' from' k' where
      g: "get (Some user) msg from k = Some (1, msg', from', k')"
      "cstr msg' = Some (mail_msg m)" "cstr from' = Some (mail_from m)"
      "length msg' = length msg" "length from' = length from" "box k' rest" by blast
    have "drain get user msg from out k
        = drain get user msg' from' (out @ [said_line (mail_from m) (mail_msg m)]) k'"
      by (subst drain.simps) (simp add: g)
    moreover have "length rest < length ms" by (simp add: ms)
    ultimately show ?thesis
      using less.hyps [of rest k' msg' from' "out @ [said_line (mail_from m) (mail_msg m)]"] g less.prems ne
      by (auto simp: ms filter_False)
  qed
qed

end

text \<open>The kernel services that meet their documentation.\<close>

definition good_box :: "msg_env \<Rightarrow> msg_state \<Rightarrow> mail list \<Rightarrow> bool" where
  "good_box env s ms \<longleftrightarrow> msg_env_ok env \<and> inbox s ms"

interpretation om: mail_service "get_msg env" "good_box env" for env
proof (unfold_locales, goal_cases)
  case 1
  then show ?case using inbox_get_one by (fastforce simp: good_box_def)
next
  case 2
  then show ?case using inbox_get_none by (auto simp: good_box_def)
qed

section \<open>Properties\<close>

text \<open>
  C21. \<open>osmsg -r\<close> delivers the mail: when the user's name fits the buffer, the receive loop terminates, the
  program prints one line for each stored message to that user, oldest first, returns 0, and
  leaves exactly the other users' messages, in order.
\<close>

theorem osmsg_receive:
  assumes "msg_env_ok env" "inbox s ms" "c_string user" "length user < 33"
    and "length (junk 33) = 33" "length (junk 1024) = 1024"
  shows "\<exists>s'. osmsg_main env (Some user) junk show [prog, ''-r''] s
      = Some (0, map (\<lambda>m. said_line (mail_from m) (mail_msg m)) (filter (\<lambda>m. mail_to m = user) ms), s')
    \<and> inbox s' (filter (\<lambda>m. mail_to m \<noteq> user) ms)"
proof -
  obtain b where b: "strcpy (junk 33) user = Some b" using assms(4,5) by (simp add: strcpy_def)
  then have "cstr b = Some user" using assms(3) cstr_strcpy by blast
  moreover have "good_box env s ms" using assms(1,2) by (simp add: good_box_def)
  from om.drain_all [OF this assms(3), of "junk 1024" "junk 33" "[]"] assms obtain s' where
    "drain (get_msg env) user (junk 1024) (junk 33) [] s
       = Some (map (\<lambda>m. said_line (mail_from m) (mail_msg m)) (filter (\<lambda>m. mail_to m = user) ms), s')"
    "inbox s' (filter (\<lambda>m. mail_to m \<noteq> user) ms)" by (auto simp: good_box_def)
  ultimately show ?thesis using b by (simp add: osmsg_main_def)
qed

theorem osmsg_receive_witness:
  "\<exists>s s'. inbox s [hello_mail]
     \<and> osmsg_main (tiny_msg_env None) (Some ''bob'') (\<lambda>n. replicate n NUL) (\<lambda>i. []) [''osmsg'', ''-r''] s
         = Some (0, [''ann said: hi'' @ [CHR 0x0A]], s') \<and> inbox s' []"
proof -
  have k: "msg_kmalloc (tiny_msg_env None) (msg_heap init_msgs) = Some (0, blank_node None)"
    by (simp add: tiny_msg_env_def init_msgs_def upt_rec)
  have "mailbox init_msgs []" by (simp add: mailbox_def init_msgs_def)
  from send_first [OF tiny_msg_env_ok this k hello_mail_fits] obtain s where "mailbox s [(0, hello_mail)]"
    by (auto simp: blank_node_def)
  then have i: "inbox s [hello_mail]" by (force simp: inbox_def)
  have "c_string ''bob''" by (simp add: c_string_def)
  from osmsg_receive [OF tiny_msg_env_ok i this, of "\<lambda>n. replicate n NUL" None "\<lambda>i. []" "''osmsg''"] i
  show ?thesis by (auto simp: hello_mail_def said_line_def)
qed

end
