(* ===== verification/Graphics.thy ===== *)
theory Graphics
  imports Prelude
begin

unbundle bit_operations_syntax

text \<open>
  The graphics library \<open>src/Graphic Library/library.c\<close> with the macro and type of \<open>graphics.h\<close>.

  A surface (the frame buffer or an off-screen buffer) is the list of its 16-bit pixels, as
  long as the mapping that holds it; an access outside is \<open>None\<close>. What the devices answer (the
  two \<open>ioctl\<close> requests on the frame buffer, the terminal flags) is the record \<open>device\<close>. Signed overflow
  in the line loop is \<open>None\<close> too, so that a result shows that the loop ends and stays in range.
\<close>

section \<open>Colours\<close>

type_synonym color_t = "16 word"
type_synonym surface = "color_t list"

definition RGB :: "int \<Rightarrow> int \<Rightarrow> int \<Rightarrow> color_t" where
  "RGB r g b = word_of_int ((u16 (push_bit 11 r) OR push_bit 5 g) OR b)"

section \<open>State\<close>

record device =
  yres_virtual :: int
  line_length :: int
  dev_mem :: surface
  dev_lflag :: "32 word"

record gfx =
  yLength :: int
  bitDepth :: int
  gsize :: int
  frameBuffer :: surface
  mapped :: bool
  term_old :: "32 word"
  term_new :: "32 word"
  tty_lflag :: "32 word"

definition ICANON :: "32 word" where "ICANON = 2"
definition ECHO :: "32 word" where "ECHO = 8"

definition c_int :: "int \<Rightarrow> int option" where
  "c_int x = (if - 2147483648 \<le> x \<and> x < 2147483648 then Some x else None)"

lemma c_int_Some [c_conv]: "- 2147483648 \<le> x \<Longrightarrow> x < 2147483648 \<Longrightarrow> c_int x = Some x"
  by (simp add: c_int_def)

section \<open>Operations\<close>

definition init_graphics :: "device \<Rightarrow> gfx option" where
  "init_graphics d = do {
     sz \<leftarrow> c_int (yres_virtual d * line_length d);
     let new = dev_lflag d;
     let old = new;
     let new = new AND NOT (ICANON OR ECHO);
     Some \<lparr>yLength = yres_virtual d, bitDepth = line_length d, gsize = sz,
           frameBuffer = take (nat (c_div sz 2)) (dev_mem d), mapped = True,
           term_old = old, term_new = new, tty_lflag = new\<rparr>
   }"

text \<open>The loop of \<open>clear_screen\<close> from index \<open>i\<close>.\<close>

function clear_from :: "int \<Rightarrow> int \<Rightarrow> surface \<Rightarrow> surface option" where
  "clear_from lim i img =
     (if i < lim then do { img \<leftarrow> c_set img i 0; clear_from lim (i + 1) img } else Some img)"
  by pat_completeness auto
termination by (relation "measure (\<lambda>(lim, i, img). nat (lim - i))") auto

definition clear_screen :: "gfx \<Rightarrow> surface \<Rightarrow> surface option" where
  "clear_screen g img = clear_from (c_div (yLength g * bitDepth g) 2) 0 img"

definition exit_graphics :: "gfx \<Rightarrow> gfx option" where
  "exit_graphics g = do {
     fb \<leftarrow> clear_screen g (frameBuffer g);
     Some (g\<lparr>frameBuffer := fb, mapped := False, tty_lflag := term_old g\<rparr>)
   }"

text \<open>One key stroke: the first character of the input; \<open>None\<close> while there is none.\<close>

definition getkey :: "char list \<Rightarrow> (char \<times> char list) option" where
  "getkey inp = (case inp of [] \<Rightarrow> None | k # ks \<Rightarrow> Some (k, ks))"

text \<open>The nanoseconds \<open>sleep_ms\<close> asks for.\<close>

definition sleep_ms :: "int \<Rightarrow> int" where
  "sleep_ms ms = s64 (ms * 1000000)"

definition draw_pixel :: "gfx \<Rightarrow> surface \<Rightarrow> int \<Rightarrow> int \<Rightarrow> color_t \<Rightarrow> surface option" where
  "draw_pixel g img x y color =
     (if x < 0 \<or> y < 0 then Some img
      else if x > c_div (bitDepth g) 2 \<or> y > yLength g then Some img
      else do {
        i \<leftarrow> c_int (y * c_div (bitDepth g) 2 + x);
        c_set img i color
      })"

definition absoluteVal :: "int \<Rightarrow> int" where
  "absoluteVal number = (if number \<ge> 0 then number else (- 1) * number)"

text \<open>The \<open>for (;;)\<close> loop of \<open>draw_line\<close>.\<close>

partial_function (option) line_loop ::
  "gfx \<Rightarrow> color_t \<Rightarrow> int \<Rightarrow> int \<Rightarrow> int \<Rightarrow> int \<Rightarrow> int \<Rightarrow> int \<Rightarrow> int \<Rightarrow> int \<Rightarrow> int \<Rightarrow> surface \<Rightarrow> surface option" where
  [code]: "line_loop g c x2 y2 dx sx dy sy x1 y1 err img = do {
     img \<leftarrow> draw_pixel g img x1 y1 c;
     if x1 = x2 \<and> y1 = y2 then Some img
     else do {
       e2 \<leftarrow> c_int (2 * err);
       err' \<leftarrow> (if e2 \<ge> dy then c_int (err + dy) else Some err);
       x' \<leftarrow> (if e2 \<ge> dy then c_int (x1 + sx) else Some x1);
       err'' \<leftarrow> (if e2 \<le> dx then c_int (err' + dx) else Some err');
       y' \<leftarrow> (if e2 \<le> dx then c_int (y1 + sy) else Some y1);
       line_loop g c x2 y2 dx sx dy sy x' y' err'' img
     }
   }"

definition draw_line :: "gfx \<Rightarrow> surface \<Rightarrow> int \<Rightarrow> int \<Rightarrow> int \<Rightarrow> int \<Rightarrow> color_t \<Rightarrow> surface option" where
  "draw_line g img x1 y1 x2 y2 c = do {
     ddx \<leftarrow> c_int (x2 - x1);
     ddy \<leftarrow> c_int (y2 - y1);
     dx \<leftarrow> c_int (absoluteVal ddx);
     ady \<leftarrow> c_int (absoluteVal ddy);
     let sx = (if x1 < x2 then 1 else - 1);
     let dy = - ady;
     let sy = (if y1 < y2 then 1 else - 1);
     err \<leftarrow> c_int (dx + dy);
     line_loop g c x2 y2 dx sx dy sy x1 y1 err img
   }"

text \<open>Anonymous memory is zero.\<close>

definition create_buffer :: "gfx \<Rightarrow> surface" where
  "create_buffer g = replicate (nat (c_div (gsize g) 2)) 0"

text \<open>The copy loop of \<open>blit\<close> from index \<open>i\<close>.\<close>

function blit_from :: "int \<Rightarrow> int \<Rightarrow> surface \<Rightarrow> surface \<Rightarrow> surface option" where
  "blit_from lim i src fb =
     (if i < lim
      then do { v \<leftarrow> c_get src i; fb \<leftarrow> c_set fb i v; blit_from lim (i + 1) src fb }
      else Some fb)"
  by pat_completeness auto
termination by (relation "measure (\<lambda>(lim, i, src, fb). nat (lim - i))") auto

definition blit :: "gfx \<Rightarrow> surface \<Rightarrow> gfx option" where
  "blit g src = do {
     fb \<leftarrow> blit_from (c_div (gsize g) 2) 0 src (frameBuffer g);
     Some (g\<lparr>frameBuffer := fb\<rparr>)
   }"

declare clear_from.simps [simp del] blit_from.simps [simp del]

section \<open>Whole-buffer loops\<close>

lemma blit_from_nth:
  assumes "0 \<le> i" "lim \<le> int (length src)" "lim \<le> int (length fb)"
  shows "\<exists>fb'. blit_from lim i src fb = Some fb' \<and> length fb' = length fb
           \<and> (\<forall>k < length fb. fb' ! k = (if i \<le> int k \<and> int k < lim then src ! k else fb ! k))"
  using assms
proof (induction lim i src fb rule: blit_from.induct)
  case (1 lim i src fb)
  show ?case
  proof (cases "i < lim")
    case True
    with 1(1) [OF True, of "src ! nat i" "fb[nat i := src ! nat i]"] 1(2-4) obtain fb' where "blit_from lim (i + 1) src (fb[nat i := src ! nat i]) = Some fb'"
      "length fb' = length fb"
      and nth: "\<forall>k < length fb. fb' ! k
        = (if i + 1 \<le> int k \<and> int k < lim then src ! k else fb[nat i := src ! nat i] ! k)"
      by (auto simp: c_get_Some c_set_Some)
    moreover have "\<forall>k < length fb. fb' ! k = (if i \<le> int k \<and> int k < lim then src ! k else fb ! k)"
      using nth True 1(2) by (auto simp: nth_list_update split: if_splits)
    ultimately show ?thesis
      using True 1 by (subst blit_from.simps) (simp add: c_get_Some c_set_Some)
  next
    case False
    then show ?thesis by (subst blit_from.simps) auto
  qed
qed

lemma clear_from_nth:
  assumes "0 \<le> i" "lim \<le> int (length img)"
  shows "\<exists>img'. clear_from lim i img = Some img' \<and> length img' = length img
           \<and> (\<forall>k < length img. img' ! k = (if i \<le> int k \<and> int k < lim then 0 else img ! k))"
  using assms
proof (induction lim i img rule: clear_from.induct)
  case (1 lim i img)
  show ?case
  proof (cases "i < lim")
    case True
    with 1 obtain img' where "clear_from lim (i + 1) (img[nat i := 0]) = Some img'"
      "length img' = length img"
      and nth: "\<forall>k < length img. img' ! k
        = (if i + 1 \<le> int k \<and> int k < lim then 0 else img[nat i := 0] ! k)"
      by (auto simp: c_set_Some)
    moreover have "\<forall>k < length img. img' ! k = (if i \<le> int k \<and> int k < lim then 0 else img ! k)"
      using nth True 1(2) by (auto simp: nth_list_update split: if_splits)
    ultimately show ?thesis
      using True 1 by (subst clear_from.simps) (simp add: c_set_Some)
  next
    case False
    then show ?thesis by (subst clear_from.simps) auto
  qed
qed

text \<open>A library that is set up: the geometry is sane and the frame buffer is mapped whole.\<close>

definition pitch :: "gfx \<Rightarrow> int" where
  "pitch g = bitDepth g div 2"

definition gfx_ok :: "gfx \<Rightarrow> bool" where
  "gfx_ok g \<longleftrightarrow> 0 < yLength g \<and> 0 < bitDepth g \<and> even (bitDepth g) \<and> yLength g * bitDepth g < 268435456
     \<and> gsize g = yLength g * bitDepth g \<and> int (length (frameBuffer g)) = yLength g * pitch g"

definition surface_ok :: "gfx \<Rightarrow> surface \<Rightarrow> bool" where
  "surface_ok g img \<longleftrightarrow> int (length img) = yLength g * pitch g"

definition blank :: "gfx \<Rightarrow> surface" where
  "blank g = replicate (nat (yLength g * pitch g)) 0"

lemma half_size:
  assumes "gfx_ok g"
  shows "c_div (yLength g * bitDepth g) 2 = yLength g * pitch g" "c_div (bitDepth g) 2 = pitch g"
    "0 < pitch g"
proof -
  from assms obtain w where w: "bitDepth g = 2 * w" by (auto simp: gfx_ok_def elim: evenE)
  have y: "0 < yLength g" "0 < bitDepth g" using assms by (auto simp: gfx_ok_def)
  have "yLength g * bitDepth g = 2 * (yLength g * w)" by (simp add: w)
  with w y show "c_div (yLength g * bitDepth g) 2 = yLength g * pitch g" "c_div (bitDepth g) 2 = pitch g"
    "0 < pitch g" by (simp_all add: c_div_nonneg pitch_def)
qed

lemma clear_screen_blank:
  assumes "gfx_ok g" "surface_ok g img"
  shows "clear_screen g img = Some (blank g)"
proof -
  from clear_from_nth [of 0 "yLength g * pitch g" img] assms obtain img' where
    "clear_screen g img = Some img'" "length img' = length img" "\<forall>k < length img. img' ! k = 0"
    by (auto simp: clear_screen_def half_size surface_ok_def)
  moreover from this have "img' = blank g"
    using assms by (intro nth_equalityI) (auto simp: blank_def surface_ok_def)
  ultimately show ?thesis by simp
qed

lemma blit_copies:
  assumes "gfx_ok g" "surface_ok g src"
  shows "blit g src = Some (g\<lparr>frameBuffer := src\<rparr>)"
proof -
  have l: "int (length (frameBuffer g)) = yLength g * pitch g" "int (length src) = yLength g * pitch g"
    using assms by (simp_all add: gfx_ok_def surface_ok_def)
  from blit_from_nth [of 0 "yLength g * pitch g" src "frameBuffer g"] l obtain fb' where
    "blit_from (yLength g * pitch g) 0 src (frameBuffer g) = Some fb'"
    "length fb' = length (frameBuffer g)" "\<forall>k < length (frameBuffer g). fb' ! k = src ! k"
    by auto
  moreover from this have "fb' = src" using l by (intro nth_equalityI) auto
  ultimately show ?thesis
    using assms half_size [OF assms(1)] by (simp add: blit_def gfx_ok_def)
qed

section \<open>Pixels\<close>

definition pixel_at :: "gfx \<Rightarrow> surface \<Rightarrow> int \<Rightarrow> int \<Rightarrow> color_t" where
  "pixel_at g img x y = img ! nat (y * pitch g + x)"

definition on_screen :: "gfx \<Rightarrow> int \<times> int \<Rightarrow> bool" where
  "on_screen g p \<longleftrightarrow> 0 \<le> fst p \<and> fst p < pitch g \<and> 0 \<le> snd p \<and> snd p < yLength g"

lemma index_bound:
  fixes w h x y :: int
  assumes "0 \<le> x" "x < w" "0 \<le> y" "y < h"
  shows "0 \<le> y * w + x" "y * w + x < h * w"
proof -
  have "(y + 1) * w \<le> h * w" using assms by (intro mult_right_mono) auto
  then show "y * w + x < h * w" using assms by (simp add: algebra_simps)
qed (use assms in auto)

lemma index_inj:
  fixes w x y x' y' :: int
  assumes "0 \<le> x" "x < w" "0 \<le> x'" "x' < w" "y * w + x = y' * w + x'"
  shows "x = x' \<and> y = y'"
proof -
  have "(y * w + x) mod w = x" "(y' * w + x') mod w = x'" using assms(1-4) by simp_all
  with assms(5) have "x = x'" by metis
  with assms show ?thesis by auto
qed

lemma size_small: "gfx_ok g \<Longrightarrow> yLength g * pitch g < 134217728"
proof -
  assume g: "gfx_ok g"
  from g obtain w where w: "bitDepth g = 2 * w" by (auto simp: gfx_ok_def elim: evenE)
  then have "yLength g * bitDepth g = 2 * (yLength g * pitch g)" by (simp add: pitch_def)
  with g show ?thesis by (simp add: gfx_ok_def)
qed

lemma draw_pixel_on_screen:
  assumes "gfx_ok g" "surface_ok g img" "on_screen g (x, y)"
  shows "draw_pixel g img x y c = Some (img[nat (y * pitch g + x) := c])"
proof -
  have b: "0 \<le> y * pitch g + x" "y * pitch g + x < yLength g * pitch g"
    using index_bound [of x "pitch g" y "yLength g"] assms(3) by (auto simp: on_screen_def)
  have "c_int (y * pitch g + x) = Some (y * pitch g + x)"
    using b size_small [OF assms(1)] by (intro c_int_Some) linarith+
  moreover have "c_set img (y * pitch g + x) c = Some (img[nat (y * pitch g + x) := c])"
    using b assms(2) by (intro c_set_Some) (simp_all add: surface_ok_def)
  ultimately show ?thesis
    using assms(3) half_size [OF assms(1)] by (simp add: draw_pixel_def on_screen_def)
qed

lemma draw_pixel_pixel_at:
  assumes "gfx_ok g" "surface_ok g img" "on_screen g (x, y)" "on_screen g (x', y')"
  shows "\<exists>img'. draw_pixel g img x y c = Some img' \<and> surface_ok g img'
           \<and> pixel_at g img' x' y' = (if (x', y') = (x, y) then c else pixel_at g img x' y')"
proof -
  have b: "0 \<le> y * pitch g + x" "y * pitch g + x < yLength g * pitch g"
    "0 \<le> y' * pitch g + x'" "y' * pitch g + x' < yLength g * pitch g"
    using index_bound [of x "pitch g" y "yLength g"] index_bound [of x' "pitch g" y' "yLength g"] assms(3,4)
    by (auto simp: on_screen_def)
  have "nat (y * pitch g + x) = nat (y' * pitch g + x') \<longleftrightarrow> (x', y') = (x, y)"
  proof -
    have "nat (y * pitch g + x) = nat (y' * pitch g + x') \<longleftrightarrow> y * pitch g + x = y' * pitch g + x'"
      using b(1,3) by (rule eq_nat_nat_iff)
    with index_inj [of x "pitch g" x' y y'] assms(3,4) show ?thesis by (auto simp: on_screen_def)
  qed
  with b assms(2) draw_pixel_on_screen [OF assms(1-3), of c] show ?thesis
    by (auto simp: pixel_at_def surface_ok_def nth_list_update)
qed

lemma on_screen_small:
  assumes "gfx_ok g" "on_screen g (x, y)"
  shows "\<bar>x\<bar> < 134217728" "\<bar>y\<bar> < 134217728"
proof -
  have "0 < yLength g" "0 < pitch g" using assms(1) half_size by (auto simp: gfx_ok_def)
  then have "pitch g \<le> yLength g * pitch g" "yLength g \<le> yLength g * pitch g" by simp_all
  then have "pitch g < 134217728" "yLength g < 134217728" using size_small [OF assms(1)] by linarith+
  with assms(2) show "\<bar>x\<bar> < 134217728" "\<bar>y\<bar> < 134217728" by (auto simp: on_screen_def)
qed

fun draw_pixels :: "gfx \<Rightarrow> surface \<Rightarrow> (int \<times> int) list \<Rightarrow> color_t \<Rightarrow> surface option" where
  "draw_pixels g img [] c = Some img"
| "draw_pixels g img (p # ps) c =
     do { img \<leftarrow> draw_pixel g img (fst p) (snd p) c; draw_pixels g img ps c }"

lemma draw_pixels_pixel_at:
  assumes "gfx_ok g" "surface_ok g img" "\<forall>p \<in> set ps. on_screen g p"
  shows "\<exists>img'. draw_pixels g img ps c = Some img' \<and> surface_ok g img'
           \<and> (\<forall>x y. on_screen g (x, y) \<longrightarrow>
                pixel_at g img' x y = (if (x, y) \<in> set ps then c else pixel_at g img x y))"
  using assms
proof (induction ps arbitrary: img)
  case Nil
  then show ?case by auto
next
  case (Cons p ps)
  obtain x y where p: "p = (x, y)" by fastforce
  from Cons.prems have o: "on_screen g (x, y)" by (simp add: p)
  let ?img = "img[nat (y * pitch g + x) := c]"
  have ok: "surface_ok g ?img" using Cons.prems by (simp add: surface_ok_def)
  have px: "pixel_at g ?img x' y' = (if (x', y') = (x, y) then c else pixel_at g img x' y')"
    if "on_screen g (x', y')" for x' y'
    using draw_pixel_pixel_at [OF Cons.prems(1,2) o that, of c] draw_pixel_on_screen [OF Cons.prems(1,2) o, of c]
    by simp
  from Cons.IH [OF Cons.prems(1) ok] Cons.prems(3) obtain img' where
    "draw_pixels g ?img ps c = Some img'" "surface_ok g img'"
    "\<forall>x y. on_screen g (x, y) \<longrightarrow>
        pixel_at g img' x y = (if (x, y) \<in> set ps then c else pixel_at g ?img x y)" by auto
  with px draw_pixel_on_screen [OF Cons.prems(1,2) o, of c] show ?case
    by (auto simp: p)
qed

section \<open>Lines\<close>

text \<open>
  After \<open>i\<close> steps in one direction and \<open>j\<close> in the other, on the way to \<open>(a, b)\<close>, the position is at
  most half a pixel from the ideal line: \<open>2 * (a * j - b * i)\<close> lies between \<open>- max a b\<close> and \<open>max a b\<close>.
\<close>

definition near_line :: "int \<Rightarrow> int \<Rightarrow> int \<Rightarrow> int \<Rightarrow> bool" where
  "near_line a b i j \<longleftrightarrow> \<bar>2 * (a * j - b * i)\<bar> \<le> max a b"

lemma minor_bound:
  fixes a b i j :: int
  assumes "0 < a" "2 * (a * j - b * i) \<le> a" "i \<le> a" "0 \<le> b"
  shows "j \<le> b"
proof (rule ccontr)
  assume "\<not> j \<le> b"
  then have "a * (b + 1) \<le> a * j" using assms(1) by (intro mult_left_mono) auto
  moreover have "b * i \<le> b * a" using assms by (intro mult_left_mono) auto
  ultimately show False using assms by (simp add: algebra_simps)
qed

lemma near_line_end:
  assumes "0 \<le> a" "0 \<le> b" "near_line a b i j" "0 \<le> i" "i \<le> a" "0 \<le> j" "j \<le> b"
    and "(if b \<le> a then i else j) = max a b"
  shows "i = a \<and> j = b"
proof (cases "b \<le> a")
  case True
  with assms(8) have i: "i = a" by (simp add: max_def)
  show ?thesis
  proof (cases "a = 0")
    case False
    have "2 * (b * a - a * j) \<le> a" using assms(1-3) True i
      by (simp add: near_line_def max_def abs_le_iff algebra_simps)
    then have "b \<le> j" using minor_bound [of a b j a] False assms by (simp add: algebra_simps)
    with assms i show ?thesis by simp
  qed (use True assms i in auto)
next
  case False
  with assms(8) have j: "j = b" by (simp add: max_def)
  have "2 * (b * a - b * i) \<le> b" using assms(1-3) False j
    by (simp add: near_line_def max_def abs_le_iff algebra_simps)
  then have "a \<le> i" using minor_bound [of b a i b] False assms by (simp add: algebra_simps)
  with assms j show ?thesis by simp
qed

text \<open>One round of the loop, in steps: the long direction always advances.\<close>

definition x_moves :: "int \<Rightarrow> int \<Rightarrow> int \<Rightarrow> int \<Rightarrow> bool" where
  "x_moves a b i j \<longleftrightarrow> - b \<le> 2 * (a * (j + 1) - b * (i + 1))"

definition y_moves :: "int \<Rightarrow> int \<Rightarrow> int \<Rightarrow> int \<Rightarrow> bool" where
  "y_moves a b i j \<longleftrightarrow> 2 * (a * (j + 1) - b * (i + 1)) \<le> a"

lemma near_line_step:
  assumes "0 \<le> a" "0 \<le> b" and n: "near_line a b i j" and "0 \<le> i" "i \<le> a" "0 \<le> j" "j \<le> b"
    and lead: "(if b \<le> a then i else j) < max a b"
    and i': "i' = (if x_moves a b i j then i + 1 else i)" and j': "j' = (if y_moves a b i j then j + 1 else j)"
  shows "near_line a b i' j'" "0 \<le> i'" "i' \<le> a" "0 \<le> j'" "j' \<le> b"
    and "(if b \<le> a then i' else j') = (if b \<le> a then i else j) + 1"
proof -
  have n': "- max a b \<le> 2 * (a * j) - 2 * (b * i)" "2 * (a * j) - 2 * (b * i) \<le> max a b"
    using n by (auto simp: near_line_def abs_le_iff algebra_simps)
  have x: "b \<le> a \<Longrightarrow> x_moves a b i j" and y: "a < b \<Longrightarrow> y_moves a b i j"
    using n' by (auto simp: x_moves_def y_moves_def max_def algebra_simps)
  have near: "near_line a b i' j'"
    using n' x y assms(1,2) unfolding i' j'
    by (cases "b \<le> a"; cases "x_moves a b i j"; cases "y_moves a b i j")
      (auto simp: x_moves_def y_moves_def near_line_def max_def abs_le_iff algebra_simps)
  then show "near_line a b i' j'" .
  show ij: "0 \<le> i'" "0 \<le> j'" and l: "(if b \<le> a then i' else j') = (if b \<le> a then i else j) + 1"
    using x y assms by auto
  have near': "2 * (a * j' - b * i') \<le> max a b" "2 * (b * i' - a * j') \<le> max a b"
    using near by (auto simp: near_line_def abs_le_iff algebra_simps)
  show "i' \<le> a"
  proof (cases "b \<le> a")
    case False
    with near'(2) minor_bound [of b i' a j'] l lead assms show ?thesis by (simp add: max_def)
  qed (use l lead in \<open>simp add: max_def\<close>)
  show "j' \<le> b"
  proof (cases "b \<le> a")
    case True
    with near'(1) minor_bound [of a j' b i'] l lead assms show ?thesis by (simp add: max_def)
  qed (use l lead in \<open>simp add: max_def\<close>)
qed

definition adjacent :: "int \<times> int \<Rightarrow> int \<times> int \<Rightarrow> bool" where
  "adjacent p q \<longleftrightarrow> p \<noteq> q \<and> \<bar>fst q - fst p\<bar> \<le> 1 \<and> \<bar>snd q - snd p\<bar> \<le> 1"

text \<open>The points from \<open>(i, j)\<close> on that the loop visits, \<open>k\<close> rounds before the end.\<close>

fun line_points :: "int \<Rightarrow> int \<Rightarrow> nat \<Rightarrow> int \<Rightarrow> int \<Rightarrow> (int \<times> int) list" where
  "line_points a b 0 i j = [(i, j)]"
| "line_points a b (Suc k) i j =
     (i, j) # line_points a b k (if x_moves a b i j then i + 1 else i) (if y_moves a b i j then j + 1 else j)"

definition line_state :: "int \<Rightarrow> int \<Rightarrow> nat \<Rightarrow> int \<Rightarrow> int \<Rightarrow> bool" where
  "line_state a b k i j \<longleftrightarrow> 0 \<le> a \<and> 0 \<le> b \<and> near_line a b i j \<and> 0 \<le> i \<and> i \<le> a \<and> 0 \<le> j \<and> j \<le> b
     \<and> (if b \<le> a then i else j) + int k = max a b"

lemma line_state_step:
  assumes "line_state a b (Suc k) i j"
  shows "line_state a b k (if x_moves a b i j then i + 1 else i) (if y_moves a b i j then j + 1 else j)"
  using assms near_line_step [of a b i j, OF _ _ _ _ _ _ _ _ refl refl] by (simp add: line_state_def)

lemma line_state_lead: "line_state a b k i j \<Longrightarrow> (if b \<le> a then i else j) + int k = max a b"
  by (simp add: line_state_def)

lemma line_state_0: "line_state a b 0 i j \<Longrightarrow> i = a \<and> j = b"
  using near_line_end [of a b i j] by (simp add: line_state_def)

lemma line_state_Suc: "line_state a b (Suc k) i j \<Longrightarrow> i \<noteq> a \<or> j \<noteq> b"
  by (auto simp: line_state_def max_def split: if_splits)

lemma line_points_basic: "length (line_points a b k i j) = Suc k" "hd (line_points a b k i j) = (i, j)"
  "line_points a b k i j \<noteq> []"
  by (induction k arbitrary: i j) auto

lemma line_points_last: "line_state a b k i j \<Longrightarrow> last (line_points a b k i j) = (a, b)"
proof (induction k arbitrary: i j)
  case 0
  then show ?case using line_state_0 by simp
next
  case (Suc k)
  then show ?case using Suc.IH [OF line_state_step [OF Suc.prems]] line_points_basic(3) by simp
qed

lemma line_points_near:
  "line_state a b k i j \<Longrightarrow> p \<in> set (line_points a b k i j) \<Longrightarrow>
     0 \<le> fst p \<and> fst p \<le> a \<and> 0 \<le> snd p \<and> snd p \<le> b \<and> near_line a b (fst p) (snd p)"
proof (induction k arbitrary: i j)
  case 0
  then show ?case by (simp add: line_state_def)
next
  case (Suc k)
  then show ?case using Suc.IH [OF line_state_step [OF Suc.prems(1)]] by (auto simp: line_state_def)
qed

lemma line_points_adjacent: "line_state a b k i j \<Longrightarrow> successively adjacent (line_points a b k i j)"
proof (induction k arbitrary: i j)
  case 0
  then show ?case by simp
next
  case (Suc k)
  let ?i = "if x_moves a b i j then i + 1 else i" and ?j = "if y_moves a b i j then j + 1 else j"
  from line_state_lead [OF Suc.prems] line_state_lead [OF line_state_step [OF Suc.prems]]
  have "?i \<noteq> i \<or> ?j \<noteq> j" by (auto split: if_splits)
  then have "adjacent (i, j) (?i, ?j)" by (auto simp: adjacent_def split: if_splits)
  then show ?case using Suc.IH [OF line_state_step [OF Suc.prems]] line_points_basic
    by (simp add: successively_Cons)
qed

text \<open>Where the steps are on the screen: from \<open>(x, y)\<close>, in the directions \<open>sx\<close> and \<open>sy\<close>.\<close>

definition place :: "int \<Rightarrow> int \<Rightarrow> int \<Rightarrow> int \<Rightarrow> int \<times> int \<Rightarrow> int \<times> int" where
  "place x y sx sy p = (x + sx * fst p, y + sy * snd p)"

lemma place_fst: "fst (place x y sx sy (i, j)) = x + sx * i"
  and place_snd: "snd (place x y sx sy (i, j)) = y + sy * j"
  by (simp_all add: place_def)

lemma line_loop_points:
  assumes "line_state a b k i j" and small: "a < 268435456" "b < 268435456"
    and xy: "\<bar>x\<bar> < 268435456" "\<bar>y\<bar> < 268435456"
    and s: "sx = 1 \<or> sx = - 1" "sy = 1 \<or> sy = - 1"
  shows "line_loop g c (x + sx * a) (y + sy * b) a sx (- b) sy (x + sx * i) (y + sy * j)
           (a * (j + 1) - b * (i + 1)) img
         = draw_pixels g img (map (place x y sx sy) (line_points a b k i j)) c"
  using assms(1)
proof (induction k arbitrary: i j img)
  case 0
  then have "i = a" "j = b" using line_state_0 by blast+
  then show ?case by (subst line_loop.simps) (simp add: place_def)
next
  case (Suc k)
  let ?i = "if x_moves a b i j then i + 1 else i" and ?j = "if y_moves a b i j then j + 1 else j"
  let ?e = "a * (j + 1) - b * (i + 1)"
  have st: "line_state a b k ?i ?j" by (rule line_state_step [OF Suc.prems])
  have ne: "\<not> (x + sx * i = x + sx * a \<and> y + sy * j = y + sy * b)"
    using line_state_Suc [OF Suc.prems] s by auto
  have b: "0 \<le> a" "0 \<le> b" "0 \<le> i" "i \<le> a" "0 \<le> j" "j \<le> b"
    and "- max a b \<le> 2 * (a * j) - 2 * (b * i)" "2 * (a * j) - 2 * (b * i) \<le> max a b"
    using Suc.prems by (auto simp: line_state_def near_line_def abs_le_iff algebra_simps)
  then have e: "- 805306368 \<le> ?e" "?e \<le> 805306368" using small by (auto simp: algebra_simps max_def split: if_splits)
  have cx: "c_int (x + sx * i + sx) = Some (x + sx * (i + 1))" "c_int (y + sy * j + sy) = Some (y + sy * (j + 1))"
    using b small xy s by (auto simp: c_int_def algebra_simps)
  have ce: "c_int (2 * ?e) = Some (2 * ?e)" "c_int (?e + - b) = Some (?e - b)"
    "c_int (?e - b + a) = Some (?e - b + a)" "c_int (?e + a) = Some (?e + a)"
    using e b small by (auto simp: c_int_def)
  have "line_loop g c (x + sx * a) (y + sy * b) a sx (- b) sy (x + sx * i) (y + sy * j) ?e img
      = do { img \<leftarrow> draw_pixel g img (x + sx * i) (y + sy * j) c;
             line_loop g c (x + sx * a) (y + sy * b) a sx (- b) sy (x + sx * ?i) (y + sy * ?j)
               (a * (?j + 1) - b * (?i + 1)) img }"
    by (subst line_loop.simps, rule bind_option_cong [OF refl])
      (use ne cx ce in \<open>auto simp: x_moves_def y_moves_def algebra_simps\<close>)
  also have "\<dots> = draw_pixels g img (map (place x y sx sy) (line_points a b (Suc k) i j)) c"
    using Suc.IH [OF st] by (simp only: line_points.simps list.map draw_pixels.simps place_fst place_snd)
  finally show ?case .
qed

section \<open>Properties\<close>

lemma or_shifted:
  fixes a b :: int
  assumes "0 \<le> b" "b < 2 ^ n"
  shows "push_bit n a OR b = a * 2 ^ n + b"
proof -
  have "take_bit n b = b" using assms by (simp add: take_bit_int_eq_self)
  then have low: "bit b m \<Longrightarrow> m < n" for m by (metis bit_take_bit_iff)
  have "push_bit n a AND b = 0"
    by (rule bit_eqI) (auto simp: bit_simps dest: low)
  then have "push_bit n a + b = push_bit n a OR b" by (rule disjunctive_add_eq_or)
  then show ?thesis by (simp add: push_bit_eq_mult)
qed

text \<open>
  The macro \<open>RGB\<close> packs 5, 6 and 5 bits: for channel values in range the colour determines them.
\<close>

theorem RGB_channels:
  assumes "0 \<le> r" "r < 32" "0 \<le> g" "g < 64" "0 \<le> b" "b < 32"
  shows "uint (RGB r g b) div 2048 = r \<and> uint (RGB r g b) div 32 mod 64 = g \<and> uint (RGB r g b) mod 32 = b"
proof -
  have "u16 (push_bit 11 r) = push_bit 5 (push_bit 6 r)" using assms by (simp add: push_bit_eq_mult u16_id)
  then have "(u16 (push_bit 11 r) OR push_bit 5 g) = push_bit 5 (push_bit 6 r OR g)"
    by (simp only: push_bit_or)
  then have "(u16 (push_bit 11 r) OR push_bit 5 g) OR b = (r * 64 + g) * 32 + b"
    using assms or_shifted [of b 5] or_shifted [of g 6 r] by (simp del: push_bit_or push_bit_push_bit)
  then have "uint (RGB r g b) = take_bit 16 ((r * 64 + g) * 32 + b)"
    by (simp only: RGB_def uint_word_of_int_eq) simp
  also have "\<dots> = (r * 64 + g) * 32 + b"
    using assms by (simp add: take_bit_int_eq_self)
  finally have u: "uint (RGB r g b) = (r * 64 + g) * 32 + b" .
  then have "uint (RGB r g b) div 32 = r * 64 + g" "uint (RGB r g b) mod 32 = b"
    using assms div_mult_self3 [of 32 "r * 64 + g" b] mod_mult_self3 [of "r * 64 + g" 32 b]
    by (simp_all only: u) simp_all
  moreover have "uint (RGB r g b) div 2048 = uint (RGB r g b) div 32 div 64"
    by (simp add: div_mult2_eq [symmetric])
  moreover have "(r * 64 + g) div 64 = r" "(r * 64 + g) mod 64 = g" using assms by simp_all
  ultimately show ?thesis by simp
qed

theorem RGB_channels_witness: "uint (RGB 31 0 0) div 2048 = 31"
  using RGB_channels [of 31 0 0] by simp

text \<open>The points of a line on the screen.\<close>

definition screen_points :: "int \<Rightarrow> int \<Rightarrow> int \<Rightarrow> int \<Rightarrow> (int \<times> int) list" where
  "screen_points x1 y1 x2 y2 =
     map (place x1 y1 (if x1 < x2 then 1 else - 1) (if y1 < y2 then 1 else - 1))
       (line_points \<bar>x2 - x1\<bar> \<bar>y2 - y1\<bar> (nat (max \<bar>x2 - x1\<bar> \<bar>y2 - y1\<bar>)) 0 0)"

definition small_coord :: "int \<Rightarrow> bool" where
  "small_coord x \<longleftrightarrow> \<bar>x\<bar> < 134217728"

lemma line_state_start: "line_state \<bar>u\<bar> \<bar>v\<bar> (nat (max \<bar>u\<bar> \<bar>v\<bar>)) 0 0"
  by (auto simp: line_state_def near_line_def max_def)

lemma absoluteVal_abs [simp]: "absoluteVal x = \<bar>x\<bar>"
  by (simp add: absoluteVal_def)

lemma draw_line_points:
  assumes "small_coord x1" "small_coord y1" "small_coord x2" "small_coord y2"
  shows "draw_line g img x1 y1 x2 y2 c = draw_pixels g img (screen_points x1 y1 x2 y2) c"
proof -
  let ?a = "\<bar>x2 - x1\<bar>" and ?b = "\<bar>y2 - y1\<bar>"
  let ?sx = "if x1 < x2 then 1 else - 1 :: int" and ?sy = "if y1 < y2 then 1 else - 1 :: int"
  have b: "?a < 268435456" "?b < 268435456" "\<bar>x1\<bar> < 268435456" "\<bar>y1\<bar> < 268435456"
    using assms by (auto simp: small_coord_def)
  have c: "c_int (x2 - x1) = Some (x2 - x1)" "c_int (y2 - y1) = Some (y2 - y1)" "c_int ?a = Some ?a"
    "c_int ?b = Some ?b" "c_int (?a + - ?b) = Some (?a - ?b)"
    using assms by (auto simp: small_coord_def c_int_def)
  have ends: "x1 + ?sx * ?a = x2" "y1 + ?sy * ?b = y2" by auto
  have "draw_line g img x1 y1 x2 y2 c = line_loop g c x2 y2 ?a ?sx (- ?b) ?sy x1 y1 (?a - ?b) img"
    unfolding draw_line_def using c by (simp only: absoluteVal_abs bind.bind_lunit Let_def)
  with line_loop_points [OF line_state_start [of "x2 - x1" "y2 - y1"] b, of ?sx ?sy g c img] ends
  show ?thesis by (simp add: screen_points_def)
qed

lemma screen_point_box:
  assumes "p \<in> set (screen_points x1 y1 x2 y2)"
  shows "min x1 x2 \<le> fst p \<and> fst p \<le> max x1 x2 \<and> min y1 y2 \<le> snd p \<and> snd p \<le> max y1 y2
    \<and> \<bar>2 * ((x2 - x1) * (snd p - y1) - (y2 - y1) * (fst p - x1))\<bar> \<le> max \<bar>x2 - x1\<bar> \<bar>y2 - y1\<bar>"
proof -
  let ?a = "\<bar>x2 - x1\<bar>" and ?b = "\<bar>y2 - y1\<bar>"
  let ?sx = "if x1 < x2 then 1 else - 1 :: int" and ?sy = "if y1 < y2 then 1 else - 1 :: int"
  from assms obtain i j where p: "p = (x1 + ?sx * i, y1 + ?sy * j)"
    and ij: "(i, j) \<in> set (line_points ?a ?b (nat (max ?a ?b)) 0 0)"
    by (auto simp: screen_points_def place_def)
  from line_points_near [OF line_state_start ij]
  have n: "0 \<le> i" "i \<le> ?a" "0 \<le> j" "j \<le> ?b" "\<bar>2 * (?a * j - ?b * i)\<bar> \<le> max ?a ?b"
    by (auto simp: near_line_def)
  have sign: "\<bar>?sx * ?sy * z\<bar> = \<bar>z\<bar>" for z by simp
  have "x2 - x1 = ?sx * ?a" "y2 - y1 = ?sy * ?b" by auto
  then have "2 * ((x2 - x1) * (snd p - y1) - (y2 - y1) * (fst p - x1)) = ?sx * ?sy * (2 * (?a * j - ?b * i))"
    by (simp add: p algebra_simps)
  then have "\<bar>2 * ((x2 - x1) * (snd p - y1) - (y2 - y1) * (fst p - x1))\<bar> \<le> max ?a ?b"
    using n(5) by (simp only: sign)
  moreover have "min x1 x2 \<le> fst p \<and> fst p \<le> max x1 x2 \<and> min y1 y2 \<le> snd p \<and> snd p \<le> max y1 y2"
    using n(1-4) by (auto simp: p min_def max_def split: if_splits)
  ultimately show ?thesis by blast
qed

lemma screen_points_shape:
  "length (screen_points x1 y1 x2 y2) = nat (max \<bar>x2 - x1\<bar> \<bar>y2 - y1\<bar>) + 1"
  "hd (screen_points x1 y1 x2 y2) = (x1, y1)" "last (screen_points x1 y1 x2 y2) = (x2, y2)"
  "screen_points x1 y1 x2 y2 \<noteq> []" "successively adjacent (screen_points x1 y1 x2 y2)"
proof -
  let ?sx = "if x1 < x2 then 1 else - 1 :: int" and ?sy = "if y1 < y2 then 1 else - 1 :: int"
  let ?l = "line_points \<bar>x2 - x1\<bar> \<bar>y2 - y1\<bar> (nat (max \<bar>x2 - x1\<bar> \<bar>y2 - y1\<bar>)) 0 0"
  note st = line_state_start [of "x2 - x1" "y2 - y1"]
  show "length (screen_points x1 y1 x2 y2) = nat (max \<bar>x2 - x1\<bar> \<bar>y2 - y1\<bar>) + 1" "screen_points x1 y1 x2 y2 \<noteq> []"
    "hd (screen_points x1 y1 x2 y2) = (x1, y1)"
    using line_points_basic [of "\<bar>x2 - x1\<bar>" "\<bar>y2 - y1\<bar>"] by (simp_all add: screen_points_def hd_map place_def)
  show "last (screen_points x1 y1 x2 y2) = (x2, y2)"
    using line_points_last [OF st] line_points_basic(3) by (simp add: screen_points_def last_map place_def)
  have "adjacent (place x1 y1 ?sx ?sy p) (place x1 y1 ?sx ?sy q)" if "adjacent p q" for p q
    using that by (auto simp: adjacent_def place_def prod_eq_iff)
  then show "successively adjacent (screen_points x1 y1 x2 y2)"
    using successively_mono [OF line_points_adjacent [OF st]]
    by (simp only: screen_points_def successively_map)
qed

text \<open>
  C18. \<open>draw_line\<close> terminates without overflow (coordinates below 2 to the 27) and draws a Bresenham line:
  it sets one pixel after the other along a path from the first to the second end point, each next to
  the one before, as many as the longer side has, none outside the box of the end points, and
  each at most half a pixel away from the ideal line.
\<close>

theorem draw_line_bresenham:
  assumes "small_coord x1" "small_coord y1" "small_coord x2" "small_coord y2"
  shows "\<exists>pts. (\<forall>img. draw_line g img x1 y1 x2 y2 c = draw_pixels g img pts c)
    \<and> length pts = nat (max \<bar>x2 - x1\<bar> \<bar>y2 - y1\<bar>) + 1 \<and> hd pts = (x1, y1) \<and> last pts = (x2, y2)
    \<and> successively adjacent pts
    \<and> (\<forall>(x, y) \<in> set pts. min x1 x2 \<le> x \<and> x \<le> max x1 x2 \<and> min y1 y2 \<le> y \<and> y \<le> max y1 y2
         \<and> \<bar>2 * ((x2 - x1) * (y - y1) - (y2 - y1) * (x - x1))\<bar> \<le> max \<bar>x2 - x1\<bar> \<bar>y2 - y1\<bar>)"
  using draw_line_points [OF assms] screen_points_shape [of x1 y1 x2 y2] screen_point_box [of _ x1 y1 x2 y2]
  by (intro exI [of _ "screen_points x1 y1 x2 y2"]) fastforce

definition tiny_gfx :: gfx where
  "tiny_gfx = \<lparr>yLength = 3, bitDepth = 8, gsize = 24, frameBuffer = replicate 12 0, mapped = True,
     term_old = 0, term_new = 0, tty_lflag = 0\<rparr>"

theorem draw_line_bresenham_witness:
  "\<exists>pts. (\<forall>img. draw_line tiny_gfx img 31 62 520 310 7 = draw_pixels tiny_gfx img pts 7)
     \<and> length pts = 490 \<and> hd pts = (31, 62) \<and> last pts = (520, 310)"
  using draw_line_bresenham [of 31 62 520 310 tiny_gfx 7] by (auto simp: small_coord_def)

lemma screen_points_ends:
  "(x1, y1) \<in> set (screen_points x1 y1 x2 y2)" "(x2, y2) \<in> set (screen_points x1 y1 x2 y2)"
  using screen_points_shape [of x1 y1 x2 y2] hd_in_set last_in_set by metis+

lemma draw_line_effect:
  assumes "gfx_ok g" "surface_ok g img" "on_screen g (x1, y1)" "on_screen g (x2, y2)"
  shows "\<exists>img'. draw_line g img x1 y1 x2 y2 c = Some img' \<and> surface_ok g img'
    \<and> (\<forall>x y. on_screen g (x, y) \<longrightarrow> pixel_at g img' x y =
          (if (x, y) \<in> set (screen_points x1 y1 x2 y2) then c else pixel_at g img x y))"
proof -
  have sc: "small_coord x" "small_coord y" if "on_screen g (x, y)" for x y
    using on_screen_small [OF assms(1) that] by (simp_all add: small_coord_def)
  have "\<forall>p \<in> set (screen_points x1 y1 x2 y2). on_screen g p"
    using screen_point_box assms(3,4) by (fastforce simp: on_screen_def)
  from draw_pixels_pixel_at [OF assms(1,2) this, of c] draw_line_points [of x1 y1 x2 y2 g img c] sc assms(3,4)
  show ?thesis by simp
qed

text \<open>
  Drawing on the screen is safe and exact: with both end points on the screen no access leaves the
  buffer, the pixels of the line, among them both end points, get the colour, and every pixel outside the box of the
  end points keeps its value.
\<close>

theorem draw_line_on_screen:
  assumes "gfx_ok g" "surface_ok g img" "on_screen g (x1, y1)" "on_screen g (x2, y2)"
  shows "\<exists>img'. draw_line g img x1 y1 x2 y2 c = Some img' \<and> surface_ok g img'
    \<and> pixel_at g img' x1 y1 = c \<and> pixel_at g img' x2 y2 = c
    \<and> (\<forall>x y. on_screen g (x, y) \<longrightarrow> \<not> (min x1 x2 \<le> x \<and> x \<le> max x1 x2 \<and> min y1 y2 \<le> y \<and> y \<le> max y1 y2)
         \<longrightarrow> pixel_at g img' x y = pixel_at g img x y)"
proof -
  let ?P = "screen_points x1 y1 x2 y2"
  from draw_line_effect [OF assms, of c]
  obtain img' where "draw_line g img x1 y1 x2 y2 c = Some img'" "surface_ok g img'"
    and px: "\<And>x y. on_screen g (x, y) \<Longrightarrow>
        pixel_at g img' x y = (if (x, y) \<in> set ?P then c else pixel_at g img x y)" by blast
  moreover have "(x, y) \<notin> set ?P"
    if "\<not> (min x1 x2 \<le> x \<and> x \<le> max x1 x2 \<and> min y1 y2 \<le> y \<and> y \<le> max y1 y2)" for x y
    using screen_point_box [of "(x, y)" x1 y1 x2 y2] that by auto
  ultimately show ?thesis using px screen_points_ends(1) [of x1 y1 x2 y2]
      screen_points_ends(2) [of x2 y2 x1 y1] assms(3,4) by auto
qed

theorem draw_line_on_screen_witness:
  "\<exists>img'. draw_line tiny_gfx (replicate 12 0) 0 0 3 2 7 = Some img' \<and> pixel_at tiny_gfx img' 3 2 = 7"
proof -
  have "gfx_ok tiny_gfx" "surface_ok tiny_gfx (replicate 12 0)" "on_screen tiny_gfx (0, 0)" "on_screen tiny_gfx (3, 2)"
    by (simp_all add: gfx_ok_def surface_ok_def on_screen_def tiny_gfx_def pitch_def)
  from draw_line_on_screen [OF this, of 7] show ?thesis by blast
qed

text \<open>
  C38. What \<open>draw_pixel\<close> does at the edges. On the screen it sets exactly that pixel. Its range check admits one column and
  one row too many: in column \<open>bitDepth / 2\<close> it sets the first pixel of the next row, and
  in row \<open>yLength\<close> it writes outside the buffer. Everywhere else it does nothing.
\<close>

theorem draw_pixel_edges:
  assumes "gfx_ok g" "surface_ok g img"
  shows "draw_pixel g img x y c =
    (if on_screen g (x, y) then Some (img[nat (y * pitch g + x) := c])
     else if x = pitch g \<and> 0 \<le> y \<and> y + 1 < yLength g then Some (img[nat ((y + 1) * pitch g) := c])
     else if x = pitch g \<and> y + 1 = yLength g \<or> 0 \<le> x \<and> x \<le> pitch g \<and> y = yLength g then None
     else Some img)"
proof -
  note h = half_size [OF assms(1)] and sz = size_small [OF assms(1)]
  have len: "int (length img) = yLength g * pitch g" using assms(2) by (simp add: surface_ok_def)
  have y0: "0 < yLength g" using assms(1) by (simp add: gfx_ok_def)
  consider "on_screen g (x, y)" | "x = pitch g" "0 \<le> y" "y + 1 < yLength g"
    | "x = pitch g \<and> y + 1 = yLength g \<or> 0 \<le> x \<and> x \<le> pitch g \<and> y = yLength g"
    | "x < 0 \<or> y < 0 \<or> pitch g < x \<or> yLength g < y"
    by (auto simp: on_screen_def) linarith
  then show ?thesis
  proof cases
    case 1
    then show ?thesis by (simp add: draw_pixel_on_screen [OF assms])
  next
    case 2
    have i: "0 \<le> (y + 1) * pitch g + 0" "(y + 1) * pitch g + 0 < yLength g * pitch g"
      using index_bound [of 0 "pitch g" "y + 1" "yLength g"] 2 h by auto
    then have "c_int (y * pitch g + x) = Some ((y + 1) * pitch g)"
      using sz by (simp add: 2(1) c_int_def algebra_simps)
    moreover have "c_set img ((y + 1) * pitch g) c = Some (img[nat ((y + 1) * pitch g) := c])"
      using i len by (intro c_set_Some) auto
    ultimately show ?thesis using 2 h by (simp add: draw_pixel_def on_screen_def)
  next
    case 3
    then have "yLength g * pitch g \<le> y * pitch g + x" using h
      by (auto simp: algebra_simps dest: arg_cong [of _ _ "\<lambda>n. n * pitch g"])
    then have "c_set img (y * pitch g + x) c = None" using len by (simp add: c_set_None_iff)
    then have "c_int (y * pitch g + x) \<bind> (\<lambda>i. c_set img i c) = None" by (simp add: c_int_def)
    with 3 h y0 show ?thesis by (auto simp: draw_pixel_def on_screen_def)
  next
    case 4
    with h y0 show ?thesis by (auto simp: draw_pixel_def on_screen_def)
  qed
qed

theorem draw_pixel_edges_witness:
  "draw_pixel tiny_gfx (replicate 12 0) 0 3 7 = None
   \<and> draw_pixel tiny_gfx (replicate 12 0) 4 0 7 = Some ((replicate 12 0)[4 := 7])"
proof -
  have ok: "gfx_ok tiny_gfx" "surface_ok tiny_gfx (replicate 12 0)"
    by (simp_all add: gfx_ok_def surface_ok_def tiny_gfx_def pitch_def)
  have "pitch tiny_gfx = 4" "yLength tiny_gfx = 3" by (simp_all add: tiny_gfx_def pitch_def)
  with draw_pixel_edges [OF ok, of 0 3 7] draw_pixel_edges [OF ok, of 4 0 7] show ?thesis
    by (simp add: on_screen_def)
qed

end
