(* ===== verification/Hilbert.thy ===== *)
theory Hilbert
  imports Graphics
begin

text \<open>
  The Hilbert curve program \<open>src/Graphic Library/hilbert.c\<close>: the turtle (\<open>direction\<close>, \<open>curr_x\<close>, \<open>curr_y\<close>),
  the recursive drawing and \<open>main\<close>, on the graphics library. The key strokes are a list; \<open>main\<close>
  either waits for the next key or has left. The recursion depth \<open>n\<close>, never negative in the program, is a \<open>nat\<close>;
  \<open>1 << n\<close> is undefined from \<open>n = 31\<close> on.

  The lemmas compare the drawing with a path of lattice points and show that this path visits
  every point of the square exactly once.
\<close>

section \<open>The program\<close>

record turtle =
  direction :: int
  curr_x :: int
  curr_y :: int

definition turn_left :: "int \<Rightarrow> turtle \<Rightarrow> turtle" where
  "turn_left degrees t = t\<lparr>direction := c_mod (direction t + degrees + 360) 360\<rparr>"

definition go_forward :: "gfx \<Rightarrow> int \<Rightarrow> surface \<times> turtle \<Rightarrow> (surface \<times> turtle) option" where
  "go_forward g distance s =
     (let (img, t) = s;
          new_x = (if direction t = 0 then curr_x t + distance
                   else if direction t = 180 then curr_x t - distance else curr_x t);
          new_y = (if direction t = 90 then curr_y t + distance
                   else if direction t = 270 then curr_y t - distance else curr_y t)
      in do {
        img \<leftarrow> draw_line g img (curr_x t) (curr_y t) new_x new_y (RGB 31 0 0);
        Some (img, t\<lparr>curr_x := new_x, curr_y := new_y\<rparr>)
      })"

fun hilbert_recurse :: "gfx \<Rightarrow> nat \<Rightarrow> int \<Rightarrow> int \<Rightarrow> surface \<times> turtle \<Rightarrow> (surface \<times> turtle) option" where
  "hilbert_recurse g 0 parity dist s = Some s"
| "hilbert_recurse g (Suc n) parity dist s = do {
     let s = apsnd (turn_left (parity * 90)) s;
     s \<leftarrow> hilbert_recurse g n (- parity) dist s;
     s \<leftarrow> go_forward g dist s;
     let s = apsnd (turn_left (- parity * 90)) s;
     s \<leftarrow> hilbert_recurse g n parity dist s;
     s \<leftarrow> go_forward g dist s;
     s \<leftarrow> hilbert_recurse g n parity dist s;
     let s = apsnd (turn_left (- parity * 90)) s;
     s \<leftarrow> go_forward g dist s;
     s \<leftarrow> hilbert_recurse g n (- parity) dist s;
     Some (apsnd (turn_left (parity * 90)) s)
   }"

definition hilbert :: "gfx \<Rightarrow> nat \<Rightarrow> int \<Rightarrow> surface \<times> turtle \<Rightarrow> (surface \<times> turtle) option" where
  "hilbert g n parity s =
     (if n < 31 then hilbert_recurse g n parity (c_div 479 (2 ^ n)) s else None)"

datatype main_result = Waiting gfx surface nat turtle | Exited gfx

text \<open>The \<open>do\<close> loop of \<open>main\<close>.\<close>

fun hilbert_loop :: "gfx \<Rightarrow> surface \<Rightarrow> nat \<Rightarrow> turtle \<Rightarrow> char list \<Rightarrow> main_result option" where
  "hilbert_loop g buf n t inp =
     (let t = t\<lparr>curr_x := 0, curr_y := 0\<rparr> in
      case inp of
        [] \<Rightarrow> Some (Waiting g buf n t)
      | key # ks \<Rightarrow>
          if key = CHR ''q'' then do { g \<leftarrow> exit_graphics g; Some (Exited g) }
          else if key = CHR ''n''
          then do {
            buf \<leftarrow> clear_screen g buf;
            (buf, t) \<leftarrow> hilbert g (n + 1) 1 (buf, t);
            g \<leftarrow> blit g buf;
            hilbert_loop g buf (n + 1) t ks
          }
          else hilbert_loop g buf n t ks)"

definition hilbert_main :: "device \<Rightarrow> char list \<Rightarrow> main_result option" where
  "hilbert_main d inp = do {
     g \<leftarrow> init_graphics d;
     let buf = create_buffer g;
     (buf, t) \<leftarrow> hilbert g 1 1 (buf, \<lparr>direction = 0, curr_x = 0, curr_y = 0\<rparr>);
     g \<leftarrow> blit g buf;
     hilbert_loop g buf 1 t inp
   }"

declare hilbert_loop.simps [simp del]

section \<open>The path\<close>

text \<open>
  The points after the start \<open>(x, y)\<close> of a curve that runs along \<open>u\<close> and lies on the side \<open>v\<close> of it.
\<close>

fun hpath :: "nat \<Rightarrow> int \<Rightarrow> int \<Rightarrow> int \<Rightarrow> int \<Rightarrow> int \<Rightarrow> int \<Rightarrow> (int \<times> int) list" where
  "hpath 0 ux uy vx vy x y = []"
| "hpath (Suc n) ux uy vx vy x y =
     (let m = 2 ^ n;
          x2 = x + m * vx; y2 = y + m * vy;
          x3 = x2 + m * ux; y3 = y2 + m * uy;
          x4 = x3 + (m - 1) * ux - vx; y4 = y3 + (m - 1) * uy - vy
      in hpath n vx vy ux uy x y @ (x2, y2) # hpath n ux uy vx vy x2 y2
         @ (x3, y3) # hpath n ux uy vx vy x3 y3
         @ (x4, y4) # hpath n (- vx) (- vy) (- ux) (- uy) x4 y4)"

lemma hpath_length: "length (hpath n ux uy vx vy x y) = 4 ^ n - 1"
proof (induction n arbitrary: ux uy vx vy x y)
  case 0
  then show ?case by simp
next
  case (Suc n)
  have "1 \<le> (4 :: nat) ^ n" by simp
  then show ?case by (simp add: Let_def Suc.IH)
qed

lemma last_four: "last (z # A @ b # B @ c # C @ d # D) = last (d # D)"
proof -
  have "z # A @ b # B @ c # C @ d # D = (z # A @ b # B @ c # C) @ (d # D)" by simp
  then show ?thesis by (metis last_appendR list.distinct(1))
qed

lemma hpath_last:
  "last ((x, y) # hpath n ux uy vx vy x y) = (x + (2 ^ n - 1) * ux, y + (2 ^ n - 1) * uy)"
proof (induction n arbitrary: ux uy vx vy x y)
  case 0
  then show ?case by simp
next
  case (Suc n)
  let ?m = "2 ^ n :: int"
  let ?x = "x + ?m * vx + ?m * ux + (?m - 1) * ux - vx" and ?y = "y + ?m * vy + ?m * uy + (?m - 1) * uy - vy"
  have "last ((x, y) # hpath (Suc n) ux uy vx vy x y) = last ((?x, ?y) # hpath n (- vx) (- vy) (- ux) (- uy) ?x ?y)"
    by (simp only: hpath.simps Let_def last_four)
  also have "\<dots> = (?x + (?m - 1) * - vx, ?y + (?m - 1) * - vy)" by (rule Suc.IH)
  also have "\<dots> = (x + (2 ^ Suc n - 1) * ux, y + (2 ^ Suc n - 1) * uy)" by (simp add: algebra_simps)
  finally show ?case .
qed

text \<open>The square of lattice points.\<close>

definition lattice :: "int \<Rightarrow> int \<Rightarrow> int \<Rightarrow> int \<Rightarrow> int \<Rightarrow> int \<Rightarrow> int \<times> int \<Rightarrow> int \<times> int" where
  "lattice ux uy vx vy x y p = (x + fst p * ux + snd p * vx, y + fst p * uy + snd p * vy)"

definition square :: "int \<Rightarrow> int \<Rightarrow> int \<Rightarrow> (int \<times> int) set" where
  "square a b m = {a..<a + m} \<times> {b..<b + m}"

lemma square_split:
  "0 \<le> m \<Longrightarrow> square 0 0 (2 * m) = square 0 0 m \<union> square 0 m m \<union> square m m m \<union> square m 0 m"
  by (auto simp: square_def)

lemma lattice_reindex:
  assumes "f ` square 0 0 m = square a b m" and "\<And>p. L p = K (f p)"
  shows "L ` square 0 0 m = K ` square a b m"
  using assms by (metis image_cong image_image)

lemma square_maps:
  "(\<lambda>p. (snd p, fst p)) ` square 0 0 m = square 0 0 m"
  "(\<lambda>p. (fst p + a, snd p + b)) ` square 0 0 m = square a b m"
  "(\<lambda>p. (2 * m - 1 - snd p, m - 1 - fst p)) ` square 0 0 m = square m 0 m"
proof -
  show "(\<lambda>p. (snd p, fst p)) ` square 0 0 m = square 0 0 m"
    by (auto simp: square_def image_iff) 
  have "(i, j) \<in> (\<lambda>p. (fst p + a, snd p + b)) ` square 0 0 m" if "(i, j) \<in> square a b m" for i j
    using that by (intro image_eqI [of _ _ "(i - a, j - b)"]) (auto simp: square_def)
  then show "(\<lambda>p. (fst p + a, snd p + b)) ` square 0 0 m = square a b m" by (auto simp: square_def)
  have "(i, j) \<in> (\<lambda>p. (2 * m - 1 - snd p, m - 1 - fst p)) ` square 0 0 m" if "(i, j) \<in> square m 0 m" for i j
    using that by (intro image_eqI [of _ _ "(m - 1 - j, 2 * m - 1 - i)"]) (auto simp: square_def)
  then show "(\<lambda>p. (2 * m - 1 - snd p, m - 1 - fst p)) ` square 0 0 m = square m 0 m"
    by (auto simp: square_def)
qed

lemma hpath_set:
  "insert (x, y) (set (hpath n ux uy vx vy x y)) = lattice ux uy vx vy x y ` square 0 0 (2 ^ n)"
proof (induction n arbitrary: ux uy vx vy x y)
  case 0
  have "square 0 0 1 = {(0, 0)}" by (auto simp: square_def)
  then show ?case by (simp add: lattice_def)
next
  case (Suc n)
  let ?m = "2 ^ n :: int"
  let ?L = "lattice ux uy vx vy x y"
  have q1: "lattice vx vy ux uy x y ` square 0 0 ?m = ?L ` square 0 0 ?m"
    by (rule lattice_reindex [OF square_maps(1)]) (simp add: lattice_def)
  have q2: "lattice ux uy vx vy (x + ?m * vx) (y + ?m * vy) ` square 0 0 ?m = ?L ` square 0 ?m ?m"
    using square_maps(2) [of 0 ?m ?m]
    by (rule lattice_reindex) (simp add: lattice_def algebra_simps)
  have q3: "lattice ux uy vx vy (x + ?m * vx + ?m * ux) (y + ?m * vy + ?m * uy) ` square 0 0 ?m = ?L ` square ?m ?m ?m"
    using square_maps(2) [of ?m ?m ?m]
    by (rule lattice_reindex) (simp add: lattice_def algebra_simps)
  have q4: "lattice (- vx) (- vy) (- ux) (- uy) (x + ?m * vx + ?m * ux + (?m - 1) * ux - vx)
      (y + ?m * vy + ?m * uy + (?m - 1) * uy - vy) ` square 0 0 ?m = ?L ` square ?m 0 ?m"
    using square_maps(3) [of ?m]
    by (rule lattice_reindex) (simp add: lattice_def algebra_simps)
  let ?p2 = "(x + ?m * vx, y + ?m * vy)" and ?p3 = "(x + ?m * vx + ?m * ux, y + ?m * vy + ?m * uy)"
  let ?p4 = "(x + ?m * vx + ?m * ux + (?m - 1) * ux - vx, y + ?m * vy + ?m * uy + (?m - 1) * uy - vy)"
  have "insert (x, y) (set (hpath (Suc n) ux uy vx vy x y)) =
      insert (x, y) (set (hpath n vx vy ux uy x y))
      \<union> insert ?p2 (set (hpath n ux uy vx vy (fst ?p2) (snd ?p2)))
      \<union> insert ?p3 (set (hpath n ux uy vx vy (fst ?p3) (snd ?p3)))
      \<union> insert ?p4 (set (hpath n (- vx) (- vy) (- ux) (- uy) (fst ?p4) (snd ?p4)))"
    by (simp add: Let_def Un_assoc insert_commute)
  also have "\<dots> = ?L ` square 0 0 ?m \<union> ?L ` square 0 ?m ?m \<union> ?L ` square ?m ?m ?m \<union> ?L ` square ?m 0 ?m"
    by (simp only: Suc.IH fst_conv snd_conv q1 q2 q3 q4)
  finally show ?case by (simp only: power_Suc square_split zero_le_power zero_le_numeral image_Un)
qed

text \<open>Neighbours on the path are one step along \<open>u\<close> or \<open>v\<close> apart.\<close>

definition unit_step :: "int \<Rightarrow> int \<Rightarrow> int \<Rightarrow> int \<Rightarrow> int \<times> int \<Rightarrow> int \<times> int \<Rightarrow> bool" where
  "unit_step ux uy vx vy p q \<longleftrightarrow>
     (fst q - fst p, snd q - snd p) \<in> {(ux, uy), (vx, vy), (- ux, - uy), (- vx, - vy)}"

lemma unit_step_sym: "unit_step vx vy ux uy = unit_step ux uy vx vy"
  "unit_step (- vx) (- vy) (- ux) (- uy) = unit_step ux uy vx vy"
  by (auto simp: unit_step_def fun_eq_iff)

lemma successively_join:
  assumes "successively P (z # A)" "successively P (b # B)" "P (last (z # A)) b"
  shows "successively P (z # A @ b # B)"
  using assms successively_append_iff [of P "z # A" "b # B"] by simp

lemma successively_four:
  assumes "successively P (z # A)" "successively P (b # B)" "successively P (c # C)" "successively P (d # D)"
    and "P (last (z # A)) b" "P (last (b # B)) c" "P (last (c # C)) d"
  shows "successively P (z # A @ b # B @ c # C @ d # D)"
  using assms by (intro successively_join) simp_all

lemma hpath_steps: "successively (unit_step ux uy vx vy) ((x, y) # hpath n ux uy vx vy x y)"
proof (induction n arbitrary: ux uy vx vy x y)
  case 0
  then show ?case by simp
next
  case (Suc n)
  let ?m = "2 ^ n :: int" and ?S = "unit_step ux uy vx vy"
  let ?x2 = "x + ?m * vx" and ?y2 = "y + ?m * vy"
  let ?x3 = "?x2 + ?m * ux" and ?y3 = "?y2 + ?m * uy"
  let ?x4 = "?x3 + (?m - 1) * ux - vx" and ?y4 = "?y3 + (?m - 1) * uy - vy"
  have "?S (last ((x, y) # hpath n vx vy ux uy x y)) (?x2, ?y2)"
    "?S (last ((?x2, ?y2) # hpath n ux uy vx vy ?x2 ?y2)) (?x3, ?y3)"
    "?S (last ((?x3, ?y3) # hpath n ux uy vx vy ?x3 ?y3)) (?x4, ?y4)"
    unfolding hpath_last by (simp_all add: unit_step_def algebra_simps)
  then show ?case
    unfolding hpath.simps Let_def
    using Suc.IH [of vx vy ux uy x y] Suc.IH [of ux uy vx vy ?x2 ?y2] Suc.IH [of ux uy vx vy ?x3 ?y3]
      Suc.IH [of "- vx" "- vy" "- ux" "- uy" ?x4 ?y4]
    by (intro successively_four) (simp_all only: unit_step_sym)
qed

lemma lattice_inj:
  assumes "d \<noteq> 0"
  shows "inj (lattice d 0 0 d x y)"
  using assms by (auto simp: inj_def lattice_def prod_eq_iff)

lemma card_square: "card (square 0 0 (2 ^ n)) = 4 ^ n"
proof -
  have "card (square 0 0 (2 ^ n)) = nat (2 ^ n) * nat (2 ^ n)" by (simp add: square_def card_cartesian_product)
  also have "\<dots> = (2 ^ n) * (2 ^ n)" by (simp add: nat_power_eq)
  also have "\<dots> = (4 :: nat) ^ n" by (simp add: power_mult_distrib [symmetric])
  finally show ?thesis .
qed

lemma hpath_distinct:
  assumes "d \<noteq> 0"
  shows "distinct ((x, y) # hpath n d 0 0 d x y)"
proof (rule card_distinct)
  have "card (set ((x, y) # hpath n d 0 0 d x y)) = card (lattice d 0 0 d x y ` square 0 0 (2 ^ n))"
    by (simp only: list.set hpath_set)
  also have "\<dots> = 4 ^ n" using lattice_inj [OF assms] by (subst card_image) (auto simp: card_square intro: inj_on_subset)
  also have "\<dots> = length ((x, y) # hpath n d 0 0 d x y)" by (simp add: hpath_length)
  finally show "card (set ((x, y) # hpath n d 0 0 d x y)) = length ((x, y) # hpath n d 0 0 d x y)" .
qed

section \<open>The program draws the path\<close>

fun draw_path :: "gfx \<Rightarrow> surface \<Rightarrow> (int \<times> int) list \<Rightarrow> surface option" where
  "draw_path g img (p # q # ps) = do {
     img \<leftarrow> draw_line g img (fst p) (snd p) (fst q) (snd q) (RGB 31 0 0);
     draw_path g img (q # ps)
   }"
| "draw_path g img _ = Some img"

lemma draw_path_append:
  "draw_path g img (p # ps @ q # qs) = do {
     img \<leftarrow> draw_path g img (p # ps);
     img \<leftarrow> draw_path g img [last (p # ps), q];
     draw_path g img (q # qs)
   }"
proof (induction ps arbitrary: p img)
  case Nil
  then show ?case by simp
next
  case (Cons a ps)
  show ?case by (simp only: append_Cons draw_path.simps(1) Cons.IH) (simp add: Option.bind_assoc)
qed

text \<open>The vector of a direction.\<close>

definition dir_x :: "int \<Rightarrow> int \<Rightarrow> int" where
  "dir_x dist d = (if d = 0 then dist else if d = 180 then - dist else 0)"

definition dir_y :: "int \<Rightarrow> int \<Rightarrow> int" where
  "dir_y dist d = (if d = 90 then dist else if d = 270 then - dist else 0)"

definition right_angle :: "int \<Rightarrow> bool" where
  "right_angle d \<longleftrightarrow> d = 0 \<or> d = 90 \<or> d = 180 \<or> d = 270"

definition turned :: "int \<Rightarrow> int \<Rightarrow> int" where
  "turned d a = c_mod (d + a + 360) 360"

lemma go_forward_line:
  "go_forward g dist (img, t) = map_option
     (\<lambda>img. (img, t\<lparr>curr_x := curr_x t + dir_x dist (direction t), curr_y := curr_y t + dir_y dist (direction t)\<rparr>))
     (draw_path g img [(curr_x t, curr_y t),
       (curr_x t + dir_x dist (direction t), curr_y t + dir_y dist (direction t))])"
  by (auto simp: go_forward_def dir_x_def dir_y_def Let_def map_option_case bind_eq_Some_conv
      split: option.split)

lemma turned_angles:
  assumes "right_angle d" "p = 1 \<or> p = - 1"
  shows "right_angle (turned d (p * 90))" "turned (turned d (p * 90)) (- p * 90) = d"
    "turned (turned d (- p * 90)) (p * 90) = d"
    "dir_x dist (turned d (- p * 90)) = - dir_x dist (turned d (p * 90))"
    "dir_y dist (turned d (- p * 90)) = - dir_y dist (turned d (p * 90))"
    "dir_x dist (turned (turned d (- p * 90)) (- p * 90)) = - dir_x dist d"
    "dir_y dist (turned (turned d (- p * 90)) (- p * 90)) = - dir_y dist d"
  using assms unfolding right_angle_def
  by (elim disjE; simp add: turned_def c_mod_def dir_x_def dir_y_def)+

abbreviation (input) at :: "int \<Rightarrow> int \<Rightarrow> int \<Rightarrow> turtle" where
  "at d x y \<equiv> \<lparr>direction = d, curr_x = x, curr_y = y\<rparr>"

text \<open>\<open>draws f g ps t t'\<close>: \<open>f\<close> draws the segments between the points \<open>ps\<close> and moves the turtle from \<open>t\<close> to \<open>t'\<close>.\<close>

definition draws ::
  "(surface \<times> turtle \<Rightarrow> (surface \<times> turtle) option) \<Rightarrow> gfx \<Rightarrow> (int \<times> int) list \<Rightarrow> turtle \<Rightarrow> turtle \<Rightarrow> bool" where
  "draws f g ps t t' \<longleftrightarrow> (\<forall>img. f (img, t) = map_option (\<lambda>img. (img, t')) (draw_path g img ps))"

lemma draws_bind:
  "draws f g ps t t' \<Longrightarrow> f (img, t) \<bind> k = draw_path g img ps \<bind> (\<lambda>img. k (img, t'))"
  by (cases "draw_path g img ps") (simp_all add: draws_def)

lemma draws_forward:
  assumes "last ps = (x, y)" "x' = x + dir_x dist d" "y' = y + dir_y dist d"
  shows "draws (go_forward g dist) g [last ps, (x', y')] (at d x y) (at d x' y')"
  using assms by (simp add: draws_def go_forward_line)

lemma turn_left_at [simp]: "apsnd (turn_left a) (img, at d x y) = (img, at (turned d a) x y)"
  by (simp add: turn_left_def turned_def)

lemma draw_path_four:
  "draw_path g img (z # A @ b # B @ c # C @ d # D) = do {
     img \<leftarrow> draw_path g img (z # A); img \<leftarrow> draw_path g img [last (z # A), b];
     img \<leftarrow> draw_path g img (b # B); img \<leftarrow> draw_path g img [last (b # B), c];
     img \<leftarrow> draw_path g img (c # C); img \<leftarrow> draw_path g img [last (c # C), d];
     draw_path g img (d # D)
   }"
  by (simp only: draw_path_append [of g _ z A] draw_path_append [of g _ b B] draw_path_append [of g _ c C])

lemma hilbert_recurse_draws:
  assumes "right_angle d" "p = 1 \<or> p = - 1"
  shows "draws (hilbert_recurse g n p dist) g
     ((x, y) # hpath n (dir_x dist d) (dir_y dist d) (dir_x dist (turned d (p * 90))) (dir_y dist (turned d (p * 90))) x y)
     (at d x y) (at d (x + (2 ^ n - 1) * dir_x dist d) (y + (2 ^ n - 1) * dir_y dist d))"
  using assms
proof (induction n arbitrary: d p x y)
  case 0
  then show ?case by (simp add: draws_def)
next
  case (Suc n)
  let ?m = "2 ^ n :: int" and ?v = "turned d (p * 90)" and ?w = "turned d (- p * 90)"
  let ?ux = "dir_x dist d" and ?uy = "dir_y dist d" and ?vx = "dir_x dist ?v" and ?vy = "dir_y dist ?v"
  let ?x2 = "x + ?m * ?vx" and ?y2 = "y + ?m * ?vy"
  let ?x3 = "?x2 + ?m * ?ux" and ?y3 = "?y2 + ?m * ?uy"
  let ?x4 = "?x3 + (?m - 1) * ?ux - ?vx" and ?y4 = "?y3 + (?m - 1) * ?uy - ?vy"
  note ang = turned_angles [OF Suc.prems]
  have p: "- p = 1 \<or> - p = - 1" and w: "right_angle ?w" using Suc.prems turned_angles(1) [of d "- p"] by auto
  have ret: "turned ?v (- p * 90) = d" "turned ?w (p * 90) = d" by (rule ang)+
  have R1: "draws (hilbert_recurse g n (- p) dist) g ((x, y) # hpath n ?vx ?vy ?ux ?uy x y)
      (at ?v x y) (at ?v (x + (?m - 1) * ?vx) (y + (?m - 1) * ?vy))"
    using Suc.IH [OF ang(1) p, of x y] by (simp only: ret)
  have F1: "draws (go_forward g dist) g [last ((x, y) # hpath n ?vx ?vy ?ux ?uy x y), (?x2, ?y2)]
      (at ?v (x + (?m - 1) * ?vx) (y + (?m - 1) * ?vy)) (at ?v ?x2 ?y2)"
    by (rule draws_forward [OF hpath_last]) (simp_all add: algebra_simps)
  have R2: "draws (hilbert_recurse g n p dist) g ((x', y') # hpath n ?ux ?uy ?vx ?vy x' y')
      (at d x' y') (at d (x' + (?m - 1) * ?ux) (y' + (?m - 1) * ?uy))" for x' y'
    by (rule Suc.IH [OF Suc.prems])
  have F2: "draws (go_forward g dist) g [last ((?x2, ?y2) # hpath n ?ux ?uy ?vx ?vy ?x2 ?y2), (?x3, ?y3)]
      (at d (?x2 + (?m - 1) * ?ux) (?y2 + (?m - 1) * ?uy)) (at d ?x3 ?y3)"
    by (rule draws_forward [OF hpath_last]) (simp_all add: algebra_simps)
  have F3: "draws (go_forward g dist) g [last ((?x3, ?y3) # hpath n ?ux ?uy ?vx ?vy ?x3 ?y3), (?x4, ?y4)]
      (at ?w (?x3 + (?m - 1) * ?ux) (?y3 + (?m - 1) * ?uy)) (at ?w ?x4 ?y4)"
    by (rule draws_forward [OF hpath_last]) (use ang(4,5) [of dist] in linarith)+
  have R4: "draws (hilbert_recurse g n (- p) dist) g ((?x4, ?y4) # hpath n (- ?vx) (- ?vy) (- ?ux) (- ?uy) ?x4 ?y4)
      (at ?w ?x4 ?y4) (at ?w (?x4 + (?m - 1) * - ?vx) (?y4 + (?m - 1) * - ?vy))"
    using Suc.IH [OF w p, of ?x4 ?y4] by (simp only: ang(4-7))
  have fin: "?x4 + (?m - 1) * - ?vx = x + (2 ^ Suc n - 1) * ?ux" "?y4 + (?m - 1) * - ?vy = y + (2 ^ Suc n - 1) * ?uy"
    by (simp_all add: algebra_simps)
  have "hilbert_recurse g (Suc n) p dist (img, at d x y) = map_option
      (\<lambda>img. (img, at d (x + (2 ^ Suc n - 1) * ?ux) (y + (2 ^ Suc n - 1) * ?uy)))
      (draw_path g img ((x, y) # hpath (Suc n) ?ux ?uy ?vx ?vy x y))" for img
    unfolding hilbert_recurse.simps Let_def hpath.simps draw_path_four
    by (simp only: turn_left_at draws_bind [OF R1] draws_bind [OF F1] draws_bind [OF R2] draws_bind [OF F2]
        draws_bind [OF F3] draws_bind [OF R4] ret fin map_conv_bind_option Option.bind_assoc o_def)
  then show ?case unfolding draws_def by blast
qed

section \<open>On the screen\<close>

definition start :: turtle where
  "start = at 0 0 0"

definition curve :: "nat \<Rightarrow> (int \<times> int) list" where
  "curve n = (0, 0) # hpath n (479 div 2 ^ n) 0 0 (479 div 2 ^ n) 0 0"

lemma hilbert_draws:
  assumes "n < 31"
  shows "hilbert g n 1 (img, start) =
    map_option (\<lambda>img. (img, at 0 ((2 ^ n - 1) * (479 div 2 ^ n)) 0)) (draw_path g img (curve n))"
  using assms hilbert_recurse_draws [of 0 1 g n "479 div 2 ^ n" 0 0]
  by (simp add: hilbert_def c_div_nonneg start_def right_angle_def turned_def c_mod_def dir_x_def dir_y_def
      draws_def curve_def)

lemma curve_set: "set (curve n) = (\<lambda>(i, j). (i * (479 div 2 ^ n), j * (479 div 2 ^ n))) ` ({0..<2 ^ n} \<times> {0..<2 ^ n})"
proof -
  have "set (curve n) = lattice (479 div 2 ^ n) 0 0 (479 div 2 ^ n) 0 0 ` square 0 0 (2 ^ n)"
    by (simp only: curve_def list.set hpath_set)
  then show ?thesis by (simp add: lattice_def square_def case_prod_beta')
qed

lemma curve_range:
  assumes "p \<in> set (curve n)"
  shows "0 \<le> fst p \<and> fst p < 480 \<and> 0 \<le> snd p \<and> snd p < 480"
proof -
  let ?d = "479 div 2 ^ n :: int"
  have "p \<in> (\<lambda>(i, j). (i * ?d, j * ?d)) ` ({0..<2 ^ n} \<times> {0..<2 ^ n})" using assms by (simp only: curve_set)
  then obtain z where "z \<in> {0..<2 ^ n} \<times> {0..<2 ^ n}" "p = (\<lambda>(i, j). (i * ?d, j * ?d)) z" by (rule imageE)
  then obtain i j where p: "p = (i * ?d, j * ?d)" and "0 \<le> i" "i < 2 ^ n" "0 \<le> j" "j < 2 ^ n"
    by (cases z) auto
  moreover have "2 ^ n * ?d = 479 - 479 mod 2 ^ n" by (rule minus_mod_eq_mult_div [symmetric])
  then have "2 ^ n * ?d \<le> 479" by simp
  moreover have "0 \<le> ?d" by (simp add: pos_imp_zdiv_nonneg_iff)
  moreover from calculation have "i * ?d \<le> 2 ^ n * ?d" "j * ?d \<le> 2 ^ n * ?d" by (simp_all add: mult_right_mono)
  ultimately show ?thesis by simp
qed

lemma draw_path_effect:
  assumes "gfx_ok g" "surface_ok g img" "\<forall>p \<in> set ps. on_screen g p \<and> fst p \<le> r \<and> snd p \<le> r"
  shows "\<exists>img'. draw_path g img ps = Some img' \<and> surface_ok g img'
           \<and> (\<forall>x y. on_screen g (x, y) \<longrightarrow>
                (pixel_at g img x y = RGB 31 0 0 \<longrightarrow> pixel_at g img' x y = RGB 31 0 0)
                \<and> (2 \<le> length ps \<and> (x, y) \<in> set ps \<longrightarrow> pixel_at g img' x y = RGB 31 0 0)
                \<and> (r < x \<or> r < y \<longrightarrow> pixel_at g img' x y = pixel_at g img x y))"
  using assms
proof (induction g img ps rule: draw_path.induct)
  case (1 g img p q ps)
  from draw_line_effect [of g img "fst p" "snd p" "fst q" "snd q" "RGB 31 0 0"] 1(2-4)
  obtain i1 where i1: "draw_line g img (fst p) (snd p) (fst q) (snd q) (RGB 31 0 0) = Some i1" "surface_ok g i1"
    and px: "\<And>x y. on_screen g (x, y) \<Longrightarrow> pixel_at g i1 x y =
        (if (x, y) \<in> set (screen_points (fst p) (snd p) (fst q) (snd q)) then RGB 31 0 0 else pixel_at g img x y)"
    by auto
  have ends: "p \<in> set (screen_points (fst p) (snd p) (fst q) (snd q))"
    "q \<in> set (screen_points (fst p) (snd p) (fst q) (snd q))"
    using screen_points_ends(1) [of "fst p" "snd p" "fst q" "snd q"]
      screen_points_ends(2) [of "fst q" "snd q" "fst p" "snd p"] by simp_all
  have out: "(x, y) \<notin> set (screen_points (fst p) (snd p) (fst q) (snd q))" if "r < x \<or> r < y" for x y
    using screen_point_box [of "(x, y)" "fst p" "snd p" "fst q" "snd q"] that 1(4) by fastforce
  from 1(1) [OF i1(1) 1(2) i1(2)] 1(4) obtain i2 where i2: "draw_path g i1 (q # ps) = Some i2" "surface_ok g i2"
    and px2: "\<And>x y. on_screen g (x, y) \<Longrightarrow>
        (pixel_at g i1 x y = RGB 31 0 0 \<longrightarrow> pixel_at g i2 x y = RGB 31 0 0)
        \<and> (2 \<le> length (q # ps) \<and> (x, y) \<in> set (q # ps) \<longrightarrow> pixel_at g i2 x y = RGB 31 0 0)
        \<and> (r < x \<or> r < y \<longrightarrow> pixel_at g i2 x y = pixel_at g i1 x y)" by auto
  have "(pixel_at g img x y = RGB 31 0 0 \<longrightarrow> pixel_at g i2 x y = RGB 31 0 0)
        \<and> ((x, y) \<in> set (p # q # ps) \<longrightarrow> pixel_at g i2 x y = RGB 31 0 0)
        \<and> (r < x \<or> r < y \<longrightarrow> pixel_at g i2 x y = pixel_at g img x y)" if on: "on_screen g (x, y)" for x y
  proof (intro conjI impI)
    show "pixel_at g img x y = RGB 31 0 0 \<Longrightarrow> pixel_at g i2 x y = RGB 31 0 0" using px [OF on] px2 [OF on] by simp
    show "r < x \<or> r < y \<Longrightarrow> pixel_at g i2 x y = pixel_at g img x y" using px [OF on] px2 [OF on] out by simp
    assume m: "(x, y) \<in> set (p # q # ps)"
    show "pixel_at g i2 x y = RGB 31 0 0"
    proof (cases "(x, y) = p \<or> (x, y) = q")
      case True
      then show ?thesis using px [OF on] px2 [OF on] ends by auto
    next
      case False
      with m have "2 \<le> length (q # ps)" "(x, y) \<in> set (q # ps)" by (cases ps; auto)+
      then show ?thesis using px2 [OF on] by blast
    qed
  qed
  with i1 i2 show ?case by auto
qed auto

lemma draw_line_frame:
  assumes "small_coord x1" "small_coord y1" "small_coord x2" "small_coord y2"
  shows "draw_line (g\<lparr>frameBuffer := fb\<rparr>) img x1 y1 x2 y2 c = draw_line g img x1 y1 x2 y2 c"
proof -
  have "draw_pixels (g\<lparr>frameBuffer := fb\<rparr>) img ps c = draw_pixels g img ps c" for ps
    by (induction ps arbitrary: img) (simp_all add: draw_pixel_def)
  then show ?thesis by (simp add: draw_line_points [OF assms])
qed

lemma draw_path_frame:
  "\<forall>p \<in> set ps. small_coord (fst p) \<and> small_coord (snd p) \<Longrightarrow>
     draw_path (g\<lparr>frameBuffer := fb\<rparr>) img ps = draw_path g img ps"
  by (induction g img ps rule: draw_path.induct) (auto simp: draw_line_frame intro: bind_option_cong)

text \<open>A screen that is large enough.\<close>

definition big_screen :: "gfx \<Rightarrow> bool" where
  "big_screen g \<longleftrightarrow> gfx_ok g \<and> 480 \<le> pitch g \<and> 480 \<le> yLength g"

definition curve_image :: "gfx \<Rightarrow> nat \<Rightarrow> surface" where
  "curve_image g n = the (draw_path g (blank g) (curve n))"

lemma blank_ok: "gfx_ok g \<Longrightarrow> surface_ok g (blank g)"
  using half_size by (auto simp: surface_ok_def blank_def gfx_ok_def)

lemma curve_on_screen: "big_screen g \<Longrightarrow> \<forall>p \<in> set (curve n). on_screen g p \<and> fst p \<le> 479 \<and> snd p \<le> 479"
  using curve_range by (fastforce simp: big_screen_def on_screen_def)

lemma curve_image:
  assumes "big_screen g"
  shows "draw_path g (blank g) (curve n) = Some (curve_image g n)" "surface_ok g (curve_image g n)"
  using draw_path_effect [OF _ blank_ok curve_on_screen [OF assms, of n]] assms
  by (auto simp: curve_image_def big_screen_def)

lemma hilbert_image:
  assumes "big_screen g" "n < 31"
  shows "hilbert (g\<lparr>frameBuffer := fb\<rparr>) n 1 (blank g, start)
    = Some (curve_image g n, at 0 ((2 ^ n - 1) * (479 div 2 ^ n)) 0)"
proof -
  have "\<forall>p \<in> set (curve n). small_coord (fst p) \<and> small_coord (snd p)"
    using curve_range by (fastforce simp: small_coord_def)
  then show ?thesis
    using hilbert_draws [OF assms(2)] draw_path_frame curve_image(1) [OF assms(1)] by simp
qed

section \<open>The main loop\<close>

lemma hilbert_loop_home: "hilbert_loop g buf n (at 0 x y) inp = hilbert_loop g buf n (at 0 0 0) inp"
  by (subst (1 2) hilbert_loop.simps) simp

lemma big_screen_frame: "surface_ok g fb \<Longrightarrow> big_screen g \<Longrightarrow> big_screen (g\<lparr>frameBuffer := fb\<rparr>)"
  by (auto simp: big_screen_def gfx_ok_def pitch_def surface_ok_def)

lemma surface_ok_frame [simp]: "surface_ok (g\<lparr>frameBuffer := fb\<rparr>) img = surface_ok g img"
  "blank (g\<lparr>frameBuffer := fb\<rparr>) = blank g"
  by (simp_all add: surface_ok_def blank_def pitch_def)

lemma hilbert_loop_next:
  assumes "big_screen g" "surface_ok g fb" "surface_ok g buf" "n + 1 < 31"
  shows "hilbert_loop (g\<lparr>frameBuffer := fb\<rparr>) buf n (at 0 0 0) (CHR ''n'' # ks)
    = hilbert_loop (g\<lparr>frameBuffer := curve_image g (n + 1)\<rparr>) (curve_image g (n + 1)) (n + 1) (at 0 0 0) ks"
proof -
  let ?g = "g\<lparr>frameBuffer := fb\<rparr>"
  have ok: "gfx_ok ?g" using big_screen_frame [OF assms(2,1)] by (simp add: big_screen_def)
  have "clear_screen ?g buf = Some (blank g)" using clear_screen_blank [OF ok] assms(3) by simp
  moreover have "blit ?g (curve_image g (n + 1)) = Some (g\<lparr>frameBuffer := curve_image g (n + 1)\<rparr>)"
    using blit_copies [OF ok] curve_image(2) [OF assms(1)] by simp
  ultimately show ?thesis
    using hilbert_image [OF assms(1,4), of fb]
    by (subst hilbert_loop.simps) (simp add: start_def Let_def, rule hilbert_loop_home)
qed

lemma hilbert_loop_keys:
  assumes "big_screen g" "CHR ''q'' \<notin> set ks" "n + count_list ks (CHR ''n'') < 31"
  shows "hilbert_loop (g\<lparr>frameBuffer := curve_image g n\<rparr>) (curve_image g n) n (at 0 0 0) (ks @ inp)
    = (let m = n + count_list ks (CHR ''n'') in
       hilbert_loop (g\<lparr>frameBuffer := curve_image g m\<rparr>) (curve_image g m) m (at 0 0 0) inp)"
  using assms(2,3)
proof (induction ks arbitrary: n)
  case Nil
  then show ?case by simp
next
  case (Cons k ks)
  note ok = curve_image(2) [OF assms(1)]
  show ?case
  proof (cases "k = CHR ''n''")
    case True
    with Cons hilbert_loop_next [OF assms(1) ok ok, of n] show ?thesis by (simp add: add.assoc)
  next
    case False
    with Cons.prems have "hilbert_loop (g\<lparr>frameBuffer := curve_image g n\<rparr>) (curve_image g n) n (at 0 0 0) ((k # ks) @ inp)
        = hilbert_loop (g\<lparr>frameBuffer := curve_image g n\<rparr>) (curve_image g n) n (at 0 0 0) (ks @ inp)"
      by (subst hilbert_loop.simps) (auto simp: Let_def)
    with Cons False show ?thesis by simp
  qed
qed

lemma hilbert_main_keys:
  assumes "init_graphics d = Some g" "big_screen g" "CHR ''q'' \<notin> set ks" "count_list ks (CHR ''n'') < 30"
  shows "hilbert_main d (ks @ inp) = (let m = 1 + count_list ks (CHR ''n'') in
       hilbert_loop (g\<lparr>frameBuffer := curve_image g m\<rparr>) (curve_image g m) m (at 0 0 0) inp)"
proof -
  have ok: "gfx_ok g" using assms(2) by (simp add: big_screen_def)
  have "create_buffer g = blank g"
    using half_size [OF ok] ok by (simp add: create_buffer_def blank_def gfx_ok_def)
  moreover have "hilbert g 1 1 (blank g, at 0 0 0) = Some (curve_image g 1, at 0 (239 :: int) 0)"
    using hilbert_image [OF assms(2), of 1 "frameBuffer g"] by (simp add: start_def)
  moreover have "blit g (curve_image g 1) = Some (g\<lparr>frameBuffer := curve_image g 1\<rparr>)"
    by (rule blit_copies [OF ok curve_image(2) [OF assms(2)]])
  ultimately have "hilbert_main d (ks @ inp)
      = hilbert_loop (g\<lparr>frameBuffer := curve_image g 1\<rparr>) (curve_image g 1) 1 (at 0 239 0) (ks @ inp)"
    using assms(1) by (simp add: hilbert_main_def)
  also have "\<dots> = hilbert_loop (g\<lparr>frameBuffer := curve_image g 1\<rparr>) (curve_image g 1) 1 (at 0 0 0) (ks @ inp)"
    by (rule hilbert_loop_home)
  finally show ?thesis using hilbert_loop_keys [OF assms(2,3), of 1] assms(4) by simp
qed

section \<open>Properties\<close>

text \<open>
  C16. The Hilbert curve is space filling: for the orders 0 to 8 the program draws a path of straight segments that starts in
  the origin, visits every point of the \<open>2 ^ n\<close> by \<open>2 ^ n\<close> grid exactly once and only moves between
  neighbours of the grid, and the turtle ends in the last corner of the base line, with its direction restored.
\<close>

theorem hilbert_visits_all:
  assumes "n \<le> 8"
  shows "let d = 479 div 2 ^ n in \<exists>path.
     (\<forall>img. hilbert g n 1 (img, start)
        = map_option (\<lambda>img. (img, \<lparr>direction = 0, curr_x = (2 ^ n - 1) * d, curr_y = 0\<rparr>)) (draw_path g img path))
     \<and> hd path = (0, 0) \<and> distinct path
     \<and> set path = (\<lambda>(i, j). (i * d, j * d)) ` ({0..<2 ^ n} \<times> {0..<2 ^ n})
     \<and> successively (\<lambda>p q. \<bar>fst q - fst p\<bar> + \<bar>snd q - snd p\<bar> = d) path"
proof -
  let ?d = "479 div 2 ^ n :: int"
  have "(2 :: int) ^ n \<le> 2 ^ 8" using assms by (rule power_increasing) simp
  then have d: "0 < ?d" by (simp add: pos_imp_zdiv_pos_iff)
  have "distinct (curve n)" using hpath_distinct [of ?d] d by (simp add: curve_def)
  moreover have "successively (\<lambda>p q. \<bar>fst q - fst p\<bar> + \<bar>snd q - snd p\<bar> = ?d) (curve n)"
    unfolding curve_def by (rule successively_mono [OF hpath_steps]) (use d in \<open>auto simp: unit_step_def\<close>)
  moreover have "hd (curve n) = (0, 0)" by (simp add: curve_def)
  ultimately show ?thesis
    using hilbert_draws [of n g] assms curve_set [of n] unfolding Let_def
    by (intro exI [of _ "curve n"]) simp
qed

definition big_device :: device where
  "big_device = \<lparr>yres_virtual = 480, line_length = 960, dev_mem = replicate 230400 0, dev_lflag = 10\<rparr>"

theorem hilbert_visits_all_witness:
  "\<exists>path. hd path = (0, 0) \<and> distinct path
     \<and> (\<forall>img. hilbert tiny_gfx 1 1 (img, start)
        = map_option (\<lambda>img. (img, \<lparr>direction = 0, curr_x = 239, curr_y = 0\<rparr>)) (draw_path tiny_gfx img path))"
  using hilbert_visits_all [of 1 tiny_gfx] by auto

text \<open>
  Drawing the curve is safe on a screen of at least 480 by 480 pixels, for every order below 31: all
  accesses stay inside the buffer, every point of the grid is red afterwards, and no pixel
  outside the 480 by 480 corner changes.
\<close>

theorem hilbert_on_screen:
  assumes "big_screen g" "surface_ok g img" "1 \<le> n" "n < 31"
  shows "\<exists>img' t. hilbert g n 1 (img, start) = Some (img', t) \<and> surface_ok g img' \<and> direction t = 0
    \<and> (\<forall>i \<in> {0..<2 ^ n}. \<forall>j \<in> {0..<2 ^ n}.
         pixel_at g img' (i * (479 div 2 ^ n)) (j * (479 div 2 ^ n)) = RGB 31 0 0)
    \<and> (\<forall>x y. on_screen g (x, y) \<longrightarrow> 480 \<le> x \<or> 480 \<le> y \<longrightarrow> pixel_at g img' x y = pixel_at g img x y)"
proof -
  have "gfx_ok g" using assms(1) by (simp add: big_screen_def)
  from draw_path_effect [OF this assms(2) curve_on_screen [OF assms(1), of n]] obtain img' where
    dp: "draw_path g img (curve n) = Some img'" "surface_ok g img'"
    and px: "\<And>x y. on_screen g (x, y) \<Longrightarrow>
        (2 \<le> length (curve n) \<and> (x, y) \<in> set (curve n) \<longrightarrow> pixel_at g img' x y = RGB 31 0 0)
        \<and> (479 < x \<or> 479 < y \<longrightarrow> pixel_at g img' x y = pixel_at g img x y)" by blast
  have "(4 :: nat) ^ 1 \<le> 4 ^ n" using assms(3) by (rule power_increasing) simp
  then have len: "2 \<le> length (curve n)" by (simp add: curve_def hpath_length)
  have grid: "pixel_at g img' (i * (479 div 2 ^ n)) (j * (479 div 2 ^ n)) = RGB 31 0 0"
    if "i \<in> {0..<2 ^ n}" "j \<in> {0..<2 ^ n}" for i j
  proof -
    have "(i * (479 div 2 ^ n), j * (479 div 2 ^ n)) \<in> set (curve n)"
      unfolding curve_set using that by (intro image_eqI [of _ _ "(i, j)"]) auto
    with px curve_on_screen [OF assms(1), of n] len show ?thesis by blast
  qed
  show ?thesis using hilbert_draws [OF assms(4)] dp grid px by auto
qed

lemma big_device_screen:
  "\<exists>g. init_graphics big_device = Some g \<and> big_screen g"
  by (simp add: init_graphics_def big_device_def c_int_def c_div_nonneg big_screen_def gfx_ok_def pitch_def Let_def)

theorem hilbert_on_screen_witness:
  "\<exists>g img' t. init_graphics big_device = Some g \<and> hilbert g 2 1 (blank g, start) = Some (img', t)
     \<and> pixel_at g img' 119 357 = RGB 31 0 0"
proof -
  obtain g where g: "init_graphics big_device = Some g" "big_screen g" using big_device_screen by blast
  then have "surface_ok g (blank g)" by (simp add: big_screen_def blank_ok)
  from hilbert_on_screen [OF g(2) this, of 2] obtain img' t where
    h: "hilbert g 2 1 (blank g, start) = Some (img', t)"
    and px: "\<forall>i \<in> {0..<2 ^ 2}. \<forall>j \<in> {0..<2 ^ 2}.
         pixel_at g img' (i * (479 div 2 ^ 2)) (j * (479 div 2 ^ 2)) = RGB 31 0 0" by auto
  from px [rule_format, of 1 3] h g(1) show ?thesis by auto
qed

text \<open>
  The program as a whole. After any key strokes without \<open>q\<close> and with at most 29 \<open>n\<close>, the frame buffer shows exactly
  the curve of order one plus the number of \<open>n\<close>, drawn on a blank screen. A \<open>q\<close> then
  ends the program with a blank, unmapped frame buffer and the terminal flags as they were before the start.
\<close>

theorem hilbert_main_shows:
  assumes "init_graphics d = Some g" "big_screen g" "CHR ''q'' \<notin> set ks" "count_list ks (CHR ''n'') < 30"
  shows "(\<exists>g' buf t. hilbert_main d ks = Some (Waiting g' buf (1 + count_list ks (CHR ''n'')) t)
      \<and> frameBuffer g' = curve_image g (1 + count_list ks (CHR ''n'')))
    \<and> (\<exists>g'. hilbert_main d (ks @ CHR ''q'' # rest) = Some (Exited g')
      \<and> frameBuffer g' = blank g \<and> \<not> mapped g' \<and> tty_lflag g' = dev_lflag d)"
proof -
  let ?m = "1 + count_list ks (CHR ''n'')" and ?g = "g\<lparr>frameBuffer := curve_image g (1 + count_list ks (CHR ''n''))\<rparr>"
  note main = hilbert_main_keys [OF assms]
  have "hilbert_main d ks = Some (Waiting ?g (curve_image g ?m) ?m (at 0 0 0))"
    using main [of "[]"] by (simp add: Let_def hilbert_loop.simps)
  moreover have "gfx_ok ?g" "surface_ok g (curve_image g ?m)"
    using big_screen_frame [OF curve_image(2) [OF assms(2)] assms(2)] curve_image(2) assms(2) by (simp_all add: big_screen_def)
  then have "exit_graphics ?g = Some (?g\<lparr>frameBuffer := blank g, mapped := False, tty_lflag := term_old g\<rparr>)"
    using clear_screen_blank [of ?g "curve_image g ?m"] by (simp add: exit_graphics_def)
  then have "hilbert_main d (ks @ CHR ''q'' # rest)
      = Some (Exited (?g\<lparr>frameBuffer := blank g, mapped := False, tty_lflag := term_old g\<rparr>))"
    using main [of "CHR ''q'' # rest"] by (simp add: Let_def hilbert_loop.simps)
  moreover have "term_old g = dev_lflag d"
    using assms(1) by (auto simp: init_graphics_def bind_Some_iff Let_def)
  ultimately show ?thesis by simp
qed

theorem hilbert_main_shows_witness:
  "\<exists>g'. hilbert_main big_device ''nxnq'' = Some (Exited g') \<and> tty_lflag g' = 10 \<and> \<not> mapped g'"
proof -
  obtain g where g: "init_graphics big_device = Some g" "big_screen g" using big_device_screen by blast
  from hilbert_main_shows [OF g, of "''nxn''" "[]"] show ?thesis by (auto simp: big_device_def)
qed

end
