(* ===== verification/Driver.thy ===== *)
theory Driver
  imports Graphics
begin

text \<open>
  The demonstration program \<open>src/Graphic Library/driver.c\<close>: a line for each of the first three \<open>n\<close> keys.
  The key strokes are a list; the program either waits for the next one or has left.
\<close>

datatype driver_result = Pending gfx surface nat | Left_driver gfx

definition driver_lines :: "gfx \<Rightarrow> nat \<Rightarrow> surface \<Rightarrow> surface option" where
  "driver_lines g n buf = do {
     buf \<leftarrow> (if n = 1 then draw_line g buf 0 0 120 120 (RGB 12 58 21) else Some buf);
     buf \<leftarrow> (if n = 2 then draw_line g buf 120 67 321 399 (RGB 0 58 21) else Some buf);
     if n = 3 then draw_line g buf 31 62 520 310 (RGB 12 0 21) else Some buf
   }"

text \<open>The \<open>do\<close> loop of \<open>main\<close>.\<close>

fun driver_loop :: "gfx \<Rightarrow> surface \<Rightarrow> nat \<Rightarrow> char list \<Rightarrow> driver_result option" where
  "driver_loop g buf n inp =
     (if n = 3 then do { g \<leftarrow> exit_graphics g; Some (Left_driver g) }
      else case inp of
        [] \<Rightarrow> Some (Pending g buf n)
      | key # ks \<Rightarrow>
          if key = CHR ''q'' then do { g \<leftarrow> exit_graphics g; Some (Left_driver g) }
          else if key = CHR ''n''
          then do {
            buf \<leftarrow> clear_screen g buf;
            buf \<leftarrow> driver_lines g (n + 1) buf;
            g \<leftarrow> blit g buf;
            driver_loop g buf (n + 1) ks
          }
          else driver_loop g buf n ks)"

definition driver_main :: "device \<Rightarrow> char list \<Rightarrow> driver_result option" where
  "driver_main d inp = do {
     g \<leftarrow> init_graphics d;
     let buf = create_buffer g;
     g \<leftarrow> blit g buf;
     driver_loop g buf 0 inp
   }"

declare driver_loop.simps [simp del]

text \<open>A screen on which the three lines fit.\<close>

definition driver_screen :: "gfx \<Rightarrow> bool" where
  "driver_screen g \<longleftrightarrow> gfx_ok g \<and> 520 < pitch g \<and> 399 < yLength g"

lemma driver_lines_ok:
  assumes "driver_screen g" "surface_ok g buf" "n \<le> 3"
  shows "\<exists>buf'. driver_lines g n buf = Some buf' \<and> surface_ok g buf'"
proof -
  have g: "gfx_ok g" using assms(1) by (simp add: driver_screen_def)
  have "\<exists>b. draw_line g buf 0 0 120 120 (RGB 12 58 21) = Some b \<and> surface_ok g b"
    "\<exists>b. draw_line g buf 120 67 321 399 (RGB 0 58 21) = Some b \<and> surface_ok g b"
    "\<exists>b. draw_line g buf 31 62 520 310 (RGB 12 0 21) = Some b \<and> surface_ok g b"
    using draw_line_effect [OF g assms(2), of 0 0 120 120 "RGB 12 58 21"]
      draw_line_effect [OF g assms(2), of 120 67 321 399 "RGB 0 58 21"]
      draw_line_effect [OF g assms(2), of 31 62 520 310 "RGB 12 0 21"] assms(1)
    by (auto simp: driver_screen_def on_screen_def)
  with assms(2) show ?thesis by (auto simp: driver_lines_def)
qed

lemma exit_blank:
  assumes "gfx_ok g"
  shows "exit_graphics g = Some (g\<lparr>frameBuffer := blank g, mapped := False, tty_lflag := term_old g\<rparr>)"
  using clear_screen_blank [OF assms, of "frameBuffer g"] assms
  by (simp add: exit_graphics_def surface_ok_def gfx_ok_def)

lemma driver_loop_result:
  assumes "driver_screen g" "surface_ok g buf" "n \<le> 3"
  shows "(\<exists>g' buf' n'. driver_loop g buf n ks = Some (Pending g' buf' n') \<and> n' < 3 \<and> n' = n + count_list ks (CHR ''n'')
            \<and> CHR ''q'' \<notin> set ks \<and> surface_ok g (frameBuffer g'))
       \<or> (\<exists>g'. driver_loop g buf n ks = Some (Left_driver g') \<and> frameBuffer g' = blank g \<and> tty_lflag g' = term_old g
            \<and> \<not> mapped g' \<and> (CHR ''q'' \<in> set ks \<or> 3 \<le> n + count_list ks (CHR ''n'')))"
  using assms
proof (induction ks arbitrary: g buf n)
  case Nil
  then have "gfx_ok g" by (simp add: driver_screen_def)
  with exit_blank [OF this] Nil show ?case by (subst (1 2) driver_loop.simps) (auto simp: gfx_ok_def surface_ok_def)
next
  case (Cons k ks)
  have g: "gfx_ok g" using Cons.prems(1) by (simp add: driver_screen_def)
  note ex = exit_blank [OF g]
  consider "n = 3" | "n < 3" "k = CHR ''q''" | "n < 3" "k = CHR ''n''" | "n < 3" "k \<noteq> CHR ''q''" "k \<noteq> CHR ''n''"
    using Cons.prems(3) by linarith
  then show ?case
  proof cases
    case 1
    with ex show ?thesis by (subst (1 2) driver_loop.simps) auto
  next
    case 2
    with ex show ?thesis by (subst (1 2) driver_loop.simps) auto
  next
    case 3
    obtain b where b: "driver_lines g (n + 1) (blank g) = Some b" "surface_ok g b"
      using driver_lines_ok [OF Cons.prems(1), of "blank g" "n + 1"] 3 g half_size [OF g]
      by (auto simp: surface_ok_def blank_def gfx_ok_def)
    let ?g = "g\<lparr>frameBuffer := b\<rparr>"
    have "driver_screen ?g" "surface_ok ?g b" "blank ?g = blank g"
      using Cons.prems(1) b(2) by (auto simp: driver_screen_def gfx_ok_def pitch_def surface_ok_def blank_def)
    moreover have "driver_loop g buf n (k # ks) = driver_loop ?g b (n + 1) ks"
      using 3 b clear_screen_blank [OF g Cons.prems(2)] blit_copies [OF g b(2)]
      by (subst driver_loop.simps) simp
    ultimately show ?thesis
      using Cons.IH [of ?g b "n + 1"] 3 by (auto simp: surface_ok_def pitch_def)
  next
    case 4
    then have "driver_loop g buf n (k # ks) = driver_loop g buf n ks" by (subst driver_loop.simps) simp
    with Cons.IH [OF Cons.prems] 4 show ?thesis by auto
  qed
qed

definition wide_device :: device where
  "wide_device = \<lparr>yres_virtual = 400, line_length = 1042, dev_mem = replicate 208400 0, dev_lflag = 10\<rparr>"

text \<open>
  The driver always keeps running safely or leaves properly: whatever keys arrive, no access
  leaves the buffers; the program has left exactly when a \<open>q\<close> or the third \<open>n\<close> was read, and then the
  frame buffer is blank and unmapped and the terminal flags are restored.
\<close>

theorem driver_main_exits:
  assumes "init_graphics d = Some g" "driver_screen g"
  shows "if CHR ''q'' \<in> set ks \<or> 3 \<le> count_list ks (CHR ''n'')
    then \<exists>g'. driver_main d ks = Some (Left_driver g') \<and> frameBuffer g' = blank g \<and> \<not> mapped g'
           \<and> tty_lflag g' = dev_lflag d
    else \<exists>g' buf. driver_main d ks = Some (Pending g' buf (count_list ks (CHR ''n'')))"
proof -
  have ok: "gfx_ok g" using assms(2) by (simp add: driver_screen_def)
  have cb: "create_buffer g = blank g" "surface_ok g (blank g)"
    using half_size [OF ok] ok by (auto simp: create_buffer_def blank_def gfx_ok_def surface_ok_def)
  let ?g = "g\<lparr>frameBuffer := blank g\<rparr>"
  have "driver_screen ?g" "surface_ok ?g (blank g)" "blank ?g = blank g"
    using assms(2) cb by (auto simp: driver_screen_def gfx_ok_def pitch_def surface_ok_def blank_def)
  moreover have "term_old g = dev_lflag d"
    using assms(1) by (auto simp: init_graphics_def bind_Some_iff Let_def)
  moreover have "driver_main d ks = driver_loop ?g (blank g) 0 ks"
    using assms(1) blit_copies [OF ok cb(2)] by (simp add: driver_main_def cb(1) Let_def)
  ultimately show ?thesis using driver_loop_result [of ?g "blank g" 0 ks] by auto
qed

theorem driver_main_exits_witness:
  "\<exists>g'. driver_main wide_device ''nnxn'' = Some (Left_driver g') \<and> tty_lflag g' = 10"
proof -
  obtain g where g: "init_graphics wide_device = Some g" "driver_screen g"
    by (simp add: init_graphics_def wide_device_def c_int_def c_div_nonneg driver_screen_def gfx_ok_def
        pitch_def Let_def)
  from driver_main_exits [OF g, of "''nnxn''"] show ?thesis by (auto simp: wide_device_def)
qed

end
