(* ===== verification/Fuse_Disk.thy ===== *)
theory Fuse_Disk
  imports C_Bytes
begin

text \<open>
  The disk of the file system \<open>src/File Systems Implementation/csc452fuse.c\<close>: the file \<open>.disk\<close> is a list of bytes, and
  the structs the code reads and writes there (root directory, directory entry, data block) are
  encoded as on the machine: little-endian integers of 4 and 8 bytes, packed arrays, 512 bytes each.
  The locale \<open>codec\<close> is the contract of such an encoding; arrays of encoded things are treated once in it.
  The C declarations of the structs (\<open>csc452_root_directory_c\<close>, ...) with the rules for size, alignment and offset are a second,
  independent description, against which the encodings are checked.
\<close>

section \<open>The contract of an encoding\<close>

text \<open>\<open>chunks k n bs\<close>: the first \<open>n\<close> pieces of \<open>k\<close> bytes.\<close>

fun chunks :: "nat \<Rightarrow> nat \<Rightarrow> char list \<Rightarrow> char list list" where
  "chunks k 0 bs = []"
| "chunks k (Suc n) bs = take k bs # chunks k n (drop k bs)"

lemma chunks_length [simp]: "length (chunks k n bs) = n"
  by (induction n arbitrary: bs) auto

lemma nth_chunks: "i < n \<Longrightarrow> chunks k n bs ! i = take k (drop (i * k) bs)"
proof (induction n arbitrary: bs i)
  case 0
  then show ?case by simp
next
  case (Suc n)
  then show ?case by (cases i) (auto simp: add.commute)
qed

locale codec =
  fixes enc :: "'a \<Rightarrow> char list"
    and dec :: "char list \<Rightarrow> 'a"
    and ok :: "'a \<Rightarrow> bool"
    and len :: nat
  assumes enc_len: "ok x \<Longrightarrow> length (enc x) = len"
    and dec_enc: "ok x \<Longrightarrow> dec (enc x) = x"
    and dec_ok: "length bs = len \<Longrightarrow> ok (dec bs)"
    and enc_dec: "length bs = len \<Longrightarrow> enc (dec bs) = bs"
begin

lemma array_length: "\<forall>x \<in> set xs. ok x \<Longrightarrow> length (concat (map enc xs)) = length xs * len"
  by (induction xs) (auto simp: enc_len)

lemma array_dec_enc:
  "\<forall>x \<in> set xs. ok x \<Longrightarrow> map dec (chunks len (length xs) (concat (map enc xs) @ rest)) = xs"
  by (induction xs) (auto simp: enc_len dec_enc)

lemma array_dec_ok:
  "n * len \<le> length bs \<Longrightarrow> \<forall>x \<in> set (map dec (chunks len n bs)). ok x"
proof (induction n arbitrary: bs)
  case 0
  then show ?case by simp
next
  case (Suc n)
  then have "length (take len bs) = len" "n * len \<le> length (drop len bs)" by auto
  with Suc.IH [of "drop len bs"] dec_ok show ?case by auto
qed

lemma array_enc_dec:
  "n * len \<le> length bs \<Longrightarrow> concat (map enc (map dec (chunks len n bs))) = take (n * len) bs"
proof (induction n arbitrary: bs)
  case 0
  then show ?case by simp
next
  case (Suc n)
  then have "length (take len bs) = len" "n * len \<le> length (drop len bs)" by auto
  with Suc.IH [of "drop len bs"] enc_dec [of "take len bs"] show ?case by (simp add: take_add)
qed

end

section \<open>The structs\<close>

definition MAX_FILENAME :: nat where "MAX_FILENAME = 8"
definition MAX_EXTENSION :: nat where "MAX_EXTENSION = 3"
definition BLOCK_SIZE :: int where "BLOCK_SIZE = 512"
definition MAX_FILES_IN_DIR :: int where "MAX_FILES_IN_DIR = (512 - 4) div ((8 + 1) + (3 + 1) + 8 + 8)"
definition MAX_DIRS_IN_ROOT :: int where "MAX_DIRS_IN_ROOT = (512 - 4) div ((8 + 1) + 8)"
definition MAX_DATA_IN_BLOCK :: int where "MAX_DATA_IN_BLOCK = 512 - 8"

lemma limits [simp]: "MAX_FILES_IN_DIR = 17" "MAX_DIRS_IN_ROOT = 29" "MAX_DATA_IN_BLOCK = 504" "BLOCK_SIZE = 512"
  by (simp_all add: MAX_FILES_IN_DIR_def MAX_DIRS_IN_ROOT_def MAX_DATA_IN_BLOCK_def BLOCK_SIZE_def)

record csc452_file_directory =
  fname :: "char list"
  fext :: "char list"
  fsize :: int
  nStartBlock :: int

record csc452_directory_entry =
  nFiles :: int
  files :: "csc452_file_directory list"
  dir_padding :: "char list"

record csc452_directory =
  dname :: "char list"
  dStartBlock :: int

record csc452_root_directory =
  nDirectories :: int
  directories :: "csc452_directory list"
  root_padding :: "char list"

record csc452_disk_block =
  data :: "char list"
  nNextBlock :: int

definition enc_file :: "csc452_file_directory \<Rightarrow> char list" where
  "enc_file f = fname f @ fext f @ enc_size (fsize f) @ enc_long (nStartBlock f)"

definition dec_file :: "char list \<Rightarrow> csc452_file_directory" where
  "dec_file bs = \<lparr>fname = take 9 bs, fext = take 4 (drop 9 bs), fsize = dec_size (take 8 (drop 13 bs)),
     nStartBlock = dec_long (take 8 (drop 21 bs))\<rparr>"

definition enc_entry :: "csc452_directory_entry \<Rightarrow> char list" where
  "enc_entry e = enc_int (nFiles e) @ concat (map enc_file (files e)) @ dir_padding e"

definition dec_entry :: "char list \<Rightarrow> csc452_directory_entry" where
  "dec_entry bs = \<lparr>nFiles = dec_int (take 4 bs), files = map dec_file (chunks 29 17 (drop 4 bs)),
     dir_padding = drop 497 bs\<rparr>"

definition enc_slot :: "csc452_directory \<Rightarrow> char list" where
  "enc_slot d = dname d @ enc_long (dStartBlock d)"

definition dec_slot :: "char list \<Rightarrow> csc452_directory" where
  "dec_slot bs = \<lparr>dname = take 9 bs, dStartBlock = dec_long (take 8 (drop 9 bs))\<rparr>"

definition enc_root :: "csc452_root_directory \<Rightarrow> char list" where
  "enc_root r = enc_int (nDirectories r) @ concat (map enc_slot (directories r)) @ root_padding r"

definition dec_root :: "char list \<Rightarrow> csc452_root_directory" where
  "dec_root bs = \<lparr>nDirectories = dec_int (take 4 bs), directories = map dec_slot (chunks 17 29 (drop 4 bs)),
     root_padding = drop 497 bs\<rparr>"

definition enc_block :: "csc452_disk_block \<Rightarrow> char list" where
  "enc_block b = data b @ enc_long (nNextBlock b)"

definition dec_block :: "char list \<Rightarrow> csc452_disk_block" where
  "dec_block bs = \<lparr>data = take 504 bs, nNextBlock = dec_long (take 8 (drop 504 bs))\<rparr>"

text \<open>Values that fit their fields.\<close>

definition is_int :: "int \<Rightarrow> bool" where "is_int x \<longleftrightarrow> s32 x = x"
definition is_long :: "int \<Rightarrow> bool" where "is_long x \<longleftrightarrow> s64 x = x"
definition is_size :: "int \<Rightarrow> bool" where "is_size x \<longleftrightarrow> u64 x = x"

definition file_ok :: "csc452_file_directory \<Rightarrow> bool" where
  "file_ok f \<longleftrightarrow> length (fname f) = 9 \<and> length (fext f) = 4 \<and> is_size (fsize f) \<and> is_long (nStartBlock f)"

definition entry_ok :: "csc452_directory_entry \<Rightarrow> bool" where
  "entry_ok e \<longleftrightarrow> is_int (nFiles e) \<and> length (files e) = 17 \<and> (\<forall>f \<in> set (files e). file_ok f)
     \<and> length (dir_padding e) = 15"

definition slot_ok :: "csc452_directory \<Rightarrow> bool" where
  "slot_ok d \<longleftrightarrow> length (dname d) = 9 \<and> is_long (dStartBlock d)"

definition root_ok :: "csc452_root_directory \<Rightarrow> bool" where
  "root_ok r \<longleftrightarrow> is_int (nDirectories r) \<and> length (directories r) = 29 \<and> (\<forall>d \<in> set (directories r). slot_ok d)
     \<and> length (root_padding r) = 15"

definition block_ok :: "csc452_disk_block \<Rightarrow> bool" where
  "block_ok b \<longleftrightarrow> length (data b) = 504 \<and> is_long (nNextBlock b)"

lemma take_drop_rest: "m = n + k \<Longrightarrow> take n (drop k bs) @ drop m bs = drop k bs"
  by (metis append_take_drop_id drop_drop)

lemmas enc_dec_simps = enc_dec_int enc_dec_long enc_dec_size take_drop_rest

lemma is_long_dec: "length bs = 8 \<Longrightarrow> is_long (dec_long bs)"
proof -
  have "s64 (s64 x) = s64 x" for x
    using pos_mod_bound [of 18446744073709551616 "x + 9223372036854775808"]
      pos_mod_sign [of 18446744073709551616 "x + 9223372036854775808"]
    by (intro s64_id) (simp_all add: s64_def)
  then show ?thesis by (simp add: is_long_def dec_long_def)
qed

lemma is_int_dec: "is_int (dec_int bs)"
  unfolding is_int_def dec_int_def by (rule s32_id) (simp_all add: s32_range)

lemma is_size_dec:
  assumes "length bs = 8"
  shows "is_size (dec_size bs)"
proof -
  have "le_nat bs < 256 ^ 8" using le_nat_bound [of bs] by (simp only: assms)
  then have "int (le_nat bs) < int (256 ^ 8)" by (simp only: of_nat_less_iff)
  also have "int (256 ^ 8) = 18446744073709551616" by (simp only: of_nat_power) simp
  finally show ?thesis by (simp add: is_size_def dec_size_def u64_id)
qed

interpretation fd: codec enc_file dec_file file_ok 29
  by unfold_locales
    (auto simp: enc_file_def dec_file_def file_ok_def is_long_def is_size_def is_long_dec [unfolded is_long_def]
      is_size_dec [unfolded is_size_def] enc_dec_simps)

interpretation sd: codec enc_slot dec_slot slot_ok 17
  by unfold_locales (auto simp: enc_slot_def dec_slot_def slot_ok_def is_long_def is_long_dec [unfolded is_long_def] enc_dec_simps)

interpretation bd: codec enc_block dec_block block_ok 512
  by unfold_locales (auto simp: enc_block_def dec_block_def block_ok_def is_long_def is_long_dec [unfolded is_long_def] enc_dec_simps)

lemma entry_length: "entry_ok e \<Longrightarrow> length (enc_entry e) = 512"
  by (simp add: entry_ok_def enc_entry_def fd.array_length)

lemma dec_enc_entry: "entry_ok e \<Longrightarrow> dec_entry (enc_entry e) = e"
proof -
  assume e: "entry_ok e"
  let ?fs = "concat (map enc_file (files e))"
  have l: "length ?fs = 493" using e fd.array_length [of "files e"] by (simp add: entry_ok_def)
  have "map dec_file (chunks 29 17 (?fs @ dir_padding e)) = files e"
    using e fd.array_dec_enc [of "files e" "dir_padding e"] by (simp add: entry_ok_def)
  with e l show ?thesis by (simp add: dec_entry_def enc_entry_def entry_ok_def is_int_def)
qed

lemma dec_entry_ok: "length bs = 512 \<Longrightarrow> entry_ok (dec_entry bs)"
  using fd.array_dec_ok [of 17 "drop 4 bs"] by (simp add: entry_ok_def dec_entry_def is_int_dec)

lemma enc_dec_entry: "length bs = 512 \<Longrightarrow> enc_entry (dec_entry bs) = bs"
  using fd.array_enc_dec [of 17 "drop 4 bs"] by (simp add: enc_entry_def dec_entry_def enc_dec_simps)

interpretation ed: codec enc_entry dec_entry entry_ok 512
  by unfold_locales (simp_all add: entry_length dec_enc_entry dec_entry_ok enc_dec_entry)

lemma root_length: "root_ok r \<Longrightarrow> length (enc_root r) = 512"
  by (simp add: root_ok_def enc_root_def sd.array_length)

lemma dec_enc_root: "root_ok r \<Longrightarrow> dec_root (enc_root r) = r"
proof -
  assume r: "root_ok r"
  let ?ds = "concat (map enc_slot (directories r))"
  have l: "length ?ds = 493" using r sd.array_length [of "directories r"] by (simp add: root_ok_def)
  have "map dec_slot (chunks 17 29 (?ds @ root_padding r)) = directories r"
    using r sd.array_dec_enc [of "directories r" "root_padding r"] by (simp add: root_ok_def)
  with r l show ?thesis by (simp add: dec_root_def enc_root_def root_ok_def is_int_def)
qed

lemma dec_root_ok: "length bs = 512 \<Longrightarrow> root_ok (dec_root bs)"
  using sd.array_dec_ok [of 29 "drop 4 bs"] by (simp add: root_ok_def dec_root_def is_int_dec)

lemma enc_dec_root: "length bs = 512 \<Longrightarrow> enc_root (dec_root bs) = bs"
  using sd.array_enc_dec [of 29 "drop 4 bs"] by (simp add: enc_root_def dec_root_def enc_dec_simps)

interpretation rd: codec enc_root dec_root root_ok 512
  by unfold_locales (simp_all add: root_length dec_enc_root dec_root_ok enc_dec_root)

section \<open>The layout of the C structs\<close>

text \<open>
  C types as the compiler lays them out: a member of an ordinary struct is placed at the next multiple of its alignment, and the size is rounded up to the
  alignment of the struct; in a packed struct nothing is aligned. The encodings above do not refer to this;
  that they agree with it is a theorem.
\<close>

datatype ctype = C_char | C_int | C_long | C_size_t | C_array ctype nat | C_struct bool cfields
  and cfields = No_field | Field string ctype cfields

text \<open>\<open>off\<close> rounded up to a multiple of \<open>a\<close>.\<close>

definition pad_up :: "nat \<Rightarrow> nat \<Rightarrow> nat" where
  "pad_up a off = (off + a - 1) div a * a"

primrec c_align :: "ctype \<Rightarrow> nat" and fields_align :: "cfields \<Rightarrow> nat" where
  "c_align C_char = 1"
| "c_align C_int = 4"
| "c_align C_long = 8"
| "c_align C_size_t = 8"
| "c_align (C_array t n) = c_align t"
| "c_align (C_struct packed fs) = (if packed then 1 else fields_align fs)"
| "fields_align No_field = 1"
| "fields_align (Field x t fs) = max (c_align t) (fields_align fs)"

text \<open>The size of a type, and the offset behind the last of some members placed from \<open>off\<close> on.\<close>

primrec c_sizeof :: "ctype \<Rightarrow> nat" and fields_end :: "cfields \<Rightarrow> bool \<Rightarrow> nat \<Rightarrow> nat" where
  "c_sizeof C_char = 1"
| "c_sizeof C_int = 4"
| "c_sizeof C_long = 8"
| "c_sizeof C_size_t = 8"
| "c_sizeof (C_array t n) = n * c_sizeof t"
| "c_sizeof (C_struct packed fs) = pad_up (if packed then 1 else fields_align fs) (fields_end fs packed 0)"
| "fields_end No_field packed off = off"
| "fields_end (Field x t fs) packed off = fields_end fs packed (pad_up (if packed then 1 else c_align t) off + c_sizeof t)"

fun find_field :: "cfields \<Rightarrow> bool \<Rightarrow> nat \<Rightarrow> string \<Rightarrow> (nat \<times> ctype) option" where
  "find_field No_field packed off x = None"
| "find_field (Field y t fs) packed off x =
     (let o' = pad_up (if packed then 1 else c_align t) off in
      if x = y then Some (o', t) else find_field fs packed (o' + c_sizeof t) x)"

text \<open>The expression \<open>.x\<close> or \<open>[i]\<close>; offset and type of a member that a sequence of them selects.\<close>

datatype csel = Dot string | Ix nat

fun c_member :: "ctype \<Rightarrow> csel list \<Rightarrow> (nat \<times> ctype) option" where
  "c_member t [] = Some (0, t)"
| "c_member (C_struct packed fs) (Dot x # s) = do {
     (o', t) \<leftarrow> find_field fs packed 0 x;
     (o'', t') \<leftarrow> c_member t s;
     Some (o' + o'', t')
   }"
| "c_member (C_array t n) (Ix i # s) =
     (if i < n then do { (o', t') \<leftarrow> c_member t s; Some (i * c_sizeof t + o', t') } else None)"
| "c_member _ _ = None"

definition c_bytes :: "ctype \<Rightarrow> char list \<Rightarrow> csel list \<Rightarrow> char list option" where
  "c_bytes t bs s = map_option (\<lambda>(o', t'). take (c_sizeof t') (drop o' bs)) (c_member t s)"

text \<open>The integer member that \<open>s\<close> selects has the value \<open>x\<close>.\<close>

definition c_int_at :: "ctype \<Rightarrow> char list \<Rightarrow> csel list \<Rightarrow> int \<Rightarrow> bool" where
  "c_int_at t bs s x \<longleftrightarrow> (case c_bytes t bs s of None \<Rightarrow> False | Some xs \<Rightarrow> c_value xs x)"

text \<open>The declarations of \<open>csc452fuse.c\<close>.\<close>

definition csc452_file_directory_c :: ctype where
  "csc452_file_directory_c = C_struct True
     (Field ''fname'' (C_array C_char (MAX_FILENAME + 1))
     (Field ''fext'' (C_array C_char (MAX_EXTENSION + 1))
     (Field ''fsize'' C_size_t
     (Field ''nStartBlock'' C_long No_field))))"

definition csc452_directory_entry_c :: ctype where
  "csc452_directory_entry_c = C_struct False
     (Field ''nFiles'' C_int
     (Field ''files'' (C_array csc452_file_directory_c (nat MAX_FILES_IN_DIR))
     (Field ''padding'' (C_array C_char
        (nat BLOCK_SIZE - nat MAX_FILES_IN_DIR * c_sizeof csc452_file_directory_c - c_sizeof C_int)) No_field)))"

definition csc452_directory_c :: ctype where
  "csc452_directory_c = C_struct True
     (Field ''dname'' (C_array C_char (MAX_FILENAME + 1))
     (Field ''nStartBlock'' C_long No_field))"

definition csc452_root_directory_c :: ctype where
  "csc452_root_directory_c = C_struct False
     (Field ''nDirectories'' C_int
     (Field ''directories'' (C_array csc452_directory_c (nat MAX_DIRS_IN_ROOT))
     (Field ''padding'' (C_array C_char
        (nat BLOCK_SIZE - nat MAX_DIRS_IN_ROOT * c_sizeof csc452_directory_c - c_sizeof C_int)) No_field)))"

definition csc452_disk_block_c :: ctype where
  "csc452_disk_block_c = C_struct False
     (Field ''data'' (C_array C_char (nat MAX_DATA_IN_BLOCK))
     (Field ''nNextBlock'' C_long No_field))"

lemmas c_decls = csc452_file_directory_c_def csc452_directory_entry_c_def csc452_directory_c_def
  csc452_root_directory_c_def csc452_disk_block_c_def MAX_FILENAME_def MAX_EXTENSION_def

text \<open>The bytes of a struct, member by member.\<close>

definition root_layout :: "csc452_root_directory \<Rightarrow> char list \<Rightarrow> bool" where
  "root_layout r bs \<longleftrightarrow> length bs = c_sizeof csc452_root_directory_c
     \<and> c_int_at csc452_root_directory_c bs [Dot ''nDirectories''] (nDirectories r)
     \<and> (\<forall>i < 29. c_bytes csc452_root_directory_c bs [Dot ''directories'', Ix i, Dot ''dname''] = Some (dname (directories r ! i))
          \<and> c_int_at csc452_root_directory_c bs [Dot ''directories'', Ix i, Dot ''nStartBlock''] (dStartBlock (directories r ! i)))
     \<and> c_bytes csc452_root_directory_c bs [Dot ''padding''] = Some (root_padding r)"

definition entry_layout :: "csc452_directory_entry \<Rightarrow> char list \<Rightarrow> bool" where
  "entry_layout e bs \<longleftrightarrow> length bs = c_sizeof csc452_directory_entry_c
     \<and> c_int_at csc452_directory_entry_c bs [Dot ''nFiles''] (nFiles e)
     \<and> (\<forall>i < 17. c_bytes csc452_directory_entry_c bs [Dot ''files'', Ix i, Dot ''fname''] = Some (fname (files e ! i))
          \<and> c_bytes csc452_directory_entry_c bs [Dot ''files'', Ix i, Dot ''fext''] = Some (fext (files e ! i))
          \<and> c_int_at csc452_directory_entry_c bs [Dot ''files'', Ix i, Dot ''fsize''] (fsize (files e ! i))
          \<and> c_int_at csc452_directory_entry_c bs [Dot ''files'', Ix i, Dot ''nStartBlock''] (nStartBlock (files e ! i)))
     \<and> c_bytes csc452_directory_entry_c bs [Dot ''padding''] = Some (dir_padding e)"

definition block_layout :: "csc452_disk_block \<Rightarrow> char list \<Rightarrow> bool" where
  "block_layout b bs \<longleftrightarrow> length bs = c_sizeof csc452_disk_block_c
     \<and> c_bytes csc452_disk_block_c bs [Dot ''data''] = Some (data b)
     \<and> c_int_at csc452_disk_block_c bs [Dot ''nNextBlock''] (nNextBlock b)"

lemma struct_sizes:
  "c_sizeof csc452_file_directory_c = 29" "c_sizeof csc452_directory_c = 17"
  "c_sizeof csc452_directory_entry_c = 512" "c_sizeof csc452_root_directory_c = 512" "c_sizeof csc452_disk_block_c = 512"
  by (simp_all add: c_decls pad_up_def)

lemma root_members:
  "c_member csc452_root_directory_c [Dot ''nDirectories''] = Some (0, C_int)"
  "i < 29 \<Longrightarrow> c_member csc452_root_directory_c [Dot ''directories'', Ix i, Dot ''dname''] = Some (4 + i * 17, C_array C_char 9)"
  "i < 29 \<Longrightarrow> c_member csc452_root_directory_c [Dot ''directories'', Ix i, Dot ''nStartBlock''] = Some (4 + (i * 17 + 9), C_long)"
  "c_member csc452_root_directory_c [Dot ''padding''] = Some (497, C_array C_char 15)"
  by (simp_all add: c_decls pad_up_def)

lemma entry_members:
  "c_member csc452_directory_entry_c [Dot ''nFiles''] = Some (0, C_int)"
  "i < 17 \<Longrightarrow> c_member csc452_directory_entry_c [Dot ''files'', Ix i, Dot ''fname''] = Some (4 + i * 29, C_array C_char 9)"
  "i < 17 \<Longrightarrow> c_member csc452_directory_entry_c [Dot ''files'', Ix i, Dot ''fext''] = Some (4 + (i * 29 + 9), C_array C_char 4)"
  "i < 17 \<Longrightarrow> c_member csc452_directory_entry_c [Dot ''files'', Ix i, Dot ''fsize''] = Some (4 + (i * 29 + 13), C_size_t)"
  "i < 17 \<Longrightarrow> c_member csc452_directory_entry_c [Dot ''files'', Ix i, Dot ''nStartBlock''] = Some (4 + (i * 29 + 21), C_long)"
  "c_member csc452_directory_entry_c [Dot ''padding''] = Some (497, C_array C_char 15)"
  by (simp_all add: c_decls pad_up_def)

lemma block_members:
  "c_member csc452_disk_block_c [Dot ''data''] = Some (0, C_array C_char 504)"
  "c_member csc452_disk_block_c [Dot ''nNextBlock''] = Some (504, C_long)"
  by (simp_all add: c_decls pad_up_def)

lemmas layout_simps = c_bytes_def c_int_at_def struct_sizes c_value_dec nth_chunks take_take min_def add.commute add.left_commute

lemma dec_root_layout: "length bs = 512 \<Longrightarrow> root_layout (dec_root bs) bs"
  by (simp add: root_layout_def root_members layout_simps dec_root_def dec_slot_def drop_take)

lemma dec_entry_layout: "length bs = 512 \<Longrightarrow> entry_layout (dec_entry bs) bs"
  by (simp add: entry_layout_def entry_members layout_simps dec_entry_def dec_file_def drop_take)

lemma dec_block_layout: "length bs = 512 \<Longrightarrow> block_layout (dec_block bs) bs"
  by (simp add: block_layout_def block_members layout_simps dec_block_def)

section \<open>Reading and writing the disk file\<close>

text \<open>
  \<open>fseek (fp, pos, SEEK_SET)\<close> followed by \<open>fread\<close> or \<open>fwrite\<close> of \<open>n\<close> bytes. A transfer that is not
  wholly inside the file leaves the caller's struct partly uninitialised, or grows the file: \<open>None\<close>.
\<close>

type_synonym disk = "char list"

definition read_at :: "disk \<Rightarrow> int \<Rightarrow> nat \<Rightarrow> char list option" where
  "read_at d pos n =
     (if 0 \<le> pos \<and> pos + int n \<le> int (length d) then Some (take n (drop (nat pos) d)) else None)"

definition write_at :: "disk \<Rightarrow> int \<Rightarrow> char list \<Rightarrow> disk option" where
  "write_at d pos bs =
     (if 0 \<le> pos \<and> pos + int (length bs) \<le> int (length d)
      then Some (take (nat pos) d @ bs @ drop (nat pos + length bs) d) else None)"

lemma read_at_length: "read_at d pos n = Some bs \<Longrightarrow> length bs = n"
  by (auto simp: read_at_def split: if_splits)

lemma write_at_length: "write_at d pos bs = Some d' \<Longrightarrow> length d' = length d"
  by (auto simp: write_at_def split: if_splits)

lemma read_write_same: "write_at d pos bs = Some d' \<Longrightarrow> read_at d' pos (length bs) = Some bs"
  by (auto simp: write_at_def read_at_def split: if_splits)

lemma read_write_other:
  assumes "write_at d pos bs = Some d'" "q + int n \<le> pos \<or> pos + int (length bs) \<le> q"
  shows "read_at d' q n = read_at d q n"
proof (cases "0 \<le> q \<and> q + int n \<le> int (length d)")
  case True
  have d': "d' = take (nat pos) d @ bs @ drop (nat pos + length bs) d" "0 \<le> pos" "pos + int (length bs) \<le> int (length d)"
    using assms(1) by (auto simp: write_at_def split: if_splits)
  have "take n (drop (nat q) d') = take n (drop (nat q) d)"
  proof (rule nth_equalityI)
    show "length (take n (drop (nat q) d')) = length (take n (drop (nat q) d))"
      using write_at_length [OF assms(1)] by simp
    fix i assume "i < length (take n (drop (nat q) d'))"
    then have i: "i < n" "nat q + i < length d" using write_at_length [OF assms(1)] by auto
    have "d' ! (nat q + i) = d ! (nat q + i)"
    proof (cases "q + int n \<le> pos")
      case True
      then have "nat q + i < nat pos" using i \<open>0 \<le> q \<and> _\<close> by linarith
      then show ?thesis using d' by (simp add: nth_append)
    next
      case False
      then have "nat pos + length bs \<le> nat q + i" using assms(2) d'(2) \<open>0 \<le> q \<and> _\<close> by linarith
      then have "\<not> nat q + i < nat pos" "\<not> nat q + i - nat pos < length bs"
        "nat pos + length bs + (nat q + i - nat pos - length bs) = nat q + i" by linarith+
      then show ?thesis using d' by (simp add: nth_append del: nat_add_distrib)
    qed
    then show "take n (drop (nat q) d') ! i = take n (drop (nat q) d) ! i"
      using i write_at_length [OF assms(1)] by simp
  qed
  then show ?thesis using True write_at_length [OF assms(1)] by (simp add: read_at_def)
next
  case False
  then show ?thesis using write_at_length [OF assms(1)] by (auto simp: read_at_def)
qed

text \<open>
  C28. The structs on the disk have the layout of the C declarations. The five structs have the sizes that these give, each of the three the code transfers one block of 512
  bytes. Writing a root directory, a directory entry or a data block whose fields fit at any place in the disk
  file puts every member, as bytes or as a little-endian integer, at the offset that the C rules assign to it, and reading it back gives the same
  struct. Conversely every block read from the disk is a struct that fits, whose members are the bytes at their
  offsets, and writing it back gives the same bytes.
\<close>

theorem struct_roundtrip:
  assumes "root_ok r" "entry_ok e" "block_ok b" "0 \<le> pos" "pos + 512 \<le> int (length d)"
  shows "c_sizeof csc452_file_directory_c = 29 \<and> c_sizeof csc452_directory_c = 17
    \<and> c_sizeof csc452_root_directory_c = 512 \<and> c_sizeof csc452_directory_entry_c = 512 \<and> c_sizeof csc452_disk_block_c = 512
    \<and> (\<exists>d' bs. write_at d pos (enc_root r) = Some d' \<and> read_at d' pos 512 = Some bs \<and> root_layout r bs \<and> dec_root bs = r)
    \<and> (\<exists>d' bs. write_at d pos (enc_entry e) = Some d' \<and> read_at d' pos 512 = Some bs \<and> entry_layout e bs \<and> dec_entry bs = e)
    \<and> (\<exists>d' bs. write_at d pos (enc_block b) = Some d' \<and> read_at d' pos 512 = Some bs \<and> block_layout b bs \<and> dec_block bs = b)
    \<and> (\<exists>bs. read_at d pos 512 = Some bs
        \<and> root_ok (dec_root bs) \<and> root_layout (dec_root bs) bs \<and> write_at d pos (enc_root (dec_root bs)) = Some d
        \<and> entry_ok (dec_entry bs) \<and> entry_layout (dec_entry bs) bs \<and> write_at d pos (enc_entry (dec_entry bs)) = Some d
        \<and> block_ok (dec_block bs) \<and> block_layout (dec_block bs) bs \<and> write_at d pos (enc_block (dec_block bs)) = Some d)"
proof -
  have rt: "\<exists>d'. write_at d pos bs = Some d' \<and> read_at d' pos 512 = Some bs" if "length bs = 512" for bs
    using that assms(4,5) read_write_same [of d pos bs] by (auto simp: write_at_def)
  note len = rd.enc_len [OF assms(1)] ed.enc_len [OF assms(2)] bd.enc_len [OF assms(3)]
  note dec = rd.dec_enc [OF assms(1)] ed.dec_enc [OF assms(2)] bd.dec_enc [OF assms(3)]
  note layout = dec_root_layout [OF len(1)] dec_entry_layout [OF len(2)] dec_block_layout [OF len(3)]
  obtain bs where bs: "read_at d pos 512 = Some bs" "length bs = 512" "write_at d pos bs = Some d"
    using assms(4,5) by (auto simp: read_at_def write_at_def take_drop_rest add.commute)
  have "\<exists>d' bs. write_at d pos (enc_root r) = Some d' \<and> read_at d' pos 512 = Some bs \<and> root_layout r bs \<and> dec_root bs = r"
    "\<exists>d' bs. write_at d pos (enc_entry e) = Some d' \<and> read_at d' pos 512 = Some bs \<and> entry_layout e bs \<and> dec_entry bs = e"
    "\<exists>d' bs. write_at d pos (enc_block b) = Some d' \<and> read_at d' pos 512 = Some bs \<and> block_layout b bs \<and> dec_block bs = b"
    using rt [OF len(1)] rt [OF len(2)] rt [OF len(3)] layout by (auto simp: dec)
  moreover note rd.dec_ok [OF bs(2)] ed.dec_ok [OF bs(2)] bd.dec_ok [OF bs(2)] rd.enc_dec [OF bs(2)] ed.enc_dec [OF bs(2)]
    bd.enc_dec [OF bs(2)] dec_root_layout [OF bs(2)] dec_entry_layout [OF bs(2)] dec_block_layout [OF bs(2)]
  ultimately show ?thesis using bs(1,3) by (simp add: struct_sizes)
qed

theorem struct_roundtrip_witness:
  "\<exists>d' bs. write_at (replicate 512 NUL) 0 (enc_block \<lparr>data = replicate 504 (CHR ''x''), nNextBlock = - 5\<rparr>) = Some d'
     \<and> read_at d' 0 512 = Some bs \<and> dec_block bs = \<lparr>data = replicate 504 (CHR ''x''), nNextBlock = - 5\<rparr>
     \<and> of_char (bs ! 504) = (251 :: int) \<and> of_char (bs ! 511) = (255 :: int)"
proof -
  let ?b = "\<lparr>data = replicate 504 (CHR ''x''), nNextBlock = - 5\<rparr>"
  have z: "length (replicate 512 NUL) = 512" by simp
  have "block_ok ?b" by (simp add: block_ok_def is_long_def s64_def)
  from struct_roundtrip [OF dec_root_ok [OF z] dec_entry_ok [OF z] this, of 0 "replicate 512 NUL"] obtain d' bs where
    d: "write_at (replicate 512 NUL) 0 (enc_block ?b) = Some d'" "read_at d' 0 512 = Some bs" "dec_block bs = ?b"
    and l: "block_layout ?b bs" by auto
  have "length bs = 512" by (rule read_at_length [OF d(2)])
  then have "of_char (drop 504 bs ! k) = (- 5) div 256 ^ k mod (256 :: int)" if "k < 8" for k
    using l that by (simp add: block_layout_def block_members layout_simps c_value_def)
  from this [of 0] this [of 7] \<open>length bs = 512\<close> d show ?thesis by (intro exI [of _ d'] exI [of _ bs]) simp
qed

end
