(* ===== verification/Fuse_FS.thy ===== *)
theory Fuse_FS
  imports Fuse_Disk
begin

text \<open>
  The operations of \<open>src/File Systems Implementation/csc452fuse.c\<close>, a file system of two levels on
  the disk of \<open>Fuse_Disk\<close>. Every operation takes the contents of the file \<open>.disk\<close> and returns the result code of the C function
  with the new contents. \<open>None\<close> stands for undefined behaviour: \<open>sscanf\<close> writing past a
  local array, a string without terminator, a use of an uninitialised struct, a transfer outside the disk
  file. Reads and writes take effect at once, the buffering of \<open>stdio\<close> is not modelled.
\<close>

section \<open>Paths\<close>

definition is_space :: "char \<Rightarrow> bool" where
  "is_space c \<longleftrightarrow> c \<in> set [CHR '' '', CHR 0x09, CHR 0x0A, CHR 0x0B, CHR 0x0C, CHR 0x0D]"

text \<open>
  \<open>sscanf (path, "/%[^/]/%[^.].%s", directory, filename, extension)\<close> with arrays of 9, 9 and 4 characters:
  the number of conversions and the strings stored; \<open>None\<close> when one of them does not fit.
\<close>

definition scan_path :: "string \<Rightarrow> (int \<times> string \<times> string \<times> string) option" where
  "scan_path path =
     (case path of
        [] \<Rightarrow> Some (- 1, [], [], [])
      | c # p1 \<Rightarrow>
          if c \<noteq> CHR ''/'' then Some (0, [], [], [])
          else if p1 = [] then Some (- 1, [], [], [])
          else
            let dir = takeWhile (\<lambda>c. c \<noteq> CHR ''/'') p1 in
            if dir = [] then Some (0, [], [], [])
            else if MAX_FILENAME < length dir then None
            else
              (case dropWhile (\<lambda>c. c \<noteq> CHR ''/'') p1 of
                 [] \<Rightarrow> Some (1, dir, [], [])
               | _ # p2 \<Rightarrow>
                   let fn = takeWhile (\<lambda>c. c \<noteq> CHR ''.'') p2 in
                   if fn = [] then Some (1, dir, [], [])
                   else if MAX_FILENAME < length fn then None
                   else
                     (case dropWhile (\<lambda>c. c \<noteq> CHR ''.'') p2 of
                        [] \<Rightarrow> Some (2, dir, fn, [])
                      | _ # p3 \<Rightarrow>
                          let ext = takeWhile (\<lambda>c. \<not> is_space c) (dropWhile is_space p3) in
                          if ext = [] then Some (2, dir, fn, [])
                          else if MAX_EXTENSION < length ext then None
                          else Some (3, dir, fn, ext))))"

section \<open>Looking up directories and files\<close>

definition get_root :: "disk \<Rightarrow> csc452_root_directory option" where
  "get_root d = map_option dec_root (read_at d 0 512)"

text \<open>The loop of \<open>dir_exists\<close> from \<open>i\<close>.\<close>

function dir_loop :: "csc452_root_directory \<Rightarrow> string \<Rightarrow> int \<Rightarrow> int option" where
  "dir_loop root directory i =
     (if i < nDirectories root
      then do {
        s \<leftarrow> c_get (directories root) i;
        b \<leftarrow> str_eq directory (dname s);
        if b then Some i else dir_loop root directory (i + 1)
      }
      else Some (- 1))"
  by pat_completeness auto
termination by (relation "measure (\<lambda>(root, _, i). nat (nDirectories root - i))") auto

definition dir_exists :: "disk \<Rightarrow> string \<Rightarrow> int option" where
  "dir_exists d directory = do { root \<leftarrow> get_root d; dir_loop root directory 0 }"

text \<open>The index of the directory with its entry, or \<open>- 1\<close> and an entry that was not written.\<close>

definition get_dir :: "disk \<Rightarrow> string \<Rightarrow> (int \<times> csc452_directory_entry option) option" where
  "get_dir d directory = do {
     root \<leftarrow> get_root d;
     dir_order \<leftarrow> dir_exists d directory;
     if dir_order = - 1 then Some (- 1, None)
     else do {
       s \<leftarrow> c_get (directories root) dir_order;
       bs \<leftarrow> read_at d (dStartBlock s) 512;
       Some (dir_order, Some (dec_entry bs))
     }
   }"

text \<open>The loop of \<open>file_exist\<close> from \<open>i\<close>.\<close>

function file_loop :: "csc452_directory_entry \<Rightarrow> string \<Rightarrow> string \<Rightarrow> int \<Rightarrow> int \<Rightarrow> int option" where
  "file_loop entry filename extension path_comp i =
     (if i < nFiles entry
      then do {
        f \<leftarrow> c_get (files entry) i;
        b \<leftarrow> str_eq filename (fname f);
        if b then
          if path_comp = 3 then do {
            c \<leftarrow> str_eq extension (fext f);
            if c then Some (s32 (fsize f)) else file_loop entry filename extension path_comp (i + 1)
          }
          else Some (s32 (fsize f))
        else file_loop entry filename extension path_comp (i + 1)
      }
      else Some (- 1))"
  by pat_completeness auto
termination by (relation "measure (\<lambda>(e, _, _, _, i). nat (nFiles e - i))") auto

definition file_exist :: "disk \<Rightarrow> string \<Rightarrow> string \<Rightarrow> string \<Rightarrow> int \<Rightarrow> int option" where
  "file_exist d directory filename extension path_comp = do {
     (dir_order, entry) \<leftarrow> get_dir d directory;
     if dir_order = - 1 then Some (- 1)
     else do { e \<leftarrow> entry; file_loop e filename extension path_comp 0 }
   }"

text \<open>The loop with which \<open>csc452_read\<close> and \<open>csc452_write\<close> look for the index of the file.\<close>

function index_loop :: "csc452_directory_entry \<Rightarrow> string \<Rightarrow> string \<Rightarrow> int \<Rightarrow> int option" where
  "index_loop entry filename extension i =
     (if i < nFiles entry
      then do {
        f \<leftarrow> c_get (files entry) i;
        b \<leftarrow> str_eq filename (fname f);
        c \<leftarrow> (if b then str_eq extension (fext f) else Some False);
        if c then Some i else index_loop entry filename extension (i + 1)
      }
      else Some i)"
  by pat_completeness auto
termination by (relation "measure (\<lambda>(e, _, _, i). nat (nFiles e - i))") auto

declare dir_loop.simps [simp del] file_loop.simps [simp del] index_loop.simps [simp del]

section \<open>Allocation\<close>

text \<open>The last 512 bytes of the disk start with the address of the block allocated last.\<close>

definition next_free_block :: "disk \<Rightarrow> (int \<times> disk) option" where
  "next_free_block d = do {
     let file_max = int (length d) - BLOCK_SIZE;
     bs \<leftarrow> read_at d (int (length d) - BLOCK_SIZE) 8;
     let tmp = dec_long bs;
     next_free \<leftarrow> (if tmp + BLOCK_SIZE < 9223372036854775808 then Some (tmp + BLOCK_SIZE) else None);
     if next_free \<ge> file_max then Some (- 1, d)
     else do {
       d \<leftarrow> write_at d (int (length d) - BLOCK_SIZE) (enc_long next_free);
       Some (next_free, d)
     }
   }"

section \<open>The operations\<close>

record stat =
  st_mode :: int
  st_nlink :: int
  st_size :: int

text \<open>\<open>S_IFDIR | 0755\<close> and \<open>S_IFREG | 0666\<close>.\<close>

definition DIR_MODE :: int where "DIR_MODE = 16384 + 493"
definition FILE_MODE :: int where "FILE_MODE = 32768 + 438"

definition csc452_getattr :: "disk \<Rightarrow> string \<Rightarrow> stat \<Rightarrow> (int \<times> stat) option" where
  "csc452_getattr d path stbuf =
     (if path = ''/'' then Some (0, stbuf\<lparr>st_mode := DIR_MODE, st_nlink := 2\<rparr>)
      else do {
        (path_comp, directory, filename, extension) \<leftarrow> scan_path path;
        if path_comp = 1 then do {
          r \<leftarrow> dir_exists d directory;
          if r \<noteq> - 1 then Some (0, stbuf\<lparr>st_mode := DIR_MODE, st_nlink := 2\<rparr>)
          else Some (- ENOENT, stbuf)
        }
        else if path_comp = 2 \<or> path_comp = 3 then do {
          sz \<leftarrow> file_exist d directory filename extension path_comp;
          if sz \<noteq> - 1
          then Some (0, stbuf\<lparr>st_mode := FILE_MODE, st_nlink := 2, st_size := s64 (u64 sz)\<rparr>)
          else Some (- ENOENT, stbuf)
        }
        else Some (- ENOENT, stbuf)
      })"

text \<open>The names that \<open>filler\<close> is called with for the first \<open>n\<close> slots of an array.\<close>

fun fill_names :: "char list list \<Rightarrow> nat \<Rightarrow> nat \<Rightarrow> string list option" where
  "fill_names arr i 0 = Some []"
| "fill_names arr i (Suc n) = do {
     a \<leftarrow> c_get arr (int i);
     name \<leftarrow> cstr a;
     rest \<leftarrow> fill_names arr (Suc i) n;
     Some (name # rest)
   }"

definition csc452_readdir :: "disk \<Rightarrow> string \<Rightarrow> (int \<times> string list) option" where
  "csc452_readdir d path =
     (if path = ''/'' then do {
        root \<leftarrow> get_root d;
        names \<leftarrow> fill_names (map dname (directories root)) 0 (nat (nDirectories root));
        Some (0, ''.'' # ''..'' # names)
      }
      else do {
        (path_comp, directory, filename, extension) \<leftarrow> scan_path path;
        if path_comp = 1 then do {
          (dir_order, entry) \<leftarrow> get_dir d directory;
          if dir_order = - 1 then Some (- ENOENT, [])
          else do {
            e \<leftarrow> entry;
            names \<leftarrow> fill_names (map fname (files e)) 0 (nat (nFiles e));
            Some (0, names)
          }
        }
        else Some (- ENOENT, [])
      })"

definition csc452_mkdir :: "disk \<Rightarrow> string \<Rightarrow> (int \<times> disk) option" where
  "csc452_mkdir d path = do {
     (path_comp, directory, filename, extension) \<leftarrow> scan_path path;
     if path_comp \<noteq> 1 then Some (- EPERM, d)
     else if length directory > 8 then Some (- ENAMETOOLONG, d)
     else do {
       r \<leftarrow> dir_exists d directory;
       if r \<noteq> - 1 then Some (- EEXIST, d)
       else do {
         root \<leftarrow> get_root d;
         if u64 (nDirectories root) \<ge> MAX_DIRS_IN_ROOT then Some (- ENOSPC, d)
         else do {
           (address, d) \<leftarrow> next_free_block d;
           if address = - 1 then Some (- EDQUOT, d)
           else do {
             s \<leftarrow> c_get (directories root) (nDirectories root);
             nm \<leftarrow> strcpy (dname s) directory;
             ds \<leftarrow> c_set (directories root) (nDirectories root) (s\<lparr>dname := nm, dStartBlock := address\<rparr>);
             let root = root\<lparr>directories := ds, nDirectories := nDirectories root + 1\<rparr>;
             d \<leftarrow> write_at d 0 (enc_root root);
             Some (0, d)
           }
         }
       }
     }
   }"

definition csc452_mknod :: "disk \<Rightarrow> string \<Rightarrow> (int \<times> disk) option" where
  "csc452_mknod d path = do {
     (path_comp, directory, filename, extension) \<leftarrow> scan_path path;
     if path_comp \<noteq> 3 then Some (- EPERM, d)
     else if length filename > 8 \<or> length extension > 3 then Some (- ENAMETOOLONG, d)
     else do {
       r \<leftarrow> file_exist d directory filename extension 3;
       if r \<noteq> - 1 then Some (- EEXIST, d)
       else do {
         (dir_order, entry) \<leftarrow> get_dir d directory;
         root \<leftarrow> get_root d;
         e \<leftarrow> entry;
         if u64 (nFiles e) \<ge> MAX_FILES_IN_DIR then Some (- ENOSPC, d)
         else do {
           (address, d) \<leftarrow> next_free_block d;
           if address = - 1 then Some (- EDQUOT, d)
           else do {
             f \<leftarrow> c_get (files e) (nFiles e);
             fn \<leftarrow> strcpy (fname f) filename;
             fx \<leftarrow> strcpy (fext f) extension;
             fs \<leftarrow> c_set (files e) (nFiles e) (f\<lparr>fname := fn, fext := fx, fsize := 0, nStartBlock := address\<rparr>);
             let e = e\<lparr>files := fs, nFiles := nFiles e + 1\<rparr>;
             s \<leftarrow> c_get (directories root) dir_order;
             d \<leftarrow> write_at d (dStartBlock s) (enc_entry e);
             Some (0, d)
           }
         }
       }
     }
   }"

definition read_block :: "disk \<Rightarrow> int \<Rightarrow> csc452_disk_block option" where
  "read_block d a = map_option dec_block (read_at d a 512)"

text \<open>
  \<open>while (begin_index > MAX_DATA_IN_BLOCK)\<close>: to the block that holds the offset. The comparison is unsigned.
\<close>

partial_function (option) skip_blocks ::
  "disk \<Rightarrow> int \<Rightarrow> csc452_disk_block \<Rightarrow> int \<Rightarrow> (int \<times> csc452_disk_block \<times> int) option" where
  [code]: "skip_blocks d addr blk begin_index =
     (if u64 begin_index > MAX_DATA_IN_BLOCK
      then do {
        b \<leftarrow> read_block d (nNextBlock blk);
        skip_blocks d (nNextBlock blk) b (s32 (begin_index - MAX_DATA_IN_BLOCK))
      }
      else Some (addr, blk, begin_index))"

text \<open>The copy loop of \<open>csc452_read\<close>.\<close>

fun read_loop :: "disk \<Rightarrow> nat \<Rightarrow> int \<Rightarrow> int \<Rightarrow> csc452_disk_block \<Rightarrow> char list \<Rightarrow> char list option" where
  "read_loop d 0 begin_index file_block_left blk buf = Some buf"
| "read_loop d (Suc left_to_read) begin_index file_block_left blk buf = do {
     (blk, file_block_left, begin_index) \<leftarrow>
       (if file_block_left = 0
        then do { b \<leftarrow> read_block d (nNextBlock blk); Some (b, MAX_DATA_IN_BLOCK, 0) }
        else Some (blk, file_block_left, begin_index));
     c \<leftarrow> c_get (data blk) begin_index;
     read_loop d left_to_read (begin_index + 1) (file_block_left - 1) blk (buf @ [c])
   }"

definition csc452_read :: "disk \<Rightarrow> string \<Rightarrow> int \<Rightarrow> int \<Rightarrow> (int \<times> char list) option" where
  "csc452_read d path nbytes offset = do {
     (path_comp, directory, filename, extension) \<leftarrow> scan_path path;
     r \<leftarrow> (if path_comp = 1 then dir_exists d directory else Some (- 1));
     if r \<noteq> - 1 then Some (- EISDIR, [])
     else if path_comp \<noteq> 3 then Some (- ENOENT, [])
     else do {
       sz \<leftarrow> file_exist d directory filename extension 3;
       let fsz = u64 sz;
       if fsz = u64 (- 1) then Some (- ENOENT, [])
       else if nbytes = 0 then Some (0, [])
       else do {
         (_, entry) \<leftarrow> get_dir d directory;
         e \<leftarrow> entry;
         i \<leftarrow> index_loop e filename extension 0;
         if u64 offset > fsz then Some (- EINVAL, [])
         else do {
           f \<leftarrow> c_get (files e) i;
           blk \<leftarrow> read_block d (nStartBlock f);
           (_, blk, begin_index) \<leftarrow> skip_blocks d (nStartBlock f) blk (s32 offset);
           let nbytes = (if nbytes > fsz then fsz else nbytes);
           buf \<leftarrow> read_loop d (nat nbytes) begin_index (s32 (MAX_DATA_IN_BLOCK - begin_index)) blk [];
           Some (s32 nbytes, buf)
         }
       }
     }
   }"

text \<open>The copy loop of \<open>csc452_write\<close> over the bytes still to write; \<open>False\<close> when the disk is full.\<close>

fun write_loop ::
  "disk \<Rightarrow> int \<Rightarrow> csc452_disk_block \<Rightarrow> int \<Rightarrow> int \<Rightarrow> char list \<Rightarrow> (bool \<times> disk) option" where
  "write_loop d addr blk begin_index file_block_left [] = do {
     d \<leftarrow> write_at d addr (enc_block blk);
     Some (True, d)
   }"
| "write_loop d addr blk begin_index file_block_left (c # cs) =
     (if file_block_left = 0
      then do {
        (address, d) \<leftarrow> (if nNextBlock blk = 0 then next_free_block d else Some (nNextBlock blk, d));
        if nNextBlock blk = 0 \<and> address = - 1 then Some (False, d)
        else do {
          d \<leftarrow> write_at d addr (enc_block (blk\<lparr>nNextBlock := address\<rparr>));
          b \<leftarrow> read_block d address;
          xs \<leftarrow> c_set (data b) 0 c;
          write_loop d address (b\<lparr>data := xs\<rparr>) 1 (MAX_DATA_IN_BLOCK - 1) cs
        }
      }
      else do {
        xs \<leftarrow> c_set (data blk) begin_index c;
        write_loop d addr (blk\<lparr>data := xs\<rparr>) (begin_index + 1) (file_block_left - 1) cs
      })"

definition csc452_write :: "disk \<Rightarrow> string \<Rightarrow> char list \<Rightarrow> int \<Rightarrow> int \<Rightarrow> (int \<times> disk) option" where
  "csc452_write d path buf nbytes offset = do {
     (path_comp, directory, filename, extension) \<leftarrow> scan_path path;
     r \<leftarrow> (if path_comp = 1 then dir_exists d directory else Some (- 1));
     if r \<noteq> - 1 then Some (- EISDIR, d)
     else if path_comp \<noteq> 3 then Some (- ENOENT, d)
     else do {
       sz \<leftarrow> file_exist d directory filename extension 3;
       let fsz = u64 sz;
       if fsz = u64 (- 1) then Some (- ENOENT, d)
       else if nbytes = 0 then Some (0, d)
       else do {
         (dir_order, entry) \<leftarrow> get_dir d directory;
         e \<leftarrow> entry;
         i \<leftarrow> index_loop e filename extension 0;
         if u64 offset > fsz then Some (- EFBIG, d)
         else do {
           f \<leftarrow> c_get (files e) i;
           blk \<leftarrow> read_block d (nStartBlock f);
           let file_size_increase = u64 (offset - fsz + nbytes);
           d \<leftarrow> (if file_size_increase > 0
                  then do {
                    fs \<leftarrow> c_set (files e) i (f\<lparr>fsize := u64 (fsize f + file_size_increase)\<rparr>);
                    root \<leftarrow> get_root d;
                    s \<leftarrow> c_get (directories root) dir_order;
                    write_at d (dStartBlock s) (enc_entry (e\<lparr>files := fs\<rparr>))
                  }
                  else Some d);
           (addr, blk, begin_index) \<leftarrow> skip_blocks d (nStartBlock f) blk (s32 offset);
           bytes \<leftarrow> (if nat nbytes \<le> length buf then Some (take (nat nbytes) buf) else None);
           (ok, d) \<leftarrow> write_loop d addr blk begin_index (s32 (MAX_DATA_IN_BLOCK - begin_index)) bytes;
           Some (if ok then s32 nbytes else - EFBIG, d)
         }
       }
     }
   }"

text \<open>The operations that do nothing.\<close>

definition csc452_rmdir :: "disk \<Rightarrow> string \<Rightarrow> int \<times> disk" where "csc452_rmdir d path = (0, d)"
definition csc452_unlink :: "disk \<Rightarrow> string \<Rightarrow> int \<times> disk" where "csc452_unlink d path = (0, d)"
definition csc452_truncate :: "disk \<Rightarrow> string \<Rightarrow> int \<Rightarrow> int \<times> disk" where "csc452_truncate d path nbytes = (0, d)"
definition csc452_open :: "disk \<Rightarrow> string \<Rightarrow> int \<times> disk" where "csc452_open d path = (0, d)"
definition csc452_flush :: "disk \<Rightarrow> string \<Rightarrow> int \<times> disk" where "csc452_flush d path = (0, d)"

text \<open>The table of operations registered with FUSE, as requests.\<close>

datatype fs_request = Mkdir string | Mknod string | Write string "char list" int int | Rmdir string | Unlink string
  | Truncate string int | Open string | Flush string

fun csc452_oper :: "fs_request \<Rightarrow> disk \<Rightarrow> (int \<times> disk) option" where
  "csc452_oper (Mkdir p) d = csc452_mkdir d p"
| "csc452_oper (Mknod p) d = csc452_mknod d p"
| "csc452_oper (Write p buf nbytes off) d = csc452_write d p buf nbytes off"
| "csc452_oper (Rmdir p) d = Some (csc452_rmdir d p)"
| "csc452_oper (Unlink p) d = Some (csc452_unlink d p)"
| "csc452_oper (Truncate p n) d = Some (csc452_truncate d p n)"
| "csc452_oper (Open p) d = Some (csc452_open d p)"
| "csc452_oper (Flush p) d = Some (csc452_flush d p)"

end
