(* ===== verification/Fuse_Files.thy ===== *)
theory Fuse_Files
  imports Fuse_FS
begin

text \<open>
  What the operations of \<open>Fuse_FS\<close> do to a well-formed disk. The predicates describe a disk in layers: the
  allocation area (\<open>alloc_ok\<close>), the names in the root (\<open>root_names\<close>), one directory with its entry block (\<open>dir_at\<close>), and one
  file with its chain of data blocks (\<open>file_at\<close>). The lemmas follow the loops of the code; the properties
  say what \<open>mkdir\<close>, \<open>mknod\<close>, \<open>write\<close> and \<open>read\<close> promise, and where they do not.
\<close>

section \<open>The allocation area\<close>

text \<open>
  \<open>alloc_ok d t\<close>: the disk is a number of whole blocks, \<open>t\<close> is the block allocated last, and the blocks after it, up to
  the last one, have never been written.
\<close>

definition alloc_ok :: "disk \<Rightarrow> int \<Rightarrow> bool" where
  "alloc_ok d t \<longleftrightarrow>
     int (length d) < 4611686018427387904 \<and> t + 1024 \<le> int (length d) \<and> 0 \<le> t
     \<and> t mod 512 = 0 \<and> int (length d) mod 512 = 0
     \<and> read_at d (int (length d) - 512) 8 = Some (enc_long t)
     \<and> (\<forall>k. t + 512 \<le> int k \<longrightarrow> int k < int (length d) - 512 \<longrightarrow> d ! k = NUL)"

lemma read_at_zero:
  assumes "0 \<le> a" "a + int n \<le> int (length d)" "\<And>k. a \<le> int k \<Longrightarrow> int k < a + int n \<Longrightarrow> d ! k = NUL"
  shows "read_at d a n = Some (replicate n NUL)"
proof -
  have "take n (drop (nat a) d) = replicate n NUL"
    using assms by (intro nth_equalityI) auto
  with assms(1,2) show ?thesis by (simp add: read_at_def)
qed

lemma nth_write_at:
  assumes "write_at d pos bs = Some d'" "int k < pos \<or> pos + int (length bs) \<le> int k" "k < length d"
  shows "d' ! k = d ! k"
proof -
  have "read_at d' (int k) 1 = read_at d (int k) 1"
    by (rule read_write_other [OF assms(1)]) (use assms(2) in auto)
  then have "take 1 (drop k d') = take 1 (drop k d)"
    using assms(3) write_at_length [OF assms(1)] by (simp add: read_at_def)
  with assms(3) write_at_length [OF assms(1)] show ?thesis by (simp add: take_Suc_conv_app_nth hd_drop_conv_nth take_Suc)
qed

lemma write_at_Some: "0 \<le> pos \<Longrightarrow> pos + int (length bs) \<le> int (length d) \<Longrightarrow> \<exists>d'. write_at d pos bs = Some d'"
  by (simp add: write_at_def)

lemma next_free_full:
  assumes "alloc_ok d t" "int (length d) \<le> t + 1024"
  shows "next_free_block d = Some (- 1, d)"
proof -
  have "s64 t = t" using assms(1) by (intro s64_id) (auto simp: alloc_ok_def)
  with assms show ?thesis by (simp add: next_free_block_def alloc_ok_def Let_def)
qed

lemma next_free_next:
  assumes ok: "alloc_ok d t" and room: "t + 1024 < int (length d)"
  shows "\<exists>d'. next_free_block d = Some (t + 512, d') \<and> alloc_ok d' (t + 512) \<and> length d' = length d
    \<and> (\<forall>a n. a + int n \<le> int (length d) - 512 \<longrightarrow> read_at d' a n = read_at d a n)
    \<and> read_at d' (t + 512) 512 = Some (replicate 512 NUL)"
proof -
  let ?L = "int (length d)"
  have t: "0 \<le> t" "?L < 4611686018427387904" "t mod 512 = 0" "?L mod 512 = 0"
    and tr: "read_at d (?L - 512) 8 = Some (enc_long t)" using ok by (auto simp: alloc_ok_def)
  have "s64 t = t" using t room by (intro s64_id) auto
  obtain d' where d': "write_at d (?L - 512) (enc_long (t + 512)) = Some d'"
    using write_at_Some [of "?L - 512" "enc_long (t + 512)" d] t room by auto
  note len = write_at_length [OF d']
  obtain q m where q: "t = 512 * q" "?L = 512 * m" using t(3,4) by (meson mod_0_imp_dvd dvdE)
  then have "q + 2 < m" using room by simp
  then have "(t + 512) mod 512 = 0" and room': "t + 1536 \<le> ?L" by (simp_all add: q)
  have zero: "d' ! k = NUL" if "t + 512 \<le> int k" "int k < ?L - 512" for k
  proof -
    have "d' ! k = d ! k" by (rule nth_write_at [OF d']) (use that in auto)
    also have "\<dots> = NUL" using ok that by (simp add: alloc_ok_def)
    finally show ?thesis .
  qed
  have "read_at d' (?L - 512) 8 = Some (enc_long (t + 512))" using read_write_same [OF d'] by simp
  then have "alloc_ok d' (t + 512)"
    using t room' len zero \<open>(t + 512) mod 512 = 0\<close> by (simp add: alloc_ok_def)
  moreover have "read_at d' a n = read_at d a n" if "a + int n \<le> ?L - 512" for a n
    by (rule read_write_other [OF d']) (use that in simp)
  moreover have "read_at d' (t + 512) 512 = Some (replicate 512 NUL)"
    by (rule read_at_zero) (use t room' len zero in auto)
  moreover have "next_free_block d = Some (t + 512, d')"
    using tr \<open>s64 t = t\<close> t room d' by (simp add: next_free_block_def Let_def)
  ultimately show ?thesis using len by blast
qed

section \<open>Names\<close>

text \<open>The names in use: the first \<open>n\<close> slots hold terminated strings.\<close>

definition named :: "char list list \<Rightarrow> string list \<Rightarrow> bool" where
  "named arr names \<longleftrightarrow> length names \<le> length arr \<and> (\<forall>i < length names. cstr (arr ! i) = Some (names ! i))"

lemma named_c_get:
  "named (map g xs) names \<Longrightarrow> 0 \<le> i \<Longrightarrow> i < int (length names) \<Longrightarrow>
     c_get xs i = Some (xs ! nat i) \<and> cstr (g (xs ! nat i)) = Some (names ! nat i)"
  by (auto simp: named_def c_get_def)

lemma fill_names_named:
  "named arr names \<Longrightarrow> i + n \<le> length names \<Longrightarrow> fill_names arr i n = Some (take n (drop i names))"
proof (induction n arbitrary: i)
  case 0
  then show ?case by simp
next
  case (Suc n)
  then have "c_get arr (int i) = Some (arr ! i)" "cstr (arr ! i) = Some (names ! i)"
    by (auto simp: named_def c_get_def)
  moreover have "take (Suc n) (drop i names) = names ! i # take n (drop (Suc i) names)"
    using Suc.prems by (simp add: Cons_nth_drop_Suc [symmetric])
  ultimately show ?case using Suc by simp
qed

text \<open>The position of a name, or \<open>- 1\<close>.\<close>

fun first_index :: "'a list \<Rightarrow> 'a \<Rightarrow> int" where
  "first_index [] x = - 1"
| "first_index (n # ns) x =
     (if n = x then 0 else if first_index ns x = - 1 then - 1 else first_index ns x + 1)"

lemma first_index_range: "- 1 \<le> first_index ns x" "first_index ns x < int (length ns)"
  by (induction ns) auto

lemma first_index_absent: "first_index ns x = - 1 \<longleftrightarrow> x \<notin> set ns"
  using first_index_range(1) [of _ x] by (induction ns) (auto, smt (verit))

lemma first_index_nth: "x \<in> set ns \<Longrightarrow> 0 \<le> first_index ns x \<and> ns ! nat (first_index ns x) = x"
proof (induction ns)
  case Nil
  then show ?case by simp
next
  case (Cons n ns)
  show ?case
  proof (cases "n = x")
    case False
    with Cons have "0 \<le> first_index ns x" "ns ! nat (first_index ns x) = x" by auto
    with False show ?thesis by (auto simp: nat_add_distrib)
  qed simp
qed

lemma dir_loop_index:
  assumes "named (map dname (directories root)) names" "nDirectories root = int (length names)" "c_string x"
  shows "i \<le> length names \<Longrightarrow> dir_loop root x (int i) =
    Some (if first_index (drop i names) x = - 1 then - 1 else first_index (drop i names) x + int i)"
proof (induction "length names - i" arbitrary: i)
  case 0
  then have "i = length names" by simp
  with assms(2) show ?case by (subst dir_loop.simps) simp
next
  case (Suc k)
  then have i: "i < length names" by simp
  with named_c_get [OF assms(1), of "int i"] have
    g: "c_get (directories root) (int i) = Some (directories root ! i)"
    and c: "cstr (dname (directories root ! i)) = Some (names ! i)" by simp_all
  have d: "drop i names = names ! i # drop (Suc i) names" using i by (simp add: Cons_nth_drop_Suc)
  have "dir_loop root x (int i) = (if x = names ! i then Some (int i) else dir_loop root x (int (Suc i)))"
    using i assms(2) g str_eq_cstr [OF assms(3) c]
    by (subst dir_loop.simps) (simp add: add.commute)
  moreover have "dir_loop root x (int (Suc i)) = Some (if first_index (drop (Suc i) names) x = - 1 then - 1
      else first_index (drop (Suc i) names) x + int (Suc i))"
    using Suc.hyps(1) [of "Suc i"] Suc.hyps(2) i by simp
  ultimately show ?case using first_index_range(1) [of "drop (Suc i) names" x] by (auto simp: d)
qed

lemma first_index_snoc: "x \<notin> set ns \<Longrightarrow> first_index (ns @ [x]) x = int (length ns)"
  by (induction ns) auto

section \<open>The root directory\<close>

text \<open>\<open>root_names d names\<close>: the root block is sane and its directories have these names.\<close>

definition root_names :: "disk \<Rightarrow> string list \<Rightarrow> bool" where
  "root_names d names \<longleftrightarrow> (\<exists>r. get_root d = Some r \<and> nDirectories r = int (length names) \<and> length names \<le> 29
     \<and> named (map dname (directories r)) names)"

lemma get_root_ok: "get_root d = Some r \<Longrightarrow> root_ok r \<and> 512 \<le> length d"
  by (auto simp: get_root_def read_at_def dec_root_ok split: if_splits)

lemma dir_exists_index:
  assumes "root_names d names" "c_string x"
  shows "dir_exists d x = Some (first_index names x)"
proof -
  from assms(1) obtain r where r: "get_root d = Some r" "nDirectories r = int (length names)"
    "named (map dname (directories r)) names" by (auto simp: root_names_def)
  from dir_loop_index [OF r(3,2) assms(2), of 0] show ?thesis using r(1) by (simp add: dir_exists_def)
qed

lemma c_string_takeWhile: "c_string s \<Longrightarrow> c_string (takeWhile P s)"
  and c_string_dropWhile: "c_string s \<Longrightarrow> c_string (dropWhile P s)"
  by (auto simp: c_string_def dest: set_takeWhileD set_dropWhileD)

lemma c_string_Cons [simp]: "c_string (c # cs) \<longleftrightarrow> c \<noteq> NUL \<and> c_string cs" "c_string []"
  by (auto simp: c_string_def)

lemma scan_path_fits:
  assumes "scan_path path = Some (k, dir, fn, ext)"
  shows "length dir \<le> 8" "length fn \<le> 8" "length ext \<le> 3"
  using assms
  by (auto simp: scan_path_def MAX_FILENAME_def MAX_EXTENSION_def Let_def split: list.splits if_splits)

lemma c_string_tail: "c_string s \<Longrightarrow> dropWhile P s = c # r \<Longrightarrow> c_string r"
  using c_string_dropWhile [of s P] by simp

lemma scan_path_c_string:
  assumes "scan_path path = Some (k, dir, fn, ext)" "c_string path"
  shows "c_string dir" "c_string fn" "c_string ext"
proof -
  show "c_string dir"
    using assms by (auto simp: scan_path_def Let_def split: list.splits if_splits intro: c_string_takeWhile)
  have "fn = [] \<or> (\<exists>c p1 c2 p2. path = c # p1 \<and> dropWhile (\<lambda>c. c \<noteq> CHR ''/'') p1 = c2 # p2
      \<and> fn = takeWhile (\<lambda>c. c \<noteq> CHR ''.'') p2)"
    using assms(1) by (auto simp: scan_path_def Let_def split: list.splits if_splits)
  then show "c_string fn"
  proof (elim disjE exE conjE)
    fix c p1 c2 p2
    assume p: "path = c # p1" "dropWhile (\<lambda>c. c \<noteq> CHR ''/'') p1 = c2 # p2"
      and e: "fn = takeWhile (\<lambda>c. c \<noteq> CHR ''.'') p2"
    have "c_string p1" using assms(2) p(1) by simp
    from c_string_tail [OF this p(2)] show ?thesis unfolding e by (rule c_string_takeWhile)
  qed simp
  have "ext = [] \<or> (\<exists>c p1 c2 p2 c3 p3. path = c # p1 \<and> dropWhile (\<lambda>c. c \<noteq> CHR ''/'') p1 = c2 # p2
      \<and> dropWhile (\<lambda>c. c \<noteq> CHR ''.'') p2 = c3 # p3 \<and> ext = takeWhile (\<lambda>c. \<not> is_space c) (dropWhile is_space p3))"
    using assms(1) by (auto simp: scan_path_def Let_def split: list.splits if_splits)
  then show "c_string ext"
  proof (elim disjE exE conjE)
    fix c p1 c2 p2 c3 p3
    assume p: "path = c # p1" "dropWhile (\<lambda>c. c \<noteq> CHR ''/'') p1 = c2 # p2"
      "dropWhile (\<lambda>c. c \<noteq> CHR ''.'') p2 = c3 # p3" and e: "ext = takeWhile (\<lambda>c. \<not> is_space c) (dropWhile is_space p3)"
    have "c_string p1" using assms(2) p(1) by simp
    from c_string_tail [OF c_string_tail [OF this p(2)] p(3)] show ?thesis
      unfolding e by (intro c_string_takeWhile c_string_dropWhile)
  qed simp
qed

lemma alloc_ok_write:
  assumes "alloc_ok d t" "write_at d pos bs = Some d'" "pos + int (length bs) \<le> t + 512"
  shows "alloc_ok d' t"
proof -
  note len = write_at_length [OF assms(2)]
  have "read_at d' (int (length d) - 512) 8 = read_at d (int (length d) - 512) 8"
    by (rule read_write_other [OF assms(2)]) (use assms(1,3) in \<open>auto simp: alloc_ok_def\<close>)
  moreover have "d' ! k = d ! k" if "t + 512 \<le> int k" "int k < int (length d) - 512" for k
    by (rule nth_write_at [OF assms(2)]) (use that assms(3) in auto)
  ultimately show ?thesis using assms(1) len by (simp add: alloc_ok_def)
qed

lemma named_update:
  assumes "named arr names" "length names < length arr" "cstr a = Some x"
  shows "named (arr[length names := a]) (names @ [x])"
  using assms by (auto simp: named_def nth_append nth_list_update less_Suc_eq)

lemma le_nat_zeros [simp]: "le_nat (replicate n NUL) = 0"
  by (induction n) auto

lemma dec_int_zeros [simp]: "dec_int (replicate n NUL) = 0" "dec_long (replicate n NUL) = 0"
  "dec_size (replicate n NUL) = 0"
  by (simp_all add: dec_int_def dec_long_def dec_size_def s32_def s64_def)

lemma zero_entry: "nFiles (dec_entry (replicate 512 NUL)) = 0"
  by (simp add: dec_entry_def)

lemma zero_block: "nNextBlock (dec_block (replicate 512 NUL)) = 0"
  by (simp add: dec_block_def)

text \<open>What a successful \<open>mkdir\<close> does.\<close>

lemma mkdir_success:
  assumes al: "alloc_ok d t" and rn: "root_names d names" and cs: "c_string path"
    and sc: "scan_path path = Some (1, name, fn, ext)" and new: "name \<notin> set names"
    and room: "length names < 29" "t + 1024 < int (length d)"
  shows "\<exists>d' r s. csc452_mkdir d path = Some (0, d') \<and> alloc_ok d' (t + 512) \<and> length d' = length d
    \<and> root_names d' (names @ [name])
    \<and> (\<forall>a n. 512 \<le> a \<longrightarrow> a + int n \<le> int (length d) - 512 \<longrightarrow> read_at d' a n = read_at d a n)
    \<and> get_root d' = Some r \<and> c_get (directories r) (int (length names)) = Some s \<and> dStartBlock s = t + 512
    \<and> (\<forall>i < length names. map_option (\<lambda>r. c_get (directories r) (int i)) (get_root d) = Some (c_get (directories r) (int i)))
    \<and> read_at d' (t + 512) 512 = Some (replicate 512 NUL)"
proof -
  have csn: "c_string name" by (rule scan_path_c_string [OF sc cs])
  have ln: "length name \<le> 8" by (rule scan_path_fits [OF sc])
  from rn obtain r where r: "get_root d = Some r" "nDirectories r = int (length names)"
    "named (map dname (directories r)) names" by (auto simp: root_names_def)
  have rok: "root_ok r" using get_root_ok [OF r(1)] by blast
  then have dl: "length (directories r) = 29" by (simp add: root_ok_def)
  let ?n = "length names" and ?s = "directories r ! length names"
  have sok: "length (dname ?s) = 9" using rok room dl by (auto simp: root_ok_def slot_ok_def)
  obtain nm where nm: "strcpy (dname ?s) name = Some nm" using ln sok by (simp add: strcpy_def)
  have cnm: "cstr nm = Some name" "length nm = 9" using cstr_strcpy [OF csn nm] strcpy_length [OF nm] sok by auto
  obtain d1 where d1: "next_free_block d = Some (t + 512, d1)" "alloc_ok d1 (t + 512)" "length d1 = length d"
    and rd1: "\<And>a n. a + int n \<le> int (length d) - 512 \<Longrightarrow> read_at d1 a n = read_at d a n"
    and z: "read_at d1 (t + 512) 512 = Some (replicate 512 NUL)"
    using next_free_next [OF al room(2)] by blast
  have t: "0 \<le> t" "t + 512 < 9223372036854775808" using al by (auto simp: alloc_ok_def)
  let ?sl = "?s\<lparr>dname := nm, dStartBlock := t + 512\<rparr>"
  let ?r = "r\<lparr>directories := (directories r)[?n := ?sl], nDirectories := int ?n + 1\<rparr>"
  have slok: "slot_ok ?sl" using cnm t by (simp add: slot_ok_def is_long_def s64_id)
  have r'ok: "root_ok ?r" using rok room slok by (auto simp: root_ok_def is_int_def s32_id dest!: set_update_subset_insert [THEN subsetD])
  obtain d2 where d2: "write_at d1 0 (enc_root ?r) = Some d2"
    using write_at_Some [of 0 "enc_root ?r" d1] root_length [OF r'ok] get_root_ok [OF r(1)] d1(3) by auto
  have l2: "length d2 = length d" using write_at_length [OF d2] d1(3) by simp
  have g2: "get_root d2 = Some ?r"
    using read_write_same [OF d2] root_length [OF r'ok] dec_enc_root [OF r'ok] by (simp add: get_root_def)
  have other: "read_at d2 a n = read_at d1 a n" if "512 \<le> a" for a n
    by (rule read_write_other [OF d2]) (use that root_length [OF r'ok] in simp)
  have "csc452_mkdir d path = Some (0, d2)"
    using sc dir_exists_index [OF rn csn] first_index_absent [of names name] new ln r room dl nm d1 d2 t
    by (simp add: csc452_mkdir_def c_get_def c_set_def u64_id)
  moreover have "alloc_ok d2 (t + 512)"
    by (rule alloc_ok_write [OF d1(2) d2]) (use root_length [OF r'ok] t in simp)
  moreover have "root_names d2 (names @ [name])"
    using g2 room dl named_update [OF r(3), of nm name] cnm
    by (auto simp: root_names_def map_update)
  moreover have "read_at d2 a n = read_at d a n" if "512 \<le> a" "a + int n \<le> int (length d) - 512" for a n
    using other [OF that(1)] rd1 [OF that(2)] by simp
  moreover have "c_get (directories ?r) (int ?n) = Some ?sl" using room dl by (simp add: c_get_def)
  moreover have "read_at d2 (t + 512) 512 = Some (replicate 512 NUL)" using other [of "t + 512"] z t by simp
  moreover have "\<forall>i < ?n. map_option (\<lambda>r. c_get (directories r) (int i)) (get_root d) = Some (c_get (directories ?r) (int i))"
    using r(1) by (simp add: c_get_def)
  ultimately show ?thesis using g2 l2 by (intro exI [of _ d2] exI [of _ ?r] exI [of _ ?sl]) simp
qed

section \<open>Directories\<close>

text \<open>\<open>entry_names e fs\<close>: the entry is sane and its files have these names and extensions.\<close>

definition entry_names :: "csc452_directory_entry \<Rightarrow> (string \<times> string) list \<Rightarrow> bool" where
  "entry_names e fs \<longleftrightarrow> nFiles e = int (length fs) \<and> length fs \<le> 17
     \<and> named (map fname (files e)) (map fst fs) \<and> named (map fext (files e)) (map snd fs)"

lemma entry_c_get:
  assumes "entry_names e fs" "i < length fs"
  shows "c_get (files e) (int i) = Some (files e ! i)" "cstr (fname (files e ! i)) = Some (fst (fs ! i))"
    "cstr (fext (files e ! i)) = Some (snd (fs ! i))"
  using assms named_c_get [of fname "files e" "map fst fs" "int i"] named_c_get [of fext "files e" "map snd fs" "int i"]
  by (simp_all add: entry_names_def)

lemma index_loop_index:
  assumes "entry_names e fs" "c_string x" "c_string y"
  shows "i \<le> length fs \<Longrightarrow> index_loop e x y (int i) =
    Some (if first_index (drop i fs) (x, y) = - 1 then int (length fs) else first_index (drop i fs) (x, y) + int i)"
proof (induction "length fs - i" arbitrary: i)
  case 0
  then have "i = length fs" by simp
  with assms(1) show ?case by (subst index_loop.simps) (simp add: entry_names_def)
next
  case (Suc k)
  then have i: "i < length fs" by simp
  note g = entry_c_get [OF assms(1) i]
  have d: "drop i fs = fs ! i # drop (Suc i) fs" using i by (simp add: Cons_nth_drop_Suc)
  have "index_loop e x y (int i) = (if (x, y) = fs ! i then Some (int i) else index_loop e x y (int (Suc i)))"
    using i assms(1) g str_eq_cstr [OF assms(2) g(2)] str_eq_cstr [OF assms(3) g(3)]
    by (subst index_loop.simps) (auto simp: entry_names_def add.commute prod_eq_iff)
  moreover have "index_loop e x y (int (Suc i)) = Some (if first_index (drop (Suc i) fs) (x, y) = - 1 then int (length fs)
      else first_index (drop (Suc i) fs) (x, y) + int (Suc i))"
    using Suc.hyps(1) [of "Suc i"] Suc.hyps(2) i by simp
  ultimately show ?case using first_index_range(1) [of "drop (Suc i) fs" "(x, y)"] by (auto simp: d)
qed

lemma file_loop_index:
  assumes "entry_names e fs" "c_string x" "c_string y"
  shows "i \<le> length fs \<Longrightarrow> file_loop e x y 3 (int i) =
    Some (if first_index (drop i fs) (x, y) = - 1 then - 1
          else s32 (fsize (files e ! nat (first_index (drop i fs) (x, y) + int i))))"
proof (induction "length fs - i" arbitrary: i)
  case 0
  then have "i = length fs" by simp
  with assms(1) show ?case by (subst file_loop.simps) (simp add: entry_names_def)
next
  case (Suc k)
  then have i: "i < length fs" by simp
  note g = entry_c_get [OF assms(1) i]
  have d: "drop i fs = fs ! i # drop (Suc i) fs" using i by (simp add: Cons_nth_drop_Suc)
  have "file_loop e x y 3 (int i) = (if (x, y) = fs ! i then Some (s32 (fsize (files e ! i))) else file_loop e x y 3 (int (Suc i)))"
    using i assms(1) g str_eq_cstr [OF assms(2) g(2)] str_eq_cstr [OF assms(3) g(3)]
    by (subst file_loop.simps) (auto simp: entry_names_def add.commute prod_eq_iff)
  moreover have "file_loop e x y 3 (int (Suc i)) = Some (if first_index (drop (Suc i) fs) (x, y) = - 1 then - 1
          else s32 (fsize (files e ! nat (first_index (drop (Suc i) fs) (x, y) + int (Suc i)))))"
    using Suc.hyps(1) [of "Suc i"] Suc.hyps(2) i by simp
  ultimately show ?case using first_index_range(1) [of "drop (Suc i) fs" "(x, y)"] by (auto simp: d add_ac)
qed

text \<open>
  \<open>dir_at d t names dir a e fs\<close>: the root has the directories \<open>names\<close>, and the one called \<open>dir\<close> has its entry \<open>e\<close>, with
  the files \<open>fs\<close>, in the allocated block \<open>a\<close>.
\<close>

definition dir_at ::
  "disk \<Rightarrow> int \<Rightarrow> string list \<Rightarrow> string \<Rightarrow> int \<Rightarrow> csc452_directory_entry \<Rightarrow> (string \<times> string) list \<Rightarrow> bool" where
  "dir_at d t names dir a e fs \<longleftrightarrow> alloc_ok d t \<and> root_names d names \<and> dir \<in> set names \<and> c_string dir
     \<and> (\<exists>r s. get_root d = Some r \<and> c_get (directories r) (first_index names dir) = Some s \<and> dStartBlock s = a)
     \<and> 512 \<le> a \<and> a \<le> t \<and> a mod 512 = 0
     \<and> map_option dec_entry (read_at d a 512) = Some e \<and> entry_ok e \<and> entry_names e fs"

lemma dir_at_get_dir:
  assumes "dir_at d t names dir a e fs"
  shows "get_dir d dir = Some (first_index names dir, Some e)" "0 \<le> first_index names dir"
    "\<exists>r s. get_root d = Some r \<and> c_get (directories r) (first_index names dir) = Some s \<and> dStartBlock s = a"
proof -
  from assms obtain r s where r: "get_root d = Some r" "c_get (directories r) (first_index names dir) = Some s"
    "dStartBlock s = a" and rd: "map_option dec_entry (read_at d a 512) = Some e"
    and n: "root_names d names" "dir \<in> set names" "c_string dir" by (auto simp: dir_at_def)
  show nn: "0 \<le> first_index names dir" using first_index_nth [OF n(2)] by blast
  then show "get_dir d dir = Some (first_index names dir, Some e)"
    using r rd dir_exists_index [OF n(1,3)] by (auto simp: get_dir_def)
  show "\<exists>r s. get_root d = Some r \<and> c_get (directories r) (first_index names dir) = Some s \<and> dStartBlock s = a"
    using r by blast
qed

lemma dir_at_file_exist:
  assumes "dir_at d t names dir a e fs" "c_string x" "c_string y"
  shows "file_exist d dir x y 3 = Some (if (x, y) \<in> set fs then s32 (fsize (files e ! nat (first_index fs (x, y)))) else - 1)"
proof -
  have "entry_names e fs" and dir: "dir \<in> set names" using assms(1) by (simp_all add: dir_at_def)
  from file_loop_index [OF this(1) assms(2,3), of 0] dir_at_get_dir [OF assms(1)] dir
  show ?thesis by (simp add: file_exist_def first_index_absent)
qed

text \<open>Writing a directory entry back.\<close>

lemma dir_at_write_entry:
  assumes da: "dir_at d t names dir a e fs" and ok: "entry_ok e'" "entry_names e' fs'"
    and w: "write_at d a (enc_entry e') = Some d'"
  shows "dir_at d' t names dir a e' fs'"
proof -
  have len: "length (enc_entry e') = 512" by (rule entry_length [OF ok(1)])
  from da have a: "512 \<le> a" "a \<le> t" "alloc_ok d t" by (auto simp: dir_at_def)
  have "alloc_ok d' t" by (rule alloc_ok_write [OF a(3) w]) (use a len in simp)
  moreover have "get_root d' = get_root d"
    unfolding get_root_def by (subst read_write_other [OF w]) (use a in simp_all)
  moreover have "map_option dec_entry (read_at d' a 512) = Some e'"
    using read_write_same [OF w] len dec_enc_entry [OF ok(1)] by simp
  ultimately show ?thesis using da ok by (simp add: dir_at_def root_names_def)
qed

lemma dir_at_next_free:
  assumes "dir_at d t names dir a e fs" "alloc_ok d' t'" "t \<le> t'" "length d' = length d"
    and "\<And>a n. a + int n \<le> int (length d) - 512 \<Longrightarrow> read_at d' a n = read_at d a n"
  shows "dir_at d' t' names dir a e fs"
proof -
  have "512 \<le> a" "a \<le> t" "t + 1024 \<le> int (length d)" using assms(1) by (auto simp: dir_at_def alloc_ok_def)
  then have "read_at d' 0 512 = read_at d 0 512" "read_at d' a 512 = read_at d a 512"
    using assms(5) [of 0 512] assms(5) [of a 512] by simp_all
  then show ?thesis using assms(1-3) by (auto simp: dir_at_def root_names_def get_root_def)
qed

lemma mknod_success:
  assumes da: "dir_at d t names dir a e fs" and cs: "c_string path"
    and sc: "scan_path path = Some (3, dir, fn, ext)" and new: "(fn, ext) \<notin> set fs"
    and room: "length fs < 17" "t + 1024 < int (length d)"
  shows "\<exists>d' e'. csc452_mknod d path = Some (0, d') \<and> dir_at d' (t + 512) names dir a e' (fs @ [(fn, ext)])
    \<and> length d' = length d \<and> take (length fs) (files e') = take (length fs) (files e)
    \<and> fsize (files e' ! length fs) = 0 \<and> nStartBlock (files e' ! length fs) = t + 512
    \<and> (\<forall>b n. b + int n \<le> a \<or> a + 512 \<le> b \<longrightarrow> b + int n \<le> int (length d) - 512 \<longrightarrow> read_at d' b n = read_at d b n)
    \<and> read_at d' (t + 512) 512 = Some (replicate 512 NUL)"
proof -
  note cst = scan_path_c_string [OF sc cs] and fits = scan_path_fits [OF sc]
  have en: "entry_ok e" "entry_names e fs" and a: "512 \<le> a" "a \<le> t" and al: "alloc_ok d t"
    using da by (auto simp: dir_at_def)
  then have fl: "length (files e) = 17" "nFiles e = int (length fs)" by (auto simp: entry_ok_def entry_names_def)
  let ?n = "length fs" and ?f = "files e ! length fs"
  have fok: "file_ok ?f" using en(1) fl room by (auto simp: entry_ok_def)
  obtain nm nx where nm: "strcpy (fname ?f) fn = Some nm" and nx: "strcpy (fext ?f) ext = Some nx"
    using fits fok by (simp add: strcpy_def file_ok_def)
  have c: "cstr nm = Some fn" "length nm = 9" "cstr nx = Some ext" "length nx = 4"
    using cstr_strcpy [OF cst(2) nm] strcpy_length [OF nm] cstr_strcpy [OF cst(3) nx] strcpy_length [OF nx] fok
    by (auto simp: file_ok_def)
  obtain d1 where d1: "next_free_block d = Some (t + 512, d1)" "alloc_ok d1 (t + 512)" "length d1 = length d"
    and rd1: "\<And>a n. a + int n \<le> int (length d) - 512 \<Longrightarrow> read_at d1 a n = read_at d a n"
    and z: "read_at d1 (t + 512) 512 = Some (replicate 512 NUL)"
    using next_free_next [OF al room(2)] by blast
  have t: "0 \<le> t" "t + 512 < 9223372036854775808" using al by (auto simp: alloc_ok_def)
  let ?f' = "?f\<lparr>fname := nm, fext := nx, fsize := 0, nStartBlock := t + 512\<rparr>"
  let ?e = "e\<lparr>files := (files e)[?n := ?f'], nFiles := int ?n + 1\<rparr>"
  have "file_ok ?f'" using c t by (simp add: file_ok_def is_long_def is_size_def s64_id u64_id)
  then have e'ok: "entry_ok ?e" using en(1) room
    by (auto simp: entry_ok_def is_int_def s32_id dest!: set_update_subset_insert [THEN subsetD])
  have e'n: "entry_names ?e (fs @ [(fn, ext)])"
    using en(2) named_update [of "map fname (files e)" "map fst fs" nm fn]
      named_update [of "map fext (files e)" "map snd fs" nx ext] c fl room
    by (simp add: entry_names_def map_update)
  have da1: "dir_at d1 (t + 512) names dir a e fs"
    by (rule dir_at_next_free [OF da d1(2) _ d1(3) rd1]) auto
  obtain d2 where d2: "write_at d1 a (enc_entry ?e) = Some d2"
    using write_at_Some [of a "enc_entry ?e" d1] entry_length [OF e'ok] a al d1(3) by (auto simp: alloc_ok_def)
  have da2: "dir_at d2 (t + 512) names dir a ?e (fs @ [(fn, ext)])"
    by (rule dir_at_write_entry [OF da1 e'ok e'n d2])
  from dir_at_get_dir [OF da] obtain r s where gd: "get_dir d dir = Some (first_index names dir, Some e)"
    "get_root d = Some r" "c_get (directories r) (first_index names dir) = Some s" "dStartBlock s = a" by blast
  have "csc452_mknod d path = Some (0, d2)"
    using sc fits dir_at_file_exist [OF da cst(2,3)] new gd fl room d1 d2 nm nx t
    by (simp add: csc452_mknod_def c_get_def c_set_def u64_id)
  moreover have "read_at d2 b n = read_at d1 b n" if "b + int n \<le> a \<or> a + 512 \<le> b" for b n
    by (rule read_write_other [OF d2]) (use that entry_length [OF e'ok] in simp)
  moreover have "length d2 = length d" using write_at_length [OF d2] d1(3) by simp
  ultimately show ?thesis
    using da2 rd1 z a fl room by (intro exI [of _ d2] exI [of _ ?e]) simp
qed

section \<open>Chains of data blocks\<close>

definition block_addr :: "int \<Rightarrow> int \<Rightarrow> bool" where
  "block_addr t b \<longleftrightarrow> 512 \<le> b \<and> b \<le> t \<and> b mod 512 = 0"

lemma blocks_disjoint:
  assumes "block_addr t a" "block_addr t' b" "a \<noteq> b"
  shows "a + 512 \<le> b \<or> b + 512 \<le> a"
proof -
  have "512 dvd a" "512 dvd b" using assms(1,2) by (auto simp: block_addr_def)
  then obtain i j where "a = 512 * i" "b = 512 * j" by (meson dvdE)
  with assms(3) show ?thesis by auto
qed

text \<open>\<open>chain d a bs\<close>: following the links from \<open>a\<close> one meets the blocks \<open>bs\<close>, then the end mark 0.\<close>

primrec chain :: "disk \<Rightarrow> int \<Rightarrow> int list \<Rightarrow> bool" where
  "chain d a [] \<longleftrightarrow> a = 0"
| "chain d a (b # bs) \<longleftrightarrow> a = b \<and> b \<noteq> 0 \<and> (\<exists>blk. read_block d b = Some blk \<and> chain d (nNextBlock blk) bs)"

definition block_data :: "disk \<Rightarrow> int \<Rightarrow> char list" where
  "block_data d b = (case read_block d b of None \<Rightarrow> [] | Some blk \<Rightarrow> data blk)"

definition contents :: "disk \<Rightarrow> int list \<Rightarrow> char list" where
  "contents d bs = concat (map (block_data d) bs)"

lemma contents_simps [simp]: "contents d [] = []" "contents d (b # bs) = block_data d b @ contents d bs"
  by (simp_all add: contents_def)

lemma read_block_ok: "read_block d a = Some blk \<Longrightarrow> block_ok blk"
  using bd.dec_ok read_at_length by (auto simp: read_block_def)

lemma chain_cong:
  assumes "\<And>b. b \<in> set bs \<Longrightarrow> read_block d' b = read_block d b"
  shows "chain d' a bs = chain d a bs" "contents d' bs = contents d bs"
proof -
  show "chain d' a bs = chain d a bs" using assms by (induction bs arbitrary: a) auto
  show "contents d' bs = contents d bs" using assms by (induction bs) (auto simp: block_data_def)
qed

lemma contents_length: "chain d a bs \<Longrightarrow> length (contents d bs) = 504 * length bs"
proof (induction bs arbitrary: a)
  case Nil
  then show ?case by simp
next
  case (Cons b bs)
  then obtain blk where "read_block d b = Some blk" "chain d (nNextBlock blk) bs" by auto
  with Cons.IH read_block_ok [of d b blk] show ?case by (auto simp: block_data_def block_ok_def)
qed

lemma read_block_write:
  assumes "write_at d a (enc_block blk) = Some d'" "block_ok blk"
  shows "read_block d' a = Some blk"
    and "\<And>t t' b. block_addr t a \<Longrightarrow> block_addr t' b \<Longrightarrow> b \<noteq> a \<Longrightarrow> read_block d' b = read_block d b"
proof -
  have len: "length (enc_block blk) = 512" by (rule bd.enc_len [OF assms(2)])
  show "read_block d' a = Some blk"
    using read_write_same [OF assms(1)] len bd.dec_enc [OF assms(2)] by (simp add: read_block_def)
  show "read_block d' b = read_block d b" if "block_addr t a" "block_addr t' b" "b \<noteq> a" for t t' b
    unfolding read_block_def
    by (subst read_write_other [OF assms(1)]) (use blocks_disjoint [OF that(2,1,3)] len in auto)
qed

text \<open>The loop that finds the block of an offset ends, at the right place.\<close>

lemma skip_blocks_chain:
  assumes "chain d a (a # bs)" "read_block d a = Some blk" "0 \<le> i" "i \<le> 504 * int (Suc (length bs))" "i < 2147483648"
  shows "\<exists>pre b rest blk' j. skip_blocks d a blk i = Some (b, blk', j) \<and> a # bs = pre @ b # rest
    \<and> read_block d b = Some blk' \<and> chain d (nNextBlock blk') rest \<and> i = 504 * int (length pre) + j \<and> 0 \<le> j \<and> j \<le> 504"
  using assms
proof (induction bs arbitrary: a blk i)
  case Nil
  then have "skip_blocks d a blk i = Some (a, blk, i)" by (subst skip_blocks.simps) (simp add: u64_id)
  with Nil show ?case by (intro exI [of _ "[]"] exI [of _ a]) auto
next
  case (Cons b bs)
  show ?case
  proof (cases "i \<le> 504")
    case True
    then have "skip_blocks d a blk i = Some (a, blk, i)" using Cons.prems by (subst skip_blocks.simps) (simp add: u64_id)
    with Cons.prems True show ?thesis
      by (intro exI [of _ "[]"] exI [of _ a] exI [of _ "b # bs"] exI [of _ blk] exI [of _ i]) auto
  next
    case False
    from Cons.prems obtain bb where b: "nNextBlock blk = b" "read_block d b = Some bb" "chain d b (b # bs)" by auto
    have "skip_blocks d a blk i = skip_blocks d b bb (i - 504)"
      using False Cons.prems b by (subst skip_blocks.simps) (simp add: u64_id s32_id)
    moreover obtain pre c rest blk' j where "skip_blocks d b bb (i - 504) = Some (c, blk', j)" "b # bs = pre @ c # rest"
      "read_block d c = Some blk'" "chain d (nNextBlock blk') rest" "i - 504 = 504 * int (length pre) + j"
      "0 \<le> j" "j \<le> 504"
      using Cons.IH [OF b(3,2), of "i - 504"] False Cons.prems(4,5) by auto
    ultimately show ?thesis by (intro exI [of _ "a # pre"] exI [of _ c] exI [of _ rest] exI [of _ blk'] exI [of _ j]) auto
  qed
qed

text \<open>
  The copy loop of \<open>csc452_write\<close>: the state of the loop, and what it leaves behind. \<open>rest\<close> are the blocks after the current one.
\<close>

definition write_state :: "disk \<Rightarrow> int \<Rightarrow> int \<Rightarrow> csc452_disk_block \<Rightarrow> int list \<Rightarrow> bool" where
  "write_state d t a blk rest \<longleftrightarrow> alloc_ok d t \<and> block_ok blk \<and> chain d (nNextBlock blk) rest
     \<and> distinct (a # rest) \<and> (\<forall>b \<in> set (a # rest). block_addr t b)"

definition write_result :: "disk \<Rightarrow> int \<Rightarrow> int list \<Rightarrow> int list \<Rightarrow> disk \<Rightarrow> int \<Rightarrow> char list \<Rightarrow> bool" where
  "write_result d t bs new d' t' bytes \<longleftrightarrow> alloc_ok d' t' \<and> t \<le> t' \<and> length d' = length d
     \<and> chain d' (hd bs) (bs @ new) \<and> distinct (bs @ new) \<and> (\<forall>b \<in> set new. t < b \<and> block_addr t' b)
     \<and> take (length bytes) (contents d' (bs @ new)) = bytes
     \<and> (\<forall>b n. (\<forall>x \<in> set bs. b + int n \<le> x \<or> x + 512 \<le> b) \<longrightarrow> b + int n \<le> t + 512 \<longrightarrow> read_at d' b n = read_at d b n)"

lemma block_addr_mono: "block_addr t b \<Longrightarrow> t \<le> t' \<Longrightarrow> block_addr t' b"
  by (simp add: block_addr_def)

lemma write_stateD:
  assumes "write_state d t a blk rest"
  shows "alloc_ok d t" "block_ok blk" "chain d (nNextBlock blk) rest" "a \<notin> set rest" "distinct rest" "block_addr t a"
    "\<And>b. b \<in> set rest \<Longrightarrow> block_addr t b" "length (enc_block blk) = 512" "a + 512 \<le> t + 512"
    "\<exists>d'. write_at d a (enc_block blk) = Some d'"
proof -
  show "alloc_ok d t" "block_ok blk" "chain d (nNextBlock blk) rest" "a \<notin> set rest" "distinct rest" "block_addr t a"
    "\<And>b. b \<in> set rest \<Longrightarrow> block_addr t b" using assms by (auto simp: write_state_def)
  then show "length (enc_block blk) = 512" "a + 512 \<le> t + 512" by (auto simp: bd.enc_len block_addr_def)
  with \<open>alloc_ok d t\<close> \<open>block_addr t a\<close> show "\<exists>d'. write_at d a (enc_block blk) = Some d'"
    by (intro write_at_Some) (auto simp: alloc_ok_def block_addr_def)
qed

text \<open>Saving the current block.\<close>

lemma write_state_save:
  assumes ws: "write_state d t a blk rest" and w: "write_at d a (enc_block blk) = Some d'"
  shows "alloc_ok d' t" "length d' = length d" "read_block d' a = Some blk" "chain d' (nNextBlock blk) rest"
    "contents d' rest = contents d rest" "\<And>b. b \<in> set rest \<Longrightarrow> read_block d' b = read_block d b"
    "\<And>b n. b + int n \<le> a \<or> a + 512 \<le> b \<Longrightarrow> read_at d' b n = read_at d b n"
proof -
  note st = write_stateD [OF ws]
  show "alloc_ok d' t" by (rule alloc_ok_write [OF st(1) w]) (use st(8,9) in simp)
  show "length d' = length d" by (rule write_at_length [OF w])
  show "read_block d' a = Some blk" by (rule read_block_write(1) [OF w st(2)])
  show rb: "read_block d' b = read_block d b" if "b \<in> set rest" for b
    using read_block_write(2) [OF w st(2,6) st(7) [OF that]] st(4) that by blast
  show "chain d' (nNextBlock blk) rest" "contents d' rest = contents d rest"
    using chain_cong [of rest d' d] rb st(3) by auto
  show "read_at d' b n = read_at d b n" if "b + int n \<le> a \<or> a + 512 \<le> b" for b n
    by (rule read_write_other [OF w]) (use that st(8) in simp)
qed

text \<open>From the rest of the loop, in the next block, to the whole.\<close>

lemma write_result_step:
  assumes ws: "write_state d t a blk rest" and d1: "alloc_ok d1 t1" "t \<le> t1" "length d1 = length d"
    and rb: "read_block d1 a = Some blk'" and blk': "data blk' = data blk" "nNextBlock blk' = b"
    and res: "write_result d1 t1 (b # bs) new d' t' bytes" and b: "b \<noteq> 0" "rest = b # bs \<or> rest = [] \<and> bs = [] \<and> b = t + 512 \<and> t1 = t + 512"
    and fr: "\<And>c n. c + int n \<le> a \<or> a + 512 \<le> c \<Longrightarrow> c + int n \<le> t + 512 \<Longrightarrow> read_at d1 c n = read_at d c n"
  shows "\<exists>new'. write_result d t (a # rest) new' d' t' (data blk @ bytes)"
proof -
  note st = write_stateD [OF ws]
  have r: "alloc_ok d' t'" "t1 \<le> t'" "length d' = length d1" "chain d' b (b # bs @ new)" "distinct (b # bs @ new)"
    "\<And>x. x \<in> set new \<Longrightarrow> t1 < x \<and> block_addr t' x" "take (length bytes) (contents d' (b # bs @ new)) = bytes"
    and fr2: "\<And>c n. (\<forall>x \<in> set (b # bs). c + int n \<le> x \<or> x + 512 \<le> c) \<Longrightarrow> c + int n \<le> t1 + 512 \<Longrightarrow>
      read_at d' c n = read_at d1 c n"
    using res by (auto simp: write_result_def)
  have ba: "block_addr t1 x" if "x \<in> set (b # bs)" for x
    using b(2)
  proof
    assume "rest = b # bs"
    with that block_addr_mono [OF st(7) d1(2)] show ?thesis by blast
  next
    assume "rest = [] \<and> bs = [] \<and> b = t + 512 \<and> t1 = t + 512"
    with that d1(1) st(1) show ?thesis by (auto simp: block_addr_def alloc_ok_def)
  qed
  have na: "a \<notin> set (b # bs)" using b(2) st(4,6) by (auto simp: block_addr_def)
  have "read_at d' a 512 = read_at d1 a 512"
  proof (rule fr2)
    show "\<forall>x \<in> set (b # bs). a + int 512 \<le> x \<or> x + 512 \<le> a"
      using blocks_disjoint [OF st(6) ba] na by fastforce
    show "a + int 512 \<le> t1 + 512" using st(9) d1(2) by simp
  qed
  then have rba: "read_block d' a = Some blk'" using rb by (simp add: read_block_def)
  let ?new = "if rest = [] then b # new else new"
  have list: "a # rest @ ?new = a # b # bs @ new" using b(2) by auto
  have "a \<notin> set new" using r(6) st(6) d1(2) by (fastforce simp: block_addr_def)
  then have "distinct (a # b # bs @ new)" using r(5) na by auto
  moreover have "chain d' a (a # b # bs @ new)"
    using rba blk'(2) r(4) st(6) by (auto simp: block_addr_def)
  moreover have "take (length (data blk @ bytes)) (contents d' (a # b # bs @ new)) = data blk @ bytes"
    using rba blk'(1) r(7) by (simp add: block_data_def)
  moreover have "t < x \<and> block_addr t' x" if "x \<in> set new" for x
    using r(6) [OF that] d1(2) by linarith
  then have "\<forall>x \<in> set ?new. t < x \<and> block_addr t' x"
    using r(2) ba b(2) block_addr_mono [OF ba, of b t'] by (auto split: if_splits)
  moreover have "read_at d' c n = read_at d c n"
    if "\<forall>x \<in> set (a # rest). c + int n \<le> x \<or> x + 512 \<le> c" "c + int n \<le> t + 512" for c n
  proof -
    have "read_at d' c n = read_at d1 c n" by (rule fr2) (use that b(2) d1(2) in auto)
    also have "\<dots> = read_at d c n" by (rule fr) (use that in auto)
    finally show ?thesis .
  qed
  ultimately have "write_result d t (a # rest) ?new d' t' (data blk @ bytes)"
    unfolding write_result_def append_Cons list using r(1-3) d1(2,3) by simp
  then show ?thesis ..
qed

text \<open>Linking a fresh block behind the last one of a file.\<close>

lemma write_new_block:
  assumes ws: "write_state d t a blk []" and room: "t + 1024 < int (length d)"
  defines "blk' \<equiv> blk\<lparr>nNextBlock := t + 512\<rparr>"
  shows "\<exists>d0 d1. next_free_block d = Some (t + 512, d0) \<and> write_at d0 a (enc_block blk') = Some d1
    \<and> read_block d1 a = Some blk' \<and> read_block d1 (t + 512) = Some (dec_block (replicate 512 NUL))
    \<and> alloc_ok d1 (t + 512) \<and> block_addr (t + 512) (t + 512) \<and> length d1 = length d
    \<and> (\<forall>x n. (x + int n \<le> a \<or> a + 512 \<le> x) \<longrightarrow> x + int n \<le> t + 512 \<longrightarrow> read_at d1 x n = read_at d x n)"
proof -
  note st = write_stateD [OF ws]
  from next_free_next [OF st(1) room] obtain d0 where d0: "next_free_block d = Some (t + 512, d0)"
    "alloc_ok d0 (t + 512)" "length d0 = length d"
    and rd0: "\<And>a n. a + int n \<le> int (length d) - 512 \<Longrightarrow> read_at d0 a n = read_at d a n"
    and z: "read_at d0 (t + 512) 512 = Some (replicate 512 NUL)" by blast
  have t0: "0 \<le> t" "t + 512 < 9223372036854775808" using st(1) by (auto simp: alloc_ok_def)
  have bok: "block_ok blk'" using st(2) t0 by (simp add: blk'_def block_ok_def is_long_def s64_id)
  have ba: "block_addr (t + 512) a" "block_addr (t + 512) (t + 512)"
    using st(6) d0(2) t0 by (auto simp: block_addr_def alloc_ok_def)
  obtain d1 where w: "write_at d0 a (enc_block blk') = Some d1"
    using write_at_Some [of a "enc_block blk'" d0] bd.enc_len [OF bok] st(1,6) d0(3)
    by (auto simp: alloc_ok_def block_addr_def)
  have ne: "t + 512 \<noteq> a" using st(9) by auto
  have rb: "read_block d1 (t + 512) = Some (dec_block (replicate 512 NUL))"
    using read_block_write(2) [OF w bok ba ne] z by (simp add: read_block_def)
  have al1: "alloc_ok d1 (t + 512)"
    by (rule alloc_ok_write [OF d0(2) w]) (use bd.enc_len [OF bok] st(9) in simp)
  have fr: "read_at d1 x n = read_at d x n" if "x + int n \<le> a \<or> a + 512 \<le> x" "x + int n \<le> t + 512" for x n
  proof -
    have "read_at d1 x n = read_at d0 x n"
      by (rule read_write_other [OF w]) (use that bd.enc_len [OF bok] in simp)
    also have "\<dots> = read_at d x n" by (rule rd0) (use that room in simp)
    finally show ?thesis .
  qed
  show ?thesis using d0(1) w read_block_write(1) [OF w bok] rb al1 ba(2) write_at_length [OF w] d0(3) fr by auto
qed

lemma first_byte:
  assumes "block_ok bb"
  shows "c_set (data bb) 0 c = Some ((data bb)[0 := c])" "take (nat 1) ((data bb)[0 := c]) = [c]" "block_ok (bb\<lparr>data := (data bb)[0 := c]\<rparr>)"
  using assms by (cases "data bb"; auto simp: block_ok_def c_set_def)+

text \<open>
  \<open>writes_all\<close>: the loop, at position \<open>j\<close> of block \<open>a\<close>, writes all of \<open>cs\<close> and allocates at most \<open>k\<close> blocks. One lemma for each way a
  byte is placed: none left, into the block, into the next block of the chain, into a new block.
\<close>

definition writes_all :: "disk \<Rightarrow> int \<Rightarrow> int \<Rightarrow> int \<Rightarrow> csc452_disk_block \<Rightarrow> int list \<Rightarrow> int \<Rightarrow> char list \<Rightarrow> bool" where
  "writes_all d t k a blk rest j cs \<longleftrightarrow> (\<exists>d' t' new. write_loop d a blk j (504 - j) cs = Some (True, d')
    \<and> write_result d t (a # rest) new d' t' (take (nat j) (data blk) @ cs) \<and> t' \<le> t + 512 * k)"

lemma writes_all_Nil:
  assumes ws: "write_state d t a blk rest" and "0 \<le> k"
  shows "writes_all d t k a blk rest j []"
proof -
  note st = write_stateD [OF ws]
  from st(10) obtain d' where w: "write_at d a (enc_block blk) = Some d'" by blast
  note sv = write_state_save [OF ws w]
  have "chain d' a (a # rest)" using sv st(6) by (auto simp: block_addr_def)
  moreover have "take (length (take (nat j) (data blk))) (contents d' (a # rest)) = take (nat j) (data blk)"
    using sv(3) by (simp add: block_data_def min_def)
  moreover have "\<forall>b n. (\<forall>x \<in> set (a # rest). b + int n \<le> x \<or> x + 512 \<le> b) \<longrightarrow> b + int n \<le> t + 512 \<longrightarrow>
      read_at d' b n = read_at d b n" using sv(7) by auto
  ultimately have "write_result d t (a # rest) [] d' t (take (nat j) (data blk) @ [])"
    using sv(1,2) st(4,5) by (simp add: write_result_def)
  with w assms(2) show ?thesis by (auto simp: writes_all_def)
qed

lemma writes_all_fill:
  assumes "write_state d t a blk rest" "0 \<le> j" "j < 504"
    and IH: "writes_all d t k a (blk\<lparr>data := (data blk)[nat j := c]\<rparr>) rest (j + 1) cs"
  shows "writes_all d t k a blk rest j (c # cs)"
proof -
  let ?blk = "blk\<lparr>data := (data blk)[nat j := c]\<rparr>"
  have j: "nat j < length (data blk)"
    using assms(2,3) write_stateD(2) [OF assms(1)] by (simp add: block_ok_def)
  from IH obtain d' t' new where
    "write_loop d a ?blk (j + 1) (504 - (j + 1)) cs = Some (True, d')"
    "write_result d t (a # rest) new d' t' (take (nat (j + 1)) (data ?blk) @ cs)" "t' \<le> t + 512 * k"
    by (auto simp: writes_all_def)
  moreover have "take (nat (j + 1)) (data ?blk) @ cs = take (nat j) (data blk) @ c # cs"
    using j assms(2) by (simp add: nat_add_distrib take_Suc_conv_app_nth)
  moreover have "c_set (data blk) j c = Some ((data blk)[nat j := c])"
    using j assms(2) by (simp add: c_set_def)
  ultimately show ?thesis using assms(3) by (auto simp: writes_all_def algebra_simps)
qed

lemma writes_all_next:
  assumes ws: "write_state d t a blk (b # bs)"
    and IH: "\<And>d1 bb. write_state d1 t b bb bs \<Longrightarrow> length d1 = length d \<Longrightarrow> writes_all d1 t k b bb bs 1 cs"
  shows "writes_all d t k a blk (b # bs) 504 (c # cs)"
proof -
  note st = write_stateD [OF ws]
  obtain bb where b: "nNextBlock blk = b" "b \<noteq> 0" "read_block d b = Some bb" "chain d (nNextBlock bb) bs"
    using st(3) by auto
  from st(10) obtain d1 where w: "write_at d a (enc_block blk) = Some d1" by blast
  note sv = write_state_save [OF ws w]
  let ?bb = "bb\<lparr>data := (data bb)[0 := c]\<rparr>"
  have bok: "block_ok bb" by (rule read_block_ok [OF b(3)])
  note next_ok = first_byte [OF bok, of c]
  have rb: "read_block d1 b = Some bb" using sv(6) b(3) by simp
  have "chain d1 (nNextBlock bb) bs" using sv(4) b(1) rb by auto
  then have "write_state d1 t b ?bb bs" using st(5,7) sv(1) next_ok(3) by (simp add: write_state_def)
  from IH [OF this sv(2)] obtain d' t' new where l: "write_loop d1 b ?bb 1 503 cs = Some (True, d')"
    and r: "write_result d1 t (b # bs) new d' t' (take (nat 1) (data ?bb) @ cs)" and t': "t' \<le> t + 512 * k"
    by (auto simp: writes_all_def)
  have "\<exists>new'. write_result d t (a # b # bs) new' d' t' (data blk @ take (nat 1) (data ?bb) @ cs)"
    by (rule write_result_step [OF ws sv(1) order_refl sv(2,3) refl b(1) r b(2)]) (use sv(7) in auto)
  then show ?thesis
    using b w rb next_ok l st(2) t' by (auto simp: writes_all_def sv block_ok_def) blast
qed

lemma writes_all_new:
  assumes ws: "write_state d t a blk []" and room: "t + 1024 < int (length d)"
    and IH: "\<And>d1 bb. write_state d1 (t + 512) (t + 512) bb [] \<Longrightarrow> length d1 = length d \<Longrightarrow>
      writes_all d1 (t + 512) (k - 1) (t + 512) bb [] 1 cs"
  shows "writes_all d t k a blk [] 504 (c # cs)"
proof -
  note st = write_stateD [OF ws]
  let ?zb = "dec_block (replicate 512 NUL)"
  let ?bb = "?zb\<lparr>data := (data ?zb)[0 := c]\<rparr>"
  from write_new_block [OF ws room] obtain d0 d1 where d0: "next_free_block d = Some (t + 512, d0)"
    and w: "write_at d0 a (enc_block (blk\<lparr>nNextBlock := t + 512\<rparr>)) = Some d1" and ra: "read_block d1 a = Some (blk\<lparr>nNextBlock := t + 512\<rparr>)"
    and rb: "read_block d1 (t + 512) = Some ?zb" and al1: "alloc_ok d1 (t + 512)" and ba: "block_addr (t + 512) (t + 512)" and l1: "length d1 = length d"
    and fr: "\<And>x n. x + int n \<le> a \<or> a + 512 \<le> x \<Longrightarrow> x + int n \<le> t + 512 \<Longrightarrow> read_at d1 x n = read_at d x n" by blast
  have t0: "0 \<le> t" using st(1) by (auto simp: alloc_ok_def)
  have zok: "block_ok ?zb" by (rule bd.dec_ok) simp
  note next_ok = first_byte [OF zok, of c]
  have "write_state d1 (t + 512) (t + 512) ?bb []"
    using al1 next_ok(3) ba zero_block by (simp add: write_state_def)
  from IH [OF this l1] obtain d' t' new where
    l: "write_loop d1 (t + 512) ?bb 1 503 cs = Some (True, d')"
    and r: "write_result d1 (t + 512) [t + 512] new d' t' (take (nat 1) (data ?bb) @ cs)" and t': "t' \<le> t + 512 + 512 * (k - 1)"
    by (auto simp: writes_all_def)
  have "\<exists>new'. write_result d t [a] new' d' t' (data blk @ take (nat 1) (data ?bb) @ cs)"
    by (rule write_result_step [OF ws al1 _ l1 ra _ _ r]) (use t0 fr in auto)
  then show ?thesis
    using st(2,3) d0 w rb next_ok l t0 t' by (auto simp: writes_all_def block_ok_def)
qed

text \<open>The loop writes all bytes when the disk has room for the blocks that are missing.\<close>

lemma write_loop_chain:
  assumes "write_state d t a blk rest" "0 \<le> j" "j \<le> 504"
    and "int (length cs) \<le> 504 - j + 504 * (int (length rest) + k)" "0 \<le> k" "t + 512 * k + 1024 \<le> int (length d)"
  shows "writes_all d t k a blk rest j cs"
  using assms
proof (induction cs arbitrary: d t a blk rest j k)
  case Nil
  then show ?case by (simp add: writes_all_Nil)
next
  case (Cons c cs)
  note ws = Cons.prems(1)
  show ?case
  proof (cases "j = 504")
    case False
    have "write_state d t a (blk\<lparr>data := (data blk)[nat j := c]\<rparr>) rest"
      using ws by (simp add: write_state_def block_ok_def)
    then show ?thesis
      using Cons.prems False by (intro writes_all_fill [OF ws]) (auto intro: Cons.IH)
  next
    case j: True
    show ?thesis
    proof (cases rest)
      case (Cons b bs)
      show ?thesis unfolding j Cons
        by (rule writes_all_next [OF ws [unfolded Cons]], rule Cons.IH [of _ _ _ _ _ 1 k])
          (use Cons.prems j Cons in auto)
    next
      case Nil
      have "int (Suc (length cs)) \<le> 504 * k" using Cons.prems(4) j Nil by simp
      then have k: "1 \<le> k" by linarith
      then have "t + 1024 < int (length d)" using Cons.prems(6) by linarith
      then show ?thesis unfolding j Nil
        by (rule writes_all_new [OF ws [unfolded Nil]], intro Cons.IH [of _ _ _ _ _ 1 "k - 1"])
          (use Cons.prems j Nil k in auto)
    qed
  qed
qed

section \<open>Files\<close>

text \<open>
  \<open>file_at\<close>: the file \<open>fn.ext\<close> of the directory, described by \<open>f\<close>, has the blocks \<open>bs\<close>; \<open>file_bytes\<close> is what it contains.
\<close>

definition file_at ::
  "disk \<Rightarrow> int \<Rightarrow> string list \<Rightarrow> string \<Rightarrow> int \<Rightarrow> csc452_directory_entry \<Rightarrow> (string \<times> string) list
     \<Rightarrow> string \<times> string \<Rightarrow> csc452_file_directory \<Rightarrow> int list \<Rightarrow> bool" where
  "file_at d t names dir a e fs nm f bs \<longleftrightarrow> dir_at d t names dir a e fs \<and> nm \<in> set fs \<and> c_string (fst nm) \<and> c_string (snd nm)
     \<and> f = files e ! nat (first_index fs nm) \<and> chain d (nStartBlock f) bs \<and> bs \<noteq> [] \<and> distinct (a # bs)
     \<and> (\<forall>b \<in> set bs. block_addr t b) \<and> 0 \<le> fsize f \<and> fsize f \<le> 504 * int (length bs) \<and> fsize f < 2147483647"

definition file_bytes :: "disk \<Rightarrow> csc452_file_directory \<Rightarrow> int list \<Rightarrow> char list" where
  "file_bytes d f bs = take (nat (fsize f)) (contents d bs)"

lemma file_at_lookup:
  assumes "file_at d t names dir a e fs nm f bs"
  shows "get_dir d dir = Some (first_index names dir, Some e)" "0 \<le> first_index names dir"
    "file_exist d dir (fst nm) (snd nm) 3 = Some (fsize f)"
    "index_loop e (fst nm) (snd nm) 0 = Some (first_index fs nm)"
    "c_get (files e) (first_index fs nm) = Some f" "0 \<le> first_index fs nm" "first_index fs nm < int (length fs)"
    "\<exists>blk. read_block d (nStartBlock f) = Some blk" "file_ok f" "length (files e) = 17"
proof -
  have da: "dir_at d t names dir a e fs" and nm: "nm \<in> set fs" "c_string (fst nm)" "c_string (snd nm)"
    and f: "f = files e ! nat (first_index fs nm)" "0 \<le> fsize f" "fsize f < 2147483647"
    using assms by (auto simp: file_at_def)
  have en: "entry_names e fs" "entry_ok e" using da by (auto simp: dir_at_def)
  show "get_dir d dir = Some (first_index names dir, Some e)" "0 \<le> first_index names dir"
    by (rule dir_at_get_dir [OF da])+
  show i: "0 \<le> first_index fs nm" "first_index fs nm < int (length fs)"
    using first_index_nth [OF nm(1)] first_index_range(2) by auto
  show "file_exist d dir (fst nm) (snd nm) 3 = Some (fsize f)"
    using dir_at_file_exist [OF da nm(2,3)] nm(1) f by (simp add: s32_id)
  show "index_loop e (fst nm) (snd nm) 0 = Some (first_index fs nm)"
    using index_loop_index [OF en(1) nm(2,3), of 0] nm(1) by (simp add: first_index_absent)
  have "nat (first_index fs nm) < length fs" using i by linarith
  with entry_c_get(1) [OF en(1) this] i f(1) show "c_get (files e) (first_index fs nm) = Some f" by simp
  show "length (files e) = 17" using en(2) by (simp add: entry_ok_def)
  with en f(1) \<open>nat (first_index fs nm) < length fs\<close> show "file_ok f"
    by (auto simp: entry_ok_def entry_names_def)
  show "\<exists>blk. read_block d (nStartBlock f) = Some blk" using assms by (cases bs) (auto simp: file_at_def)
qed

lemma chain_prefix_length: "chain d a (pre @ b # rest) \<Longrightarrow> length (contents d pre) = 504 * length pre"
proof (induction pre arbitrary: a)
  case (Cons p pre)
  then obtain x where "read_block d p = Some x" "chain d (nNextBlock x) (pre @ b # rest)" by auto
  with Cons.IH read_block_ok [of d p x] show ?case by (auto simp: block_data_def block_ok_def)
qed simp

lemma contents_drop_blocks:
  assumes "chain d a (pre @ b # rest)" "0 \<le> j" "i = 504 * int (length pre) + j" "read_block d b = Some blk"
  shows "drop (nat j) (data blk @ contents d rest) = drop (nat i) (contents d (pre @ b # rest))"
    and "take (nat i) (contents d (pre @ b # rest)) = contents d pre @ take (nat j) (data blk @ contents d rest)"
proof -
  have "length (contents d pre) = 504 * length pre" by (rule chain_prefix_length [OF assms(1)])
  moreover have "nat i = 504 * length pre + nat j" using assms(2,3) by (simp add: nat_add_distrib nat_mult_distrib)
  moreover have "contents d (pre @ b # rest) = contents d pre @ data blk @ contents d rest"
    using assms(4) by (simp add: contents_def block_data_def)
  ultimately show "drop (nat j) (data blk @ contents d rest) = drop (nat i) (contents d (pre @ b # rest))"
    "take (nat i) (contents d (pre @ b # rest)) = contents d pre @ take (nat j) (data blk @ contents d rest)" by simp_all
qed

text \<open>
  \<open>read\<close> does not know where the file ends: at the end mark 0 it goes on with the block at address 0, the root directory,
  and the link in its last eight bytes. \<open>follow d a k\<close> are the data of the \<open>k\<close> blocks that one meets from address \<open>a\<close>.
\<close>

primrec follow :: "disk \<Rightarrow> int \<Rightarrow> nat \<Rightarrow> char list option" where
  "follow d a 0 = Some []"
| "follow d a (Suc k) = do { blk \<leftarrow> read_block d a; beyond \<leftarrow> follow d (nNextBlock blk) k; Some (data blk @ beyond) }"

lemma follow_length: "follow d a k = Some xs \<Longrightarrow> length xs = 504 * k"
proof (induction k arbitrary: a xs)
  case (Suc k)
  then obtain blk beyond where "read_block d a = Some blk" "follow d (nNextBlock blk) k = Some beyond" "xs = data blk @ beyond"
    by (auto simp: bind_Some_iff)
  with Suc.IH read_block_ok show ?case by (auto simp: block_ok_def)
qed simp

lemma follow_chain:
  assumes "chain d a bs" "follow d 0 k = Some beyond"
  shows "follow d a (length bs + k) = Some (contents d bs @ beyond)"
  using assms(1)
proof (induction bs arbitrary: a)
  case Nil
  then show ?case using assms(2) by simp
next
  case (Cons b bs)
  then obtain blk where "a = b" "read_block d b = Some blk" "chain d (nNextBlock blk) bs" by auto
  with Cons.IH show ?case by (simp add: block_data_def)
qed

text \<open>A root directory that ends in eight zero bytes, as \<open>formatDisk\<close> leaves it, is met again and again.\<close>

lemma follow_root:
  "read_block d 0 = Some blk \<Longrightarrow> nNextBlock blk = 0 \<Longrightarrow> follow d 0 k = Some (concat (replicate k (data blk)))"
  by (induction k) simp_all

text \<open>The copy loop of \<open>csc452_read\<close> returns the bytes of the blocks it meets.\<close>

lemma read_loop_follow:
  assumes "follow d (nNextBlock blk) k = Some beyond" "block_ok blk" "0 \<le> j" "j \<le> 504" "int n \<le> 504 - j + 504 * int k"
  shows "read_loop d n j (504 - j) blk buf = Some (buf @ take n (drop (nat j) (data blk @ beyond)))"
  using assms
proof (induction n arbitrary: j blk k beyond buf)
  case 0
  then show ?case by simp
next
  case (Suc n)
  have l: "length (data blk) = 504" using Suc.prems(2) by (simp add: block_ok_def)
  show ?case
  proof (cases "j = 504")
    case True
    with Suc.prems obtain m where m: "k = Suc m" by (cases k) auto
    with Suc.prems obtain bb rest where b: "read_block d (nNextBlock blk) = Some bb" "follow d (nNextBlock bb) m = Some rest"
      "beyond = data bb @ rest" by (auto simp: bind_Some_iff)
    have bok: "block_ok bb" by (rule read_block_ok [OF b(1)])
    then have c: "c_get (data bb) 0 = Some (data bb ! 0)" "data bb \<noteq> []" by (auto simp: c_get_def block_ok_def)
    have "read_loop d (Suc n) j (504 - j) blk buf = read_loop d n 1 503 bb (buf @ [data bb ! 0])"
      using True b c by simp
    also have "\<dots> = Some ((buf @ [data bb ! 0]) @ take n (drop (nat 1) (data bb @ rest)))"
      using Suc.IH [OF b(2) bok, of 1] Suc.prems(5) True m by simp
    also have "(buf @ [data bb ! 0]) @ take n (drop (nat 1) (data bb @ rest)) = buf @ take (Suc n) (drop (nat j) (data blk @ beyond))"
      using c l True b(3) by (cases "data bb") auto
    finally show ?thesis .
  next
    case False
    then have j: "0 \<le> j" "j < 504" using Suc.prems by auto
    then have c: "c_get (data blk) j = Some (data blk ! nat j)" using l by (simp add: c_get_def)
    have "read_loop d (Suc n) j (504 - j) blk buf = read_loop d n (j + 1) (504 - (j + 1)) blk (buf @ [data blk ! nat j])"
      using j c by simp
    also have "\<dots> = Some ((buf @ [data blk ! nat j]) @ take n (drop (nat (j + 1)) (data blk @ beyond)))"
      using Suc.IH [OF Suc.prems(1,2), of "j + 1"] Suc.prems j by simp
    also have "(buf @ [data blk ! nat j]) @ take n (drop (nat (j + 1)) (data blk @ beyond)) = buf @ take (Suc n) (drop (nat j) (data blk @ beyond))"
    proof -
      have "nat j < 504" using j by simp
      moreover from this l have "drop (nat j) (data blk @ beyond) = (data blk @ beyond) ! nat j # drop (Suc (nat j)) (data blk @ beyond)"
        by (intro Cons_nth_drop_Suc [symmetric]) simp
      moreover have "nat (j + 1) = Suc (nat j)" using j by simp
      ultimately show ?thesis using l by (simp add: nth_append)
    qed
    finally show ?thesis .
  qed
qed

lemma read_past_file:
  assumes fa: "file_at d t names dir a e fs (fn, ext) f bs" and sc: "scan_path path = Some (3, dir, fn, ext)"
    and off: "0 \<le> off" "off \<le> fsize f" and n: "0 < n" and beyond: "follow d 0 k = Some beyond"
    and fit: "off + min n (fsize f) \<le> 504 * (int (length bs) + int k)"
  shows "csc452_read d path n off = Some (min n (fsize f), take (nat (min n (fsize f))) (drop (nat off) (contents d bs @ beyond)))"
proof -
  note lk = file_at_lookup [OF fa, simplified]
  from fa have ch: "chain d (nStartBlock f) bs" "bs \<noteq> []" and fs: "0 \<le> fsize f" "fsize f \<le> 504 * int (length bs)"
    "fsize f < 2147483647" by (auto simp: file_at_def)
  then obtain bs' where bs: "bs = nStartBlock f # bs'" by (cases bs) auto
  obtain blk where blk: "read_block d (nStartBlock f) = Some blk" using lk by blast
  from skip_blocks_chain [OF ch(1) [unfolded bs] blk, of off] off fs obtain pre b rest blk' j where
    sk: "skip_blocks d (nStartBlock f) blk off = Some (b, blk', j)" and sp: "bs = pre @ b # rest"
    and b: "read_block d b = Some blk'" "chain d (nNextBlock blk') rest" "off = 504 * int (length pre) + j" "0 \<le> j" "j \<le> 504"
    using bs by auto
  let ?m = "min n (fsize f)"
  have "read_loop d (nat ?m) j (504 - j) blk' [] = Some ([] @ take (nat ?m) (drop (nat j) (data blk' @ contents d rest @ beyond)))"
    by (rule read_loop_follow [OF follow_chain [OF b(2) beyond] read_block_ok [OF b(1)] b(4,5)]) (use fit n fs b(3) sp in auto)
  also have "drop (nat j) (data blk' @ contents d rest @ beyond) = drop (nat off) (contents d bs @ beyond)"
  proof -
    have "nat j \<le> length (data blk' @ contents d rest)" "nat off \<le> length (contents d bs)"
      using b(5) read_block_ok [OF b(1)] off fs contents_length [OF ch(1)] by (auto simp: block_ok_def)
    then show ?thesis
      using contents_drop_blocks(1) [OF ch(1) [unfolded sp] b(4,3,1)] by (simp add: sp flip: append_assoc)
  qed
  finally have rl: "read_loop d (nat ?m) j (504 - j) blk' [] = Some (take (nat ?m) (drop (nat off) (contents d bs @ beyond)))" by simp
  have u: "u64 (fsize f) = fsize f" "u64 off = off" "s32 off = off" "s32 (504 - j) = 504 - j" "s32 ?m = ?m"
    "fsize f \<noteq> u64 (- 1)" using off fs b(4,5) n by (auto simp: u64_id s32_id) (simp add: u64_def)
  show ?thesis
  proof (cases "fsize f < n")
    case True
    then have "?m = fsize f" by simp
    with True lk off n sk rl blk u show ?thesis by (simp add: csc452_read_def sc Let_def)
  next
    case False
    then have "?m = n" by simp
    with False lk off n sk rl blk u show ?thesis by (simp add: csc452_read_def sc Let_def)
  qed
qed

lemma read_file:
  assumes "file_at d t names dir a e fs (fn, ext) f bs" "scan_path path = Some (3, dir, fn, ext)"
    and "0 \<le> off" "off \<le> fsize f" "0 < n" "off + min n (fsize f) \<le> 504 * int (length bs)"
  shows "csc452_read d path n off = Some (min n (fsize f), take (nat (min n (fsize f))) (drop (nat off) (contents d bs)))"
  using read_past_file [OF assms(1-5), of 0 "[]"] assms(6) by simp

lemma chain_splice:
  assumes "chain d a (pre @ b # rest)" "\<And>p. p \<in> set pre \<Longrightarrow> read_block d' p = read_block d p" "chain d' b (b # rest')"
  shows "chain d' a (pre @ b # rest')"
  using assms(1,2)
proof (induction pre arbitrary: a)
  case Nil
  with assms(3) show ?case by auto
next
  case (Cons p pre)
  then obtain blk where "a = p" "p \<noteq> 0" "read_block d p = Some blk" "chain d (nNextBlock blk) (pre @ b # rest)" by auto
  with Cons.IH [of "nNextBlock blk"] Cons.prems(2) show ?case by auto
qed

lemma dir_at_frame:
  assumes "dir_at d t names dir a e fs" "alloc_ok d' t'" "t \<le> t'"
    and "read_at d' 0 512 = read_at d 0 512" "read_at d' a 512 = read_at d a 512"
  shows "dir_at d' t' names dir a e fs"
  using assms by (auto simp: dir_at_def root_names_def get_root_def)

text \<open>The directory entry with the new size of the file.\<close>

lemma write_metadata:
  assumes fa: "file_at d t names dir a e fs nm f bs"
    and m: "0 \<le> m" "m \<le> 2147483646"
  defines "e' \<equiv> e\<lparr>files := (files e)[nat (first_index fs nm) := f\<lparr>fsize := m\<rparr>]\<rparr>"
  shows "\<exists>d'. write_at d a (enc_entry e') = Some d' \<and> dir_at d' t names dir a e' fs \<and> length d' = length d
    \<and> chain d' (nStartBlock f) bs \<and> contents d' bs = contents d bs
    \<and> (\<forall>b \<in> set bs. read_block d' b = read_block d b)
    \<and> (\<forall>b n. b + int n \<le> a \<or> a + 512 \<le> b \<longrightarrow> read_at d' b n = read_at d b n)"
proof -
  note lk = file_at_lookup [OF fa]
  have da: "dir_at d t names dir a e fs" and bs: "\<forall>b \<in> set bs. block_addr t b" "distinct (a # bs)"
    "chain d (nStartBlock f) bs" and f: "f = files e ! nat (first_index fs nm)"
    using fa by (auto simp: file_at_def)
  have en: "entry_names e fs" "entry_ok e" and a: "block_addr t a" and al: "alloc_ok d t"
    using da by (auto simp: dir_at_def block_addr_def)
  have ok: "entry_ok e'"
    using en(2) lk(9) m by (auto simp: e'_def entry_ok_def file_ok_def is_size_def u64_id
        dest!: set_update_subset_insert [THEN subsetD])
  have len: "length (enc_entry e') = 512" by (rule entry_length [OF ok])
  have "map fname (files e') = map fname (files e)" "map fext (files e') = map fext (files e)"
    by (simp_all add: e'_def map_update f list_update_id [of "map fname (files e)", symmetric] flip: nth_map)
      (metis (no_types, lifting) f list_update_beyond list_update_id map_update not_le_imp_less nth_map length_map)+
  then have "entry_names e' fs" using en(1) by (simp add: entry_names_def e'_def)
  obtain d' where w: "write_at d a (enc_entry e') = Some d'"
    using write_at_Some [of a "enc_entry e'" d] len a al by (auto simp: block_addr_def alloc_ok_def)
  have other: "read_at d' b n = read_at d b n" if "b + int n \<le> a \<or> a + 512 \<le> b" for b n
    by (rule read_write_other [OF w]) (use that len in simp)
  have rb: "read_block d' b = read_block d b" if "b \<in> set bs" for b
    unfolding read_block_def by (subst other) (use blocks_disjoint [of t b t a] a bs that in auto)
  show ?thesis
    using w dir_at_write_entry [OF da ok \<open>entry_names e' fs\<close> w] write_at_length [OF w]
      chain_cong [of bs d' d] rb other bs(3) by auto
qed

lemma write_metadata_step:
  assumes fa: "file_at d t names dir a e fs nm f bs"
    and off: "0 \<le> off" "off \<le> fsize f" "0 < n" "off + n \<le> 2147483646"
  defines "e' \<equiv> e\<lparr>files := (files e)[nat (first_index fs nm) := f\<lparr>fsize := off + n\<rparr>]\<rparr>"
  shows "\<exists>d'. (if 0 < u64 (off - fsize f + n)
        then do {
          fs' \<leftarrow> c_set (files e) (first_index fs nm) (f\<lparr>fsize := u64 (fsize f + u64 (off - fsize f + n))\<rparr>);
          root \<leftarrow> get_root d;
          s \<leftarrow> c_get (directories root) (first_index names dir);
          write_at d (dStartBlock s) (enc_entry (e\<lparr>files := fs'\<rparr>))
        }
        else Some d) = Some d'
    \<and> dir_at d' t names dir a e' fs \<and> length d' = length d
    \<and> chain d' (nStartBlock f) bs \<and> contents d' bs = contents d bs
    \<and> (\<forall>b \<in> set bs. read_block d' b = read_block d b)
    \<and> (\<forall>b n. b + int n \<le> a \<or> a + 512 \<le> b \<longrightarrow> read_at d' b n = read_at d b n)"
proof -
  note lk = file_at_lookup [OF fa]
  have da: "dir_at d t names dir a e fs" and ch: "chain d (nStartBlock f) bs"
    and f: "f = files e ! nat (first_index fs nm)" "0 \<le> fsize f" "fsize f < 2147483647"
    using fa by (auto simp: file_at_def)
  show ?thesis
  proof (cases "off + n = fsize f")
    case True
    then have z: "u64 (off - fsize f + n) = 0" by (simp add: u64_def)
    have "f\<lparr>fsize := off + n\<rparr> = f" using True by simp
    moreover have "(files e)[nat (first_index fs nm) := f] = files e" unfolding f(1) by (rule list_update_id)
    ultimately have "e' = e" by (simp add: e'_def)
    then show ?thesis using da ch z by simp
  next
    case False
    have "u64 (off - fsize f + n) \<noteq> 0"
    proof
      assume "u64 (off - fsize f + n) = 0"
      then have "18446744073709551616 dvd (off - fsize f + n)" by (auto simp: u64_def)
      moreover have "\<bar>off - fsize f + n\<bar> < 18446744073709551616" using off f by linarith
      ultimately have "off - fsize f + n = 0" by (meson dvd_imp_le_int not_le abs_ge_zero zdvd_imp_le abs_of_nonneg dvd_abs_iff
            linorder_not_less zero_less_abs_iff)
      with False show False by simp
    qed
    then have pos: "0 < u64 (off - fsize f + n)" using u64_range(1) [of "off - fsize f + n"] by linarith
    have sum: "u64 (fsize f + u64 (off - fsize f + n)) = off + n" using off by (simp add: u64_id algebra_simps)
    have set: "c_set (files e) (first_index fs nm) (f\<lparr>fsize := off + n\<rparr>)
        = Some ((files e)[nat (first_index fs nm) := f\<lparr>fsize := off + n\<rparr>])"
      using lk(5) by (auto simp: c_set_def c_get_def split: if_splits)
    from dir_at_get_dir(3) [OF da] obtain r s where "get_root d = Some r"
      "c_get (directories r) (first_index names dir) = Some s" "dStartBlock s = a" by blast
    with write_metadata [OF fa, of "off + n"] pos sum set off show ?thesis by (auto simp: e'_def)
  qed
qed

text \<open>A file after the copy loop: the blocks before the first one written, those written, and the new ones.\<close>

lemma write_splice:
  assumes da1: "dir_at d1 t names dir a e fs" and bs: "distinct (a # bs)" "\<And>b. b \<in> set bs \<Longrightarrow> block_addr t b"
    and ch1: "chain d1 st bs" and sp: "bs = pre @ b # rest" and wr: "write_result d1 t (b # rest) new d' t' bytes"
  shows "dir_at d' t' names dir a e fs" and "chain d' st (pre @ b # rest @ new)" and "contents d' pre = contents d1 pre"
    and "distinct (a # pre @ b # rest @ new)" and "\<forall>x \<in> set (pre @ b # rest @ new). block_addr t' x"
    and "\<And>x. block_addr t x \<Longrightarrow> x \<notin> set (b # rest) \<Longrightarrow> read_at d' x 512 = read_at d1 x 512"
    and "read_at d' 0 512 = read_at d1 0 512"
proof -
  have a: "block_addr t a" and al1: "alloc_ok d1 t" using da1 by (simp_all add: dir_at_def block_addr_def)
  have r: "alloc_ok d' t'" "t \<le> t'" "chain d' b (b # rest @ new)" "distinct (b # rest @ new)" "\<And>x. x \<in> set new \<Longrightarrow> t < x \<and> block_addr t' x"
    and fr: "\<And>c n. (\<forall>x \<in> set (b # rest). c + int n \<le> x \<or> x + 512 \<le> c) \<Longrightarrow> c + int n \<le> t + 512 \<Longrightarrow>
      read_at d' c n = read_at d1 c n"
    using wr by (auto simp: write_result_def)
  show keep: "read_at d' x 512 = read_at d1 x 512" if "block_addr t x" "x \<notin> set (b # rest)" for x
  proof (rule fr)
    show "\<forall>y \<in> set (b # rest). x + int 512 \<le> y \<or> y + 512 \<le> x"
      using blocks_disjoint [OF that(1) bs(2)] that(2) sp by fastforce
    show "x + int 512 \<le> t + 512" using that(1) by (simp add: block_addr_def)
  qed
  show root: "read_at d' 0 512 = read_at d1 0 512"
  proof (rule fr)
    show "\<forall>x \<in> set (b # rest). 0 + int 512 \<le> x \<or> x + 512 \<le> 0" using bs(2) sp by (auto simp: block_addr_def)
    show "0 + int 512 \<le> t + 512" using al1 by (simp add: alloc_ok_def)
  qed
  show "dir_at d' t' names dir a e fs"
    by (rule dir_at_frame [OF da1 r(1,2) root keep]) (use a bs sp in auto)
  have pre: "read_block d' p = read_block d1 p" if "p \<in> set pre" for p
  proof -
    have "p \<notin> set (b # rest)" "block_addr t p" using bs sp that by auto
    then show ?thesis using keep by (simp add: read_block_def)
  qed
  show "chain d' st (pre @ b # rest @ new)" by (rule chain_splice [OF ch1 [unfolded sp] pre r(3)])
  show "contents d' pre = contents d1 pre" using chain_cong(2) [of pre d' d1] pre by simp
  have "x \<notin> set (a # bs)" if "x \<in> set new" for x
    using r(5) [OF that] a bs(2) by (fastforce simp: block_addr_def)
  then show "distinct (a # pre @ b # rest @ new)" using bs(1) sp r(4) by auto
  show "\<forall>x \<in> set (pre @ b # rest @ new). block_addr t' x" using block_addr_mono [OF bs(2) r(2)] r(5) by (auto simp: sp)
qed

lemma write_contents:
  assumes ch1: "chain d1 st (pre @ b # rest)" and b: "read_block d1 b = Some blk'" "0 \<le> j" "j \<le> 504" and off: "off = 504 * int (length pre) + j"
    and wr: "write_result d1 t (b # rest) new d' t' (take (nat j) (data blk') @ bytes)" and cpre: "contents d' pre = contents d1 pre"
  shows "off + int (length bytes) \<le> 504 * int (length (pre @ b # rest @ new))"
    and "take (nat (off + int (length bytes))) (contents d' (pre @ b # rest @ new)) = take (nat off) (contents d1 (pre @ b # rest)) @ bytes"
proof -
  have r: "chain d' b (b # rest @ new)" "take (length (take (nat j) (data blk') @ bytes)) (contents d' (b # rest @ new)) = take (nat j) (data blk') @ bytes"
    using wr by (auto simp: write_result_def)
  have lb: "length (data blk') = 504" using read_block_ok [OF b(1)] by (simp add: block_ok_def)
  have "length (take (nat j) (data blk') @ bytes) \<le> length (contents d' (b # rest @ new))"
    using r(2) by (metis length_take min.cobounded1 min.commute)
  then show "off + int (length bytes) \<le> 504 * int (length (pre @ b # rest @ new))" using contents_length [OF r(1)] lb off b(2,3) by simp
  have o: "take (nat off) (contents d1 (pre @ b # rest)) = contents d' pre @ take (nat j) (data blk')"
    using contents_drop_blocks(2) [OF ch1 b(2) off b(1)] lb b(3) cpre by simp
  have "length (contents d1 pre) = 504 * length pre" by (rule chain_prefix_length [OF ch1])
  then have "nat (off + int (length bytes)) = length (contents d' pre) + length (take (nat j) (data blk') @ bytes)"
    using b(2,3) lb off cpre by simp
  with r(2) o show "take (nat (off + int (length bytes))) (contents d' (pre @ b # rest @ new)) = take (nat off) (contents d1 (pre @ b # rest)) @ bytes"
    by (simp add: contents_def)
qed

text \<open>From the start block on: the walk to the offset, then the loop.\<close>

lemma write_blocks:
  assumes al: "alloc_ok d t" and ch: "chain d st bs" "bs \<noteq> []" "distinct bs"
    and ba: "\<And>b. b \<in> set bs \<Longrightarrow> block_addr t b" and blk: "read_block d st = Some blk"
    and off: "0 \<le> off" "off \<le> 504 * int (length bs)" "off < 2147483648"
    and k: "0 \<le> k" "off + int (length cs) \<le> 504 * (int (length bs) + k)" "t + 512 * k + 1024 \<le> int (length d)"
  obtains pre b rest blk' j d' t' new where
    "skip_blocks d st blk off = Some (b, blk', j)" "bs = pre @ b # rest"
    "read_block d b = Some blk'" "chain d (nNextBlock blk') rest" "off = 504 * int (length pre) + j" "0 \<le> j" "j \<le> 504"
    "write_loop d b blk' j (504 - j) cs = Some (True, d')"
    "write_result d t (b # rest) new d' t' (take (nat j) (data blk') @ cs)" "t' \<le> t + 512 * k"
proof -
  obtain bs0 where bs0: "bs = st # bs0" using ch(1,2) by (cases bs) auto
  from skip_blocks_chain [OF ch(1) [unfolded bs0] blk, of off] off obtain pre b rest blk' j where
    sk: "skip_blocks d st blk off = Some (b, blk', j)" "bs = pre @ b # rest"
    and b: "read_block d b = Some blk'" "chain d (nNextBlock blk') rest" "off = 504 * int (length pre) + j" "0 \<le> j" "j \<le> 504"
    using bs0 by auto
  have "write_state d t b blk' rest"
    using al read_block_ok [OF b(1)] b(2) ch(3) ba sk(2) by (auto simp: write_state_def)
  moreover have "int (length cs) \<le> 504 - j + 504 * (int (length rest) + k)" using k(2) b(3) sk(2) by simp
  ultimately show ?thesis
    using write_loop_chain [of d t b blk' rest j cs k] b k(1,3) sk that by (auto simp: writes_all_def)
qed

lemma write_file_blocks:
  assumes fa: "file_at d t names dir a e fs (fn, ext) f bs" and sc: "scan_path path = Some (3, dir, fn, ext)"
    and off: "0 \<le> off" "off \<le> fsize f" and n: "0 < n" "nat n \<le> length buf" "off + n \<le> 2147483646"
    and k: "0 \<le> k" "off + n \<le> 504 * (int (length bs) + k)" "t + 512 * k + 1024 \<le> int (length d)"
  shows "\<exists>d' t' e' f' new. csc452_write d path buf n off = Some (n, d')
    \<and> file_at d' t' names dir a e' fs (fn, ext) f' (bs @ new) \<and> fsize f' = off + n
    \<and> file_bytes d' f' (bs @ new) = take (nat off) (file_bytes d f bs) @ take (nat n) buf
    \<and> length d' = length d \<and> (\<forall>j. j \<noteq> nat (first_index fs (fn, ext)) \<longrightarrow> files e' ! j = files e ! j)
    \<and> (\<forall>b. block_addr t b \<longrightarrow> b \<notin> set (a # bs) \<longrightarrow> read_at d' b 512 = read_at d b 512)
    \<and> get_root d' = get_root d \<and> t \<le> t' \<and> t' \<le> t + 512 * k \<and> (\<forall>b \<in> set new. t < b)"
proof -
  note lk = file_at_lookup [OF fa, simplified]
  let ?i = "nat (first_index fs (fn, ext))" and ?f = "f\<lparr>fsize := off + n\<rparr>"
  let ?e = "e\<lparr>files := (files e)[?i := ?f]\<rparr>"
  have da: "dir_at d t names dir a e fs" and ch: "chain d (nStartBlock f) bs" "bs \<noteq> []" and nm: "(fn, ext) \<in> set fs"
    "c_string fn" "c_string ext" and bs: "distinct (a # bs)" "\<And>b. b \<in> set bs \<Longrightarrow> block_addr t b"
    and fs: "0 \<le> fsize f" "fsize f \<le> 504 * int (length bs)" "fsize f < 2147483647"
    using fa by (auto simp: file_at_def)
  have a: "block_addr t a" using da by (simp add: dir_at_def block_addr_def)
  have start: "nStartBlock f \<in> set bs" using ch by (cases bs) auto
  obtain blk where blk: "read_block d (nStartBlock f) = Some blk" using lk by blast
  obtain d1 where step: "(if 0 < u64 (off - fsize f + n)
        then do {
          fs' \<leftarrow> c_set (files e) (first_index fs (fn, ext)) (f\<lparr>fsize := u64 (fsize f + u64 (off - fsize f + n))\<rparr>);
          root \<leftarrow> get_root d;
          s \<leftarrow> c_get (directories root) (first_index names dir);
          write_at d (dStartBlock s) (enc_entry (e\<lparr>files := fs'\<rparr>))
        }
        else Some d) = Some d1"
    and da1: "dir_at d1 t names dir a ?e fs" and l1: "length d1 = length d"
    and ch1: "chain d1 (nStartBlock f) bs" "contents d1 bs = contents d bs"
    and rb1: "\<forall>b \<in> set bs. read_block d1 b = read_block d b"
    and rd1: "\<And>b n. b + int n \<le> a \<or> a + 512 \<le> b \<Longrightarrow> read_at d1 b n = read_at d b n"
    using write_metadata_step [OF fa off n(1,3)] by blast
  have blk1: "read_block d1 (nStartBlock f) = Some blk" using rb1 blk start by simp
  have al1: "alloc_ok d1 t" using da1 by (simp add: dir_at_def)
  have len: "int (length (take (nat n) buf)) = n" using n by simp
  have off1: "off \<le> 504 * int (length bs)" "off < 2147483648" using off(2) fs(2,3) by simp_all
  have room: "off + int (length (take (nat n) buf)) \<le> 504 * (int (length bs) + k)"
    "t + 512 * k + 1024 \<le> int (length d1)"
    using k(2,3) len l1 by simp_all
  obtain pre b rest blk' j d' t' new where
    sk: "skip_blocks d1 (nStartBlock f) blk off = Some (b, blk', j)" and sp: "bs = pre @ b # rest"
    and b: "read_block d1 b = Some blk'" "chain d1 (nNextBlock blk') rest" "off = 504 * int (length pre) + j" "0 \<le> j" "j \<le> 504"
    and wl: "write_loop d1 b blk' j (504 - j) (take (nat n) buf) = Some (True, d')"
    and wr: "write_result d1 t (b # rest) new d' t' (take (nat j) (data blk') @ take (nat n) buf)"
    and t': "t' \<le> t + 512 * k"
    by (rule write_blocks [OF al1 ch1(1) ch(2) _ bs(2) blk1 off(1) off1 k(1) room]) (use bs(1) in auto)
  let ?bs = "pre @ b # rest @ new"
  note sl = write_splice [OF da1 bs ch1(1) sp wr]
  note ct = write_contents [OF ch1(1) [unfolded sp] b(1,4,5,3) wr sl(3), unfolded len]
  have l': "length d' = length d1" using wr by (simp add: write_result_def)
  have fi: "?f = files ?e ! ?i" using lk by (simp add: c_get_def split: if_splits)
  have "file_at d' t' names dir a ?e fs (fn, ext) ?f ?bs"
    using sl nm fi off n ct(1) by (simp add: file_at_def)
  moreover have "file_bytes d' ?f ?bs = take (nat off) (file_bytes d f bs) @ take (nat n) buf"
    using ct(2) ch1(2) nat_mono [OF off(2)] by (simp add: file_bytes_def min_def sp)
  moreover have "\<forall>x. block_addr t x \<longrightarrow> x \<notin> set (a # bs) \<longrightarrow> read_at d' x 512 = read_at d x 512"
  proof (intro allI impI)
    fix x assume x: "block_addr t x" "x \<notin> set (a # bs)"
    have "read_at d' x 512 = read_at d1 x 512" by (rule sl(6)) (use x sp in auto)
    also have "\<dots> = read_at d x 512" by (rule rd1) (use blocks_disjoint [OF x(1) a] x(2) in auto)
    finally show "read_at d' x 512 = read_at d x 512" .
  qed
  moreover have "csc452_write d path buf n off = Some (n, d')"
  proof -
    have u: "u64 (fsize f) = fsize f" "u64 off = off" "s32 off = off" "s32 (504 - j) = 504 - j" "s32 n = n"
      "fsize f \<noteq> u64 (- 1)" using off fs b(4,5) n by (auto simp: u64_id s32_id) (simp add: u64_def)
    show ?thesis
      unfolding csc452_write_def sc using lk off n sk wl blk step by (simp add: u Let_def)
  qed
  moreover have "get_root d' = get_root d" using sl(7) rd1 [of 0 512] a by (simp add: get_root_def block_addr_def)
  moreover have "t \<le> t'" "\<forall>x \<in> set new. t < x" using wr by (auto simp: write_result_def)
  moreover have "?bs = bs @ new" using sp by simp
  ultimately show ?thesis using l' l1 t'
    by (intro exI [of _ d'] exI [of _ t'] exI [of _ ?e] exI [of _ ?f] exI [of _ new]) simp
qed

lemma write_file:
  assumes "file_at d t names dir a e fs (fn, ext) f bs" "scan_path path = Some (3, dir, fn, ext)"
    and "0 \<le> off" "off \<le> fsize f" and "0 < n" "nat n \<le> length buf" "off + n \<le> 2147483646"
    and "0 \<le> k" "off + n \<le> 504 * (int (length bs) + k)" "t + 512 * k + 1024 \<le> int (length d)"
  shows "\<exists>d' t' e' f' bs'. csc452_write d path buf n off = Some (n, d')
    \<and> file_at d' t' names dir a e' fs (fn, ext) f' bs' \<and> fsize f' = off + n
    \<and> file_bytes d' f' bs' = take (nat off) (file_bytes d f bs) @ take (nat n) buf
    \<and> length d' = length d \<and> (\<forall>j. j \<noteq> nat (first_index fs (fn, ext)) \<longrightarrow> files e' ! j = files e ! j)
    \<and> (\<forall>b. block_addr t b \<longrightarrow> b \<notin> set (a # bs) \<longrightarrow> read_at d' b 512 = read_at d b 512)"
  using write_file_blocks [OF assms] by blast

section \<open>From a formatted disk\<close>

text \<open>A disk of zeros, as the script \<open>formatDisk\<close> writes it, is well formed and empty.\<close>

definition format_disk :: "nat \<Rightarrow> disk" where
  "format_disk blocks = replicate (512 * blocks) NUL"

lemma enc_long_0: "enc_long 0 = replicate 8 NUL"
proof -
  have "le_bytes n 0 = replicate n NUL" for n by (induction n) (simp_all add: char_of_def)
  then show ?thesis by (simp add: enc_long_def u64_def)
qed

lemma format_alloc:
  assumes "2 \<le> blocks" "blocks \<le> 10240"
  shows "alloc_ok (format_disk blocks) 0"
  using assms by (simp add: alloc_ok_def format_disk_def read_at_def enc_long_0 min_def)

lemma format_root:
  assumes "2 \<le> blocks"
  shows "root_names (format_disk blocks) []"
  using assms by (simp add: root_names_def get_root_def format_disk_def read_at_def dec_root_def named_def min_def)

lemma mkdir_dir_at:
  assumes "alloc_ok d t" "root_names d names" "c_string path" "scan_path path = Some (1, name, fn, ext)" "name \<notin> set names"
    and "length names < 29" "t + 1024 < int (length d)"
  shows "\<exists>d'. csc452_mkdir d path = Some (0, d') \<and> length d' = length d \<and> root_names d' (names @ [name])
    \<and> dir_at d' (t + 512) (names @ [name]) name (t + 512) (dec_entry (replicate 512 NUL)) []
    \<and> (\<forall>i < length names. map_option (\<lambda>r. c_get (directories r) (int i)) (get_root d) = map_option (\<lambda>r. c_get (directories r) (int i)) (get_root d'))
    \<and> (\<forall>a n. 512 \<le> a \<longrightarrow> a + int n \<le> int (length d) - 512 \<longrightarrow> read_at d' a n = read_at d a n)"
proof -
  from mkdir_success [OF assms] obtain d' r s where d': "csc452_mkdir d path = Some (0, d')" "alloc_ok d' (t + 512)"
    "length d' = length d" "root_names d' (names @ [name])" "get_root d' = Some r"
    "c_get (directories r) (int (length names)) = Some s" "dStartBlock s = t + 512"
    "read_at d' (t + 512) 512 = Some (replicate 512 NUL)"
    and old: "\<forall>i < length names. map_option (\<lambda>r. c_get (directories r) (int i)) (get_root d) = Some (c_get (directories r) (int i))"
    and fr: "\<forall>a n. 512 \<le> a \<longrightarrow> a + int n \<le> int (length d) - 512 \<longrightarrow> read_at d' a n = read_at d a n" by blast
  have "0 \<le> t" using assms(1) by (simp add: alloc_ok_def)
  have "c_string name" by (rule scan_path_c_string [OF assms(4,3)])
  moreover have "entry_ok (dec_entry (replicate 512 NUL))" by (rule dec_entry_ok) simp
  moreover have "entry_names (dec_entry (replicate 512 NUL)) []"
    by (simp add: entry_names_def zero_entry named_def)
  ultimately have "dir_at d' (t + 512) (names @ [name]) name (t + 512) (dec_entry (replicate 512 NUL)) []"
    using d' first_index_snoc [OF assms(5)] \<open>0 \<le> t\<close> by (auto simp: dir_at_def alloc_ok_def)
  with d' fr old show ?thesis by simp
qed

lemma mknod_file_at:
  assumes da: "dir_at d t names dir a e fs" and "c_string path"
    and sc: "scan_path path = Some (3, dir, fn, ext)" and new: "(fn, ext) \<notin> set fs"
    and "length fs < 17" "t + 1024 < int (length d)"
  shows "\<exists>d' e' f. csc452_mknod d path = Some (0, d') \<and> length d' = length d
    \<and> file_at d' (t + 512) names dir a e' (fs @ [(fn, ext)]) (fn, ext) f [t + 512] \<and> fsize f = 0
    \<and> take (length fs) (files e') = take (length fs) (files e)
    \<and> (\<forall>b n. b + int n \<le> a \<or> a + 512 \<le> b \<longrightarrow> b + int n \<le> int (length d) - 512 \<longrightarrow> read_at d' b n = read_at d b n)"
proof -
  from mknod_success [OF assms] obtain d' e' where d': "csc452_mknod d path = Some (0, d')"
    "dir_at d' (t + 512) names dir a e' (fs @ [(fn, ext)])" "length d' = length d" "fsize (files e' ! length fs) = 0"
    "nStartBlock (files e' ! length fs) = t + 512" "read_at d' (t + 512) 512 = Some (replicate 512 NUL)"
    and old: "take (length fs) (files e') = take (length fs) (files e)"
    and fr: "\<forall>b n. b + int n \<le> a \<or> a + 512 \<le> b \<longrightarrow> b + int n \<le> int (length d) - 512 \<longrightarrow> read_at d' b n = read_at d b n"
    by blast
  have i: "nat (first_index (fs @ [(fn, ext)]) (fn, ext)) = length fs" using first_index_snoc [OF new] by simp
  have a: "a \<le> t" "alloc_ok d' (t + 512)" "0 \<le> t" using da d'(2) by (auto simp: dir_at_def alloc_ok_def)
  then have "chain d' (t + 512) [t + 512]" using d'(6) zero_block by (simp add: read_block_def)
  moreover have "block_addr (t + 512) (t + 512)" using a by (auto simp: block_addr_def alloc_ok_def)
  moreover note scan_path_c_string [OF sc assms(2)]
  ultimately have "file_at d' (t + 512) names dir a e' (fs @ [(fn, ext)]) (fn, ext) (files e' ! length fs) [t + 512]"
    using d' a i by (simp add: file_at_def)
  with d' fr old show ?thesis by blast
qed

section \<open>Properties\<close>

text \<open>
  C9. \<open>mkdir\<close> on a well-formed disk. An existing name, a root with 29 directories and a full disk are refused with
  \<open>EEXIST\<close>, \<open>ENOSPC\<close> and \<open>EDQUOT\<close> and change nothing. Otherwise the call succeeds: listing the root then shows the
  old names and the new one, the new directory is empty, the disk is well formed, and no block except
  the root and the allocation mark has changed.
\<close>

theorem mkdir_correct:
  assumes "alloc_ok d t" "root_names d names" "c_string path" "scan_path path = Some (1, name, fn, ext)"
  shows "if name \<in> set names then csc452_mkdir d path = Some (- EEXIST, d)
    else if length names = 29 then csc452_mkdir d path = Some (- ENOSPC, d)
    else if int (length d) \<le> t + 1024 then csc452_mkdir d path = Some (- EDQUOT, d)
    else \<exists>d'. csc452_mkdir d path = Some (0, d') \<and> alloc_ok d' (t + 512) \<and> root_names d' (names @ [name])
      \<and> csc452_readdir d' ''/'' = Some (0, ''.'' # ''..'' # names @ [name])
      \<and> csc452_readdir d' path = Some (0, [])
      \<and> (\<forall>a n. 512 \<le> a \<longrightarrow> a + int n \<le> int (length d) - 512 \<longrightarrow> read_at d' a n = read_at d a n)"
proof -
  note cn = scan_path_c_string(1) [OF assms(4,3)] and ln = scan_path_fits(1) [OF assms(4)]
  note ex = dir_exists_index [OF assms(2) cn]
  from assms(2) obtain r where r: "get_root d = Some r" "nDirectories r = int (length names)" "length names \<le> 29"
    "named (map dname (directories r)) names" by (auto simp: root_names_def)
  have path: "path \<noteq> ''/''" using assms(4) by (auto simp: scan_path_def)
  have 1: "name \<in> set names \<Longrightarrow> csc452_mkdir d path = Some (- EEXIST, d)"
    using ex ln assms(4) first_index_absent [of names name] by (simp add: csc452_mkdir_def)
  have 2: "name \<notin> set names \<Longrightarrow> length names = 29 \<Longrightarrow> csc452_mkdir d path = Some (- ENOSPC, d)"
    using ex ln assms(4) first_index_absent [of names name] r by (simp add: csc452_mkdir_def u64_id)
  have 3: "name \<notin> set names \<Longrightarrow> length names \<noteq> 29 \<Longrightarrow> int (length d) \<le> t + 1024 \<Longrightarrow> csc452_mkdir d path = Some (- EDQUOT, d)"
    using ex ln assms(4) first_index_absent [of names name] r next_free_full [OF assms(1)]
    by (simp add: csc452_mkdir_def u64_id)
  have "\<exists>d'. csc452_mkdir d path = Some (0, d') \<and> alloc_ok d' (t + 512) \<and> root_names d' (names @ [name])
      \<and> csc452_readdir d' ''/'' = Some (0, ''.'' # ''..'' # names @ [name])
      \<and> csc452_readdir d' path = Some (0, [])
      \<and> (\<forall>a n. 512 \<le> a \<longrightarrow> a + int n \<le> int (length d) - 512 \<longrightarrow> read_at d' a n = read_at d a n)"
    if new: "name \<notin> set names" "length names \<noteq> 29" "\<not> int (length d) \<le> t + 1024"
  proof -
    from mkdir_dir_at [OF assms new(1)] new r(3) obtain d' where d': "csc452_mkdir d path = Some (0, d')"
      "root_names d' (names @ [name])" "dir_at d' (t + 512) (names @ [name]) name (t + 512) (dec_entry (replicate 512 NUL)) []"
      "\<forall>a n. 512 \<le> a \<longrightarrow> a + int n \<le> int (length d) - 512 \<longrightarrow> read_at d' a n = read_at d a n" by auto
    from d'(2) obtain r' where r': "get_root d' = Some r'" "nDirectories r' = int (length (names @ [name]))"
      "named (map dname (directories r')) (names @ [name])" by (auto simp: root_names_def)
    have "csc452_readdir d' ''/'' = Some (0, ''.'' # ''..'' # names @ [name])"
    proof -
      have "nat (nDirectories r') = length (names @ [name])" using r'(2) by simp
      moreover have "fill_names (map dname (directories r')) 0 (length (names @ [name])) = Some (names @ [name])"
        using fill_names_named [OF r'(3), of 0 "length (names @ [name])"] by simp
      ultimately show ?thesis using r'(1) by (simp add: csc452_readdir_def del: fill_names.simps length_append)
    qed
    moreover have "csc452_readdir d' path = Some (0, [])"
      using path assms(4) dir_at_get_dir(1,2) [OF d'(3)] new by (simp add: csc452_readdir_def zero_entry first_index_absent)
    ultimately show ?thesis using d' by (auto simp: dir_at_def)
  qed
  with 1 2 3 show ?thesis by (simp only: split: if_split) blast
qed

theorem mkdir_correct_witness:
  "\<exists>d'. csc452_mkdir (format_disk 10240) ''/home'' = Some (0, d')
     \<and> csc452_readdir d' ''/'' = Some (0, [''.'', ''..'', ''home''])"
proof -
  have "scan_path ''/home'' = Some (1, ''home'', [], [])" "c_string ''/home''"
    by (simp_all add: scan_path_def c_string_def MAX_FILENAME_def)
  from mkdir_correct [OF format_alloc format_root this(2,1), of 10240] show ?thesis
    by (auto simp: format_disk_def)
qed

lemma scan_3_not_root: "scan_path path = Some (3, x) \<Longrightarrow> path \<noteq> ''/''"
  by (auto simp: scan_path_def)

text \<open>
  C10. \<open>mknod\<close> in an existing directory of a well-formed disk. An existing file, a directory with 17 files and a full disk
  are refused with \<open>EEXIST\<close>, \<open>ENOSPC\<close> and \<open>EDQUOT\<close> and change nothing. Otherwise the file is created: it has
  size 0 for \<open>getattr\<close>, the directory lists the old names and the new one, the disk is well formed, and outside
  the directory's block and the allocation mark nothing has changed.
\<close>

theorem mknod_correct:
  assumes "dir_at d t names dir a e fs" "\<forall>g \<in> set (files e). fsize g < 2147483647"
    and "c_string path" "scan_path path = Some (3, dir, fn, ext)"
  shows "if (fn, ext) \<in> set fs then csc452_mknod d path = Some (- EEXIST, d)
    else if length fs = 17 then csc452_mknod d path = Some (- ENOSPC, d)
    else if int (length d) \<le> t + 1024 then csc452_mknod d path = Some (- EDQUOT, d)
    else \<exists>d' e' f. csc452_mknod d path = Some (0, d')
      \<and> file_at d' (t + 512) names dir a e' (fs @ [(fn, ext)]) (fn, ext) f [t + 512]
      \<and> csc452_getattr d' path st = Some (0, st\<lparr>st_mode := FILE_MODE, st_nlink := 2, st_size := 0\<rparr>)
      \<and> (\<forall>b n. b + int n \<le> a \<or> a + 512 \<le> b \<longrightarrow> b + int n \<le> int (length d) - 512 \<longrightarrow> read_at d' b n = read_at d b n)"
proof -
  note cs = scan_path_c_string [OF assms(4,3)] and fits = scan_path_fits [OF assms(4)]
  note fe = dir_at_file_exist [OF assms(1) cs(2,3)]
  have en: "entry_names e fs" "entry_ok e" and al: "alloc_ok d t" using assms(1) by (auto simp: dir_at_def)
  then have nf: "nFiles e = int (length fs)" "length fs \<le> 17" "length (files e) = 17"
    by (auto simp: entry_names_def entry_ok_def)
  from dir_at_get_dir [OF assms(1)] obtain r where gd: "get_dir d dir = Some (first_index names dir, Some e)"
    "get_root d = Some r" by blast
  have 1: "csc452_mknod d path = Some (- EEXIST, d)" if "(fn, ext) \<in> set fs"
  proof -
    let ?g = "files e ! nat (first_index fs (fn, ext))"
    have "nat (first_index fs (fn, ext)) < length (files e)"
      using first_index_nth [OF that] first_index_range(2) [of fs "(fn, ext)"] nf by linarith
    then have g: "?g \<in> set (files e)" by simp
    then have "0 \<le> fsize ?g" using en(2) u64_range(1) [of "fsize ?g"] by (auto simp: entry_ok_def file_ok_def is_size_def)
    moreover have "fsize ?g < 2147483647" using g assms(2) by blast
    ultimately have "s32 (fsize ?g) = fsize ?g" by (intro s32_id) linarith+
    moreover have "fsize ?g \<noteq> - 1" using \<open>0 \<le> fsize ?g\<close> by linarith
    ultimately show ?thesis using assms(4) fits fe that by (simp add: csc452_mknod_def)
  qed
  have 2: "csc452_mknod d path = Some (- ENOSPC, d)" if "(fn, ext) \<notin> set fs" "length fs = 17"
    using assms(4) fits fe gd nf that by (simp add: csc452_mknod_def u64_id)
  have 3: "csc452_mknod d path = Some (- EDQUOT, d)"
    if "(fn, ext) \<notin> set fs" "length fs \<noteq> 17" "int (length d) \<le> t + 1024"
    using assms(4) fits fe gd nf that next_free_full [OF al] by (simp add: csc452_mknod_def u64_id)
  have "\<exists>d' e' f. csc452_mknod d path = Some (0, d')
      \<and> file_at d' (t + 512) names dir a e' (fs @ [(fn, ext)]) (fn, ext) f [t + 512]
      \<and> csc452_getattr d' path st = Some (0, st\<lparr>st_mode := FILE_MODE, st_nlink := 2, st_size := 0\<rparr>)
      \<and> (\<forall>b n. b + int n \<le> a \<or> a + 512 \<le> b \<longrightarrow> b + int n \<le> int (length d) - 512 \<longrightarrow> read_at d' b n = read_at d b n)"
    if new: "(fn, ext) \<notin> set fs" "length fs \<noteq> 17" "\<not> int (length d) \<le> t + 1024"
  proof -
    from mknod_file_at [OF assms(1,3,4) new(1)] new nf(2) obtain d' e' f where m: "csc452_mknod d path = Some (0, d')"
      "file_at d' (t + 512) names dir a e' (fs @ [(fn, ext)]) (fn, ext) f [t + 512]" "fsize f = 0"
      and fr: "\<forall>b n. b + int n \<le> a \<or> a + 512 \<le> b \<longrightarrow> b + int n \<le> int (length d) - 512 \<longrightarrow> read_at d' b n = read_at d b n"
      by auto
    have "csc452_getattr d' path st = Some (0, st\<lparr>st_mode := FILE_MODE, st_nlink := 2, st_size := 0\<rparr>)"
      using scan_3_not_root [OF assms(4)] assms(4) file_at_lookup(3) [OF m(2)] m(3)
      by (simp add: csc452_getattr_def u64_def s64_def)
    with m fr show ?thesis by blast
  qed
  with 1 2 3 show ?thesis by (simp only: split: if_split) blast
qed

text \<open>A concrete directory and file, for the witnesses.\<close>

lemma home_dir:
  assumes "4 \<le> blocks" "blocks \<le> 10240"
  shows "\<exists>d. dir_at d 512 [''home''] ''home'' 512 (dec_entry (replicate 512 NUL)) [] \<and> length d = 512 * blocks"
proof -
  have "scan_path ''/home'' = Some (1, ''home'', [], [])" "c_string ''/home''"
    by (simp_all add: scan_path_def c_string_def MAX_FILENAME_def)
  from mkdir_dir_at [OF format_alloc format_root this(2,1), of blocks] assms show ?thesis
    by (auto simp: format_disk_def)
qed

lemma scan_note: "scan_path ''/home/note.txt'' = Some (3, ''home'', ''note'', ''txt'')"
  by (simp add: scan_path_def MAX_FILENAME_def MAX_EXTENSION_def is_space_def)

lemma home_note:
  assumes "4 \<le> blocks" "blocks \<le> 10240"
  shows "\<exists>d e f. file_at d 1024 [''home''] ''home'' 512 e [(''note'', ''txt'')] (''note'', ''txt'') f [1024]
     \<and> fsize f = 0 \<and> length d = 512 * blocks"
proof -
  obtain d where d: "dir_at d 512 [''home''] ''home'' 512 (dec_entry (replicate 512 NUL)) []" "length d = 512 * blocks"
    using home_dir [OF assms] by blast
  have "c_string ''/home/note.txt''" by (simp add: c_string_def)
  from mknod_file_at [OF d(1) this scan_note] d(2) assms(1) show ?thesis by auto
qed

theorem mknod_correct_witness:
  "\<exists>d d'. csc452_mknod d ''/home/note.txt'' = Some (0, d')
     \<and> csc452_getattr d' ''/home/note.txt'' \<lparr>st_mode = 0, st_nlink = 0, st_size = 9\<rparr>
         = Some (0, \<lparr>st_mode = 33206, st_nlink = 2, st_size = 0\<rparr>)"
proof -
  obtain d where d: "dir_at d 512 [''home''] ''home'' 512 (dec_entry (replicate 512 NUL)) []" "length d = 5242880"
    using home_dir [of 10240] by auto
  have "c_string ''/home/note.txt''" by (simp add: c_string_def)
  moreover have "\<forall>g \<in> set (files (dec_entry (replicate 512 NUL))). fsize g < 2147483647"
    by (auto simp: dec_entry_def in_set_conv_nth nth_chunks dec_file_def min_def)
  ultimately show ?thesis
    using mknod_correct [OF d(1) _ _ scan_note, of "\<lparr>st_mode = 0, st_nlink = 0, st_size = 9\<rparr>"] d(2)
    by (auto simp: FILE_MODE_def)
qed

text \<open>
  C3. Writing and reading back. On a well-formed disk with room for the missing blocks, writing \<open>n\<close> bytes at an
  offset up to the size succeeds and leaves a well-formed file whose contents are the old ones up to the offset followed by the bytes: the
  file ends there, also when it was longer before. Reading from the start then returns exactly these contents. The other files
  of the directory keep their descriptions, and every allocated block that is not the directory's or the
  file's is unchanged.
\<close>

theorem write_then_read:
  assumes "file_at d t names dir a e fs (fn, ext) f bs" "scan_path path = Some (3, dir, fn, ext)"
    and "0 \<le> off" "off \<le> fsize f" and "0 < n" "nat n \<le> length buf" "off + n \<le> 2147483646"
    and "0 \<le> k" "off + n \<le> 504 * (int (length bs) + k)" "t + 512 * k + 1024 \<le> int (length d)"
  shows "\<exists>d' t' e' f' bs'. csc452_write d path buf n off = Some (n, d')
    \<and> file_at d' t' names dir a e' fs (fn, ext) f' bs'
    \<and> (\<forall>m \<ge> off + n. csc452_read d' path m 0
          = Some (off + n, take (nat off) (file_bytes d f bs) @ take (nat n) buf))
    \<and> (\<forall>j. j \<noteq> nat (first_index fs (fn, ext)) \<longrightarrow> files e' ! j = files e ! j)
    \<and> (\<forall>b. block_addr t b \<longrightarrow> b \<notin> set (a # bs) \<longrightarrow> read_at d' b 512 = read_at d b 512)"
proof -
  from write_file [OF assms] obtain d' t' e' f' bs' where w: "csc452_write d path buf n off = Some (n, d')"
    and fa: "file_at d' t' names dir a e' fs (fn, ext) f' bs'" and sz: "fsize f' = off + n"
    and cont: "file_bytes d' f' bs' = take (nat off) (file_bytes d f bs) @ take (nat n) buf"
    and rest: "\<forall>j. j \<noteq> nat (first_index fs (fn, ext)) \<longrightarrow> files e' ! j = files e ! j"
    "\<forall>b. block_addr t b \<longrightarrow> b \<notin> set (a # bs) \<longrightarrow> read_at d' b 512 = read_at d b 512" by blast
  have "csc452_read d' path m 0 = Some (off + n, take (nat off) (file_bytes d f bs) @ take (nat n) buf)"
    if "off + n \<le> m" for m
  proof -
    have "min m (fsize f') = off + n" using that sz by simp
    moreover have "off + n \<le> 504 * int (length bs')" using fa sz by (simp add: file_at_def)
    ultimately have "csc452_read d' path m 0 = Some (off + n, take (nat (off + n)) (contents d' bs'))"
      using read_file [OF fa assms(2), of 0 m] that assms(3,5) by (simp add: sz)
    also have "take (nat (off + n)) (contents d' bs') = take (nat off) (file_bytes d f bs) @ take (nat n) buf"
      using cont by (simp add: file_bytes_def [of d'] sz)
    finally show ?thesis .
  qed
  with w fa rest show ?thesis by blast
qed

theorem write_then_read_witness:
  "\<exists>d d'. csc452_write d ''/home/note.txt'' (replicate 1300 (CHR ''x'')) 1300 0 = Some (1300, d')
     \<and> csc452_read d' ''/home/note.txt'' 4096 0 = Some (1300, replicate 1300 (CHR ''x''))"
proof -
  obtain d e f where d: "file_at d 1024 [''home''] ''home'' 512 e [(''note'', ''txt'')] (''note'', ''txt'') f [1024]"
    "fsize f = 0" "length d = 5242880" using home_note [of 10240] by auto
  from write_then_read [OF d(1) scan_note, of 0 1300 "replicate 1300 (CHR ''x'')" 2] d(2,3)
  obtain d' where "csc452_write d ''/home/note.txt'' (replicate 1300 (CHR ''x'')) 1300 0 = Some (1300, d')"
    "\<forall>m \<ge> 1300. csc452_read d' ''/home/note.txt'' m 0 = Some (1300, replicate 1300 (CHR ''x''))" by auto
  then show ?thesis by (intro exI [of _ d] exI [of _ d']) simp
qed

text \<open>
  C33. What \<open>read\<close> returns at an offset. An offset beyond the size of the file (also a negative one, which the comparison takes as unsigned) gives
  \<open>EINVAL\<close>, whatever the size of the request; a request for no bytes gives none. At an offset up to the size the count is limited by the size of the file, not by
  what is left of it after the offset: the call returns \<open>min n size\<close> bytes from the offset on, first those of the file's blocks, also behind the
  end of the file, and then, when these are used up, those of the blocks one meets from address 0 on (\<open>follow\<close>): the block of the root directory, and
  when that ends in zeros, it again and again.
\<close>

theorem read_at_offset:
  assumes "file_at d t names dir a e fs (fn, ext) f bs" "scan_path path = Some (3, dir, fn, ext)"
    and "- 9223372036854775808 \<le> off" "off < 9223372036854775808" "0 \<le> n"
  shows "(n = 0 \<longrightarrow> csc452_read d path n off = Some (0, []))
    \<and> (0 < n \<and> (off < 0 \<or> fsize f < off) \<longrightarrow> csc452_read d path n off = Some (- EINVAL, []))
    \<and> (\<forall>k beyond. 0 < n \<and> 0 \<le> off \<and> off \<le> fsize f \<and> off + min n (fsize f) \<le> 504 * (int (length bs) + int k) \<and> follow d 0 k = Some beyond \<longrightarrow>
        csc452_read d path n off = Some (min n (fsize f), take (nat (min n (fsize f))) (drop (nat off) (contents d bs @ beyond))))
    \<and> (\<forall>k root. get_root d = Some root \<and> drop 7 (root_padding root) = replicate 8 NUL \<longrightarrow>
        follow d 0 k = Some (concat (replicate k (take 504 (enc_root root)))))"
  (is "?zero \<and> ?inval \<and> ?bytes \<and> ?root")
proof (intro conjI)
  note lk = file_at_lookup [OF assms(1), simplified]
  have f: "0 \<le> fsize f" "fsize f < 2147483647" using assms(1) by (auto simp: file_at_def)
  then have u: "u64 (fsize f) = fsize f" "fsize f \<noteq> u64 (- 1)" by (auto simp: u64_id) (simp add: u64_def)
  show ?zero using assms(2) lk u by (simp add: csc452_read_def Let_def)
  show ?inval
  proof
    assume n: "0 < n \<and> (off < 0 \<or> fsize f < off)"
    have "fsize f < u64 off"
    proof (cases "off < 0")
      case True
      with assms(3) have "u64 off = off + 18446744073709551616"
        using mod_pos_pos_trivial [of "off + 18446744073709551616" 18446744073709551616] by (simp add: u64_def)
      with f assms(3) show ?thesis by simp
    qed (use n assms(4) u64_id [of off] in auto)
    with n assms(2) lk u show "csc452_read d path n off = Some (- EINVAL, [])" by (simp add: csc452_read_def Let_def)
  qed
  show ?bytes using read_past_file [OF assms(1,2)] by blast
  show ?root
  proof (intro allI impI)
    fix k root assume r: "get_root d = Some root \<and> drop 7 (root_padding root) = replicate 8 NUL"
    from r obtain bs where bs: "read_at d 0 512 = Some bs" "root = dec_root bs" by (auto simp: get_root_def)
    have len: "length bs = 512" by (rule read_at_length [OF bs(1)])
    have "drop 504 bs = replicate 8 NUL" using r bs(2) by (simp add: dec_root_def)
    then have "nNextBlock (dec_block bs) = 0" using len by (simp add: dec_block_def)
    moreover have "data (dec_block bs) = take 504 (enc_root root)" using bs(2) rd.enc_dec [OF len] by (simp add: dec_block_def)
    ultimately show "follow d 0 k = Some (concat (replicate k (take 504 (enc_root root))))"
      using follow_root [of d "dec_block bs" k] bs(1) by (simp add: read_block_def)
  qed
qed

text \<open>
  A file of 504 bytes, read from its end: the 504 bytes returned are those of the root directory.
\<close>

theorem read_at_offset_witness:
  "(\<exists>d. csc452_read d ''/home/note.txt'' 10 5 = Some (- 22, []))
   \<and> (\<exists>d bs. csc452_read d ''/home/note.txt'' 504 504 = Some (504, bs) \<and> read_at d 0 504 = Some bs)"
proof
  obtain d e f where d: "file_at d 1024 [''home''] ''home'' 512 e [(''note'', ''txt'')] (''note'', ''txt'') f [1024]"
    "fsize f = 0" "length d = 5242880" using home_note [of 10240] by auto
  show "\<exists>d. csc452_read d ''/home/note.txt'' 10 5 = Some (- 22, [])"
    using read_at_offset [OF d(1) scan_note, of 5 10] d(2) by (intro exI [of _ d]) simp
  from write_file_blocks [OF d(1) scan_note, of 0 504 "replicate 504 (CHR ''x'')" 0] d(2,3)
  obtain d' t' e' f' new where fa: "file_at d' t' [''home''] ''home'' 512 e' [(''note'', ''txt'')] (''note'', ''txt'') f' (1024 # new)"
    and f': "fsize f' = 504" and l: "length d' = 5242880" and t': "t' \<le> 1024" "\<forall>b \<in> set new. 1024 < b" by auto
  have new: "new = []" using fa t' by (cases new) (auto simp: file_at_def block_addr_def)
  let ?root = "take 512 d'"
  have b: "read_block d' 0 = Some (dec_block ?root)" and root: "read_at d' 0 504 = Some (data (dec_block ?root))"
    using l by (simp_all add: read_block_def read_at_def dec_block_def min_def)
  have "chain d' (nStartBlock f') [1024]" using fa unfolding file_at_def new by (elim conjE)
  from contents_length [OF this] have c: "length (contents d' [1024]) = 504" by (simp only: length_Cons list.size(3) One_nat_def [symmetric] mult_1_right)
  have "csc452_read d' ''/home/note.txt'' 504 504 = Some (504, take 504 (drop 504 (contents d' [1024] @ data (dec_block ?root))))"
    using read_at_offset [OF fa scan_note, THEN conjunct2, THEN conjunct2, THEN conjunct1, rule_format, of 504 504 1 "data (dec_block ?root)"]
      f' b new by (simp del: contents_simps)
  moreover have "take 504 (drop 504 (contents d' [1024] @ data (dec_block ?root))) = data (dec_block ?root)"
    using c l by (simp add: dec_block_def min_def)
  ultimately show "\<exists>d bs. csc452_read d ''/home/note.txt'' 504 504 = Some (504, bs) \<and> read_at d 0 504 = Some bs"
    using root by (intro exI [of _ d'] exI [of _ "data (dec_block ?root)"]) simp
qed

text \<open>
  Long names are never refused. \<open>mkdir\<close> and \<open>mknod\<close> cannot return \<open>ENAMETOOLONG\<close>: when a component of the path is longer than its
  array, \<open>sscanf\<close> has already written past the array, before the length is checked.
\<close>

theorem long_names_overflow:
  "(\<forall>d path r d'. csc452_mkdir d path = Some (r, d') \<or> csc452_mknod d path = Some (r, d') \<longrightarrow> r \<noteq> - ENAMETOOLONG)
   \<and> (\<forall>d name. CHR ''/'' \<notin> set name \<longrightarrow> 8 < length name \<longrightarrow> csc452_mkdir d (CHR ''/'' # name) = None)"
proof (intro conjI allI impI)
  fix d path r d'
  assume a: "csc452_mkdir d path = Some (r, d') \<or> csc452_mknod d path = Some (r, d')"
  then obtain p dir fn ext where sc: "scan_path path = Some (p, dir, fn, ext)"
    by (cases "scan_path path") (auto simp: csc452_mkdir_def csc452_mknod_def)
  note fits = scan_path_fits [OF sc]
  from a show "r \<noteq> - ENAMETOOLONG"
  proof
    assume "csc452_mkdir d path = Some (r, d')"
    then show ?thesis using fits by (auto simp: csc452_mkdir_def sc bind_Some_iff Let_def split: if_splits)
  next
    assume "csc452_mknod d path = Some (r, d')"
    then show ?thesis using fits by (auto simp: csc452_mknod_def sc bind_Some_iff Let_def split: if_splits)
  qed
next
  fix d and name :: string
  assume n: "CHR ''/'' \<notin> set name" "8 < length name"
  then have tw: "takeWhile (\<lambda>c. c \<noteq> CHR ''/'') name = name" by (auto simp: takeWhile_eq_all_conv)
  have "name \<noteq> []" using n by auto
  then have "scan_path (CHR ''/'' # name) = None" using n(2) by (simp add: scan_path_def MAX_FILENAME_def Let_def tw)
  then show "csc452_mkdir d (CHR ''/'' # name) = None" by (simp add: csc452_mkdir_def)
qed

theorem long_names_overflow_witness: "csc452_mkdir (format_disk 4) ''/directory'' = None"
  using long_names_overflow by simp

lemma next_free_block_safe:
  assumes "next_free_block d = Some (r, d')"
  shows "length d' = length d" "alloc_ok d t \<Longrightarrow> r = - 1 \<Longrightarrow> d' = d"
proof -
  show "length d' = length d"
    using assms write_at_length by (auto simp: next_free_block_def bind_Some_iff Let_def split: if_splits)
  assume ok: "alloc_ok d t" and r: "r = - 1"
  then have "0 \<le> t" by (simp add: alloc_ok_def)
  with next_free_full [OF ok] next_free_next [OF ok] assms r show "d' = d"
    by (cases "int (length d) \<le> t + 1024") auto
qed

lemma write_loop_length: "write_loop d addr blk i n cs = Some (b, d') \<Longrightarrow> length d' = length d"
proof (induction cs arbitrary: d addr blk i n)
  case Nil
  then show ?case by (auto simp: bind_Some_iff write_at_length)
next
  case (Cons c cs)
  then show ?case
    by (auto simp: bind_Some_iff split: if_splits dest!: Cons.IH next_free_block_safe(1) write_at_length)
qed

lemma mkdir_safe:
  assumes "csc452_mkdir d p = Some (r, d')"
  shows "length d' = length d" "alloc_ok d t \<Longrightarrow> r < 0 \<Longrightarrow> d' = d"
proof -
  show "length d' = length d" using assms
    by (auto simp: csc452_mkdir_def bind_Some_iff Let_def split: if_splits dest!: write_at_length next_free_block_safe(1))
  show "d' = d" if "alloc_ok d t" "r < 0" using assms that
    by (auto simp: csc452_mkdir_def bind_Some_iff Let_def split: if_splits dest: next_free_block_safe(2))
qed

lemma mknod_safe:
  assumes "csc452_mknod d p = Some (r, d')"
  shows "length d' = length d" "alloc_ok d t \<Longrightarrow> r < 0 \<Longrightarrow> d' = d"
proof -
  show "length d' = length d" using assms
    by (auto simp: csc452_mknod_def bind_Some_iff Let_def split: if_splits dest!: write_at_length next_free_block_safe(1))
  show "d' = d" if "alloc_ok d t" "r < 0" using assms that
    by (auto simp: csc452_mknod_def bind_Some_iff Let_def split: if_splits dest: next_free_block_safe(2))
qed

lemma write_safe:
  assumes "csc452_write d p buf n off = Some (r, d')"
  shows "length d' = length d" "0 \<le> n \<Longrightarrow> n < 2147483648 \<Longrightarrow> r < 0 \<Longrightarrow> r \<noteq> - EFBIG \<Longrightarrow> d' = d"
  using assms
  by (auto simp: csc452_write_def bind_Some_iff Let_def s32_id split: if_splits prod.splits dest!: write_at_length write_loop_length)

text \<open>
  C27. Failed requests. No request changes the size of the disk file. On a disk with a proper allocation mark, a request that returns an error leaves
  every byte as it was, with one exception: \<open>write\<close> may return \<open>EFBIG\<close> after it has stored the new size and
  some of the data.
\<close>

theorem fs_error_unchanged:
  assumes "alloc_ok d t" "csc452_oper req d = Some (r, d')"
    and "\<And>p buf n off. req = Write p buf n off \<Longrightarrow> 0 \<le> n \<and> n < 2147483648"
  shows "length d' = length d \<and> (r < 0 \<and> r \<noteq> - EFBIG \<longrightarrow> d' = d)"
  using assms
  by (cases req) (auto simp: csc452_rmdir_def csc452_unlink_def csc452_truncate_def csc452_open_def csc452_flush_def
    dest: mkdir_safe mknod_safe write_safe)

theorem fs_error_unchanged_witness:
  "\<exists>d'. csc452_oper (Mkdir ''/a/b'') (format_disk 4) = Some (- 1, d') \<and> d' = format_disk 4"
proof -
  have "csc452_oper (Mkdir ''/a/b'') (format_disk 4) = Some (- 1, format_disk 4)"
    by (simp add: csc452_mkdir_def scan_path_def MAX_FILENAME_def)
  with fs_error_unchanged [OF format_alloc this] show ?thesis by simp
qed

text \<open>
  Creating a file in a directory that does not exist is not refused: the test for an existing file says that there is none,
  and the code goes on with a directory entry that was never read and with the slot \<open>- 1\<close> of the root.
\<close>

theorem mknod_missing_directory:
  assumes "root_names d names" "c_string path" "scan_path path = Some (3, dir, fn, ext)" "dir \<notin> set names"
  shows "csc452_mknod d path = None"
proof -
  have "get_dir d dir = Some (- 1, None)"
    using dir_exists_index [OF assms(1) scan_path_c_string(1) [OF assms(3,2)]] assms(1,4) first_index_absent [of names dir]
    by (auto simp: get_dir_def root_names_def)
  then show ?thesis using assms(3) scan_path_fits [OF assms(3)]
    by (auto simp: csc452_mknod_def file_exist_def root_names_def bind_eq_None_conv)
qed

theorem mknod_missing_directory_witness: "csc452_mknod (format_disk 4) ''/a/b.c'' = None"
  by (rule mknod_missing_directory [OF format_root, of 4 _ "''a''" "''b''" "''c''"])
    (simp_all add: scan_path_def c_string_def MAX_FILENAME_def MAX_EXTENSION_def is_space_def)



end
