(* ===== verification/Fuse_Spec.thy ===== *)
theory Fuse_Spec
  imports Fuse_Files "HOL-Library.AList"
begin

text \<open>
  The file system \<open>csc452fuse.c\<close> against an abstract one. The abstract state is a list of directories, each a list of files with
  their contents; every operation is a few lines on these lists. The relation \<open>stored\<close> says that a disk holds such a state, and each operation of
  \<open>Fuse_FS\<close> is shown to refine its abstract counterpart, so that any sequence of requests from a formatted disk behaves like the abstract file system,
  as long as the disk has room and the requests stay where the behaviour of the code is defined.
\<close>

section \<open>The abstract file system\<close>

type_synonym file_name = "string \<times> string"
type_synonym abs_dir = "(file_name \<times> char list) list"
type_synonym abs_fs = "(string \<times> abs_dir) list"

definition find_file :: "abs_fs \<Rightarrow> string \<Rightarrow> file_name \<Rightarrow> char list option" where
  "find_file fs dir nm = Option.bind (map_of fs dir) (\<lambda>l. map_of l nm)"

definition spec_mkdir :: "abs_fs \<Rightarrow> string \<Rightarrow> (int \<times> abs_fs) option" where
  "spec_mkdir fs path =
     (case scan_path path of
        None \<Rightarrow> None
      | Some (k, dir, fn, ext) \<Rightarrow>
          Some (if k \<noteq> 1 then (- EPERM, fs)
                else if dir \<in> fst ` set fs then (- EEXIST, fs)
                else if length fs = 29 then (- ENOSPC, fs)
                else (0, AList.update dir [] fs)))"

text \<open>A file can be made in an existing directory only; otherwise the code has no defined behaviour.\<close>

definition spec_mknod :: "abs_fs \<Rightarrow> string \<Rightarrow> (int \<times> abs_fs) option" where
  "spec_mknod fs path =
     (case scan_path path of
        None \<Rightarrow> None
      | Some (k, dir, fn, ext) \<Rightarrow>
          if k \<noteq> 3 then Some (- EPERM, fs)
          else (case map_of fs dir of
                  None \<Rightarrow> None
                | Some l \<Rightarrow>
                    Some (if (fn, ext) \<in> fst ` set l then (- EEXIST, fs)
                          else if length l = 17 then (- ENOSPC, fs)
                          else (0, AList.update dir (AList.update (fn, ext) [] l) fs))))"

text \<open>The file ends after the bytes written: what was behind them is cut off.\<close>

definition spec_write :: "abs_fs \<Rightarrow> string \<Rightarrow> char list \<Rightarrow> int \<Rightarrow> int \<Rightarrow> (int \<times> abs_fs) option" where
  "spec_write fs path buf n off =
     (if n < 0 \<or> length buf < nat n \<or> off < 0 \<or> 2147483646 < off + n then None
      else case scan_path path of
        None \<Rightarrow> None
      | Some (k, dir, fn, ext) \<Rightarrow>
          if k = 1 \<and> dir \<in> fst ` set fs then Some (- EISDIR, fs)
          else if k \<noteq> 3 then Some (- ENOENT, fs)
          else (case map_of fs dir of
                  None \<Rightarrow> Some (- ENOENT, fs)
                | Some l \<Rightarrow>
                    (case map_of l (fn, ext) of
                       None \<Rightarrow> Some (- ENOENT, fs)
                     | Some c \<Rightarrow>
                         Some (if n = 0 then (0, fs)
                               else if int (length c) < off then (- EFBIG, fs)
                               else (n, AList.update dir (AList.update (fn, ext) (take (nat off) c @ take (nat n) buf) l) fs)))))"

fun spec_oper :: "abs_fs \<Rightarrow> fs_request \<Rightarrow> (int \<times> abs_fs) option" where
  "spec_oper fs (Mkdir p) = spec_mkdir fs p"
| "spec_oper fs (Mknod p) = spec_mknod fs p"
| "spec_oper fs (Write p buf n off) = spec_write fs p buf n off"
| "spec_oper fs _ = Some (0, fs)"

text \<open>What can be observed. \<open>read\<close> is specified for ranges inside the file and, from offset 0, for any count.\<close>

definition spec_getattr :: "abs_fs \<Rightarrow> string \<Rightarrow> stat \<Rightarrow> (int \<times> stat) option" where
  "spec_getattr fs path st =
     (if path = ''/'' then Some (0, st\<lparr>st_mode := DIR_MODE, st_nlink := 2\<rparr>)
      else case scan_path path of
        None \<Rightarrow> None
      | Some (k, dir, fn, ext) \<Rightarrow>
          if k = 1 then Some (if dir \<in> fst ` set fs then (0, st\<lparr>st_mode := DIR_MODE, st_nlink := 2\<rparr>) else (- ENOENT, st))
          else if k = 3
          then Some (case find_file fs dir (fn, ext) of
                       None \<Rightarrow> (- ENOENT, st)
                     | Some c \<Rightarrow> (0, st\<lparr>st_mode := FILE_MODE, st_nlink := 2, st_size := int (length c)\<rparr>))
          else if k = 2 then None
          else Some (- ENOENT, st))"

definition spec_readdir :: "abs_fs \<Rightarrow> string \<Rightarrow> (int \<times> string list) option" where
  "spec_readdir fs path =
     (if path = ''/'' then Some (0, ''.'' # ''..'' # map fst fs)
      else case scan_path path of
        None \<Rightarrow> None
      | Some (k, dir, fn, ext) \<Rightarrow>
          Some (if k \<noteq> 1 then (- ENOENT, [])
                else (case map_of fs dir of None \<Rightarrow> (- ENOENT, []) | Some l \<Rightarrow> (0, map (fst \<circ> fst) l))))"

definition spec_read :: "abs_fs \<Rightarrow> string \<Rightarrow> int \<Rightarrow> int \<Rightarrow> (int \<times> char list) option" where
  "spec_read fs path n off =
     (case scan_path path of
        None \<Rightarrow> None
      | Some (k, dir, fn, ext) \<Rightarrow>
          if k = 1 \<and> dir \<in> fst ` set fs then Some (- EISDIR, [])
          else if k \<noteq> 3 then Some (- ENOENT, [])
          else (case find_file fs dir (fn, ext) of
                  None \<Rightarrow> Some (- ENOENT, [])
                | Some c \<Rightarrow>
                    if n = 0 then Some (0, [])
                    else if n < 0 \<or> off < 0 \<or> 9223372036854775808 \<le> off then None
                    else if int (length c) < off then Some (- EINVAL, [])
                    else if int (length c) < off + min n (int (length c)) then None
                    else Some (min n (int (length c)), take (nat n) (drop (nat off) c))))"

section \<open>Sequences of requests\<close>

fun run_requests :: "('s \<Rightarrow> 'r \<Rightarrow> (int \<times> 's) option) \<Rightarrow> 'r list \<Rightarrow> 's \<Rightarrow> (int list \<times> 's) option" where
  "run_requests oper [] s = Some ([], s)"
| "run_requests oper (q # qs) s = do {
     (r, s) \<leftarrow> oper s q;
     (rs, s) \<leftarrow> run_requests oper qs s;
     Some (r # rs, s)
   }"

text \<open>
  The contract of a refinement step: \<open>rel n c a\<close> relates a concrete and an abstract state with \<open>n\<close> units of room left, and a request uses at
  most \<open>cost\<close> of them.
\<close>

locale bounded_refinement =
  fixes aoper :: "'a \<Rightarrow> 'r \<Rightarrow> (int \<times> 'a) option"
    and coper :: "'c \<Rightarrow> 'r \<Rightarrow> (int \<times> 'c) option"
    and rel :: "int \<Rightarrow> 'c \<Rightarrow> 'a \<Rightarrow> bool"
    and cost :: "'r \<Rightarrow> int"
    and ok :: "'r \<Rightarrow> bool"
  assumes cost_nonneg: "0 \<le> cost q"
    and step: "rel n c a \<Longrightarrow> ok q \<Longrightarrow> cost q \<le> n \<Longrightarrow> aoper a q = Some (r, a') \<Longrightarrow>
      \<exists>c'. coper c q = Some (r, c') \<and> rel (n - cost q) c' a'"
begin

lemma run_refines:
  assumes "rel n c a" "list_all ok qs" "sum_list (map cost qs) \<le> n" "run_requests aoper qs a = Some (rs, a')"
  shows "\<exists>c'. run_requests coper qs c = Some (rs, c') \<and> rel (n - sum_list (map cost qs)) c' a'"
  using assms
proof (induction qs arbitrary: n c a rs)
  case Nil
  then show ?case by simp
next
  case (Cons q qs)
  from Cons.prems(4) obtain r a1 rs1 where a1: "aoper a q = Some (r, a1)" "run_requests aoper qs a1 = Some (rs1, a')"
    and rs: "rs = r # rs1" by (auto simp: bind_Some_iff)
  have "0 \<le> sum_list (map cost qs)" by (rule sum_list_nonneg) (auto simp: cost_nonneg)
  then have "cost q \<le> n" using Cons.prems(3) by simp
  with step [OF Cons.prems(1) _ _ a1(1)] Cons.prems(2) obtain c1 where
    c1: "coper c q = Some (r, c1)" "rel (n - cost q) c1 a1" by auto
  from Cons.IH [OF c1(2) _ _ a1(2)] Cons.prems(2,3) obtain c' where
    "run_requests coper qs c1 = Some (rs1, c')" "rel (n - cost q - sum_list (map cost qs)) c' a'" by auto
  with c1(1) rs show ?case by (simp add: algebra_simps)
qed

end

text \<open>The blocks a request may take from the disk, and the form of its path.\<close>

fun request_blocks :: "fs_request \<Rightarrow> int" where
  "request_blocks (Mkdir p) = 1"
| "request_blocks (Mknod p) = 1"
| "request_blocks (Write p buf n off) = (if n < 0 then 0 else (n + 503) div 504)"
| "request_blocks _ = 0"

fun request_path :: "fs_request \<Rightarrow> string" where
  "request_path (Mkdir p) = p"
| "request_path (Mknod p) = p"
| "request_path (Write p buf n off) = p"
| "request_path (Rmdir p) = p"
| "request_path (Unlink p) = p"
| "request_path (Truncate p n) = p"
| "request_path (Open p) = p"
| "request_path (Flush p) = p"

section \<open>When a disk holds an abstract file system\<close>

text \<open>
  \<open>A\<close> gives the block of each directory, \<open>B\<close> the blocks of each file; \<open>own\<close> names the one owner of every block in use, so that nothing is
  shared.
\<close>

definition dir_stored ::
  "disk \<Rightarrow> int \<Rightarrow> string list \<Rightarrow> string \<Rightarrow> int \<Rightarrow> csc452_directory_entry \<Rightarrow> abs_dir \<Rightarrow> (file_name \<Rightarrow> int list) \<Rightarrow> bool" where
  "dir_stored d t names dir a e l bl \<longleftrightarrow> dir_at d t names dir a e (map fst l) \<and> distinct (map fst l)
     \<and> (\<forall>nm c. map_of l nm = Some c \<longrightarrow>
          (\<exists>f. file_at d t names dir a e (map fst l) nm f (bl nm) \<and> file_bytes d f (bl nm) = c))"

definition stored ::
  "disk \<Rightarrow> int \<Rightarrow> abs_fs \<Rightarrow> (string \<Rightarrow> int) \<Rightarrow> (string \<Rightarrow> file_name \<Rightarrow> int list) \<Rightarrow> (int \<Rightarrow> string \<times> file_name option) \<Rightarrow> bool" where
  "stored d t fs A B own \<longleftrightarrow> alloc_ok d t \<and> root_names d (map fst fs) \<and> distinct (map fst fs)
     \<and> (\<forall>dir l. map_of fs dir = Some l \<longrightarrow>
          (\<exists>e. dir_stored d t (map fst fs) dir (A dir) e l (B dir)) \<and> own (A dir) = (dir, None)
          \<and> (\<forall>nm b. nm \<in> fst ` set l \<longrightarrow> b \<in> set (B dir nm) \<longrightarrow> own b = (dir, Some nm)))"

definition holds :: "disk \<Rightarrow> int \<Rightarrow> abs_fs \<Rightarrow> bool" where
  "holds d t fs \<longleftrightarrow> (\<exists>A B own. stored d t fs A B own)"

definition fs_rel :: "int \<Rightarrow> disk \<Rightarrow> abs_fs \<Rightarrow> bool" where
  "fs_rel n d fs \<longleftrightarrow> (\<exists>t. holds d t fs \<and> t + 1024 + 512 * n \<le> int (length d))"

section \<open>Frames\<close>

lemma first_index_append: "x \<in> set ns \<Longrightarrow> first_index (ns @ ms) x = first_index ns x"
proof (induction ns)
  case (Cons n ns)
  then show ?case using first_index_absent [of ns x] by auto
qed simp

text \<open>A file whose entry and blocks are as before.\<close>

lemma file_at_frame:
  assumes fa: "file_at d t names dir a e fs nm f bs" and da: "dir_at d' t' names' dir a' e' fs'"
    and "nm \<in> set fs'" "files e' ! nat (first_index fs' nm) = f" "t \<le> t'" "a' \<notin> set bs"
    and rd: "\<And>b. b \<in> set bs \<Longrightarrow> read_at d' b 512 = read_at d b 512"
  shows "file_at d' t' names' dir a' e' fs' nm f bs" "file_bytes d' f bs = file_bytes d f bs"
proof -
  have rb: "read_block d' b = read_block d b" if "b \<in> set bs" for b using rd [OF that] by (simp add: read_block_def)
  have c: "chain d' (nStartBlock f) bs = chain d (nStartBlock f) bs" "contents d' bs = contents d bs"
    by (rule chain_cong(1) [OF rb], assumption, rule chain_cong(2) [OF rb])
  have "block_addr t' b" if "b \<in> set bs" for b
    using fa that block_addr_mono [OF _ assms(5)] by (auto simp: file_at_def)
  then show "file_at d' t' names' dir a' e' fs' nm f bs" using fa assms(3-6) da c(1) unfolding file_at_def by auto
  show "file_bytes d' f bs = file_bytes d f bs" by (simp add: file_bytes_def c(2))
qed

text \<open>A directory none of whose blocks has changed.\<close>

lemma dir_stored_frame:
  assumes ds: "dir_stored d t names dir a e l bl" and da: "dir_at d' t' names' dir a e (map fst l)" and t: "t \<le> t'"
    and rd: "\<And>nm b. nm \<in> fst ` set l \<Longrightarrow> b \<in> set (bl nm) \<Longrightarrow> read_at d' b 512 = read_at d b 512"
  shows "dir_stored d' t' names' dir a e l bl"
proof -
  have "\<exists>f. file_at d' t' names' dir a e (map fst l) nm f (bl nm) \<and> file_bytes d' f (bl nm) = c" if nm: "map_of l nm = Some c" for nm c
  proof -
    from ds nm obtain f where f: "file_at d t names dir a e (map fst l) nm f (bl nm)" "file_bytes d f (bl nm) = c"
      unfolding dir_stored_def by blast
    have n: "nm \<in> fst ` set l" using nm by (metis map_of_eq_None_iff option.distinct(1))
    have "nm \<in> set (map fst l)" "files e ! nat (first_index (map fst l) nm) = f" "a \<notin> set (bl nm)"
      using f(1) by (simp_all add: file_at_def)
    note fr = file_at_frame [OF f(1) da this(1,2) t this(3) rd [OF n]]
    show ?thesis using fr f(2) by blast
  qed
  then show ?thesis using ds da unfolding dir_stored_def by blast
qed

lemma storedD:
  assumes "stored d t fs A B own"
  shows "alloc_ok d t" "root_names d (map fst fs)" "distinct (map fst fs)"
    and "map_of fs dir = Some l \<Longrightarrow> \<exists>e. dir_stored d t (map fst fs) dir (A dir) e l (B dir)"
    and "map_of fs dir = Some l \<Longrightarrow> own (A dir) = (dir, None) \<and> block_addr t (A dir)"
    and "map_of fs dir = Some l \<Longrightarrow> nm \<in> fst ` set l \<Longrightarrow> b \<in> set (B dir nm) \<Longrightarrow> own b = (dir, Some nm) \<and> block_addr t b"
proof -
  show "alloc_ok d t" "root_names d (map fst fs)" "distinct (map fst fs)" using assms by (simp_all add: stored_def)
  have st: "(\<exists>e. dir_stored d t (map fst fs) dir (A dir) e l (B dir)) \<and> own (A dir) = (dir, None)
      \<and> (\<forall>nm b. nm \<in> fst ` set l \<longrightarrow> b \<in> set (B dir nm) \<longrightarrow> own b = (dir, Some nm))" if "map_of fs dir = Some l" for dir l
    using assms that unfolding stored_def by blast
  then show "map_of fs dir = Some l \<Longrightarrow> \<exists>e. dir_stored d t (map fst fs) dir (A dir) e l (B dir)" by blast
  show "own (A dir) = (dir, None) \<and> block_addr t (A dir)" if m: "map_of fs dir = Some l"
  proof -
    obtain e where "dir_stored d t (map fst fs) dir (A dir) e l (B dir)" "own (A dir) = (dir, None)"
      using st [OF m] by blast
    then show ?thesis by (simp add: dir_stored_def dir_at_def block_addr_def)
  qed
  show "own b = (dir, Some nm) \<and> block_addr t b" if m: "map_of fs dir = Some l" "nm \<in> fst ` set l" "b \<in> set (B dir nm)"
  proof -
    obtain e where e: "dir_stored d t (map fst fs) dir (A dir) e l (B dir)" "own b = (dir, Some nm)"
      using st [OF m(1)] m(2,3) by blast
    obtain c where "map_of l nm = Some c" using m(2) by (metis map_of_eq_None_iff not_None_eq)
    with e(1) obtain f where "file_at d t (map fst fs) dir (A dir) e (map fst l) nm f (B dir nm)"
      unfolding dir_stored_def by blast
    with e(2) m(3) show ?thesis by (simp add: file_at_def)
  qed
qed

text \<open>Storing one directory anew leaves the others alone when it keeps away from their blocks.\<close>

lemma stored_update:
  assumes st: "stored d t fs A B own" and al: "alloc_ok d' t'" "t \<le> t'" and rn: "root_names d' (map fst (AList.update dir l fs))"
    and new: "dir_stored d' t' (map fst (AList.update dir l fs)) dir (A' dir) e l (B' dir)"
    and own: "own' (A' dir) = (dir, None)" "\<And>nm b. nm \<in> fst ` set l \<Longrightarrow> b \<in> set (B' dir nm) \<Longrightarrow> own' b = (dir, Some nm)"
    and old: "\<And>x m e. map_of fs x = Some m \<Longrightarrow> x \<noteq> dir \<Longrightarrow> dir_at d t (map fst fs) x (A x) e (map fst m) \<Longrightarrow>
        A' x = A x \<and> B' x = B x \<and> dir_at d' t' (map fst (AList.update dir l fs)) x (A x) e (map fst m)"
    and keep: "\<And>b. block_addr t b \<Longrightarrow> fst (own b) \<noteq> dir \<Longrightarrow> own' b = own b \<and> read_at d' b 512 = read_at d b 512"
  shows "stored d' t' (AList.update dir l fs) A' B' own'"
proof -
  let ?fs = "AList.update dir l fs"
  note sd = storedD [OF st]
  have "(\<exists>e. dir_stored d' t' (map fst ?fs) x (A' x) e m (B' x)) \<and> own' (A' x) = (x, None)
      \<and> (\<forall>nm b. nm \<in> fst ` set m \<longrightarrow> b \<in> set (B' x nm) \<longrightarrow> own' b = (x, Some nm))"
    if x: "map_of ?fs x = Some m" for x m
  proof (cases "x = dir")
    case True
    then show ?thesis using x new own by (auto simp: update_conv')
  next
    case False
    then have m: "map_of fs x = Some m" using x by (simp add: update_conv')
    from sd(4) [OF m] obtain e where e: "dir_stored d t (map fst fs) x (A x) e m (B x)" by blast
    then have "A' x = A x" "B' x = B x" and da: "dir_at d' t' (map fst ?fs) x (A x) e (map fst m)"
      using old [OF m False] by (auto simp: dir_stored_def)
    moreover have "dir_stored d' t' (map fst ?fs) x (A x) e m (B x)"
      by (rule dir_stored_frame [OF e da al(2)]) (use sd(6) [OF m] keep False in auto)
    moreover have "own' (A x) = (x, None)" using sd(5) [OF m] keep [of "A x"] False by auto
    moreover have "own' b = (x, Some nm)" if "nm \<in> fst ` set m" "b \<in> set (B x nm)" for nm b
      using sd(6) [OF m that] keep [of b] False by auto
    ultimately show ?thesis by auto
  qed
  then show ?thesis using al(1) rn distinct_update [OF sd(3)] by (simp add: stored_def)
qed

section \<open>The operations refine their specifications\<close>

lemma map_of_None: "map_of al k = None \<longleftrightarrow> k \<notin> fst ` set al"
  by (rule map_of_eq_None_iff)

text \<open>A directory of the root after another one has been added.\<close>

lemma dir_at_more:
  assumes da: "dir_at d t names x a e fs" and al: "alloc_ok d' t'" "t \<le> t'" and rn: "root_names d' (names @ [dir])"
    and old: "\<forall>i < length names. map_option (\<lambda>r. c_get (directories r) (int i)) (get_root d)
        = map_option (\<lambda>r. c_get (directories r) (int i)) (get_root d')"
    and rd: "read_at d' a 512 = read_at d a 512"
  shows "dir_at d' t' (names @ [dir]) x a e fs"
proof -
  have x: "x \<in> set names" using da by (simp add: dir_at_def)
  obtain r s where r: "get_root d = Some r" "c_get (directories r) (first_index names x) = Some s" "dStartBlock s = a"
    using dir_at_get_dir(3) [OF da] by blast
  have i: "int (nat (first_index names x)) = first_index names x" "nat (first_index names x) < length names"
    using first_index_nth [OF x] first_index_range(2) [of names x] by auto
  from old [rule_format, OF i(2), unfolded i(1)] r(1,2) obtain r' where
    "get_root d' = Some r'" "c_get (directories r') (first_index names x) = Some s" by (cases "get_root d'") auto
  then show ?thesis using da al rn rd r(3) x by (auto simp: dir_at_def first_index_append)
qed

lemma mkdir_refines:
  assumes st: "stored d t fs A B own" and cs: "c_string path" and sp: "spec_mkdir fs path = Some (r, fs')"
    and room: "t + 1024 < int (length d)"
  shows "\<exists>d' t'. csc452_mkdir d path = Some (r, d') \<and> holds d' t' fs' \<and> t' \<le> t + 512 \<and> length d' = length d"
proof -
  note sd = storedD [OF st]
  from sp obtain k dir fn ext where sc: "scan_path path = Some (k, dir, fn, ext)"
    by (auto simp: spec_mkdir_def split: option.splits)
  note cd = scan_path_c_string(1) [OF sc cs] and ln = scan_path_fits(1) [OF sc]
  note ex = dir_exists_index [OF sd(2) cd]
  from sd(2) obtain r0 where r0: "get_root d = Some r0" "nDirectories r0 = int (length fs)" "length fs \<le> 29" by (auto simp: root_names_def)
  show ?thesis
  proof (cases "k = 1 \<and> dir \<notin> fst ` set fs \<and> length fs \<noteq> 29")
    case False
    then have "csc452_mkdir d path = Some (r, d) \<and> fs' = fs"
      using sp sc ex ln r0 first_index_absent [of "map fst fs" dir]
      by (auto simp: spec_mkdir_def csc452_mkdir_def u64_id split: if_splits)
    then show ?thesis using st unfolding holds_def by (intro exI [of _ d] exI [of _ t]) auto
  next
    case True
    then have new: "dir \<notin> set (map fst fs)" and k: "k = 1" and "length fs < 29" using r0(3) by auto
    from True sp sc have f: "r = 0" "fs' = AList.update dir [] fs" by (auto simp: spec_mkdir_def)
    have names: "map fst (AList.update dir [] fs) = map fst fs @ [dir]" using new by (simp add: update_keys)
    from mkdir_dir_at [OF sd(1,2) cs sc [unfolded k] new] \<open>length fs < 29\<close> room obtain d' where
      d': "csc452_mkdir d path = Some (0, d')" "length d' = length d" "root_names d' (map fst fs @ [dir])"
        "dir_at d' (t + 512) (map fst fs @ [dir]) dir (t + 512) (dec_entry (replicate 512 NUL)) []"
      and old: "\<forall>i < length (map fst fs). map_option (\<lambda>r. c_get (directories r) (int i)) (get_root d)
          = map_option (\<lambda>r. c_get (directories r) (int i)) (get_root d')"
      and fr: "\<And>a n. 512 \<le> a \<Longrightarrow> a + int n \<le> int (length d) - 512 \<Longrightarrow> read_at d' a n = read_at d a n"
      by auto
    have al: "alloc_ok d' (t + 512)" using d'(4) by (simp add: dir_at_def)
    have keep: "read_at d' b 512 = read_at d b 512" if "block_addr t b" for b
      using that room by (intro fr) (auto simp: block_addr_def)
    have "stored d' (t + 512) (AList.update dir [] fs) (A(dir := t + 512)) (B(dir := \<lambda>_. [])) (own(t + 512 := (dir, None)))"
    proof (rule stored_update [OF st al])
      show "dir_stored d' (t + 512) (map fst (AList.update dir [] fs)) dir ((A(dir := t + 512)) dir) (dec_entry (replicate 512 NUL)) []
          ((B(dir := \<lambda>_. [])) dir)" using d'(4) by (simp add: names dir_stored_def)
      fix x m e assume x: "map_of fs x = Some m" "x \<noteq> dir" and da: "dir_at d t (map fst fs) x (A x) e (map fst m)"
      have "dir_at d' (t + 512) (map fst fs @ [dir]) x (A x) e (map fst m)"
        by (rule dir_at_more [OF da al _ d'(3) old]) (use keep sd(5) [OF x(1)] in auto)
      then show "(A(dir := t + 512)) x = A x \<and> (B(dir := \<lambda>_. [])) x = B x
          \<and> dir_at d' (t + 512) (map fst (AList.update dir [] fs)) x (A x) e (map fst m)" using x(2) by (simp add: names)
    qed (use d'(3) keep in \<open>auto simp: names block_addr_def\<close>)
    with d'(1,2) f show ?thesis unfolding holds_def by blast
  qed
qed

text \<open>What the lookups find.\<close>

lemma file_bytes_length:
  assumes "file_at d t names dir a e fs nm f bs"
  shows "int (length (file_bytes d f bs)) = fsize f"
proof -
  have "chain d (nStartBlock f) bs" "0 \<le> fsize f" "fsize f \<le> 504 * int (length bs)" using assms unfolding file_at_def by blast+
  with contents_length [OF this(1)] show ?thesis by (simp add: file_bytes_def)
qed

lemma stored_file:
  assumes "stored d t fs A B own" "map_of fs dir = Some l" "map_of l nm = Some c"
  obtains e f where "file_at d t (map fst fs) dir (A dir) e (map fst l) nm f (B dir nm)" "file_bytes d f (B dir nm) = c" "fsize f = int (length c)"
    "length c < 2147483647"
proof -
  from storedD(4) [OF assms(1,2)] obtain e where "dir_stored d t (map fst fs) dir (A dir) e l (B dir)" by blast
  with assms(3) obtain f where "file_at d t (map fst fs) dir (A dir) e (map fst l) nm f (B dir nm)" "file_bytes d f (B dir nm) = c"
    unfolding dir_stored_def by blast
  moreover from this have "fsize f = int (length c)" "fsize f < 2147483647" using file_bytes_length file_at_def by metis+
  ultimately show ?thesis using that by simp
qed

lemma stored_get_dir:
  assumes st: "stored d t fs A B own" and cs: "c_string dir"
  shows "dir_exists d dir = Some (first_index (map fst fs) dir)" "map_of fs dir = None \<Longrightarrow> get_dir d dir = Some (- 1, None)"
proof -
  note sd = storedD [OF st]
  show ex: "dir_exists d dir = Some (first_index (map fst fs) dir)" by (rule dir_exists_index [OF sd(2) cs])
  show "get_dir d dir = Some (- 1, None)" if "map_of fs dir = None"
    using ex sd(2) that first_index_absent [of "map fst fs" dir] by (auto simp: get_dir_def root_names_def map_of_None)
qed

lemma stored_file_exist:
  assumes st: "stored d t fs A B own" and cs: "c_string dir" "c_string fn" "c_string ext"
  shows "file_exist d dir fn ext 3 = Some (case find_file fs dir (fn, ext) of None \<Rightarrow> - 1 | Some c \<Rightarrow> int (length c))"
proof (cases "map_of fs dir")
  case None
  then show ?thesis using stored_get_dir(2) [OF st cs(1)] by (simp add: file_exist_def find_file_def)
next
  case (Some l)
  show ?thesis
  proof (cases "map_of l (fn, ext)")
    case None
    from storedD(4) [OF st Some] obtain e where "dir_at d t (map fst fs) dir (A dir) e (map fst l)" by (auto simp: dir_stored_def)
    moreover have "(fn, ext) \<notin> set (map fst l)" using None by (simp add: map_of_None)
    ultimately show ?thesis using dir_at_file_exist [OF _ cs(2,3)] by (simp add: find_file_def None Some)
  next
    case c: (Some c)
    from stored_file [OF st Some c] obtain e f where
      "file_at d t (map fst fs) dir (A dir) e (map fst l) (fn, ext) f (B dir (fn, ext))" "fsize f = int (length c)" by blast
    from file_at_lookup(3) [OF this(1)] this(2) Some c show ?thesis by (simp add: find_file_def)
  qed
qed

text \<open>A directory with a new file at its end.\<close>

lemma dir_stored_new_file:
  assumes ds: "dir_stored d t names dir a e l bl" and new: "nm \<notin> set (map fst l)" and len: "t + 1024 \<le> int (length d)"
    and fa: "file_at d' t' names dir a e' (map fst l @ [nm]) nm f [b]" "fsize f = 0" and t: "t \<le> t'"
    and old: "take (length l) (files e') = take (length l) (files e)"
    and fr: "\<And>b n. b + int n \<le> a \<or> a + 512 \<le> b \<Longrightarrow> b + int n \<le> int (length d) - 512 \<Longrightarrow> read_at d' b n = read_at d b n"
  shows "dir_stored d' t' names dir a e' (AList.update nm [] l) (bl(nm := [b]))"
proof -
  have keys: "map fst (AList.update nm [] l) = map fst l @ [nm]" using new by (simp add: update_keys)
  have da: "dir_at d' t' names dir a e' (map fst l @ [nm])" using fa(1) by (simp add: file_at_def)
  have "\<exists>f. file_at d' t' names dir a e' (map fst l @ [nm]) x f ((bl(nm := [b])) x) \<and> file_bytes d' f ((bl(nm := [b])) x) = c"
    if x: "map_of (AList.update nm [] l) x = Some c" for x c
  proof (cases "x = nm")
    case True
    then show ?thesis using x fa by (auto simp: update_conv' file_bytes_def)
  next
    case False
    then have m: "map_of l x = Some c" using x by (simp add: update_conv')
    with ds obtain g where g: "file_at d t names dir a e (map fst l) x g (bl x)" "file_bytes d g (bl x) = c"
      unfolding dir_stored_def by blast
    have xs: "x \<in> set (map fst l)" and ab: "a \<notin> set (bl x)" and ba: "\<And>b. b \<in> set (bl x) \<Longrightarrow> block_addr t b" "block_addr t a"
      and ge: "g = files e ! nat (first_index (map fst l) x)"
      using g(1) by (auto simp: file_at_def dir_at_def block_addr_def)
    have "nat (first_index (map fst l) x) < length l"
      using first_index_nth [OF xs] first_index_range(2) [of "map fst l" x] unfolding length_map by linarith
    then have "files e' ! nat (first_index (map fst l @ [nm]) x) = g"
      using old ge by (metis first_index_append [OF xs] nth_take)
    moreover have "read_at d' b 512 = read_at d b 512" if "b \<in> set (bl x)" for b
      using blocks_disjoint [OF ba(1) [OF that] ba(2)] ba(1) [OF that] ab that len by (intro fr) (auto simp: block_addr_def)
    ultimately have "file_at d' t' names dir a e' (map fst l @ [nm]) x g (bl x)" "file_bytes d' g (bl x) = file_bytes d g (bl x)"
      using file_at_frame [OF g(1) da _ _ t ab] xs by auto
    with g(2) False show ?thesis by auto
  qed
  moreover have "distinct (map fst l @ [nm])" using ds new by (simp add: dir_stored_def)
  ultimately show ?thesis unfolding dir_stored_def keys using da by blast
qed

lemma mknod_stored:
  assumes st: "stored d t fs A B own" and cs: "c_string path" and sc: "scan_path path = Some (3, dir, fn, ext)"
    and l: "map_of fs dir = Some l" and ds: "dir_stored d t (map fst fs) dir (A dir) e l (B dir)"
    and new: "(fn, ext) \<notin> set (map fst l)" and l17: "length (map fst l) < 17" and room: "t + 1024 < int (length d)"
  shows "\<exists>d'. csc452_mknod d path = Some (0, d') \<and> length d' = length d
    \<and> stored d' (t + 512) (AList.update dir (AList.update (fn, ext) [] l) fs) A (B(dir := (B dir)((fn, ext) := [t + 512])))
        (own(t + 512 := (dir, Some (fn, ext))))"
proof -
  note sd = storedD [OF st]
  have da: "dir_at d t (map fst fs) dir (A dir) e (map fst l)" using ds by (simp add: dir_stored_def)
  let ?l = "AList.update (fn, ext) [] l"
  have names: "map fst (AList.update dir ?l fs) = map fst fs" using da by (simp add: update_keys dir_at_def)
  from mknod_file_at [OF da cs sc new l17 room, unfolded length_map] obtain d' e' g where
    d': "csc452_mknod d path = Some (0, d')" "length d' = length d"
    and fa: "file_at d' (t + 512) (map fst fs) dir (A dir) e' (map fst l @ [(fn, ext)]) (fn, ext) g [t + 512]" "fsize g = 0"
    and old: "take (length l) (files e') = take (length l) (files e)"
    and fr0: "\<forall>b n. b + int n \<le> A dir \<or> A dir + 512 \<le> b \<longrightarrow> b + int n \<le> int (length d) - 512 \<longrightarrow> read_at d' b n = read_at d b n"
    by blast
  note fr = fr0 [rule_format]
  have al: "alloc_ok d' (t + 512)" using fa(1) by (simp add: file_at_def dir_at_def)
  have a: "block_addr t (A dir)" using sd(5) [OF l] by blast
  have keep: "read_at d' b 512 = read_at d b 512" if "block_addr t b" "b \<noteq> A dir" for b
    using blocks_disjoint [OF that(1) a that(2)] that(1) room by (intro fr) (auto simp: block_addr_def)
  have "stored d' (t + 512) (AList.update dir ?l fs) A (B(dir := (B dir)((fn, ext) := [t + 512]))) (own(t + 512 := (dir, Some (fn, ext))))"
  proof (rule stored_update [OF st al])
    show "dir_stored d' (t + 512) (map fst (AList.update dir ?l fs)) dir (A dir) e' ?l ((B(dir := (B dir)((fn, ext) := [t + 512]))) dir)"
      unfolding names fun_upd_same by (rule dir_stored_new_file [OF ds new _ fa _ old fr]) (use room in auto)
    show "root_names d' (map fst (AList.update dir ?l fs))" using fa(1) by (simp add: names file_at_def dir_at_def)
    fix x m e assume x: "map_of fs x = Some m" "x \<noteq> dir" and dx: "dir_at d t (map fst fs) x (A x) e (map fst m)"
    have "A x \<noteq> A dir" using sd(5) [OF x(1)] sd(5) [OF l] x(2) by auto
    then have "dir_at d' (t + 512) (map fst fs) x (A x) e (map fst m)"
      using sd(5) [OF x(1)] a room by (intro dir_at_frame [OF dx al _ fr keep]) (auto simp: block_addr_def)
    then show "A x = A x \<and> (B(dir := (B dir)((fn, ext) := [t + 512]))) x = B x
        \<and> dir_at d' (t + 512) (map fst (AList.update dir ?l fs)) x (A x) e (map fst m)" using x(2) by (simp add: names)
  next
    show "(own(t + 512 := (dir, Some (fn, ext)))) (A dir) = (dir, None)" using sd(5) [OF l] by (auto simp: block_addr_def)
    show "(own(t + 512 := (dir, Some (fn, ext)))) b = (dir, Some nm)"
      if "nm \<in> fst ` set ?l" "b \<in> set ((B(dir := (B dir)((fn, ext) := [t + 512]))) dir nm)" for nm b
      using that sd(6) [OF l, of nm b] by (auto simp: block_addr_def dom_update split: if_splits)
    show "(own(t + 512 := (dir, Some (fn, ext)))) b = own b \<and> read_at d' b 512 = read_at d b 512" if "block_addr t b" "fst (own b) \<noteq> dir" for b
    proof -
      have "b \<noteq> A dir" using that(2) sd(5) [OF l] by auto
      with that keep [OF that(1)] show ?thesis by (simp add: block_addr_def)
    qed
  qed simp
  with d' show ?thesis by blast
qed

lemma mknod_refines:
  assumes st: "stored d t fs A B own" and cs: "c_string path" and sp: "spec_mknod fs path = Some (r, fs')"
    and room: "t + 1024 < int (length d)"
  shows "\<exists>d' t'. csc452_mknod d path = Some (r, d') \<and> holds d' t' fs' \<and> t' \<le> t + 512 \<and> length d' = length d"
proof -
  note sd = storedD [OF st]
  from sp obtain k dir fn ext where sc: "scan_path path = Some (k, dir, fn, ext)"
    by (auto simp: spec_mknod_def split: option.splits)
  note cd = scan_path_c_string [OF sc cs] and fits = scan_path_fits [OF sc]
  note fe = stored_file_exist [OF st cd]
  show ?thesis
  proof (cases "k = 3")
    case False
    then have "csc452_mknod d path = Some (r, d) \<and> fs' = fs" using sp sc by (simp add: spec_mknod_def csc452_mknod_def)
    then show ?thesis using st unfolding holds_def by (intro exI [of _ d] exI [of _ t]) auto
  next
    case k: True
    with sp sc obtain l where l: "map_of fs dir = Some l" by (auto simp: spec_mknod_def split: option.splits)
    from sd(4) [OF l] obtain e where ds: "dir_stored d t (map fst fs) dir (A dir) e l (B dir)" by blast
    then have da: "dir_at d t (map fst fs) dir (A dir) e (map fst l)" by (simp add: dir_stored_def)
    then have nf: "nFiles e = int (length l)" "length l \<le> 17" by (auto simp: dir_at_def entry_names_def)
    from dir_at_get_dir [OF da] obtain r0 where gd: "get_dir d dir = Some (first_index (map fst fs) dir, Some e)" "get_root d = Some r0" by blast
    show ?thesis
    proof (cases "(fn, ext) \<in> fst ` set l \<or> length l = 17")
      case True
      then have "csc452_mknod d path = Some (r, d) \<and> fs' = fs"
        using sp sc k l fits fe gd nf map_of_None [of l "(fn, ext)"]
        by (auto simp: spec_mknod_def csc452_mknod_def find_file_def u64_id split: option.splits if_splits)
      then show ?thesis using st unfolding holds_def by (intro exI [of _ d] exI [of _ t]) auto
    next
      case False
      then have new: "(fn, ext) \<notin> set (map fst l)" and l17: "length (map fst l) < 17" using nf by auto
      from mknod_stored [OF st cs sc [unfolded k] l ds new l17 room] False sp sc k l show ?thesis
        unfolding holds_def by (auto simp: spec_mknod_def) (metis order_refl)
    qed
  qed
qed

text \<open>A directory with one file rewritten.\<close>

lemma dir_stored_write:
  assumes ds: "dir_stored d t names dir a e l bl" and nm: "nm \<in> fst ` set l"
    and fa: "file_at d' t' names dir a e' (map fst l) nm f bs" "file_bytes d' f bs = c" and t: "t \<le> t'"
    and other: "\<And>j. j \<noteq> nat (first_index (map fst l) nm) \<Longrightarrow> files e' ! j = files e ! j"
    and rd: "\<And>x b. x \<in> fst ` set l \<Longrightarrow> x \<noteq> nm \<Longrightarrow> b \<in> set (bl x) \<Longrightarrow> read_at d' b 512 = read_at d b 512"
  shows "dir_stored d' t' names dir a e' (AList.update nm c l) (bl(nm := bs))"
proof -
  have keys: "map fst (AList.update nm c l) = map fst l" using nm by (simp add: update_keys)
  have da: "dir_at d' t' names dir a e' (map fst l)" using fa(1) by (simp add: file_at_def)
  have "\<exists>f. file_at d' t' names dir a e' (map fst l) x f ((bl(nm := bs)) x) \<and> file_bytes d' f ((bl(nm := bs)) x) = y"
    if x: "map_of (AList.update nm c l) x = Some y" for x y
  proof (cases "x = nm")
    case True
    then show ?thesis using x fa by (auto simp: update_conv')
  next
    case False
    then have m: "map_of l x = Some y" using x by (simp add: update_conv')
    with ds obtain g where g: "file_at d t names dir a e (map fst l) x g (bl x)" "file_bytes d g (bl x) = y"
      unfolding dir_stored_def by blast
    have xs: "x \<in> set (map fst l)" and ab: "a \<notin> set (bl x)" and ge: "files e ! nat (first_index (map fst l) x) = g"
      using g(1) by (simp_all add: file_at_def)
    have "nat (first_index (map fst l) x) \<noteq> nat (first_index (map fst l) nm)"
      using first_index_nth [OF xs] first_index_nth [of nm "map fst l"] nm False by auto
    then have "files e' ! nat (first_index (map fst l) x) = g" using other ge by simp
    note fr = file_at_frame [OF g(1) da xs this t ab rd [of x]]
    have "x \<in> fst ` set l" using xs by simp
    with fr g(2) False show ?thesis by auto
  qed
  then show ?thesis using ds da unfolding dir_stored_def keys by blast
qed

lemma dir_at_root:
  assumes "dir_at d t names dir a e fs" "alloc_ok d' t'" "t \<le> t'" "get_root d' = get_root d" "read_at d' a 512 = read_at d a 512"
  shows "dir_at d' t' names dir a e fs"
  using assms by (auto simp: dir_at_def root_names_def)

lemma write_stored:
  assumes st: "stored d t fs A B own" and l: "map_of fs dir = Some l" and c: "map_of l (fn, ext) = Some c"
    and sc: "scan_path path = Some (3, dir, fn, ext)"
    and off: "0 \<le> off" "off \<le> int (length c)" and n: "0 < n" "nat n \<le> length buf" "off + n \<le> 2147483646"
    and room: "t + 512 * ((n + 503) div 504) + 1024 \<le> int (length d)"
  shows "\<exists>d' t'. csc452_write d path buf n off = Some (n, d')
    \<and> holds d' t' (AList.update dir (AList.update (fn, ext) (take (nat off) c @ take (nat n) buf) l) fs)
    \<and> t' \<le> t + 512 * ((n + 503) div 504) \<and> length d' = length d"
proof -
  note sd = storedD [OF st]
  let ?nm = "(fn, ext)" and ?k = "(n + 503) div 504" and ?c = "take (nat off) c @ take (nat n) buf"
  let ?l = "AList.update ?nm ?c l" and ?bs = "B dir (fn, ext)"
  let ?fs = "AList.update dir ?l fs"
  from sd(4) [OF l] obtain e where ds: "dir_stored d t (map fst fs) dir (A dir) e l (B dir)" by blast
  with c obtain f where fa: "file_at d t (map fst fs) dir (A dir) e (map fst l) ?nm f ?bs" "file_bytes d f ?bs = c"
    unfolding dir_stored_def by blast
  have fs: "fsize f = int (length c)" using file_bytes_length [OF fa(1)] fa(2) by simp
  have nm: "?nm \<in> fst ` set l" and dir: "dir \<in> fst ` set fs" using c l by (metis map_of_None option.distinct(1))+
  have names: "map fst ?fs = map fst fs" using dir by (simp add: update_keys)
  have k: "0 \<le> ?k" "off + n \<le> 504 * (int (length ?bs) + ?k)"
    using fa(1) fs off(2) n(1) by (auto simp: file_at_def)
  have "off \<le> fsize f" using off(2) fs by simp
  from write_file_blocks [OF fa(1) sc off(1) this n k room, unfolded fa(2)] obtain d' t' e' f' new where
    w: "csc452_write d path buf n off = Some (n, d')" and fa': "file_at d' t' (map fst fs) dir (A dir) e' (map fst l) ?nm f' (?bs @ new)"
    and fb: "file_bytes d' f' (?bs @ new) = ?c" and len: "length d' = length d"
    and other0: "\<forall>j. j \<noteq> nat (first_index (map fst l) ?nm) \<longrightarrow> files e' ! j = files e ! j"
    and rd0: "\<forall>b. block_addr t b \<longrightarrow> b \<notin> set (A dir # ?bs) \<longrightarrow> read_at d' b 512 = read_at d b 512"
    and root: "get_root d' = get_root d" and t: "t \<le> t'" "t' \<le> t + 512 * ?k" and new: "\<forall>b \<in> set new. t < b"
    by blast
  note other = other0 [rule_format] and rd = rd0 [rule_format]
  have al: "alloc_ok d' t'" using fa' by (simp add: file_at_def dir_at_def)
  let ?own = "\<lambda>b. if b \<in> set new then (dir, Some ?nm) else own b"
  have fresh: "b \<notin> set new" if "block_addr t b" for b using new that by (force simp: block_addr_def)
  have keep: "read_at d' b 512 = read_at d b 512" if "block_addr t b" "own b \<noteq> (dir, None)" "own b \<noteq> (dir, Some ?nm)" for b
    using that sd(5) [OF l] sd(6) [OF l nm] by (intro rd) auto
  have "stored d' t' ?fs A (B(dir := (B dir)(?nm := ?bs @ new))) ?own"
  proof (rule stored_update [OF st al t(1)])
    show "dir_stored d' t' (map fst ?fs) dir (A dir) e' ?l ((B(dir := (B dir)(?nm := ?bs @ new))) dir)"
      unfolding names fun_upd_same
      by (rule dir_stored_write [OF ds nm fa' fb t(1) other]) (use sd(6) [OF l] keep in auto)
    show "root_names d' (map fst ?fs)" using fa' by (simp add: names file_at_def dir_at_def)
    show "?own (A dir) = (dir, None)" using sd(5) [OF l] fresh by auto
    show "?own b = (dir, Some x)" if "x \<in> fst ` set ?l" "b \<in> set ((B(dir := (B dir)(?nm := ?bs @ new))) dir x)" for x b
    proof -
      have x: "x \<in> fst ` set l" using that(1) nm by (auto simp: dom_update)
      then show ?thesis using that(2) sd(6) [OF l x, of b] fresh [of b] by (cases "x = ?nm") auto
    qed
    show "?own b = own b \<and> read_at d' b 512 = read_at d b 512" if "block_addr t b" "fst (own b) \<noteq> dir" for b
    proof -
      have "own b \<noteq> (dir, None)" "own b \<noteq> (dir, Some ?nm)" using that(2) by auto
      then show ?thesis using keep [OF that(1)] fresh [OF that(1)] by simp
    qed
    fix x m e assume x: "map_of fs x = Some m" "x \<noteq> dir" and dx: "dir_at d t (map fst fs) x (A x) e (map fst m)"
    have "dir_at d' t' (map fst fs) x (A x) e (map fst m)"
      using sd(5) [OF x(1)] x(2) by (intro dir_at_root [OF dx al t(1) root] keep) auto
    then show "A x = A x \<and> (B(dir := (B dir)(?nm := ?bs @ new))) x = B x \<and> dir_at d' t' (map fst ?fs) x (A x) e (map fst m)"
      using x(2) by (simp add: names)
  qed
  with w t(2) len show ?thesis unfolding holds_def by (intro exI [of _ d'] exI [of _ t']) auto
qed

lemma write_refused:
  assumes st: "stored d t fs A B own" and cs: "c_string path" and sp: "spec_write fs path buf n off = Some (r, fs')"
    and sc: "scan_path path = Some (k, dir, fn, ext)"
    and no: "\<not> (\<exists>l c. k = 3 \<and> map_of fs dir = Some l \<and> map_of l (fn, ext) = Some c \<and> n \<noteq> 0 \<and> off \<le> int (length c))"
  shows "csc452_write d path buf n off = Some (r, d) \<and> fs' = fs"
proof -
  note cd = scan_path_c_string [OF sc cs]
  note fe = stored_file_exist [OF st cd] and ex = stored_get_dir(1) [OF st cd(1)]
  have n: "0 \<le> n" "nat n \<le> length buf" "0 \<le> off" "off + n \<le> 2147483646" using sp by (auto simp: spec_write_def split: if_splits)
  consider "k \<noteq> 3" | "k = 3" "find_file fs dir (fn, ext) = None" | c where "k = 3" "find_file fs dir (fn, ext) = Some c" by fastforce
  then show ?thesis
  proof cases
    case 1
    then show ?thesis
      using sp sc ex first_index_absent [of "map fst fs" dir] by (auto simp: spec_write_def csc452_write_def split: if_splits)
  next
    case 2
    then show ?thesis
      using fe sp sc n by (auto simp: spec_write_def csc452_write_def find_file_def split: option.splits)
  next
    case 3
    then obtain l where l: "map_of fs dir = Some l" "map_of l (fn, ext) = Some c" by (auto simp: find_file_def bind_eq_Some_conv)
    from stored_file [OF st l] obtain e f where
      fa: "file_at d t (map fst fs) dir (A dir) e (map fst l) (fn, ext) f (B dir (fn, ext))" "fsize f = int (length c)" "length c < 2147483647" by blast
    note lk = file_at_lookup [OF fa(1), simplified]
    have u: "u64 (int (length c)) = int (length c)" "int (length c) \<noteq> u64 (- 1)" "u64 off = off"
      using fa(3) n by (simp_all add: u64_id) (simp add: u64_def)
    have "n = 0 \<or> int (length c) < off" using no l 3 by fastforce
    then show ?thesis using 3(1) sp sc n l lk u fa(2) by (auto simp: spec_write_def csc452_write_def Let_def split: if_splits)
  qed
qed

lemma write_refines:
  assumes st: "stored d t fs A B own" and cs: "c_string path" and sp: "spec_write fs path buf n off = Some (r, fs')"
    and room: "t + 512 * ((n + 503) div 504) + 1024 \<le> int (length d)"
  shows "\<exists>d' t'. csc452_write d path buf n off = Some (r, d') \<and> holds d' t' fs' \<and> t' \<le> t + 512 * ((n + 503) div 504) \<and> length d' = length d"
proof -
  from sp obtain k dir fn ext where sc: "scan_path path = Some (k, dir, fn, ext)"
    and n: "0 \<le> n" "nat n \<le> length buf" "0 \<le> off" "off + n \<le> 2147483646"
    by (auto simp: spec_write_def split: option.splits if_splits)
  note cd = scan_path_c_string [OF sc cs]
  note fe = stored_file_exist [OF st cd] and ex = stored_get_dir(1) [OF st cd(1)]
  show ?thesis
  proof (cases "\<exists>l c. k = 3 \<and> map_of fs dir = Some l \<and> map_of l (fn, ext) = Some c \<and> n \<noteq> 0 \<and> off \<le> int (length c)")
    case True
    then obtain l c where l: "k = 3" "map_of fs dir = Some l" "map_of l (fn, ext) = Some c" "n \<noteq> 0" "off \<le> int (length c)" by blast
    with sp sc n have "r = n" "fs' = AList.update dir (AList.update (fn, ext) (take (nat off) c @ take (nat n) buf) l) fs"
      by (auto simp: spec_write_def)
    with write_stored [OF st l(2,3) sc [unfolded l(1)] n(3) l(5) _ n(2,4) room] n(1) l(4) show ?thesis by auto
  next
    case False
    then have "csc452_write d path buf n off = Some (r, d) \<and> fs' = fs" using write_refused [OF st cs sp sc] by blast
    then show ?thesis using st n(1) unfolding holds_def by (intro exI [of _ d] exI [of _ t]) auto
  qed
qed

lemma oper_refines:
  assumes rel: "fs_rel n d fs" and cs: "c_string (request_path q)" and cost: "request_blocks q \<le> n" and sp: "spec_oper fs q = Some (r, fs')"
  shows "\<exists>d'. csc452_oper q d = Some (r, d') \<and> fs_rel (n - request_blocks q) d' fs'"
proof -
  from rel obtain t A B own where st: "stored d t fs A B own" and room: "t + 1024 + 512 * n \<le> int (length d)"
    by (auto simp: fs_rel_def holds_def)
  have fin: ?thesis if "\<exists>d' t'. csc452_oper q d = Some (r, d') \<and> holds d' t' fs' \<and> t' \<le> t + 512 * request_blocks q \<and> length d' = length d"
    using that room unfolding fs_rel_def by fastforce
  show ?thesis
  proof (cases q)
    case (Mkdir p)
    have "t + 1024 < int (length d)" using room cost Mkdir by simp
    with mkdir_refines [OF st, of p r fs'] show ?thesis using cs sp Mkdir by (intro fin) simp
  next
    case (Mknod p)
    have "t + 1024 < int (length d)" using room cost Mknod by simp
    with mknod_refines [OF st, of p r fs'] show ?thesis using cs sp Mknod by (intro fin) simp
  next
    case (Write p buf m off)
    with sp have m: "0 \<le> m" by (auto simp: spec_write_def split: if_splits)
    with room cost Write have "t + 512 * ((m + 503) div 504) + 1024 \<le> int (length d)" by simp
    with write_refines [OF st, of p buf m off r fs'] m show ?thesis using cs sp Write by (intro fin) simp
  qed (use sp rel in \<open>auto simp: csc452_rmdir_def csc452_unlink_def csc452_truncate_def csc452_open_def csc452_flush_def\<close>)
qed

lemma request_blocks_nonneg: "0 \<le> request_blocks q"
  by (cases q) auto

interpretation fs_run: bounded_refinement spec_oper "\<lambda>d q. csc452_oper q d" fs_rel request_blocks "\<lambda>q. c_string (request_path q)"
  by unfold_locales (auto intro: oper_refines request_blocks_nonneg)

section \<open>The observations\<close>

lemma getattr_refines:
  assumes st: "stored d t fs A B own" and cs: "c_string path" and sp: "spec_getattr fs path s = Some r"
  shows "csc452_getattr d path s = Some r"
proof (cases "path = ''/''")
  case False
  with sp obtain k dir fn ext where sc: "scan_path path = Some (k, dir, fn, ext)"
    by (auto simp: spec_getattr_def split: option.splits)
  note cd = scan_path_c_string [OF sc cs]
  note fe = stored_file_exist [OF st cd] and ex = stored_get_dir(1) [OF st cd(1)]
  consider "k = 1" | "k = 3" "find_file fs dir (fn, ext) = None" | c where "k = 3" "find_file fs dir (fn, ext) = Some c" | "k \<noteq> 1" "k \<noteq> 3" by fastforce
  then show ?thesis
  proof cases
    case 1
    then show ?thesis using False sp sc ex first_index_absent [of "map fst fs" dir] by (auto simp: spec_getattr_def csc452_getattr_def split: if_splits)
  next
    case (3 c)
    then obtain l where "map_of fs dir = Some l" "map_of l (fn, ext) = Some c" by (auto simp: find_file_def bind_eq_Some_conv)
    from stored_file [OF st this] have "length c < 2147483647" by blast
    then have "s64 (u64 (int (length c))) = int (length c)" by (simp add: u64_id s64_id)
    with 3 False sp sc fe show ?thesis by (simp add: spec_getattr_def csc452_getattr_def)
  qed (use False sp sc fe in \<open>auto simp: spec_getattr_def csc452_getattr_def split: if_splits\<close>)
qed (use sp in \<open>simp add: spec_getattr_def csc452_getattr_def\<close>)

lemma readdir_refines:
  assumes st: "stored d t fs A B own" and cs: "c_string path" and sp: "spec_readdir fs path = Some r"
  shows "csc452_readdir d path = Some r"
proof (cases "path = ''/''")
  case True
  obtain r0 where r0: "get_root d = Some r0" "nDirectories r0 = int (length (map fst fs))" "named (map dname (directories r0)) (map fst fs)"
    using storedD(2) [OF st] by (auto simp: root_names_def)
  have "fill_names (map dname (directories r0)) 0 (nat (nDirectories r0)) = Some (map fst fs)"
    using fill_names_named [OF r0(3), of 0 "length fs"] r0(2) by simp
  with True sp r0(1) show ?thesis by (simp add: spec_readdir_def csc452_readdir_def)
next
  case False
  with sp obtain k dir fn ext where sc: "scan_path path = Some (k, dir, fn, ext)"
    by (auto simp: spec_readdir_def split: option.splits)
  note cd = scan_path_c_string [OF sc cs]
  show ?thesis
  proof (cases "map_of fs dir")
    case None
    then show ?thesis using False sp sc stored_get_dir(2) [OF st cd(1)] by (auto simp: spec_readdir_def csc452_readdir_def split: if_splits)
  next
    case (Some l)
    from storedD(4) [OF st Some] obtain e where da: "dir_at d t (map fst fs) dir (A dir) e (map fst l)" by (auto simp: dir_stored_def)
    then have n: "nFiles e = int (length l)" "named (map fname (files e)) (map (fst \<circ> fst) l)" by (auto simp: dir_at_def entry_names_def)
    have "fill_names (map fname (files e)) 0 (nat (nFiles e)) = Some (map (fst \<circ> fst) l)"
      using fill_names_named [OF n(2), of 0 "length l"] n(1) by simp
    then show ?thesis
      using False Some sp sc dir_at_get_dir(1,2) [OF da] by (auto simp: spec_readdir_def csc452_readdir_def split: if_splits)
  qed
qed

lemma bytes_inside:
  assumes "c = take (length c) xs" "0 < n" "0 \<le> off" "off + min n (int (length c)) \<le> int (length c)" "m = int (length c)"
  shows "take (nat (min n m)) (drop (nat off) xs) = take (nat n) (drop (nat off) c)"
proof (cases "n \<le> m")
  case True
  then have "nat n \<le> length c - nat off" using assms(2-5) by linarith
  moreover have "drop (nat off) c = take (length c - nat off) (drop (nat off) xs)" by (metis assms(1) drop_take)
  ultimately show ?thesis using True by (simp add: min_absorb1)
next
  case False
  then have "off = 0" "length c \<le> nat n" "nat (min n m) = length c" using assms(2-5) by auto
  then show ?thesis using assms(1) by simp
qed

lemma read_refines:
  assumes st: "stored d t fs A B own" and cs: "c_string path" and sp: "spec_read fs path n off = Some r"
  shows "csc452_read d path n off = Some r"
proof -
  from sp obtain k dir fn ext where sc: "scan_path path = Some (k, dir, fn, ext)"
    by (auto simp: spec_read_def split: option.splits)
  note cd = scan_path_c_string [OF sc cs]
  note fe = stored_file_exist [OF st cd] and ex = stored_get_dir(1) [OF st cd(1)]
  consider "k \<noteq> 3" | "k = 3" "find_file fs dir (fn, ext) = None" | c where "k = 3" "find_file fs dir (fn, ext) = Some c" by fastforce
  then show ?thesis
  proof cases
    case 1
    then show ?thesis
      using sp sc ex first_index_absent [of "map fst fs" dir] by (auto simp: spec_read_def csc452_read_def split: if_splits)
  next
    case 2
    then show ?thesis using fe sp sc by (simp add: spec_read_def csc452_read_def)
  next
    case 3
    then obtain l where l: "map_of fs dir = Some l" "map_of l (fn, ext) = Some c" by (auto simp: find_file_def bind_eq_Some_conv)
    from stored_file [OF st l] obtain e f where
      fa: "file_at d t (map fst fs) dir (A dir) e (map fst l) (fn, ext) f (B dir (fn, ext))" "fsize f = int (length c)" "length c < 2147483647"
        "file_bytes d f (B dir (fn, ext)) = c" by metis
    note lk = file_at_lookup [OF fa(1), simplified]
    have u: "u64 (int (length c)) = int (length c)" "int (length c) \<noteq> u64 (- 1)"
      using fa(3) by (simp_all add: u64_id) (simp add: u64_def)
    have size: "fsize f \<le> 504 * int (length (B dir (fn, ext)))" using fa(1) unfolding file_at_def by blast
    show ?thesis
    proof (cases "0 < n \<and> 0 \<le> off \<and> off \<le> int (length c)")
      case True
      with sp sc 3 have r: "r = (min n (int (length c)), take (nat n) (drop (nat off) c))" and fit: "off + min n (int (length c)) \<le> int (length c)"
        by (auto simp: spec_read_def split: if_splits)
      have "csc452_read d path n off = Some (min n (fsize f), take (nat (min n (fsize f))) (drop (nat off) (contents d (B dir (fn, ext)))))"
        using True fit size fa(2) 3(1) by (intro read_file [OF fa(1) sc [unfolded 3(1)]]) auto
      moreover have "take (nat (min n (fsize f))) (drop (nat off) (contents d (B dir (fn, ext)))) = take (nat n) (drop (nat off) c)"
        by (rule bytes_inside) (use True fit fa(2,4) in \<open>auto simp: file_bytes_def\<close>)
      ultimately show ?thesis using r fa(2) by simp
    next
      case False
      then show ?thesis using sp sc 3 fe lk u fa(2) by (auto simp: spec_read_def csc452_read_def Let_def u64_id split: if_splits)
    qed
  qed
qed

section \<open>From a formatted disk\<close>

lemma format_rel:
  assumes "2 \<le> blocks" "blocks \<le> 10240"
  shows "fs_rel (int blocks - 2) (format_disk blocks) []"
proof -
  have "stored (format_disk blocks) 0 [] A B own" for A B own
    using format_alloc [OF assms] format_root [OF assms(1)] by (simp add: stored_def)
  moreover have "(0::int) + 1024 + 512 * (int blocks - 2) \<le> int (length (format_disk blocks))" by (simp add: format_disk_def)
  ultimately show ?thesis unfolding fs_rel_def holds_def by blast
qed

text \<open>
  C2. The file system does what the abstract one does. Take a formatted disk and any sequence of \<open>mkdir\<close>, \<open>mknod\<close>, \<open>write\<close> and the other requests, with
  any paths and any data, that the abstract file system accepts and for which the disk has blocks enough. Then the code returns the same result for each request, and afterwards
  \<open>getattr\<close>, \<open>readdir\<close> and \<open>read\<close> show, for every path, the directories, files and bytes of the abstract state: no request disturbs a file it does not name.
\<close>

theorem file_system_refines:
  assumes "2 \<le> blocks" "blocks \<le> 10240" "list_all (\<lambda>q. c_string (request_path q)) qs"
    and "sum_list (map request_blocks qs) + 2 \<le> int blocks" "run_requests spec_oper qs [] = Some (rs, fs)"
  shows "\<exists>d. run_requests (\<lambda>d q. csc452_oper q d) qs (format_disk blocks) = Some (rs, d)
    \<and> (\<forall>path s r. c_string path \<longrightarrow> spec_getattr fs path s = Some r \<longrightarrow> csc452_getattr d path s = Some r)
    \<and> (\<forall>path r. c_string path \<longrightarrow> spec_readdir fs path = Some r \<longrightarrow> csc452_readdir d path = Some r)
    \<and> (\<forall>path n off r. c_string path \<longrightarrow> spec_read fs path n off = Some r \<longrightarrow> csc452_read d path n off = Some r)"
proof -
  have "sum_list (map request_blocks qs) \<le> int blocks - 2" using assms(4) by simp
  from fs_run.run_refines [OF format_rel [OF assms(1,2)] assms(3) this assms(5)] obtain d where
    d: "run_requests (\<lambda>d q. csc452_oper q d) qs (format_disk blocks) = Some (rs, d)"
    and r: "fs_rel (int blocks - 2 - sum_list (map request_blocks qs)) d fs" by blast
  from r obtain t A B own where st: "stored d t fs A B own" by (auto simp: fs_rel_def holds_def)
  show ?thesis
    by (intro exI [of _ d] conjI allI impI d getattr_refines [OF st] readdir_refines [OF st] read_refines [OF st])
qed

definition note_requests :: "fs_request list" where
  "note_requests = [Mkdir ''/home'', Mknod ''/home/note.txt'', Write ''/home/note.txt'' ''abc'' 3 0, Mkdir ''/home'',
     Mkdir ''/tmp'', Mknod ''/tmp/x.c'', Write ''/tmp/x.c'' ''int'' 3 0, Write ''/home/note.txt'' ''XY'' 2 1]"

lemma note_run: "run_requests spec_oper note_requests []
    = Some ([0, 0, 3, - 17, 0, 0, 3, 2], [(''home'', [((''note'', ''txt''), ''aXY'')]), (''tmp'', [((''x'', ''c''), ''int'')])])"
  by (simp add: note_requests_def spec_mkdir_def spec_mknod_def spec_write_def scan_path_def MAX_FILENAME_def MAX_EXTENSION_def is_space_def Let_def)

theorem file_system_refines_witness:
  "\<exists>d. run_requests (\<lambda>d q. csc452_oper q d) note_requests (format_disk 16) = Some ([0, 0, 3, - 17, 0, 0, 3, 2], d)
     \<and> csc452_readdir d ''/'' = Some (0, [''.'', ''..'', ''home'', ''tmp'']) \<and> csc452_read d ''/home/note.txt'' 100 0 = Some (3, ''aXY'')
     \<and> csc452_read d ''/tmp/x.c'' 2 1 = Some (2, ''nt'')"
proof -
  have ok: "list_all (\<lambda>q. c_string (request_path q)) note_requests" "sum_list (map request_blocks note_requests) + 2 \<le> int 16"
    by (simp_all add: note_requests_def)
  have cs: "c_string ''/''" "c_string ''/home/note.txt''" "c_string ''/tmp/x.c''" by simp_all
  let ?fs = "[(''home'', [((''note'', ''txt''), ''aXY'')]), (''tmp'', [((''x'', ''c''), ''int'')])]"
  have obs: "spec_readdir ?fs ''/'' = Some (0, [''.'', ''..'', ''home'', ''tmp''])"
    "spec_read ?fs ''/home/note.txt'' 100 0 = Some (3, ''aXY'')" "spec_read ?fs ''/tmp/x.c'' 2 1 = Some (2, ''nt'')"
    by (simp_all add: spec_readdir_def spec_read_def scan_path_def find_file_def MAX_FILENAME_def MAX_EXTENSION_def is_space_def Let_def)
  from file_system_refines [OF _ _ ok note_run] obtain d where
    "run_requests (\<lambda>d q. csc452_oper q d) note_requests (format_disk 16) = Some ([0, 0, 3, - 17, 0, 0, 3, 2], d)"
    "\<forall>path r. c_string path \<longrightarrow> spec_readdir ?fs path = Some r \<longrightarrow> csc452_readdir d path = Some r"
    "\<forall>path n off r. c_string path \<longrightarrow> spec_read ?fs path n off = Some r \<longrightarrow> csc452_read d path n off = Some r" by auto
  with cs obs show ?thesis by blast
qed

end
