(* ===== verification/Hello_Fuse.thy ===== *)
theory Hello_Fuse
  imports Fuse_FS
begin

text \<open>
  The example file system \<open>src/File Systems Implementation/hello_fuse.c\<close>: one read-only file \<open>/hello\<close>. The comparison of offset and
  length and the sum \<open>offset + size\<close> are unsigned 64-bit operations and are written out as such.
\<close>

definition hello_str :: string where "hello_str = ''Hello World!'' @ [CHR 0x0A]"
definition hello_path :: string where "hello_path = ''/hello''"

definition HELLO_MODE :: int where "HELLO_MODE = 32768 + 292"

definition hello_getattr :: "string \<Rightarrow> int \<times> stat" where
  "hello_getattr path =
     (let stbuf = \<lparr>st_mode = 0, st_nlink = 0, st_size = 0\<rparr> in
      if path = ''/'' then (0, stbuf\<lparr>st_mode := DIR_MODE, st_nlink := 2\<rparr>)
      else if path = hello_path
      then (0, stbuf\<lparr>st_mode := HELLO_MODE, st_nlink := 1, st_size := int (length hello_str)\<rparr>)
      else (- ENOENT, stbuf))"

definition hello_readdir :: "string \<Rightarrow> int \<times> string list" where
  "hello_readdir path =
     (if path \<noteq> ''/'' then (- ENOENT, []) else (0, [''.'', ''..'', drop 1 hello_path]))"

definition hello_open :: "string \<Rightarrow> int \<Rightarrow> int" where
  "hello_open path flags =
     (if path \<noteq> hello_path then - ENOENT
      else if flags mod 4 \<noteq> 0 then - EACCES
      else 0)"

text \<open>
  The bytes copied to \<open>buf\<close> with the result. \<open>memcpy\<close> must stay within the literal and its terminator; \<open>None\<close> otherwise.
\<close>

definition hello_read :: "string \<Rightarrow> int \<Rightarrow> int \<Rightarrow> (int \<times> char list) option" where
  "hello_read path nbytes offset =
     (if path \<noteq> hello_path then Some (- ENOENT, [])
      else
        let len = int (length hello_str) in
        if u64 offset < len then
          let nbytes = (if u64 (offset + nbytes) > len then u64 (len - offset) else nbytes) in
          if 0 \<le> nbytes \<and> offset + nbytes \<le> len + 1
          then Some (s32 nbytes, take (nat nbytes) (drop (nat offset) (hello_str @ [NUL])))
          else None
        else Some (0, []))"

lemma hello_length [simp]: "length hello_str = 13"
  by (simp add: hello_str_def)

text \<open>
  A reader that asks for \<open>n\<close> bytes at a time until it gets none, as \<open>cat\<close> does.
\<close>

function read_all :: "int \<Rightarrow> int \<Rightarrow> char list option" where
  "read_all n offset =
     (case hello_read hello_path n offset of
        Some (r, bs) \<Rightarrow>
          if 0 < r \<and> 0 \<le> offset \<and> offset < 13 then map_option ((@) bs) (read_all n (offset + r)) else Some []
      | None \<Rightarrow> None)"
  by pat_completeness auto
termination by (relation "measure (\<lambda>(_, off). nat (13 - off))") auto

declare read_all.simps [simp del]

lemma hello_read_in_range:
  assumes "0 \<le> n" "0 \<le> off" "off < 9223372036854775808" "n < 9223372036854775808"
  shows "hello_read hello_path n off =
    (let bs = take (nat n) (drop (nat off) hello_str) in Some (int (length bs), bs))"
proof (cases "off < 13")
  case True
  have "u64 off = off" "u64 (off + n) = off + n" "u64 (13 - off) = 13 - off"
    using assms True by (auto intro!: u64_id)
  then show ?thesis using assms True
    by (auto simp: hello_read_def Let_def s32_id min_def nat_le_iff)
next
  case False
  then have "u64 off = off" using assms by (intro u64_id) auto
  with False show ?thesis by (simp add: hello_read_def)
qed

text \<open>
  The hello file. Reads of less than \<open>2 ^ 63\<close> bytes return exactly the bytes of the greeting from the offset on, and their number; a client that
  reads until nothing comes, in pieces of any positive size, gets the whole greeting, and its length is the size that
  \<open>getattr\<close> reports for the name that \<open>readdir\<close> lists. Any other path is refused, and so is opening for writing.
\<close>

theorem hello_file:
  "(\<forall>n off. 0 \<le> n \<and> n < 9223372036854775808 \<and> 0 \<le> off \<and> off < 9223372036854775808 \<longrightarrow>
      hello_read hello_path n off =
        Some (int (length (take (nat n) (drop (nat off) hello_str))), take (nat n) (drop (nat off) hello_str)))
   \<and> (\<forall>n. 0 < n \<and> n < 9223372036854775808 \<longrightarrow> read_all n 0 = Some hello_str)
   \<and> (\<forall>name \<in> set (drop 2 (snd (hello_readdir ''/''))).
        fst (hello_getattr (CHR ''/'' # name)) = 0 \<and> st_size (snd (hello_getattr (CHR ''/'' # name))) = int (length hello_str))
   \<and> (\<forall>p n off fl. p \<noteq> hello_path \<longrightarrow> hello_read p n off = Some (- ENOENT, []) \<and> hello_open p fl = - ENOENT)
   \<and> (\<forall>fl. hello_open hello_path fl = 0 \<longleftrightarrow> fl mod 4 = 0)"
proof (intro conjI allI impI ballI)
  fix n off :: int
  assume "0 \<le> n \<and> n < 9223372036854775808 \<and> 0 \<le> off \<and> off < 9223372036854775808"
  then show "hello_read hello_path n off =
    Some (int (length (take (nat n) (drop (nat off) hello_str))), take (nat n) (drop (nat off) hello_str))"
    by (simp add: hello_read_in_range Let_def)
next
  fix n :: int
  assume n: "0 < n \<and> n < 9223372036854775808"
  have "read_all n off = Some (drop (nat off) hello_str)" if "0 \<le> off" "off \<le> 13" for off
    using that
  proof (induction "nat (13 - off)" arbitrary: off rule: less_induct)
    case less
    let ?bs = "take (nat n) (drop (nat off) hello_str)"
    have r: "hello_read hello_path n off = Some (int (length ?bs), ?bs)"
      using n less.prems by (simp add: hello_read_in_range Let_def)
    show ?case
    proof (cases "off = 13")
      case True
      with r show ?thesis by (simp add: read_all.simps [of n 13])
    next
      case False
      then have len: "0 < length ?bs" "off + int (length ?bs) \<le> 13" "nat (off + int (length ?bs)) = nat off + length ?bs"
        using less.prems n by (auto simp: nat_add_distrib)
      have "read_all n (off + int (length ?bs)) = Some (drop (nat off + length ?bs) hello_str)"
        using less.hyps [of "off + int (length ?bs)"] len less.prems False by (simp only: len(3)) simp
      moreover have "?bs @ drop (nat off + length ?bs) hello_str = drop (nat off) hello_str"
        using append_take_drop_id [of "nat n" "drop (nat off) hello_str"] by (cases "nat n \<le> 13 - nat off") (simp_all add: add.commute)
      ultimately show ?thesis using r len(1) less.prems False by (simp add: read_all.simps [of n off])
    qed
  qed
  from this [of 0] show "read_all n 0 = Some hello_str" by simp
qed (auto simp: hello_readdir_def hello_getattr_def hello_path_def hello_read_def hello_open_def)

theorem hello_file_witness: "read_all 5 0 = Some hello_str \<and> hello_read ''/hello'' 4 6 = Some (4, ''Worl'')"
  using hello_file hello_path_def by (auto simp: hello_str_def numeral_nat)

end
