(* ===== verification/Kernel_User.thy ===== *)
theory Kernel_User
  imports C_Bytes
begin

text \<open>
  The interface through which the system calls of \<open>sys.c\<close> read and write the memory of the calling process. \<open>copy_to_user\<close> and
  \<open>copy_from_user\<close> belong to the rest of the kernel: they are fields of the record \<open>uaccess\<close>, and \<open>uaccess_ok\<close> is what their
  documentation promises. A result of 0 means that all bytes were copied; otherwise it is the number
  of bytes that were not.
\<close>

type_synonym umem = "nat \<Rightarrow> char"

record uaccess =
  copy_to_user :: "nat \<Rightarrow> char list \<Rightarrow> umem \<Rightarrow> nat \<times> umem"
  copy_from_user :: "nat \<Rightarrow> nat \<Rightarrow> umem \<Rightarrow> nat \<times> char list"

definition store :: "nat \<Rightarrow> char list \<Rightarrow> umem \<Rightarrow> umem" where
  "store a bs m = (\<lambda>x. if a \<le> x \<and> x < a + length bs then bs ! (x - a) else m x)"

definition load :: "umem \<Rightarrow> nat \<Rightarrow> nat \<Rightarrow> char list" where
  "load m a n = map m [a..<a + n]"

definition uaccess_ok :: "uaccess \<Rightarrow> bool" where
  "uaccess_ok ua \<longleftrightarrow>
     (\<forall>a bs m. fst (copy_to_user ua a bs m) = 0 \<longrightarrow> snd (copy_to_user ua a bs m) = store a bs m)
     \<and> (\<forall>a bs m x. x < a \<or> a + length bs \<le> x \<longrightarrow> snd (copy_to_user ua a bs m) x = m x)
     \<and> (\<forall>a n m. fst (copy_from_user ua a n m) = 0 \<longrightarrow> snd (copy_from_user ua a n m) = load m a n)"

text \<open>Memory that is mapped up to an address.\<close>

definition flat_access :: "nat \<Rightarrow> uaccess" where
  "flat_access lim = \<lparr>copy_to_user = (\<lambda>a bs m. if a + length bs \<le> lim then (0, store a bs m) else (length bs, m)),
     copy_from_user = (\<lambda>a n m. if a + n \<le> lim then (0, load m a n) else (n, []))\<rparr>"

lemma load_length [simp]: "length (load m a n) = n"
  by (simp add: load_def)

lemma load_store_same: "length bs = n \<Longrightarrow> load (store a bs m) a n = bs"
  by (auto simp: load_def store_def intro!: nth_equalityI)

lemma load_store_other: "a + n \<le> b \<or> b + length bs \<le> a \<Longrightarrow> load (store b bs m) a n = load m a n"
  by (auto simp: load_def store_def)

lemma load_take: "k \<le> n \<Longrightarrow> take k (load m a n) = load m a k"
  by (simp add: load_def take_map)

lemma load_drop: "drop k (load m a n) = load m (a + k) (n - k)"
  by (cases "k \<le> n") (simp_all add: load_def drop_map)

lemma load_part: "i + k \<le> n \<Longrightarrow> load m (a + i) k = take k (drop i (load m a n))"
  by (simp add: load_drop load_take)

lemma flat_access_ok: "uaccess_ok (flat_access lim)"
  by (auto simp: uaccess_ok_def flat_access_def store_def load_def fun_eq_iff)

lemma copy_to_userD:
  assumes "uaccess_ok ua" "copy_to_user ua a bs m = (r, m')"
  shows "r = 0 \<Longrightarrow> m' = store a bs m" "x < a \<or> a + length bs \<le> x \<Longrightarrow> m' x = m x"
  using assms unfolding uaccess_ok_def by (metis fst_conv snd_conv)+

lemma copy_from_userD: "uaccess_ok ua \<Longrightarrow> copy_from_user ua a n m = (0, bs) \<Longrightarrow> bs = load m a n"
  unfolding uaccess_ok_def by (metis fst_conv snd_conv)

lemma load_store_prefix: "length bs \<le> n \<Longrightarrow> load (store a bs m) a n = bs @ load m (a + length bs) (n - length bs)"
  by (rule nth_equalityI) (auto simp: load_def store_def nth_append)

end
