(* ===== verification/Kernel_Cred.thy ===== *)
theory Kernel_Cred
  imports Prelude
begin

unbundle bit_operations_syntax

text \<open>
  The system calls of \<open>src/Semaphore and Synchronization/sys.c\<close> that change the user and group ids of the
  calling task (\<open>setuid\<close> and its relatives) and those that report them.

  A call works on a copy of the credentials (\<open>prepare_creds\<close>), which it installs with
  \<open>commit_creds\<close> or drops with \<open>abort_creds\<close>. The functions of the kernel that are not in the repository (id maps, capabilities,
  security hooks, the allocation of credentials and user structures) are fields of \<open>cred_env\<close>, with their documented
  behaviour in \<open>cred_env_ok\<close>; the calls to those that take or drop references are recorded in \<open>cred_log\<close>.
  Ids are the 32-bit values of \<open>uid_t\<close> and \<open>kuid_t\<close>; \<open>NOID\<close> is \<open>(uid_t) -1\<close>.
  What the kernel documents of capabilities is a separate hypothesis, \<open>caps_env_ok\<close>, of the theorem on escalation only.
\<close>

section \<open>State\<close>

definition NOID :: int where "NOID = 4294967295"

record cred =
  c_uid :: int
  c_euid :: int
  c_suid :: int
  c_fsuid :: int
  c_gid :: int
  c_egid :: int
  c_sgid :: int
  c_fsgid :: int
  c_user :: nat
  c_user_ns :: nat
  c_caps :: nat

datatype cred_call = Prepare | Commit cred | Abort cred | Alloc_uid nat | Free_uid nat

record cred_task =
  cur_cred :: cred
  task_flags :: "32 word"
  cred_log :: "cred_call list"

datatype setid_kind = LSM_SETID_ID | LSM_SETID_RE | LSM_SETID_RES | LSM_SETID_FS
datatype setid_cap = CAP_SETUID | CAP_SETGID

record cred_env =
  make_kuid :: "nat \<Rightarrow> int \<Rightarrow> int"
  make_kgid :: "nat \<Rightarrow> int \<Rightarrow> int"
  uid_valid :: "int \<Rightarrow> bool"
  gid_valid :: "int \<Rightarrow> bool"
  from_kuid_munged :: "nat \<Rightarrow> int \<Rightarrow> int"
  from_kgid_munged :: "nat \<Rightarrow> int \<Rightarrow> int"
  ns_capable_setid :: "cred \<Rightarrow> nat \<Rightarrow> setid_cap \<Rightarrow> bool"
  new_creds :: "cred_task \<Rightarrow> cred option"
  commit_result :: "cred \<Rightarrow> int"
  security_task_fix_setuid :: "cred \<Rightarrow> cred \<Rightarrow> setid_kind \<Rightarrow> int \<times> cred"
  security_task_fix_setgid :: "cred \<Rightarrow> cred \<Rightarrow> setid_kind \<Rightarrow> int \<times> cred"
  find_or_alloc_uid :: "int \<Rightarrow> nat option"
  user_processes :: "nat \<Rightarrow> int"
  rlimit_NPROC :: int
  INIT_USER :: nat
  PF_NPROC_EXCEEDED :: "32 word"

text \<open>
  What the calls rely on: \<open>prepare_creds\<close> returns a copy of the current credentials or nothing, \<open>commit_creds\<close> returns 0, the
  security hooks may change the capabilities in the new credentials but not the ids.
\<close>

definition same_ids :: "cred \<Rightarrow> cred \<Rightarrow> bool" where
  "same_ids a b \<longleftrightarrow> a\<lparr>c_caps := 0\<rparr> = b\<lparr>c_caps := 0\<rparr>"

definition cred_env_ok :: "cred_env \<Rightarrow> bool" where
  "cred_env_ok env \<longleftrightarrow>
     (\<forall>t c. new_creds env t = Some c \<longrightarrow> c = cur_cred t)
     \<and> (\<forall>c. commit_result env c = 0)
     \<and> (\<forall>new old k. same_ids (snd (security_task_fix_setuid env new old k)) new)
     \<and> (\<forall>new old k. same_ids (snd (security_task_fix_setgid env new old k)) new)"

definition prepare_creds :: "cred_env \<Rightarrow> cred_task \<Rightarrow> (cred \<times> cred_task) option" where
  "prepare_creds env t = map_option (\<lambda>c. (c, t\<lparr>cred_log := cred_log t @ [Prepare]\<rparr>)) (new_creds env t)"

definition commit_creds :: "cred_env \<Rightarrow> cred \<Rightarrow> cred_task \<Rightarrow> int \<times> cred_task" where
  "commit_creds env new t = (commit_result env new, t\<lparr>cur_cred := new, cred_log := cred_log t @ [Commit new]\<rparr>)"

definition abort_creds :: "cred \<Rightarrow> cred_task \<Rightarrow> cred_task" where
  "abort_creds new t = t\<lparr>cred_log := cred_log t @ [Abort new]\<rparr>"

section \<open>The system calls\<close>

text \<open>
  The end of every call: the security hook, then the commit; an error aborts. \<open>fix\<close> is the
  hook for users or for groups.
\<close>

definition cred_finish ::
  "cred_env \<Rightarrow> (cred \<Rightarrow> cred \<Rightarrow> setid_kind \<Rightarrow> int \<times> cred) \<Rightarrow> setid_kind \<Rightarrow> cred \<Rightarrow> cred \<Rightarrow> cred_task \<Rightarrow> int \<times> cred_task" where
  "cred_finish env fix k new old t =
     (let (retval, new) = fix new old k in
      if retval < 0 then (retval, abort_creds new t) else commit_creds env new t)"

definition sys_setregid :: "cred_env \<Rightarrow> int \<Rightarrow> int \<Rightarrow> cred_task \<Rightarrow> int \<times> cred_task" where
  "sys_setregid env rgid egid t =
     (let ns = c_user_ns (cur_cred t); krgid = make_kgid env ns rgid; kegid = make_kgid env ns egid in
      if rgid \<noteq> NOID \<and> \<not> gid_valid env krgid then (- EINVAL, t)
      else if egid \<noteq> NOID \<and> \<not> gid_valid env kegid then (- EINVAL, t)
      else case prepare_creds env t of
        None \<Rightarrow> (- ENOMEM, t)
      | Some (new, t) \<Rightarrow>
          let old = cur_cred t; capable = ns_capable_setid env old (c_user_ns old) CAP_SETGID in
          if rgid \<noteq> NOID \<and> \<not> (c_gid old = krgid \<or> c_egid old = krgid \<or> capable)
          then (- EPERM, abort_creds new t)
          else
            let new = (if rgid \<noteq> NOID then new\<lparr>c_gid := krgid\<rparr> else new) in
            if egid \<noteq> NOID \<and> \<not> (c_gid old = kegid \<or> c_egid old = kegid \<or> c_sgid old = kegid \<or> capable)
            then (- EPERM, abort_creds new t)
            else
              let new = (if egid \<noteq> NOID then new\<lparr>c_egid := kegid\<rparr> else new);
                  new = (if rgid \<noteq> NOID \<or> (egid \<noteq> NOID \<and> kegid \<noteq> c_gid old)
                         then new\<lparr>c_sgid := c_egid new\<rparr> else new);
                  new = new\<lparr>c_fsgid := c_egid new\<rparr> in
              cred_finish env (security_task_fix_setgid env) LSM_SETID_RE new old t)"

definition sys_setgid :: "cred_env \<Rightarrow> int \<Rightarrow> cred_task \<Rightarrow> int \<times> cred_task" where
  "sys_setgid env gid t =
     (let ns = c_user_ns (cur_cred t); kgid = make_kgid env ns gid in
      if \<not> gid_valid env kgid then (- EINVAL, t)
      else case prepare_creds env t of
        None \<Rightarrow> (- ENOMEM, t)
      | Some (new, t) \<Rightarrow>
          let old = cur_cred t in
          if ns_capable_setid env old (c_user_ns old) CAP_SETGID then
            cred_finish env (security_task_fix_setgid env) LSM_SETID_ID
              (new\<lparr>c_gid := kgid, c_egid := kgid, c_sgid := kgid, c_fsgid := kgid\<rparr>) old t
          else if kgid = c_gid old \<or> kgid = c_sgid old then
            cred_finish env (security_task_fix_setgid env) LSM_SETID_ID (new\<lparr>c_egid := kgid, c_fsgid := kgid\<rparr>) old t
          else (- EPERM, abort_creds new t))"

definition set_user :: "cred_env \<Rightarrow> cred \<Rightarrow> cred_task \<Rightarrow> int \<times> cred \<times> cred_task" where
  "set_user env new t =
     (case find_or_alloc_uid env (c_uid new) of
        None \<Rightarrow> (- EAGAIN, new, t)
      | Some new_user \<Rightarrow>
          let t = t\<lparr>cred_log := cred_log t @ [Alloc_uid new_user]\<rparr>;
              t = (if user_processes env new_user \<ge> rlimit_NPROC env \<and> new_user \<noteq> INIT_USER env
                   then t\<lparr>task_flags := task_flags t OR PF_NPROC_EXCEEDED env\<rparr>
                   else t\<lparr>task_flags := task_flags t AND NOT (PF_NPROC_EXCEEDED env)\<rparr>) in
          (0, new\<lparr>c_user := new_user\<rparr>, t\<lparr>cred_log := cred_log t @ [Free_uid (c_user new)]\<rparr>))"

definition sys_setreuid :: "cred_env \<Rightarrow> int \<Rightarrow> int \<Rightarrow> cred_task \<Rightarrow> int \<times> cred_task" where
  "sys_setreuid env ruid euid t =
     (let ns = c_user_ns (cur_cred t); kruid = make_kuid env ns ruid; keuid = make_kuid env ns euid in
      if ruid \<noteq> NOID \<and> \<not> uid_valid env kruid then (- EINVAL, t)
      else if euid \<noteq> NOID \<and> \<not> uid_valid env keuid then (- EINVAL, t)
      else case prepare_creds env t of
        None \<Rightarrow> (- ENOMEM, t)
      | Some (new, t) \<Rightarrow>
          let old = cur_cred t; capable = ns_capable_setid env old (c_user_ns old) CAP_SETUID;
              new = (if ruid \<noteq> NOID then new\<lparr>c_uid := kruid\<rparr> else new) in
          if ruid \<noteq> NOID \<and> c_uid old \<noteq> kruid \<and> c_euid old \<noteq> kruid \<and> \<not> capable
          then (- EPERM, abort_creds new t)
          else
            let new = (if euid \<noteq> NOID then new\<lparr>c_euid := keuid\<rparr> else new) in
            if euid \<noteq> NOID \<and> c_uid old \<noteq> keuid \<and> c_euid old \<noteq> keuid \<and> c_suid old \<noteq> keuid \<and> \<not> capable
            then (- EPERM, abort_creds new t)
            else
              let (retval, new, t) = (if c_uid new \<noteq> c_uid old then set_user env new t else (0, new, t)) in
              if retval < 0 then (retval, abort_creds new t)
              else
                let new = (if ruid \<noteq> NOID \<or> (euid \<noteq> NOID \<and> keuid \<noteq> c_uid old)
                           then new\<lparr>c_suid := c_euid new\<rparr> else new);
                    new = new\<lparr>c_fsuid := c_euid new\<rparr> in
                cred_finish env (security_task_fix_setuid env) LSM_SETID_RE new old t)"

definition sys_setuid :: "cred_env \<Rightarrow> int \<Rightarrow> cred_task \<Rightarrow> int \<times> cred_task" where
  "sys_setuid env uid t =
     (let ns = c_user_ns (cur_cred t); kuid = make_kuid env ns uid in
      if \<not> uid_valid env kuid then (- EINVAL, t)
      else case prepare_creds env t of
        None \<Rightarrow> (- ENOMEM, t)
      | Some (new, t) \<Rightarrow>
          let old = cur_cred t;
              (retval, new, t) =
                (if ns_capable_setid env old (c_user_ns old) CAP_SETUID then
                   let new = new\<lparr>c_suid := kuid, c_uid := kuid\<rparr> in
                   if kuid \<noteq> c_uid old then set_user env new t else (0, new, t)
                 else if kuid \<noteq> c_uid old \<and> kuid \<noteq> c_suid new then (- EPERM, new, t)
                 else (0, new, t)) in
          if retval < 0 then (retval, abort_creds new t)
          else cred_finish env (security_task_fix_setuid env) LSM_SETID_ID (new\<lparr>c_fsuid := kuid, c_euid := kuid\<rparr>) old t)"

text \<open>The test of \<open>setresuid\<close> and \<open>setresgid\<close> for one id of an unprivileged caller.\<close>

definition res_denied :: "int \<Rightarrow> int \<Rightarrow> int \<Rightarrow> int \<Rightarrow> int \<Rightarrow> bool" where
  "res_denied i k r e s \<longleftrightarrow> i \<noteq> NOID \<and> k \<noteq> r \<and> k \<noteq> e \<and> k \<noteq> s"

definition sys_setresuid :: "cred_env \<Rightarrow> int \<Rightarrow> int \<Rightarrow> int \<Rightarrow> cred_task \<Rightarrow> int \<times> cred_task" where
  "sys_setresuid env ruid euid suid t =
     (let ns = c_user_ns (cur_cred t);
          kruid = make_kuid env ns ruid; keuid = make_kuid env ns euid; ksuid = make_kuid env ns suid in
      if ruid \<noteq> NOID \<and> \<not> uid_valid env kruid then (- EINVAL, t)
      else if euid \<noteq> NOID \<and> \<not> uid_valid env keuid then (- EINVAL, t)
      else if suid \<noteq> NOID \<and> \<not> uid_valid env ksuid then (- EINVAL, t)
      else case prepare_creds env t of
        None \<Rightarrow> (- ENOMEM, t)
      | Some (new, t) \<Rightarrow>
          let old = cur_cred t in
          if \<not> ns_capable_setid env old (c_user_ns old) CAP_SETUID
             \<and> (res_denied ruid kruid (c_uid old) (c_euid old) (c_suid old)
                \<or> res_denied euid keuid (c_uid old) (c_euid old) (c_suid old)
                \<or> res_denied suid ksuid (c_uid old) (c_euid old) (c_suid old))
          then (- EPERM, abort_creds new t)
          else
            let new = (if ruid \<noteq> NOID then new\<lparr>c_uid := kruid\<rparr> else new);
                (retval, new, t) =
                  (if ruid \<noteq> NOID \<and> kruid \<noteq> c_uid old then set_user env new t else (0, new, t)) in
            if retval < 0 then (retval, abort_creds new t)
            else
              let new = (if euid \<noteq> NOID then new\<lparr>c_euid := keuid\<rparr> else new);
                  new = (if suid \<noteq> NOID then new\<lparr>c_suid := ksuid\<rparr> else new);
                  new = new\<lparr>c_fsuid := c_euid new\<rparr> in
              cred_finish env (security_task_fix_setuid env) LSM_SETID_RES new old t)"

definition sys_setresgid :: "cred_env \<Rightarrow> int \<Rightarrow> int \<Rightarrow> int \<Rightarrow> cred_task \<Rightarrow> int \<times> cred_task" where
  "sys_setresgid env rgid egid sgid t =
     (let ns = c_user_ns (cur_cred t);
          krgid = make_kgid env ns rgid; kegid = make_kgid env ns egid; ksgid = make_kgid env ns sgid in
      if rgid \<noteq> NOID \<and> \<not> gid_valid env krgid then (- EINVAL, t)
      else if egid \<noteq> NOID \<and> \<not> gid_valid env kegid then (- EINVAL, t)
      else if sgid \<noteq> NOID \<and> \<not> gid_valid env ksgid then (- EINVAL, t)
      else case prepare_creds env t of
        None \<Rightarrow> (- ENOMEM, t)
      | Some (new, t) \<Rightarrow>
          let old = cur_cred t in
          if \<not> ns_capable_setid env old (c_user_ns old) CAP_SETGID
             \<and> (res_denied rgid krgid (c_gid old) (c_egid old) (c_sgid old)
                \<or> res_denied egid kegid (c_gid old) (c_egid old) (c_sgid old)
                \<or> res_denied sgid ksgid (c_gid old) (c_egid old) (c_sgid old))
          then (- EPERM, abort_creds new t)
          else
            let new = (if rgid \<noteq> NOID then new\<lparr>c_gid := krgid\<rparr> else new);
                new = (if egid \<noteq> NOID then new\<lparr>c_egid := kegid\<rparr> else new);
                new = (if sgid \<noteq> NOID then new\<lparr>c_sgid := ksgid\<rparr> else new);
                new = new\<lparr>c_fsgid := c_egid new\<rparr> in
            cred_finish env (security_task_fix_setgid env) LSM_SETID_RES new old t)"

definition sys_setfsuid :: "cred_env \<Rightarrow> int \<Rightarrow> cred_task \<Rightarrow> int \<times> cred_task" where
  "sys_setfsuid env uid t =
     (let old = cur_cred t; old_fsuid = from_kuid_munged env (c_user_ns old) (c_fsuid old);
          kuid = make_kuid env (c_user_ns old) uid in
      if \<not> uid_valid env kuid then (old_fsuid, t)
      else case prepare_creds env t of
        None \<Rightarrow> (old_fsuid, t)
      | Some (new, t) \<Rightarrow>
          if (kuid = c_uid old \<or> kuid = c_euid old \<or> kuid = c_suid old \<or> kuid = c_fsuid old
              \<or> ns_capable_setid env old (c_user_ns old) CAP_SETUID) \<and> kuid \<noteq> c_fsuid old
          then
            let (r, new) = security_task_fix_setuid env (new\<lparr>c_fsuid := kuid\<rparr>) old LSM_SETID_FS in
            if r = 0 then (old_fsuid, snd (commit_creds env new t)) else (old_fsuid, abort_creds new t)
          else (old_fsuid, abort_creds new t))"

definition sys_setfsgid :: "cred_env \<Rightarrow> int \<Rightarrow> cred_task \<Rightarrow> int \<times> cred_task" where
  "sys_setfsgid env gid t =
     (let old = cur_cred t; old_fsgid = from_kgid_munged env (c_user_ns old) (c_fsgid old);
          kgid = make_kgid env (c_user_ns old) gid in
      if \<not> gid_valid env kgid then (old_fsgid, t)
      else case prepare_creds env t of
        None \<Rightarrow> (old_fsgid, t)
      | Some (new, t) \<Rightarrow>
          if (kgid = c_gid old \<or> kgid = c_egid old \<or> kgid = c_sgid old \<or> kgid = c_fsgid old
              \<or> ns_capable_setid env old (c_user_ns old) CAP_SETGID) \<and> kgid \<noteq> c_fsgid old
          then
            let (r, new) = security_task_fix_setgid env (new\<lparr>c_fsgid := kgid\<rparr>) old LSM_SETID_FS in
            if r = 0 then (old_fsgid, snd (commit_creds env new t)) else (old_fsgid, abort_creds new t)
          else (old_fsgid, abort_creds new t))"

text \<open>
  The calls that report ids. \<open>put\<close> is the result of \<open>put_user\<close> at an address of the caller (0, or an error and nothing
  is stored); the stores are returned in order.
\<close>

definition put_three :: "(nat \<Rightarrow> int) \<Rightarrow> int \<times> int \<times> int \<Rightarrow> nat \<times> nat \<times> nat \<Rightarrow> int \<times> (nat \<times> int) list" where
  "put_three put v p =
     (let (r, e, s) = v; (rp, ep, sp) = p; retval = put rp in
      if retval = 0 then
        let w = [(rp, r)]; retval = put ep in
        if retval = 0 then
          let w = w @ [(ep, e)]; retval = put sp in
          if retval = 0 then (retval, w @ [(sp, s)]) else (retval, w)
        else (retval, w)
      else (retval, []))"

definition sys_getresuid :: "cred_env \<Rightarrow> (nat \<Rightarrow> int) \<Rightarrow> nat \<times> nat \<times> nat \<Rightarrow> cred_task \<Rightarrow> int \<times> (nat \<times> int) list" where
  "sys_getresuid env put ptrs t =
     (let cred = cur_cred t; show = from_kuid_munged env (c_user_ns cred) in
      put_three put (show (c_uid cred), show (c_euid cred), show (c_suid cred)) ptrs)"

definition sys_getresgid :: "cred_env \<Rightarrow> (nat \<Rightarrow> int) \<Rightarrow> nat \<times> nat \<times> nat \<Rightarrow> cred_task \<Rightarrow> int \<times> (nat \<times> int) list" where
  "sys_getresgid env put ptrs t =
     (let cred = cur_cred t; show = from_kgid_munged env (c_user_ns cred) in
      put_three put (show (c_gid cred), show (c_egid cred), show (c_sgid cred)) ptrs)"

definition sys_getuid :: "cred_env \<Rightarrow> cred_task \<Rightarrow> int" where
  "sys_getuid env t = from_kuid_munged env (c_user_ns (cur_cred t)) (c_uid (cur_cred t))"
definition sys_geteuid :: "cred_env \<Rightarrow> cred_task \<Rightarrow> int" where
  "sys_geteuid env t = from_kuid_munged env (c_user_ns (cur_cred t)) (c_euid (cur_cred t))"
definition sys_getgid :: "cred_env \<Rightarrow> cred_task \<Rightarrow> int" where
  "sys_getgid env t = from_kgid_munged env (c_user_ns (cur_cred t)) (c_gid (cur_cred t))"
definition sys_getegid :: "cred_env \<Rightarrow> cred_task \<Rightarrow> int" where
  "sys_getegid env t = from_kgid_munged env (c_user_ns (cur_cred t)) (c_egid (cur_cred t))"

text \<open>The requests of a task, in any order.\<close>

datatype setid_req = Setregid int int | Setgid int | Setreuid int int | Setuid int | Setresuid int int int
  | Setresgid int int int | Setfsuid int | Setfsgid int

fun setid_call :: "cred_env \<Rightarrow> setid_req \<Rightarrow> cred_task \<Rightarrow> int \<times> cred_task" where
  "setid_call env (Setregid r e) t = sys_setregid env r e t"
| "setid_call env (Setgid g) t = sys_setgid env g t"
| "setid_call env (Setreuid r e) t = sys_setreuid env r e t"
| "setid_call env (Setuid u) t = sys_setuid env u t"
| "setid_call env (Setresuid r e s) t = sys_setresuid env r e s t"
| "setid_call env (Setresgid r e s) t = sys_setresgid env r e s t"
| "setid_call env (Setfsuid u) t = sys_setfsuid env u t"
| "setid_call env (Setfsgid g) t = sys_setfsgid env g t"

section \<open>What one call does\<close>

definition uids :: "cred \<Rightarrow> int set" where "uids c = {c_uid c, c_euid c, c_suid c, c_fsuid c}"
definition gids :: "cred \<Rightarrow> int set" where "gids c = {c_gid c, c_egid c, c_sgid c, c_fsgid c}"

text \<open>
  The log of one call. The copy that was prepared is committed or aborted, once; when a user
  structure was allocated it replaces the one in the copy, and that one is freed.
\<close>

definition user_swap :: "cred \<Rightarrow> cred \<Rightarrow> cred_call list \<Rightarrow> bool" where
  "user_swap old new l \<longleftrightarrow>
     (l = [] \<and> c_user new = c_user old) \<or> l = [Alloc_uid (c_user new), Free_uid (c_user old)]"

definition transaction :: "bool \<Rightarrow> cred_task \<Rightarrow> int \<times> cred_task \<Rightarrow> bool" where
  "transaction returns_id t res \<longleftrightarrow>
     (case res of (r, t') \<Rightarrow>
        (t' = t \<and> (r < 0 \<or> returns_id))
        \<or> (\<exists>new l. user_swap (cur_cred t) new l \<and> cur_cred t' = cur_cred t \<and> (r < 0 \<or> returns_id)
             \<and> cred_log t' = cred_log t @ Prepare # l @ [Abort new])
        \<or> (\<exists>l. user_swap (cur_cred t) (cur_cred t') l \<and> (r = 0 \<or> returns_id)
             \<and> cred_log t' = cred_log t @ Prepare # l @ [Commit (cur_cred t')]))"

fun is_fs :: "setid_req \<Rightarrow> bool" where
  "is_fs (Setfsuid u) = True"
| "is_fs (Setfsgid g) = True"
| "is_fs _ = False"

text \<open>
  The abstract specification: which ids a call asks for (\<open>wanted\<close>), and when the caller may have them
  (\<open>allowed\<close>).
\<close>

fun wanted :: "cred_env \<Rightarrow> cred \<Rightarrow> setid_req \<Rightarrow> cred" where
  "wanted env c (Setregid r e) =
     (let kr = make_kgid env (c_user_ns c) r; ke = make_kgid env (c_user_ns c) e; eg = (if e = NOID then c_egid c else ke) in
      c\<lparr>c_gid := (if r = NOID then c_gid c else kr), c_egid := eg,
        c_sgid := (if r \<noteq> NOID \<or> (e \<noteq> NOID \<and> ke \<noteq> c_gid c) then eg else c_sgid c), c_fsgid := eg\<rparr>)"
| "wanted env c (Setgid g) =
     (let k = make_kgid env (c_user_ns c) g in
      if ns_capable_setid env c (c_user_ns c) CAP_SETGID then c\<lparr>c_gid := k, c_egid := k, c_sgid := k, c_fsgid := k\<rparr>
      else c\<lparr>c_egid := k, c_fsgid := k\<rparr>)"
| "wanted env c (Setreuid r e) =
     (let kr = make_kuid env (c_user_ns c) r; ke = make_kuid env (c_user_ns c) e; eu = (if e = NOID then c_euid c else ke) in
      c\<lparr>c_uid := (if r = NOID then c_uid c else kr), c_euid := eu,
        c_suid := (if r \<noteq> NOID \<or> (e \<noteq> NOID \<and> ke \<noteq> c_uid c) then eu else c_suid c), c_fsuid := eu\<rparr>)"
| "wanted env c (Setuid u) =
     (let k = make_kuid env (c_user_ns c) u in
      if ns_capable_setid env c (c_user_ns c) CAP_SETUID then c\<lparr>c_uid := k, c_euid := k, c_suid := k, c_fsuid := k\<rparr>
      else c\<lparr>c_euid := k, c_fsuid := k\<rparr>)"
| "wanted env c (Setresuid r e s) =
     (let k = make_kuid env (c_user_ns c); eu = (if e = NOID then c_euid c else k e) in
      c\<lparr>c_uid := (if r = NOID then c_uid c else k r), c_euid := eu, c_suid := (if s = NOID then c_suid c else k s), c_fsuid := eu\<rparr>)"
| "wanted env c (Setresgid r e s) =
     (let k = make_kgid env (c_user_ns c); eg = (if e = NOID then c_egid c else k e) in
      c\<lparr>c_gid := (if r = NOID then c_gid c else k r), c_egid := eg, c_sgid := (if s = NOID then c_sgid c else k s), c_fsgid := eg\<rparr>)"
| "wanted env c (Setfsuid u) = c\<lparr>c_fsuid := make_kuid env (c_user_ns c) u\<rparr>"
| "wanted env c (Setfsgid g) = c\<lparr>c_fsgid := make_kgid env (c_user_ns c) g\<rparr>"

fun allowed :: "cred_env \<Rightarrow> cred \<Rightarrow> setid_req \<Rightarrow> bool" where
  "allowed env c (Setregid r e) \<longleftrightarrow>
     ns_capable_setid env c (c_user_ns c) CAP_SETGID
     \<or> (r \<noteq> NOID \<longrightarrow> make_kgid env (c_user_ns c) r \<in> {c_gid c, c_egid c})
        \<and> (e \<noteq> NOID \<longrightarrow> make_kgid env (c_user_ns c) e \<in> {c_gid c, c_egid c, c_sgid c})"
| "allowed env c (Setgid g) \<longleftrightarrow>
     ns_capable_setid env c (c_user_ns c) CAP_SETGID \<or> make_kgid env (c_user_ns c) g \<in> {c_gid c, c_sgid c}"
| "allowed env c (Setreuid r e) \<longleftrightarrow>
     ns_capable_setid env c (c_user_ns c) CAP_SETUID
     \<or> (r \<noteq> NOID \<longrightarrow> make_kuid env (c_user_ns c) r \<in> {c_uid c, c_euid c})
        \<and> (e \<noteq> NOID \<longrightarrow> make_kuid env (c_user_ns c) e \<in> {c_uid c, c_euid c, c_suid c})"
| "allowed env c (Setuid u) \<longleftrightarrow>
     ns_capable_setid env c (c_user_ns c) CAP_SETUID \<or> make_kuid env (c_user_ns c) u \<in> {c_uid c, c_suid c}"
| "allowed env c (Setresuid r e s) \<longleftrightarrow>
     ns_capable_setid env c (c_user_ns c) CAP_SETUID
     \<or> (\<forall>i \<in> {r, e, s}. i \<noteq> NOID \<longrightarrow> make_kuid env (c_user_ns c) i \<in> {c_uid c, c_euid c, c_suid c})"
| "allowed env c (Setresgid r e s) \<longleftrightarrow>
     ns_capable_setid env c (c_user_ns c) CAP_SETGID
     \<or> (\<forall>i \<in> {r, e, s}. i \<noteq> NOID \<longrightarrow> make_kgid env (c_user_ns c) i \<in> {c_gid c, c_egid c, c_sgid c})"
| "allowed env c (Setfsuid u) \<longleftrightarrow>
     ns_capable_setid env c (c_user_ns c) CAP_SETUID \<or> make_kuid env (c_user_ns c) u \<in> uids c"
| "allowed env c (Setfsgid g) \<longleftrightarrow>
     ns_capable_setid env c (c_user_ns c) CAP_SETGID \<or> make_kgid env (c_user_ns c) g \<in> gids c"

text \<open>The requests whose ids are mapped in the caller's user namespace.\<close>

fun valid_req :: "cred_env \<Rightarrow> nat \<Rightarrow> setid_req \<Rightarrow> bool" where
  "valid_req env ns (Setregid r e) \<longleftrightarrow> (\<forall>i \<in> {r, e}. i \<noteq> NOID \<longrightarrow> gid_valid env (make_kgid env ns i))"
| "valid_req env ns (Setgid g) \<longleftrightarrow> gid_valid env (make_kgid env ns g)"
| "valid_req env ns (Setreuid r e) \<longleftrightarrow> (\<forall>i \<in> {r, e}. i \<noteq> NOID \<longrightarrow> uid_valid env (make_kuid env ns i))"
| "valid_req env ns (Setuid u) \<longleftrightarrow> uid_valid env (make_kuid env ns u)"
| "valid_req env ns (Setresuid r e s) \<longleftrightarrow> (\<forall>i \<in> {r, e, s}. i \<noteq> NOID \<longrightarrow> uid_valid env (make_kuid env ns i))"
| "valid_req env ns (Setresgid r e s) \<longleftrightarrow> (\<forall>i \<in> {r, e, s}. i \<noteq> NOID \<longrightarrow> gid_valid env (make_kgid env ns i))"
| "valid_req env ns (Setfsuid u) \<longleftrightarrow> uid_valid env (make_kuid env ns u)"
| "valid_req env ns (Setfsgid g) \<longleftrightarrow> gid_valid env (make_kgid env ns g)"

lemma same_ids_fields:
  assumes "same_ids a b"
  shows "c_uid a = c_uid b" "c_euid a = c_euid b" "c_suid a = c_suid b" "c_fsuid a = c_fsuid b"
    "c_gid a = c_gid b" "c_egid a = c_egid b" "c_sgid a = c_sgid b" "c_fsgid a = c_fsgid b"
    "c_user a = c_user b" "c_user_ns a = c_user_ns b" "uids a = uids b" "gids a = gids b"
  using assms by (cases a; cases b; simp add: same_ids_def uids_def gids_def)+

lemma prepare_creds_copy:
  "cred_env_ok env \<Longrightarrow> prepare_creds env t =
     (if new_creds env t = None then None else Some (cur_cred t, t\<lparr>cred_log := cred_log t @ [Prepare]\<rparr>))"
  by (auto simp: prepare_creds_def cred_env_ok_def)

lemma set_user_cases:
  assumes "set_user env new t = (r, new', t')"
  shows "(r = - EAGAIN \<and> new' = new \<and> t' = t)
    \<or> (r = 0 \<and> (\<exists>u. new' = new\<lparr>c_user := u\<rparr> \<and> cur_cred t' = cur_cred t
          \<and> cred_log t' = cred_log t @ [Alloc_uid u, Free_uid (c_user new)]))"
  using assms by (auto simp: set_user_def Let_def split: option.splits if_splits)

text \<open>The hook of a call keeps the ids.\<close>

definition hook_ok :: "(cred \<Rightarrow> cred \<Rightarrow> setid_kind \<Rightarrow> int \<times> cred) \<Rightarrow> bool" where
  "hook_ok fix \<longleftrightarrow> (\<forall>new old k. same_ids (snd (fix new old k)) new)"

lemma hooks_ok:
  "cred_env_ok env \<Longrightarrow> hook_ok (security_task_fix_setuid env)"
  "cred_env_ok env \<Longrightarrow> hook_ok (security_task_fix_setgid env)"
  by (simp_all add: cred_env_ok_def hook_ok_def)

lemma cred_finish_cases:
  assumes "cred_env_ok env" "hook_ok fix" "cred_finish env fix k new old t = (r, t')"
  shows "(\<exists>new'. same_ids new' new \<and> r < 0 \<and> t' = abort_creds new' t)
    \<or> (\<exists>new'. same_ids new' new \<and> new' = snd (fix new old k) \<and> 0 \<le> fst (fix new old k) \<and> r = 0 \<and> t' = t\<lparr>cur_cred := new', cred_log := cred_log t @ [Commit new']\<rparr>)"
proof -
  obtain r0 new' where f: "fix new old k = (r0, new')" by (cases "fix new old k")
  have "same_ids new' new" using assms(2) f by (metis hook_ok_def snd_conv)
  then show ?thesis using assms(1,3) f
    by (auto simp: cred_finish_def commit_creds_def cred_env_ok_def split: if_splits)
qed

lemma same_ids_refl [simp]: "same_ids a a"
  by (simp add: same_ids_def)

text \<open>The hook that a request goes through, and credentials that it has accepted.\<close>

fun hook_of :: "cred_env \<Rightarrow> setid_req \<Rightarrow> cred \<Rightarrow> cred \<Rightarrow> setid_kind \<Rightarrow> int \<times> cred" where
  "hook_of env (Setregid r e) = security_task_fix_setgid env"
| "hook_of env (Setgid g) = security_task_fix_setgid env"
| "hook_of env (Setresgid r e s) = security_task_fix_setgid env"
| "hook_of env (Setfsgid g) = security_task_fix_setgid env"
| "hook_of env (Setreuid r e) = security_task_fix_setuid env"
| "hook_of env (Setuid u) = security_task_fix_setuid env"
| "hook_of env (Setresuid r e s) = security_task_fix_setuid env"
| "hook_of env (Setfsuid u) = security_task_fix_setuid env"

definition hooked :: "cred_env \<Rightarrow> setid_req \<Rightarrow> cred \<Rightarrow> cred \<Rightarrow> bool" where
  "hooked env q old c \<longleftrightarrow> (\<exists>new k. c_caps new = c_caps old \<and> (k = LSM_SETID_FS \<longleftrightarrow> is_fs q)
     \<and> 0 \<le> fst (hook_of env q new old k) \<and> c = snd (hook_of env q new old k))"

lemma wanted_caps [simp]: "c_caps (wanted env c q) = c_caps c"
  by (cases q) (simp_all add: Let_def)

text \<open>
  The outcome of a call, with the abstract specification: what is committed was allowed and wanted, and the hook has accepted it.
\<close>

definition outcome :: "cred_env \<Rightarrow> setid_req \<Rightarrow> cred_task \<Rightarrow> int \<Rightarrow> cred_task \<Rightarrow> bool" where
  "outcome env q t r t' \<longleftrightarrow>
     (t' = t \<and> (r < 0 \<or> is_fs q))
     \<or> (\<exists>new l. user_swap (cur_cred t) new l \<and> cur_cred t' = cur_cred t \<and> (r < 0 \<or> is_fs q)
          \<and> cred_log t' = cred_log t @ Prepare # l @ [Abort new])
     \<or> (\<exists>l. user_swap (cur_cred t) (cur_cred t') l \<and> (r = 0 \<or> is_fs q)
          \<and> cred_log t' = cred_log t @ Prepare # l @ [Commit (cur_cred t')]
          \<and> allowed env (cur_cred t) q \<and> hooked env q (cur_cred t) (cur_cred t')
          \<and> same_ids (cur_cred t') ((wanted env (cur_cred t) q)\<lparr>c_user := c_user (cur_cred t')\<rparr>))"

lemma outcome_same: "r < 0 \<or> is_fs q \<Longrightarrow> outcome env q t r t"
  by (simp add: outcome_def)

lemma outcome_abort:
  assumes "r < 0 \<or> is_fs q" "user_swap (cur_cred t) new l" "cur_cred p = cur_cred t" "cred_log p = cred_log t @ Prepare # l"
  shows "outcome env q t r (abort_creds new p)"
  using assms unfolding outcome_def abort_creds_def by auto

lemma outcome_commit:
  assumes "r = 0 \<or> is_fs q" "user_swap (cur_cred t) new l" "cred_log t' = cred_log t @ Prepare # l @ [Commit new]" "cur_cred t' = new"
    "allowed env (cur_cred t) q" "hooked env q (cur_cred t) new" "same_ids new ((wanted env (cur_cred t) q)\<lparr>c_user := c_user new\<rparr>)"
  shows "outcome env q t r t'"
  using assms unfolding outcome_def by auto

lemma user_swap_same: "same_ids a b \<Longrightarrow> user_swap old a l = user_swap old b l"
  by (simp add: user_swap_def same_ids_fields)

lemma same_ids_trans: "same_ids a b \<Longrightarrow> same_ids b c \<Longrightarrow> same_ids a c"
  by (simp add: same_ids_def)

lemma outcome_finish:
  assumes f: "cred_finish env fix k new old p = (r, t')" and env: "cred_env_ok env" "hook_ok fix"
    and h: "fix = hook_of env q" "\<not> is_fs q" "k \<noteq> LSM_SETID_FS" "old = cur_cred t"
    and sw: "user_swap (cur_cred t) new l" "cur_cred p = cur_cred t" "cred_log p = cred_log t @ Prepare # l"
    and al: "allowed env (cur_cred t) q" and w: "new = (wanted env (cur_cred t) q)\<lparr>c_user := c_user new\<rparr>"
  shows "outcome env q t r t'"
  using cred_finish_cases [OF env f]
proof (elim disjE exE conjE)
  fix new' assume "same_ids new' new" "r < 0" "t' = abort_creds new' p"
  with sw show ?thesis by (auto intro!: outcome_abort simp: user_swap_same)
next
  fix new' assume n: "same_ids new' new" "new' = snd (fix new old k)" "0 \<le> fst (fix new old k)" "r = 0" "t' = p\<lparr>cur_cred := new', cred_log := cred_log p @ [Commit new']\<rparr>"
  have "same_ids new' ((wanted env (cur_cred t) q)\<lparr>c_user := c_user new'\<rparr>)"
    using n(1) w same_ids_fields(9) [OF n(1)] by metis
  moreover have "c_caps new = c_caps (cur_cred t)" by (subst w) simp
  with n h have "hooked env q (cur_cred t) new'" unfolding hooked_def by (intro exI [of _ new] exI [of _ k]) simp
  moreover have "user_swap (cur_cred t) new' l" using sw(1) user_swap_same [OF n(1)] by simp
  ultimately show ?thesis using n(4,5) sw al by (intro outcome_commit [where l = l and new = new']) simp_all
qed

lemma setgid_outcome: "cred_env_ok env \<Longrightarrow> sys_setgid env g t = (r, t') \<Longrightarrow> outcome env (Setgid g) t r t'"
  by (auto simp: sys_setgid_def Let_def user_swap_def hooks_ok prepare_creds_copy intro!: outcome_same outcome_abort [where l = "[]"]
    elim!: outcome_finish [where l = "[]"] split: if_splits)

lemma setregid_outcome: "cred_env_ok env \<Longrightarrow> sys_setregid env rg eg t = (r, t') \<Longrightarrow> outcome env (Setregid rg eg) t r t'"
  by (auto simp: sys_setregid_def Let_def user_swap_def hooks_ok prepare_creds_copy intro!: outcome_same outcome_abort [where l = "[]"]
    elim!: outcome_finish [where l = "[]"] split: if_splits)

lemma setresgid_outcome: "cred_env_ok env \<Longrightarrow> sys_setresgid env rg eg sg t = (r, t') \<Longrightarrow> outcome env (Setresgid rg eg sg) t r t'"
  by (auto simp: sys_setresgid_def Let_def user_swap_def hooks_ok prepare_creds_copy res_denied_def intro!: outcome_same outcome_abort [where l = "[]"]
    elim!: outcome_finish [where l = "[]"] split: if_splits)

lemma set_user_swap:
  assumes "(if b then set_user env new p else (0, new, p)) = (x, nu, p')"
    and "cur_cred p = cur_cred t" "cred_log p = cred_log t @ [Prepare]" "c_user new = c_user (cur_cred t)"
  shows "\<exists>l. user_swap (cur_cred t) nu l \<and> cur_cred p' = cur_cred t \<and> cred_log p' = cred_log t @ Prepare # l
    \<and> nu = new\<lparr>c_user := c_user nu\<rparr>"
proof (cases b)
  case True
  with assms(1) set_user_cases [of env new p x nu p'] show ?thesis
    using assms(2-4) by (auto simp: user_swap_def)
next
  case False
  with assms show ?thesis by (intro exI [of _ "[]"]) (auto simp: user_swap_def)
qed

text \<open>The tail of the calls that may change the real user id.\<close>

definition user_tail where
  "user_tail env fix k b new upd old p =
     (case if b then set_user env new p else (0, new, p) of
        (x, nu, p') \<Rightarrow> if x < 0 then (x, abort_creds nu p') else cred_finish env fix k (upd nu) old p')"

lemma outcome_user:
  assumes su: "user_tail env fix k b new upd old p = (r, t')"
    and env: "cred_env_ok env" "hook_ok fix" and h: "fix = hook_of env q" "\<not> is_fs q" "k \<noteq> LSM_SETID_FS" "old = cur_cred t"
    and p: "cur_cred p = cur_cred t" "cred_log p = cred_log t @ [Prepare]" "c_user new = c_user (cur_cred t)"
    and al: "allowed env (cur_cred t) q"
    and w: "\<And>u. upd (new\<lparr>c_user := u\<rparr>) = (wanted env (cur_cred t) q)\<lparr>c_user := u\<rparr>"
  shows "outcome env q t r t'"
proof -
  obtain x nu p' where x: "(if b then set_user env new p else (0, new, p)) = (x, nu, p')" by (metis surj_pair)
  from set_user_swap [OF this p] obtain l where l: "user_swap (cur_cred t) nu l" "cur_cred p' = cur_cred t"
    "cred_log p' = cred_log t @ Prepare # l" "nu = new\<lparr>c_user := c_user nu\<rparr>" by blast
  show ?thesis
  proof (cases "x < 0")
    case True
    with su x l show ?thesis by (auto simp: user_tail_def intro!: outcome_abort)
  next
    case False
    have u: "upd nu = (wanted env (cur_cred t) q)\<lparr>c_user := c_user nu\<rparr>" using w [of "c_user nu"] l(4) by simp
    then have "user_swap (cur_cred t) (upd nu) l" using l(1) by (simp add: user_swap_def)
    moreover from False su x have "cred_finish env fix k (upd nu) old p' = (r, t')" by (simp add: user_tail_def)
    ultimately show ?thesis using l env h al u by (auto intro: outcome_finish)
  qed
qed

lemma cur_cred_log: "cur_cred (t\<lparr>cred_log := l\<rparr>) = cur_cred t"
  by simp

lemma setreuid_tail:
  fixes env t
  defines "c \<equiv> cur_cred t"
  defines "k \<equiv> make_kuid env (c_user_ns c)"
  defines "new \<equiv> \<lambda>ru eu. c\<lparr>c_uid := if ru \<noteq> NOID then k ru else c_uid c, c_euid := if eu \<noteq> NOID then k eu else c_euid c\<rparr>"
  assumes env: "cred_env_ok env" "new_creds env t \<noteq> None" and q: "valid_req env (c_user_ns c) (Setreuid ru eu)" "allowed env c (Setreuid ru eu)"
  shows "sys_setreuid env ru eu t =
    user_tail env (security_task_fix_setuid env) LSM_SETID_RE (c_uid (new ru eu) \<noteq> c_uid c) (new ru eu)
      (\<lambda>nu. nu\<lparr>c_suid := (if ru \<noteq> NOID \<or> (eu \<noteq> NOID \<and> k eu \<noteq> c_uid c) then c_euid nu else c_suid nu), c_fsuid := c_euid nu\<rparr>)
      c (t\<lparr>cred_log := cred_log t @ [Prepare]\<rparr>)"
proof -
  let ?cap = "ns_capable_setid env c (c_user_ns c) CAP_SETUID"
  have d: "\<not> (ru \<noteq> NOID \<and> \<not> uid_valid env (k ru))" "\<not> (eu \<noteq> NOID \<and> \<not> uid_valid env (k eu))"
    "\<not> (ru \<noteq> NOID \<and> c_uid c \<noteq> k ru \<and> c_euid c \<noteq> k ru \<and> \<not> ?cap)"
    "\<not> (eu \<noteq> NOID \<and> c_uid c \<noteq> k eu \<and> c_euid c \<noteq> k eu \<and> c_suid c \<noteq> k eu \<and> \<not> ?cap)"
    using q by (auto simp: k_def c_def)
  have n: "(if eu \<noteq> NOID then (if ru \<noteq> NOID then c\<lparr>c_uid := k ru\<rparr> else c)\<lparr>c_euid := k eu\<rparr>
      else (if ru \<noteq> NOID then c\<lparr>c_uid := k ru\<rparr> else c)) = new ru eu"
    and u: "(if b then nu\<lparr>c_suid := c_euid nu\<rparr> else nu)\<lparr>c_fsuid := c_euid (if b then nu\<lparr>c_suid := c_euid nu\<rparr> else nu)\<rparr>
      = nu\<lparr>c_suid := (if b then c_euid nu else c_suid nu), c_fsuid := c_euid nu\<rparr>" for nu b
    by (simp_all add: new_def)
  show ?thesis
    unfolding sys_setreuid_def Let_def prepare_creds_copy [OF env(1)] user_tail_def
    by (simp only: d env(2) if_False option.case prod.case cur_cred_log n u simp_thms flip: c_def k_def)
qed

lemma setreuid_outcome:
  assumes env: "cred_env_ok env" and r: "sys_setreuid env ru eu t = (r, t')"
  shows "outcome env (Setreuid ru eu) t r t'"
proof (cases "valid_req env (c_user_ns (cur_cred t)) (Setreuid ru eu) \<and> new_creds env t \<noteq> None \<and> allowed env (cur_cred t) (Setreuid ru eu)")
  case True
  from r [unfolded setreuid_tail [OF env conjunct1 [OF conjunct2 [OF True]] conjunct1 [OF True] conjunct2 [OF conjunct2 [OF True]]]]
  show ?thesis
    by (rule outcome_user) (use env True in \<open>simp_all add: hooks_ok Let_def\<close>)
next
  case False
  with r env show ?thesis
    by (auto simp: sys_setreuid_def Let_def user_swap_def prepare_creds_copy intro!: outcome_same outcome_abort [where l = "[]"]
      split: if_splits)
qed

lemma setresuid_tail:
  fixes env t
  defines "c \<equiv> cur_cred t"
  defines "k \<equiv> make_kuid env (c_user_ns c)"
  assumes env: "cred_env_ok env" "new_creds env t \<noteq> None" and q: "valid_req env (c_user_ns c) (Setresuid ru eu su)" "allowed env c (Setresuid ru eu su)"
  shows "sys_setresuid env ru eu su t =
    user_tail env (security_task_fix_setuid env) LSM_SETID_RES (ru \<noteq> NOID \<and> k ru \<noteq> c_uid c) (if ru \<noteq> NOID then c\<lparr>c_uid := k ru\<rparr> else c)
      (\<lambda>nu. nu\<lparr>c_euid := (if eu \<noteq> NOID then k eu else c_euid nu), c_suid := (if su \<noteq> NOID then k su else c_suid nu),
        c_fsuid := (if eu \<noteq> NOID then k eu else c_euid nu)\<rparr>)
      c (t\<lparr>cred_log := cred_log t @ [Prepare]\<rparr>)"
proof -
  let ?den = "\<lambda>i. res_denied i (k i) (c_uid c) (c_euid c) (c_suid c)"
  have d: "\<not> (ru \<noteq> NOID \<and> \<not> uid_valid env (k ru))" "\<not> (eu \<noteq> NOID \<and> \<not> uid_valid env (k eu))"
    "\<not> (su \<noteq> NOID \<and> \<not> uid_valid env (k su))"
    "\<not> (\<not> ns_capable_setid env c (c_user_ns c) CAP_SETUID \<and> (?den ru \<or> ?den eu \<or> ?den su))"
    using q by (auto simp: res_denied_def k_def c_def)
  let ?e = "\<lambda>nu. if eu \<noteq> NOID then nu\<lparr>c_euid := k eu\<rparr> else nu"
  let ?s = "\<lambda>nu. if su \<noteq> NOID then nu\<lparr>c_suid := k su\<rparr> else nu"
  have u: "(?s (?e nu))\<lparr>c_fsuid := c_euid (?s (?e nu))\<rparr> = nu\<lparr>c_euid := (if eu \<noteq> NOID then k eu else c_euid nu),
    c_suid := (if su \<noteq> NOID then k su else c_suid nu), c_fsuid := (if eu \<noteq> NOID then k eu else c_euid nu)\<rparr>" for nu by simp
  show ?thesis
    unfolding sys_setresuid_def Let_def prepare_creds_copy [OF env(1)] user_tail_def
    by (simp only: d env(2) if_False option.case prod.case cur_cred_log u simp_thms flip: c_def k_def)
qed

lemma setresuid_outcome:
  assumes env: "cred_env_ok env" and r: "sys_setresuid env ru eu su t = (r, t')"
  shows "outcome env (Setresuid ru eu su) t r t'"
proof (cases "valid_req env (c_user_ns (cur_cred t)) (Setresuid ru eu su) \<and> new_creds env t \<noteq> None
    \<and> allowed env (cur_cred t) (Setresuid ru eu su)")
  case True
  from r [unfolded setresuid_tail [OF env conjunct1 [OF conjunct2 [OF True]] conjunct1 [OF True] conjunct2 [OF conjunct2 [OF True]]]]
  show ?thesis
    by (rule outcome_user) (use env True in \<open>simp_all add: hooks_ok Let_def\<close>)
next
  case False
  with r env show ?thesis
    by (auto simp: sys_setresuid_def Let_def user_swap_def prepare_creds_copy res_denied_def
      intro!: outcome_same outcome_abort [where l = "[]"] split: if_splits)
qed

lemma setuid_tail:
  fixes env t
  defines "c \<equiv> cur_cred t"
  defines "k \<equiv> make_kuid env (c_user_ns c)"
  assumes env: "cred_env_ok env" "new_creds env t \<noteq> None" "uid_valid env (k u)" "ns_capable_setid env c (c_user_ns c) CAP_SETUID"
  shows "sys_setuid env u t =
    user_tail env (security_task_fix_setuid env) LSM_SETID_ID (k u \<noteq> c_uid c) (c\<lparr>c_suid := k u, c_uid := k u\<rparr>)
      (\<lambda>nu. nu\<lparr>c_fsuid := k u, c_euid := k u\<rparr>) c (t\<lparr>cred_log := cred_log t @ [Prepare]\<rparr>)"
  unfolding sys_setuid_def Let_def prepare_creds_copy [OF env(1)] user_tail_def
  by (simp only: env(2-4) if_False if_True option.case prod.case cur_cred_log simp_thms flip: c_def k_def)

lemma setuid_outcome:
  assumes env: "cred_env_ok env" and r: "sys_setuid env u t = (r, t')"
  shows "outcome env (Setuid u) t r t'"
proof -
  let ?c = "cur_cred t"
  let ?k = "make_kuid env (c_user_ns ?c) u"
  consider "\<not> uid_valid env ?k \<or> new_creds env t = None"
    | "uid_valid env ?k" "new_creds env t \<noteq> None" "ns_capable_setid env ?c (c_user_ns ?c) CAP_SETUID"
    | "uid_valid env ?k" "new_creds env t \<noteq> None" "\<not> ns_capable_setid env ?c (c_user_ns ?c) CAP_SETUID" by blast
  then show ?thesis
  proof cases
    case 1
    with r env show ?thesis by (auto simp: sys_setuid_def Let_def prepare_creds_copy intro!: outcome_same split: if_splits)
  next
    case 2
    from r [unfolded setuid_tail [OF env 2(2,1,3)]] show ?thesis
      by (rule outcome_user) (use env 2 in \<open>simp_all add: hooks_ok Let_def\<close>)
  next
    case 3
    with r env show ?thesis
      by (auto simp: sys_setuid_def Let_def user_swap_def prepare_creds_copy hooks_ok
        intro!: outcome_abort [where l = "[]"] elim!: outcome_finish [where l = "[]"] split: if_splits)
  qed
qed

lemma hook_same_ids:
  assumes "cred_env_ok env"
  shows "security_task_fix_setuid env new old k = (x, n) \<Longrightarrow> same_ids n new"
    "security_task_fix_setgid env new old k = (x, n) \<Longrightarrow> same_ids n new"
  using assms by (metis cred_env_ok_def snd_conv)+

lemma setfs_outcome:
  assumes h: "hook_of env q new (cur_cred t) LSM_SETID_FS = (x, n)" "same_ids n new" and q: "is_fs q"
    and al: "allowed env (cur_cred t) q" and w: "new = wanted env (cur_cred t) q" "c_user new = c_user (cur_cred t)"
    and res: "(r, t') = (if x = 0 then (r, snd (commit_creds env n (t\<lparr>cred_log := cred_log t @ [Prepare]\<rparr>)))
      else (r, abort_creds n (t\<lparr>cred_log := cred_log t @ [Prepare]\<rparr>)))"
  shows "outcome env q t r t'"
proof (cases "x = 0")
  case True
  have u: "c_user n = c_user (wanted env (cur_cred t) q)" using w(1) same_ids_fields(9) [OF h(2)] by simp
  have same: "x\<lparr>c_user := c_user x\<rparr> = x" for x :: cred by simp
  have "same_ids n ((wanted env (cur_cred t) q)\<lparr>c_user := c_user n\<rparr>)" using h(2) w(1) by (simp only: u same)
  moreover have "hooked env q (cur_cred t) n"
    using h(1) True q w(1) unfolding hooked_def by (intro exI [of _ new] exI [of _ LSM_SETID_FS]) simp
  ultimately have "same_ids n ((wanted env (cur_cred t) q)\<lparr>c_user := c_user n\<rparr>) \<and> hooked env q (cur_cred t) n" ..
  with True res al q w h show ?thesis
    by (intro outcome_commit [where l = "[]" and new = n]) (auto simp: commit_creds_def user_swap_def same_ids_fields)
next
  case False
  with res q w h show ?thesis by (auto intro!: outcome_abort [where l = "[]"] simp: user_swap_def same_ids_fields)
qed

lemma setfsuid_outcome:
  assumes env: "cred_env_ok env" and r: "sys_setfsuid env u t = (r, t')"
  shows "outcome env (Setfsuid u) t r t'"
proof -
  let ?c = "cur_cred t"
  let ?k = "make_kuid env (c_user_ns ?c) u"
  let ?p = "t\<lparr>cred_log := cred_log t @ [Prepare]\<rparr>"
  let ?g = "(?k = c_uid ?c \<or> ?k = c_euid ?c \<or> ?k = c_suid ?c \<or> ?k = c_fsuid ?c
    \<or> ns_capable_setid env ?c (c_user_ns ?c) CAP_SETUID) \<and> ?k \<noteq> c_fsuid ?c"
  obtain x n where h: "security_task_fix_setuid env (?c\<lparr>c_fsuid := ?k\<rparr>) ?c LSM_SETID_FS = (x, n)" by (metis surj_pair)
  note s = hook_same_ids(1) [OF env h]
  show ?thesis
  proof (cases "uid_valid env ?k \<and> new_creds env t \<noteq> None \<and> ?g")
    case True
    then have "allowed env ?c (Setfsuid u)" by (auto simp: uids_def)
    moreover have "(r, t') = (if x = 0 then (r, snd (commit_creds env n ?p)) else (r, abort_creds n ?p))"
      using r True h by (auto simp: sys_setfsuid_def Let_def prepare_creds_copy [OF env] split: if_splits)
    ultimately show ?thesis by (intro setfs_outcome [where x = x and n = n and new = "?c\<lparr>c_fsuid := ?k\<rparr>"]) (use h s in auto)
  next
    case False
    with r show ?thesis
      by (auto simp: sys_setfsuid_def Let_def user_swap_def prepare_creds_copy [OF env]
        intro!: outcome_same outcome_abort [where l = "[]"] split: if_splits)
  qed
qed

lemma setfsgid_outcome:
  assumes env: "cred_env_ok env" and r: "sys_setfsgid env u t = (r, t')"
  shows "outcome env (Setfsgid u) t r t'"
proof -
  let ?c = "cur_cred t"
  let ?k = "make_kgid env (c_user_ns ?c) u"
  let ?p = "t\<lparr>cred_log := cred_log t @ [Prepare]\<rparr>"
  let ?g = "(?k = c_gid ?c \<or> ?k = c_egid ?c \<or> ?k = c_sgid ?c \<or> ?k = c_fsgid ?c
    \<or> ns_capable_setid env ?c (c_user_ns ?c) CAP_SETGID) \<and> ?k \<noteq> c_fsgid ?c"
  obtain x n where h: "security_task_fix_setgid env (?c\<lparr>c_fsgid := ?k\<rparr>) ?c LSM_SETID_FS = (x, n)" by (metis surj_pair)
  note s = hook_same_ids(2) [OF env h]
  show ?thesis
  proof (cases "gid_valid env ?k \<and> new_creds env t \<noteq> None \<and> ?g")
    case True
    then have "allowed env ?c (Setfsgid u)" by (auto simp: gids_def)
    moreover have "(r, t') = (if x = 0 then (r, snd (commit_creds env n ?p)) else (r, abort_creds n ?p))"
      using r True h by (auto simp: sys_setfsgid_def Let_def prepare_creds_copy [OF env] split: if_splits)
    ultimately show ?thesis by (intro setfs_outcome [where x = x and n = n and new = "?c\<lparr>c_fsgid := ?k\<rparr>"]) (use h s in auto)
  next
    case False
    with r show ?thesis
      by (auto simp: sys_setfsgid_def Let_def user_swap_def prepare_creds_copy [OF env]
        intro!: outcome_same outcome_abort [where l = "[]"] split: if_splits)
  qed
qed

lemma setid_outcome: "cred_env_ok env \<Longrightarrow> setid_call env q t = (r, t') \<Longrightarrow> outcome env q t r t'"
  by (cases q) (simp_all add: setregid_outcome setgid_outcome setreuid_outcome setuid_outcome setresuid_outcome
    setresgid_outcome setfsuid_outcome setfsgid_outcome)

section \<open>Sequences of calls\<close>

text \<open>
  The contract of a family of calls that can only shrink a set of ids unless the task is privileged,
  and what a sequence of them can reach.
\<close>

fun run_reqs :: "('q \<Rightarrow> 't \<Rightarrow> int \<times> 't) \<Rightarrow> 'q list \<Rightarrow> 't \<Rightarrow> 't" where
  "run_reqs call [] t = t"
| "run_reqs call (q # qs) t = run_reqs call qs (snd (call q t))"

locale id_family =
  fixes ok :: "'e \<Rightarrow> bool"
    and call :: "'e \<Rightarrow> 'q \<Rightarrow> 't \<Rightarrow> int \<times> 't"
    and ids :: "'t \<Rightarrow> int set"
    and priv :: "'e \<Rightarrow> 't \<Rightarrow> bool"
  assumes shrink: "ok env \<Longrightarrow> \<not> priv env t \<Longrightarrow> ids (snd (call env q t)) \<subseteq> ids t"
begin

lemma sequence:
  assumes "ok env" "\<And>k. k < length qs \<Longrightarrow> \<not> priv env (run_reqs (call env) (take k qs) t)"
  shows "ids (run_reqs (call env) qs t) \<subseteq> ids t"
  using assms(2)
proof (induction qs arbitrary: t)
  case Nil
  then show ?case by simp
next
  case (Cons q qs)
  have "ids (snd (call env q t)) \<subseteq> ids t" using shrink [OF assms(1)] Cons.prems [of 0] by simp
  moreover have "ids (run_reqs (call env) qs (snd (call env q t))) \<subseteq> ids (snd (call env q t))"
    using Cons.IH [of "snd (call env q t)"] Cons.prems [of "Suc k" for k] by simp
  ultimately show ?case by simp
qed

end

definition uid_priv :: "cred_env \<Rightarrow> cred_task \<Rightarrow> bool" where
  "uid_priv env t \<longleftrightarrow> ns_capable_setid env (cur_cred t) (c_user_ns (cur_cred t)) CAP_SETUID"
definition gid_priv :: "cred_env \<Rightarrow> cred_task \<Rightarrow> bool" where
  "gid_priv env t \<longleftrightarrow> ns_capable_setid env (cur_cred t) (c_user_ns (cur_cred t)) CAP_SETGID"

lemma wanted_uids:
  "allowed env c q \<Longrightarrow> \<not> ns_capable_setid env c (c_user_ns c) CAP_SETUID \<Longrightarrow> uids (wanted env c q) \<subseteq> uids c"
  by (cases q) (auto simp: uids_def Let_def)

lemma wanted_gids:
  "allowed env c q \<Longrightarrow> \<not> ns_capable_setid env c (c_user_ns c) CAP_SETGID \<Longrightarrow> gids (wanted env c q) \<subseteq> gids c"
  by (cases q) (auto simp: gids_def Let_def)

lemma outcome_ids:
  assumes "outcome env q t r t'"
  shows "cur_cred t' = cur_cred t
    \<or> (allowed env (cur_cred t) q \<and> uids (cur_cred t') = uids (wanted env (cur_cred t) q) \<and> gids (cur_cred t') = gids (wanted env (cur_cred t) q))"
proof -
  have u: "uids (c\<lparr>c_user := u\<rparr>) = uids c" "gids (c\<lparr>c_user := u\<rparr>) = gids c" for c u by (simp_all add: uids_def gids_def)
  from assms consider "cur_cred t' = cur_cred t" | "allowed env (cur_cred t) q"
    "same_ids (cur_cred t') ((wanted env (cur_cred t) q)\<lparr>c_user := c_user (cur_cred t')\<rparr>)"
    unfolding outcome_def by blast
  then show ?thesis
    by cases (use same_ids_fields(11,12) [of "cur_cred t'"] u in auto)
qed

interpretation uf: id_family cred_env_ok setid_call "\<lambda>t. uids (cur_cred t)" uid_priv
proof unfold_locales
  fix env t q
  assume "cred_env_ok env" "\<not> uid_priv env t"
  moreover obtain r t' where "setid_call env q t = (r, t')" by (metis surj_pair)
  ultimately show "uids (cur_cred (snd (setid_call env q t))) \<subseteq> uids (cur_cred t)"
    using outcome_ids [OF setid_outcome, of env q t r t'] wanted_uids [of env "cur_cred t" q] by (auto simp: uid_priv_def)
qed

interpretation gf: id_family cred_env_ok setid_call "\<lambda>t. gids (cur_cred t)" gid_priv
proof unfold_locales
  fix env t q
  assume "cred_env_ok env" "\<not> gid_priv env t"
  moreover obtain r t' where "setid_call env q t = (r, t')" by (metis surj_pair)
  ultimately show "gids (cur_cred (snd (setid_call env q t))) \<subseteq> gids (cur_cred t)"
    using outcome_ids [OF setid_outcome, of env q t r t'] wanted_gids [of env "cur_cred t" q] by (auto simp: gid_priv_def)
qed

section \<open>Properties\<close>

text \<open>A small system: identity id maps, user 0 is privileged, the hooks accept everything.\<close>

definition root_cred :: cred where
  "root_cred = \<lparr>c_uid = 0, c_euid = 0, c_suid = 0, c_fsuid = 0, c_gid = 0, c_egid = 0, c_sgid = 0, c_fsgid = 0,
     c_user = 0, c_user_ns = 0, c_caps = 0\<rparr>"

definition small_cred_env :: cred_env where
  "small_cred_env = \<lparr>make_kuid = (\<lambda>_ x. x), make_kgid = (\<lambda>_ x. x), uid_valid = (\<lambda>x. x \<noteq> NOID), gid_valid = (\<lambda>x. x \<noteq> NOID),
     from_kuid_munged = (\<lambda>_ x. x), from_kgid_munged = (\<lambda>_ x. x), ns_capable_setid = (\<lambda>c _ _. c_euid c = 0),
     new_creds = (\<lambda>t. Some (cur_cred t)), commit_result = (\<lambda>_. 0), security_task_fix_setuid = (\<lambda>n _ _. (0, n)),
     security_task_fix_setgid = (\<lambda>n _ _. (0, n)), find_or_alloc_uid = (\<lambda>u. Some (nat u)), user_processes = (\<lambda>_. 1), rlimit_NPROC = 10,
     INIT_USER = 0, PF_NPROC_EXCEEDED = 4096\<rparr>"

definition root_task :: cred_task where
  "root_task = \<lparr>cur_cred = root_cred, task_flags = 0, cred_log = []\<rparr>"

lemma small_cred_env_ok: "cred_env_ok small_cred_env"
  by (simp add: cred_env_ok_def small_cred_env_def)

text \<open>
  C11. The id calls are transactions that implement their specification. Whatever the environment answers, a call either leaves the task as it is, or prepares one
  copy of the credentials and aborts or commits exactly that copy, once; a user structure taken on the way ends up in the
  copy and the replaced one is released. An error (a negative result of a call that does not return an id) leaves the
  credentials unchanged. Changed credentials have exactly the ids the specification wants, and only when it allows them.
\<close>

theorem setid_transaction:
  assumes "cred_env_ok env" "setid_call env q t = (r, t')"
  shows "transaction (is_fs q) t (r, t') \<and> (r < 0 \<and> \<not> is_fs q \<longrightarrow> cur_cred t' = cur_cred t)
    \<and> (cur_cred t' \<noteq> cur_cred t \<longrightarrow> allowed env (cur_cred t) q
          \<and> same_ids (cur_cred t') ((wanted env (cur_cred t) q)\<lparr>c_user := c_user (cur_cred t')\<rparr>))"
  using setid_outcome [OF assms] unfolding outcome_def transaction_def by auto

theorem setid_transaction_witness:
  "transaction False root_task (setid_call small_cred_env (Setuid 1000) root_task)
   \<and> c_user (cur_cred (snd (setid_call small_cred_env (Setuid 1000) root_task))) = 1000"
  using setid_transaction [OF small_cred_env_ok, of "Setuid 1000" root_task "fst (setid_call small_cred_env (Setuid 1000) root_task)"
    "snd (setid_call small_cred_env (Setuid 1000) root_task)"]
  by (simp add: small_cred_env_def root_task_def root_cred_def sys_setuid_def Let_def prepare_creds_def NOID_def set_user_def
    cred_finish_def commit_creds_def)

lemma cred_finish_accepts:
  assumes "cred_env_ok env" "\<And>n c k. 0 \<le> fst (fix n c k)"
  shows "fst (cred_finish env fix k new old t) = 0"
proof -
  obtain x n where x: "fix new old k = (x, n)" by (metis surj_pair)
  with assms(2) [of new old k] have "\<not> x < 0" by simp
  with x assms(1) show ?thesis by (simp add: cred_finish_def commit_creds_def cred_env_ok_def)
qed

lemma user_tail_accepts:
  assumes "cred_env_ok env" "\<And>n c k. 0 \<le> fst (fix n c k)" "\<And>u. find_or_alloc_uid env u \<noteq> None"
  shows "fst (user_tail env fix k b new upd old p) = 0"
proof -
  obtain x nu p' where x: "(if b then set_user env new p else (0, new, p)) = (x, nu, p')" by (metis surj_pair)
  then have "x = 0" using assms(3) [of "c_uid new"] by (auto simp: set_user_def Let_def split: if_splits option.splits)
  with x cred_finish_accepts [OF assms(1,2)] show ?thesis by (simp add: user_tail_def)
qed

text \<open>Requests that the specification does not allow, call by call.\<close>

definition refusal :: "cred_env \<Rightarrow> cred_task \<Rightarrow> setid_req \<Rightarrow> int" where
  "refusal env t q = (if \<not> valid_req env (c_user_ns (cur_cred t)) q then - EINVAL else - EPERM)"

lemma refusal_cases:
  assumes "valid_req env (c_user_ns (cur_cred t)) q \<longleftrightarrow> \<not> v" "allowed env (cur_cred t) q \<longleftrightarrow> \<not> a"
    and "\<not> (valid_req env (c_user_ns (cur_cred t)) q \<and> allowed env (cur_cred t) q)"
  shows "refusal env t q = (if v then - EINVAL else - EPERM)" "v \<or> a"
  using assms by (auto simp: refusal_def)

lemma setregid_refused:
  assumes env: "cred_env_ok env" and mem: "new_creds env t \<noteq> None"
    and bad: "\<not> (valid_req env (c_user_ns (cur_cred t)) (Setregid rg eg) \<and> allowed env (cur_cred t) (Setregid rg eg))"
  shows "fst (sys_setregid env rg eg t) = refusal env t (Setregid rg eg)"
proof -
  let ?c = "cur_cred t" and ?q = "Setregid rg eg"
  let ?k = "make_kgid env (c_user_ns ?c)" and ?cap = "ns_capable_setid env ?c (c_user_ns ?c) CAP_SETGID"
  let ?b1 = "rg \<noteq> NOID \<and> \<not> gid_valid env (?k rg)"
  let ?b2 = "eg \<noteq> NOID \<and> \<not> gid_valid env (?k eg)"
  let ?b3 = "rg \<noteq> NOID \<and> \<not> (c_gid ?c = ?k rg \<or> c_egid ?c = ?k rg \<or> ?cap)"
  let ?b4 = "eg \<noteq> NOID \<and> \<not> (c_gid ?c = ?k eg \<or> c_egid ?c = ?k eg \<or> c_sgid ?c = ?k eg \<or> ?cap)"
  have "valid_req env (c_user_ns ?c) ?q \<longleftrightarrow> \<not> (?b1 \<or> ?b2)" "allowed env ?c ?q \<longleftrightarrow> \<not> (?b3 \<or> ?b4)" by (auto)
  note ref = refusal_cases [OF this bad]
  from ref(2) consider "?b1" | "\<not> ?b1" "?b2" | "\<not> ?b1" "\<not> ?b2" "?b3" | "\<not> ?b1" "\<not> ?b2" "\<not> ?b3" "?b4" by blast
  then show ?thesis
    by cases (simp_all only: ref(1) sys_setregid_def Let_def prepare_creds_copy [OF env] mem if_True if_False option.case prod.case cur_cred_log fst_conv simp_thms)
qed

lemma setreuid_refused:
  assumes env: "cred_env_ok env" and mem: "new_creds env t \<noteq> None"
    and bad: "\<not> (valid_req env (c_user_ns (cur_cred t)) (Setreuid ru eu) \<and> allowed env (cur_cred t) (Setreuid ru eu))"
  shows "fst (sys_setreuid env ru eu t) = refusal env t (Setreuid ru eu)"
proof -
  let ?c = "cur_cred t" and ?q = "Setreuid ru eu"
  let ?k = "make_kuid env (c_user_ns ?c)" and ?cap = "ns_capable_setid env ?c (c_user_ns ?c) CAP_SETUID"
  let ?b1 = "ru \<noteq> NOID \<and> \<not> uid_valid env (?k ru)"
  let ?b2 = "eu \<noteq> NOID \<and> \<not> uid_valid env (?k eu)"
  let ?b3 = "ru \<noteq> NOID \<and> c_uid ?c \<noteq> ?k ru \<and> c_euid ?c \<noteq> ?k ru \<and> \<not> ?cap"
  let ?b4 = "eu \<noteq> NOID \<and> c_uid ?c \<noteq> ?k eu \<and> c_euid ?c \<noteq> ?k eu \<and> c_suid ?c \<noteq> ?k eu \<and> \<not> ?cap"
  have "valid_req env (c_user_ns ?c) ?q \<longleftrightarrow> \<not> (?b1 \<or> ?b2)" "allowed env ?c ?q \<longleftrightarrow> \<not> (?b3 \<or> ?b4)" by (auto)
  note ref = refusal_cases [OF this bad]
  from ref(2) consider "?b1" | "\<not> ?b1" "?b2" | "\<not> ?b1" "\<not> ?b2" "?b3" | "\<not> ?b1" "\<not> ?b2" "\<not> ?b3" "?b4" by blast
  then show ?thesis
    by cases (simp_all only: ref(1) sys_setreuid_def Let_def prepare_creds_copy [OF env] mem if_True if_False option.case prod.case cur_cred_log fst_conv simp_thms)
qed

lemma setresuid_refused:
  assumes env: "cred_env_ok env" and mem: "new_creds env t \<noteq> None"
    and bad: "\<not> (valid_req env (c_user_ns (cur_cred t)) (Setresuid ru eu su) \<and> allowed env (cur_cred t) (Setresuid ru eu su))"
  shows "fst (sys_setresuid env ru eu su t) = refusal env t (Setresuid ru eu su)"
proof -
  let ?c = "cur_cred t" and ?q = "Setresuid ru eu su"
  let ?k = "make_kuid env (c_user_ns ?c)" and ?cap = "ns_capable_setid env ?c (c_user_ns ?c) CAP_SETUID"
  let ?den = "\<lambda>i. res_denied i (?k i) (c_uid ?c) (c_euid ?c) (c_suid ?c)"
  let ?b1 = "ru \<noteq> NOID \<and> \<not> uid_valid env (?k ru)"
  let ?b2 = "eu \<noteq> NOID \<and> \<not> uid_valid env (?k eu)"
  let ?b3 = "su \<noteq> NOID \<and> \<not> uid_valid env (?k su)"
  let ?b4 = "\<not> ?cap \<and> (?den ru \<or> ?den eu \<or> ?den su)"
  have "valid_req env (c_user_ns ?c) ?q \<longleftrightarrow> \<not> (?b1 \<or> ?b2 \<or> ?b3)" "allowed env ?c ?q \<longleftrightarrow> \<not> (?b4)" by (auto simp: res_denied_def)
  note ref = refusal_cases [OF this bad]
  from ref(2) consider "?b1" | "\<not> ?b1" "?b2" | "\<not> ?b1" "\<not> ?b2" "?b3" | "\<not> ?b1" "\<not> ?b2" "\<not> ?b3" "?b4" by blast
  then show ?thesis
    by cases (simp_all only: ref(1) sys_setresuid_def Let_def prepare_creds_copy [OF env] mem if_True if_False option.case prod.case cur_cred_log fst_conv simp_thms)
qed

lemma setresgid_refused:
  assumes env: "cred_env_ok env" and mem: "new_creds env t \<noteq> None"
    and bad: "\<not> (valid_req env (c_user_ns (cur_cred t)) (Setresgid rg eg sg) \<and> allowed env (cur_cred t) (Setresgid rg eg sg))"
  shows "fst (sys_setresgid env rg eg sg t) = refusal env t (Setresgid rg eg sg)"
proof -
  let ?c = "cur_cred t" and ?q = "Setresgid rg eg sg"
  let ?k = "make_kgid env (c_user_ns ?c)" and ?cap = "ns_capable_setid env ?c (c_user_ns ?c) CAP_SETGID"
  let ?den = "\<lambda>i. res_denied i (?k i) (c_gid ?c) (c_egid ?c) (c_sgid ?c)"
  let ?b1 = "rg \<noteq> NOID \<and> \<not> gid_valid env (?k rg)"
  let ?b2 = "eg \<noteq> NOID \<and> \<not> gid_valid env (?k eg)"
  let ?b3 = "sg \<noteq> NOID \<and> \<not> gid_valid env (?k sg)"
  let ?b4 = "\<not> ?cap \<and> (?den rg \<or> ?den eg \<or> ?den sg)"
  have "valid_req env (c_user_ns ?c) ?q \<longleftrightarrow> \<not> (?b1 \<or> ?b2 \<or> ?b3)" "allowed env ?c ?q \<longleftrightarrow> \<not> (?b4)" by (auto simp: res_denied_def)
  note ref = refusal_cases [OF this bad]
  from ref(2) consider "?b1" | "\<not> ?b1" "?b2" | "\<not> ?b1" "\<not> ?b2" "?b3" | "\<not> ?b1" "\<not> ?b2" "\<not> ?b3" "?b4" by blast
  then show ?thesis
    by cases (simp_all only: ref(1) sys_setresgid_def Let_def prepare_creds_copy [OF env] mem if_True if_False option.case prod.case cur_cred_log fst_conv simp_thms)
qed

text \<open>Requests that the specification allows.\<close>

lemma setregid_granted:
  assumes env: "cred_env_ok env" and mem: "new_creds env t \<noteq> None" and hook: "\<And>n c k. 0 \<le> fst (security_task_fix_setgid env n c k)"
    and q: "valid_req env (c_user_ns (cur_cred t)) (Setregid rg eg)" "allowed env (cur_cred t) (Setregid rg eg)"
  shows "fst (sys_setregid env rg eg t) = 0"
proof -
  let ?c = "cur_cred t"
  let ?k = "make_kgid env (c_user_ns ?c)" and ?cap = "ns_capable_setid env ?c (c_user_ns ?c) CAP_SETGID"
  have d: "\<not> (rg \<noteq> NOID \<and> \<not> gid_valid env (?k rg))" "\<not> (eg \<noteq> NOID \<and> \<not> gid_valid env (?k eg))"
    "\<not> (rg \<noteq> NOID \<and> \<not> (c_gid ?c = ?k rg \<or> c_egid ?c = ?k rg \<or> ?cap))"
    "\<not> (eg \<noteq> NOID \<and> \<not> (c_gid ?c = ?k eg \<or> c_egid ?c = ?k eg \<or> c_sgid ?c = ?k eg \<or> ?cap))"
    using q by auto
  show ?thesis unfolding sys_setregid_def Let_def prepare_creds_copy [OF env]
    by (simp only: d mem if_False option.case prod.case cur_cred_log cred_finish_accepts [OF env hook])
qed

lemma setresgid_granted:
  assumes env: "cred_env_ok env" and mem: "new_creds env t \<noteq> None" and hook: "\<And>n c k. 0 \<le> fst (security_task_fix_setgid env n c k)"
    and q: "valid_req env (c_user_ns (cur_cred t)) (Setresgid rg eg sg)" "allowed env (cur_cred t) (Setresgid rg eg sg)"
  shows "fst (sys_setresgid env rg eg sg t) = 0"
proof -
  let ?c = "cur_cred t"
  let ?k = "make_kgid env (c_user_ns ?c)"
  let ?den = "\<lambda>i. res_denied i (?k i) (c_gid ?c) (c_egid ?c) (c_sgid ?c)"
  have d: "\<not> (rg \<noteq> NOID \<and> \<not> gid_valid env (?k rg))" "\<not> (eg \<noteq> NOID \<and> \<not> gid_valid env (?k eg))"
    "\<not> (sg \<noteq> NOID \<and> \<not> gid_valid env (?k sg))"
    "\<not> (\<not> ns_capable_setid env ?c (c_user_ns ?c) CAP_SETGID \<and> (?den rg \<or> ?den eg \<or> ?den sg))"
    using q by (auto simp: res_denied_def)
  show ?thesis unfolding sys_setresgid_def Let_def prepare_creds_copy [OF env]
    by (simp only: d mem if_False option.case prod.case cur_cred_log cred_finish_accepts [OF env hook])
qed

lemma setuid_granted:
  assumes env: "cred_env_ok env" and mem: "new_creds env t \<noteq> None" "\<And>u. find_or_alloc_uid env u \<noteq> None"
    and hook: "\<And>n c k. 0 \<le> fst (security_task_fix_setuid env n c k)"
    and q: "valid_req env (c_user_ns (cur_cred t)) (Setuid u)" "allowed env (cur_cred t) (Setuid u)"
  shows "fst (sys_setuid env u t) = 0"
proof (cases "ns_capable_setid env (cur_cred t) (c_user_ns (cur_cred t)) CAP_SETUID")
  case True
  show ?thesis using setuid_tail [OF env mem(1) _ True, of u] q(1) by (simp only: valid_req.simps user_tail_accepts [OF env hook mem(2)])
next
  case False
  then show ?thesis using q mem(1) by (auto simp: sys_setuid_def Let_def prepare_creds_copy [OF env] cred_finish_accepts [OF env hook])
qed

lemma setid_granted:
  assumes env: "cred_env_ok env" and mem: "new_creds env t \<noteq> None" "\<And>u. find_or_alloc_uid env u \<noteq> None"
    and hook: "\<And>n c k. 0 \<le> fst (security_task_fix_setuid env n c k)" "\<And>n c k. 0 \<le> fst (security_task_fix_setgid env n c k)"
    and "\<not> is_fs q" and q: "valid_req env (c_user_ns (cur_cred t)) q" "allowed env (cur_cred t) q"
  shows "fst (setid_call env q t) = 0"
proof (cases q)
  case (Setreuid ru eu)
  show ?thesis using setreuid_tail [OF env mem(1) q [unfolded Setreuid]]
    by (simp only: Setreuid setid_call.simps user_tail_accepts [OF env hook(1) mem(2)])
next
  case (Setresuid ru eu su)
  show ?thesis using setresuid_tail [OF env mem(1) q [unfolded Setresuid]]
    by (simp only: Setresuid setid_call.simps user_tail_accepts [OF env hook(1) mem(2)])
next
  case (Setgid g)
  show ?thesis using q mem(1) unfolding Setgid
    by (auto simp: cred_finish_accepts [OF env hook(2)] sys_setgid_def prepare_creds_copy [OF env] Let_def)
next
  case (Setuid u)
  show ?thesis using setuid_granted [OF env mem hook(1) q [unfolded Setuid]] by (simp only: Setuid setid_call.simps)
next
  case (Setregid rg eg)
  show ?thesis using setregid_granted [OF env mem(1) hook(2) q [unfolded Setregid]] by (simp only: Setregid setid_call.simps)
next
  case (Setresgid rg eg sg)
  show ?thesis using setresgid_granted [OF env mem(1) hook(2) q [unfolded Setresgid]] by (simp only: Setresgid setid_call.simps)
qed (use assms(6) in simp_all)

lemma setid_refused:
  assumes env: "cred_env_ok env" and mem: "new_creds env t \<noteq> None" and "\<not> is_fs q"
    and bad: "\<not> (valid_req env (c_user_ns (cur_cred t)) q \<and> allowed env (cur_cred t) q)"
  shows "fst (setid_call env q t) = refusal env t q"
proof (cases q)
  case (Setgid g)
  with bad mem show ?thesis by (auto simp: sys_setgid_def prepare_creds_copy [OF env] Let_def refusal_def)
next
  case (Setuid u)
  with bad mem show ?thesis by (auto simp: sys_setuid_def prepare_creds_copy [OF env] Let_def refusal_def)
next
  case (Setregid rg eg)
  show ?thesis using setregid_refused [OF env mem bad [unfolded Setregid]] by (simp only: Setregid setid_call.simps)
next
  case (Setreuid ru eu)
  show ?thesis using setreuid_refused [OF env mem bad [unfolded Setreuid]] by (simp only: Setreuid setid_call.simps)
next
  case (Setresuid ru eu su)
  show ?thesis using setresuid_refused [OF env mem bad [unfolded Setresuid]] by (simp only: Setresuid setid_call.simps)
next
  case (Setresgid rg eg sg)
  show ?thesis using setresgid_refused [OF env mem bad [unfolded Setresgid]] by (simp only: Setresgid setid_call.simps)
qed (use assms(3) in simp_all)

text \<open>
  C29. Which requests are granted. When the ids are mapped, memory and user structures can be had and the hooks agree, each of the six calls that set
  real, effective or saved ids returns 0 exactly when the specification allows the request, and \<open>EPERM\<close> otherwise; with an id
  that has no mapping it returns \<open>EINVAL\<close>.
\<close>

theorem setid_grants:
  assumes env: "cred_env_ok env" and mem: "new_creds env t \<noteq> None" "\<And>u. find_or_alloc_uid env u \<noteq> None"
    and hook: "\<And>n c k. 0 \<le> fst (security_task_fix_setuid env n c k)" "\<And>n c k. 0 \<le> fst (security_task_fix_setgid env n c k)"
    and "\<not> is_fs q"
  shows "fst (setid_call env q t) =
    (if \<not> valid_req env (c_user_ns (cur_cred t)) q then - EINVAL
     else if allowed env (cur_cred t) q then 0 else - EPERM)"
proof (cases "valid_req env (c_user_ns (cur_cred t)) q \<and> allowed env (cur_cred t) q")
  case True
  then show ?thesis using setid_granted [OF assms] by simp
next
  case False
  then show ?thesis using setid_refused [OF env mem(1) assms(6) False] by (simp add: refusal_def)
qed

theorem setid_grants_witness:
  "fst (setid_call small_cred_env (Setresuid 1 2 3) root_task) = 0"
  using setid_grants [OF small_cred_env_ok, of root_task "Setresuid 1 2 3"]
  by (simp add: small_cred_env_def root_task_def root_cred_def NOID_def)

section \<open>Capabilities\<close>

text \<open>
  What the kernel documents of capabilities. Whether a task may set ids in its own user namespace is decided by its capability
  sets, not by its ids. The hook of \<open>setgid\<close> keeps these sets. The hook of \<open>setuid\<close>, when it accepts, adds a capability only
  when the effective user id becomes root, and takes them all when root disappears from the real, effective and
  saved user id; for \<open>setfsuid\<close> it adds none. This is the default, without \<open>SECBIT_NO_SETUID_FIXUP\<close> and \<open>SECBIT_KEEP_CAPS\<close>.
\<close>

definition root_kuid :: "cred_env \<Rightarrow> cred \<Rightarrow> int" where
  "root_kuid env c = make_kuid env (c_user_ns c) 0"

definition resuids :: "cred \<Rightarrow> int set" where "resuids c = {c_uid c, c_euid c, c_suid c}"

definition can_set :: "cred_env \<Rightarrow> setid_cap \<Rightarrow> cred \<Rightarrow> bool" where
  "can_set env cap c \<longleftrightarrow> ns_capable_setid env c (c_user_ns c) cap"

definition caps_env_ok :: "cred_env \<Rightarrow> bool" where
  "caps_env_ok env \<longleftrightarrow>
     (\<forall>c c' cap. c_caps c' = c_caps c \<longrightarrow> c_user_ns c' = c_user_ns c \<longrightarrow> can_set env cap c' = can_set env cap c)
     \<and> (\<forall>new old k. c_caps (snd (security_task_fix_setgid env new old k)) = c_caps new)
     \<and> (\<forall>new old k cap. 0 \<le> fst (security_task_fix_setuid env new old k) \<longrightarrow>
          can_set env cap (snd (security_task_fix_setuid env new old k)) \<longrightarrow>
          can_set env cap new \<or> k \<noteq> LSM_SETID_FS \<and> c_euid old \<noteq> root_kuid env old \<and> c_euid new = root_kuid env old)
     \<and> (\<forall>new old k cap. 0 \<le> fst (security_task_fix_setuid env new old k) \<longrightarrow> k \<noteq> LSM_SETID_FS \<longrightarrow>
          root_kuid env old \<in> resuids old \<longrightarrow> root_kuid env old \<notin> resuids new \<longrightarrow>
          \<not> can_set env cap (snd (security_task_fix_setuid env new old k)))"

lemma caps_env_okD:
  assumes "caps_env_ok env"
  shows "c_caps c' = c_caps c \<Longrightarrow> c_user_ns c' = c_user_ns c \<Longrightarrow> can_set env cap c' = can_set env cap c"
    and "c_caps (snd (security_task_fix_setgid env new old k)) = c_caps new"
    and "0 \<le> fst (security_task_fix_setuid env new old k) \<Longrightarrow> can_set env cap (snd (security_task_fix_setuid env new old k)) \<Longrightarrow>
          can_set env cap new \<or> k \<noteq> LSM_SETID_FS \<and> c_euid old \<noteq> root_kuid env old \<and> c_euid new = root_kuid env old"
    and "0 \<le> fst (security_task_fix_setuid env new old k) \<Longrightarrow> k \<noteq> LSM_SETID_FS \<Longrightarrow> root_kuid env old \<in> resuids old \<Longrightarrow>
          root_kuid env old \<notin> resuids new \<Longrightarrow> \<not> can_set env cap (snd (security_task_fix_setuid env new old k))"
  using assms unfolding caps_env_ok_def by blast+

lemma priv_can_set: "uid_priv env t = can_set env CAP_SETUID (cur_cred t)" "gid_priv env t = can_set env CAP_SETGID (cur_cred t)"
  by (simp_all add: uid_priv_def gid_priv_def can_set_def)

text \<open>A task that can never get back to root: no capability, and root in none of the three ids.\<close>

definition rootless :: "cred_env \<Rightarrow> cred_task \<Rightarrow> bool" where
  "rootless env t \<longleftrightarrow> \<not> uid_priv env t \<and> \<not> gid_priv env t \<and> root_kuid env (cur_cred t) \<notin> resuids (cur_cred t)"

lemma same_ids_resuids: "same_ids a b \<Longrightarrow> resuids a = resuids b" "same_ids a b \<Longrightarrow> root_kuid env a = root_kuid env b"
  by (simp_all add: resuids_def root_kuid_def same_ids_fields)

lemma wanted_resuids:
  "allowed env c q \<Longrightarrow> \<not> can_set env CAP_SETUID c \<Longrightarrow> resuids (wanted env c q) \<subseteq> resuids c"
  by (cases q) (auto simp: resuids_def Let_def can_set_def)

lemma wanted_ns [simp]: "c_user_ns (wanted env c q) = c_user_ns c"
  by (cases q) (simp_all add: Let_def)

text \<open>What a call that changes the credentials did: the ids are those wanted, the hook had a copy with the old capabilities.\<close>

lemma changed_creds:
  assumes env: "cred_env_ok env" and o: "outcome env q t r t'"
  obtains "cur_cred t' = cur_cred t" "r < 0 \<or> is_fs q"
  | new k where "allowed env (cur_cred t) q" "resuids (cur_cred t') = resuids (wanted env (cur_cred t) q)"
    "uids (cur_cred t') = uids (wanted env (cur_cred t) q)" "c_user_ns (cur_cred t') = c_user_ns (cur_cred t)"
    "c_caps new = c_caps (cur_cred t)" "same_ids (cur_cred t') new" "k = LSM_SETID_FS \<longleftrightarrow> is_fs q"
    "0 \<le> fst (hook_of env q new (cur_cred t) k)" "cur_cred t' = snd (hook_of env q new (cur_cred t) k)"
proof -
  let ?c = "cur_cred t" and ?c' = "cur_cred t'"
  have f: "resuids (c\<lparr>c_user := u\<rparr>) = resuids c" "uids (c\<lparr>c_user := u\<rparr>) = uids c" for c u by (simp_all add: resuids_def uids_def)
  have keeps: "same_ids (snd (hook_of env q new old k)) new" for new old k
    using env by (cases q) (simp_all add: cred_env_ok_def)
  from o consider "?c' = ?c" "r < 0 \<or> is_fs q" | "allowed env ?c q" "hooked env q ?c ?c'"
    "same_ids ?c' ((wanted env ?c q)\<lparr>c_user := c_user ?c'\<rparr>)" unfolding outcome_def by blast
  then show ?thesis
  proof cases
    case 2
    from 2(2) obtain new k where "c_caps new = c_caps ?c" "k = LSM_SETID_FS \<longleftrightarrow> is_fs q" "0 \<le> fst (hook_of env q new ?c k)"
      "?c' = snd (hook_of env q new ?c k)" unfolding hooked_def by blast
    with 2 keeps [of new ?c k] same_ids_resuids(1) [OF 2(3)] same_ids_fields(10,11) [OF 2(3)] that(2) f show ?thesis by simp
  qed (use that in blast)
qed

lemma rootless_call:
  assumes env: "cred_env_ok env" "caps_env_ok env" and t: "rootless env t"
  shows "rootless env (snd (setid_call env q t))"
proof -
  obtain r t' where c: "setid_call env q t = (r, t')" by (metis surj_pair)
  let ?c = "cur_cred t" and ?c' = "cur_cred t'"
  note cap = caps_env_okD [OF env(2)]
  from t have no: "\<not> can_set env x ?c" and root: "root_kuid env ?c \<notin> resuids ?c" for x
    by (cases x; simp add: rootless_def priv_can_set)+
  have "rootless env t'"
  proof (rule changed_creds [OF env(1) setid_outcome [OF env(1) c]])
    fix new k
    assume a: "allowed env ?c q" "resuids ?c' = resuids (wanted env ?c q)" "uids ?c' = uids (wanted env ?c q)" "c_user_ns ?c' = c_user_ns ?c"
      and h: "c_caps new = c_caps ?c" "same_ids ?c' new" "k = LSM_SETID_FS \<longleftrightarrow> is_fs q"
        "0 \<le> fst (hook_of env q new ?c k)" "?c' = snd (hook_of env q new ?c k)"
    have r: "root_kuid env ?c' \<notin> resuids ?c'" "root_kuid env ?c' = root_kuid env ?c"
      using wanted_resuids [OF a(1) no] a(2,4) root by (auto simp: root_kuid_def)
    have new: "\<not> can_set env x new" "c_euid new \<noteq> root_kuid env ?c" for x
      using cap(1) [OF h(1)] no a(4) r same_ids_fields(2,10) [OF h(2)] by (auto simp: resuids_def)
    have "\<not> can_set env x ?c'" for x
    proof (cases "hook_of env q = security_task_fix_setgid env")
      case True
      then have "c_caps ?c' = c_caps new" using cap(2) h(5) by simp
      from cap(1) [OF this] new same_ids_fields(10) [OF h(2)] show ?thesis by simp
    next
      case False
      then have "hook_of env q = security_task_fix_setuid env" by (cases q) simp_all
      with cap(3) [of new ?c k x] h(4,5) new show ?thesis by auto
    qed
    with r show ?thesis by (simp add: rootless_def priv_can_set)
  qed (use t in \<open>simp add: rootless_def priv_can_set\<close>)
  with c show ?thesis by simp
qed

lemma rootless_run:
  assumes "cred_env_ok env" "caps_env_ok env" "rootless env t"
  shows "rootless env (run_reqs (setid_call env) qs t)"
  using assms(3) by (induction qs arbitrary: t) (simp_all add: rootless_call [OF assms(1,2)])

text \<open>While the task is unprivileged at every call.\<close>

lemma unprivileged_ids:
  assumes "cred_env_ok env"
  shows "\<forall>k < length qs. \<not> uid_priv env (run_reqs (setid_call env) (take k qs) t) \<Longrightarrow>
      uids (cur_cred (run_reqs (setid_call env) qs t)) \<subseteq> uids (cur_cred t)"
    and "\<forall>k < length qs. \<not> gid_priv env (run_reqs (setid_call env) (take k qs) t) \<Longrightarrow>
      gids (cur_cred (run_reqs (setid_call env) qs t)) \<subseteq> gids (cur_cred t)"
  by (rule uf.sequence [OF assms], blast) (rule gf.sequence [OF assms], blast)

lemma rootless_ids:
  assumes "cred_env_ok env" "caps_env_ok env" "rootless env t"
  shows "uids (cur_cred (run_reqs (setid_call env) qs t)) \<subseteq> uids (cur_cred t)"
    "gids (cur_cred (run_reqs (setid_call env) qs t)) \<subseteq> gids (cur_cred t)"
  using rootless_run [OF assms] by (simp_all add: unprivileged_ids [OF assms(1)] rootless_def)

text \<open>A privileged \<open>setuid\<close> from root to another user.\<close>

lemma setuid_drops:
  assumes env: "cred_env_ok env" "caps_env_ok env"
    and t: "uid_priv env t" "root_kuid env (cur_cred t) \<in> resuids (cur_cred t)"
    and u: "fst (sys_setuid env u t) = 0" "make_kuid env (c_user_ns (cur_cred t)) u \<noteq> root_kuid env (cur_cred t)"
  shows "rootless env (snd (sys_setuid env u t))"
    "uids (cur_cred (snd (sys_setuid env u t))) = {make_kuid env (c_user_ns (cur_cred t)) u}"
proof -
  obtain r t' where c: "sys_setuid env u t = (r, t')" by (metis surj_pair)
  let ?c = "cur_cred t" and ?c' = "cur_cred t'"
  let ?k = "make_kuid env (c_user_ns ?c) u"
  have "rootless env t' \<and> uids ?c' = {?k}"
  proof (rule changed_creds [OF env(1) setuid_outcome [OF env(1) c]])
    fix new k
    assume a: "resuids ?c' = resuids (wanted env ?c (Setuid u))" "uids ?c' = uids (wanted env ?c (Setuid u))" "c_user_ns ?c' = c_user_ns ?c"
      and h: "same_ids ?c' new" "k = LSM_SETID_FS \<longleftrightarrow> is_fs (Setuid u)"
        "0 \<le> fst (hook_of env (Setuid u) new ?c k)" "?c' = snd (hook_of env (Setuid u) new ?c k)"
    have ids: "resuids ?c' = {?k}" "uids ?c' = {?k}"
      using a t(1) by (simp_all add: uid_priv_def resuids_def uids_def Let_def)
    then have "root_kuid env ?c \<notin> resuids new" using u(2) same_ids_resuids(1) [OF h(1)] by auto
    then have "\<not> can_set env x ?c'" for x
      using caps_env_okD(4) [OF env(2), of new ?c k x] h t(2) by simp
    with ids u(2) a(3) show ?thesis by (simp add: rootless_def priv_can_set root_kuid_def)
  qed (use c u(1) in simp_all)
  with c show "rootless env (snd (sys_setuid env u t))" "uids (cur_cred (snd (sys_setuid env u t))) = {?k}" by simp_all
qed

text \<open>\<open>setreuid (-1, 0)\<close> of an unprivileged task.\<close>

lemma setreuid_root:
  assumes env: "cred_env_ok env" and mem: "new_creds env t \<noteq> None" "uid_valid env (root_kuid env (cur_cred t))"
    and hook: "\<And>n c k. 0 \<le> fst (security_task_fix_setuid env n c k)" and t: "\<not> uid_priv env t"
  shows "fst (sys_setreuid env NOID 0 t) = 0 \<and> c_euid (cur_cred (snd (sys_setreuid env NOID 0 t))) = root_kuid env (cur_cred t)
    \<longleftrightarrow> root_kuid env (cur_cred t) \<in> resuids (cur_cred t)"
proof -
  let ?c = "cur_cred t" and ?q = "Setreuid NOID 0"
  have al: "allowed env ?c ?q \<longleftrightarrow> root_kuid env ?c \<in> resuids ?c"
    using t by (auto simp: uid_priv_def resuids_def root_kuid_def NOID_def)
  have v: "valid_req env (c_user_ns ?c) ?q" using mem(2) by (simp add: root_kuid_def)
  obtain r t' where c: "sys_setreuid env NOID 0 t = (r, t')" by (metis surj_pair)
  show ?thesis
  proof (cases "allowed env ?c ?q")
    case False
    with setreuid_refused [OF env mem(1)] v have "fst (sys_setreuid env NOID 0 t) = - EPERM" by (simp add: refusal_def)
    with False al show ?thesis by simp
  next
    case True
    have "r = 0" using c setreuid_tail [OF env mem(1) v True] cred_finish_accepts [OF env hook]
      by (auto simp: user_tail_def dest: arg_cong [where f = fst])
    moreover from setreuid_outcome [OF env c] this have "same_ids (cur_cred t') ((wanted env ?c ?q)\<lparr>c_user := c_user (cur_cred t')\<rparr>)"
      unfolding outcome_def by auto
    from same_ids_fields(2) [OF this] have "c_euid (cur_cred t') = root_kuid env ?c" by (simp add: Let_def root_kuid_def NOID_def)
    ultimately show ?thesis using c True al by simp
  qed
qed

text \<open>
  C7. No way up, and who can get back. Under any rule for capabilities, as long as a task lacks the capability whenever it calls, no sequence of the eight calls gives it a user id
  (real, effective, saved or file system) it did not have at the start; the same for groups. Under the documented rule (\<open>caps_env_ok\<close>):
  a task that has neither capability, and has root neither as real nor as effective nor as saved user id, never gets a capability back and never gains a user or group id;
  a root task that drops to another user with \<open>setuid\<close> is such a task, and has that user in all four ids for good. The condition on root is sharp: when memory can be had and the
  hook accepts, \<open>setreuid (-1, 0)\<close> gives an unprivileged task the effective user id root exactly when root is one of the three ids.
\<close>

theorem setid_no_escalation:
  assumes env: "cred_env_ok env"
  shows "((\<forall>k < length qs. \<not> uid_priv env (run_reqs (setid_call env) (take k qs) t)) \<longrightarrow>
      uids (cur_cred (run_reqs (setid_call env) qs t)) \<subseteq> uids (cur_cred t))
    \<and> ((\<forall>k < length qs. \<not> gid_priv env (run_reqs (setid_call env) (take k qs) t)) \<longrightarrow>
      gids (cur_cred (run_reqs (setid_call env) qs t)) \<subseteq> gids (cur_cred t))
    \<and> (caps_env_ok env \<and> rootless env t \<longrightarrow>
      rootless env (run_reqs (setid_call env) qs t)
      \<and> uids (cur_cred (run_reqs (setid_call env) qs t)) \<subseteq> uids (cur_cred t)
      \<and> gids (cur_cred (run_reqs (setid_call env) qs t)) \<subseteq> gids (cur_cred t))
    \<and> (caps_env_ok env \<and> uid_priv env t \<and> root_kuid env (cur_cred t) \<in> resuids (cur_cred t)
        \<and> fst (sys_setuid env u t) = 0 \<and> make_kuid env (c_user_ns (cur_cred t)) u \<noteq> root_kuid env (cur_cred t) \<longrightarrow>
      rootless env (run_reqs (setid_call env) (Setuid u # qs) t)
      \<and> uids (cur_cred (run_reqs (setid_call env) (Setuid u # qs) t)) = {make_kuid env (c_user_ns (cur_cred t)) u})
    \<and> (\<not> uid_priv env t \<and> new_creds env t \<noteq> None \<and> uid_valid env (root_kuid env (cur_cred t))
        \<and> (\<forall>n c k. 0 \<le> fst (security_task_fix_setuid env n c k)) \<longrightarrow>
      (fst (sys_setreuid env NOID 0 t) = 0 \<and> c_euid (cur_cred (snd (sys_setreuid env NOID 0 t))) = root_kuid env (cur_cred t)
        \<longleftrightarrow> root_kuid env (cur_cred t) \<in> resuids (cur_cred t)))"
proof (intro conjI impI)
  assume "caps_env_ok env \<and> uid_priv env t \<and> root_kuid env (cur_cred t) \<in> resuids (cur_cred t)
    \<and> fst (sys_setuid env u t) = 0 \<and> make_kuid env (c_user_ns (cur_cred t)) u \<noteq> root_kuid env (cur_cred t)"
  then have caps: "caps_env_ok env" and "rootless env (snd (sys_setuid env u t))"
    and ids: "uids (cur_cred (snd (sys_setuid env u t))) = {make_kuid env (c_user_ns (cur_cred t)) u}"
    using setuid_drops [OF env] by blast+
  from rootless_run [OF env this(1,2)] rootless_ids(1) [OF env this(1,2)] ids
  show "rootless env (run_reqs (setid_call env) (Setuid u # qs) t)"
    "uids (cur_cred (run_reqs (setid_call env) (Setuid u # qs) t)) = {make_kuid env (c_user_ns (cur_cred t)) u}"
    using subset_singletonD [of "uids (cur_cred (run_reqs (setid_call env) qs (snd (sys_setuid env u t))))"]
    by (auto simp: uids_def [of "cur_cred (run_reqs _ _ _)"])
qed (use unprivileged_ids [OF env] rootless_run [OF env] rootless_ids [OF env] setreuid_root [OF env] in simp_all)

text \<open>
  A system with capabilities: \<open>c_caps\<close> is 2 when the id capabilities are effective, 1 when they are only permitted, and 0 without them;
  the hook follows the documented rule.
\<close>

definition cap_fixup :: "cred \<Rightarrow> cred \<Rightarrow> setid_kind \<Rightarrow> cred" where
  "cap_fixup new old k =
     (if k = LSM_SETID_FS then new
      else if 0 \<in> resuids old \<and> 0 \<notin> resuids new then new\<lparr>c_caps := 0\<rparr>
      else if c_euid old = 0 \<and> c_euid new \<noteq> 0 then new\<lparr>c_caps := min 1 (c_caps new)\<rparr>
      else if c_euid old \<noteq> 0 \<and> c_euid new = 0 \<and> c_caps new = 1 then new\<lparr>c_caps := 2\<rparr>
      else new)"

definition caps_cred_env :: cred_env where
  "caps_cred_env = small_cred_env\<lparr>ns_capable_setid := (\<lambda>c _ _. c_caps c = 2), security_task_fix_setuid := (\<lambda>n c k. (0, cap_fixup n c k))\<rparr>"

definition full_root_task :: cred_task where
  "full_root_task = root_task\<lparr>cur_cred := root_cred\<lparr>c_caps := 2\<rparr>\<rparr>"

lemma caps_cred_env_ok: "cred_env_ok caps_cred_env" "caps_env_ok caps_cred_env"
  by (auto simp: cred_env_ok_def caps_cred_env_def small_cred_env_def cap_fixup_def same_ids_def)
    (auto simp: caps_env_ok_def caps_cred_env_def small_cred_env_def cap_fixup_def can_set_def root_kuid_def resuids_def split: if_splits)

theorem setid_no_escalation_witness:
  "uids (cur_cred (run_reqs (setid_call caps_cred_env) [Setuid 1000, Setuid 0, Setresuid 0 0 0] full_root_task)) = {1000}
   \<and> (let t = snd (sys_setresuid caps_cred_env NOID 1000 NOID full_root_task) in
      \<not> uid_priv caps_cred_env t \<and> c_euid (cur_cred t) = 1000 \<and> c_euid (cur_cred (snd (sys_setreuid caps_cred_env NOID 0 t))) = 0)"
proof -
  note eval = caps_cred_env_def small_cred_env_def full_root_task_def root_task_def root_cred_def prepare_creds_def NOID_def
    set_user_def cred_finish_def commit_creds_def cap_fixup_def resuids_def root_kuid_def uid_priv_def Let_def
  let ?t = "snd (sys_setresuid caps_cred_env NOID 1000 NOID full_root_task)"
  have "uid_priv caps_cred_env full_root_task" "fst (sys_setuid caps_cred_env 1000 full_root_task) = 0"
    "root_kuid caps_cred_env (cur_cred full_root_task) = 0" "make_kuid caps_cred_env ns x = x"
    "resuids (cur_cred full_root_task) = {0}" for ns x
    by (simp_all add: sys_setuid_def eval)
  then have drop: "uids (cur_cred (run_reqs (setid_call caps_cred_env) [Setuid 1000, Setuid 0, Setresuid 0 0 0] full_root_task)) = {1000}"
    using setid_no_escalation [OF caps_cred_env_ok(1), of "[Setuid 0, Setresuid 0 0 0]" full_root_task 1000] caps_cred_env_ok(2) by simp
  have "\<not> uid_priv caps_cred_env ?t" "c_euid (cur_cred ?t) = 1000" "root_kuid caps_cred_env (cur_cred ?t) = 0" "0 \<in> resuids (cur_cred ?t)"
    "new_creds caps_cred_env ?t \<noteq> None" "uid_valid caps_cred_env 0" "\<And>n c k. 0 \<le> fst (security_task_fix_setuid caps_cred_env n c k)"
    by (simp_all add: sys_setresuid_def res_denied_def eval)
  then show ?thesis using drop setid_no_escalation [OF caps_cred_env_ok(1), of "[]" ?t 0] by (simp add: Let_def)
qed

end
