(* ===== verification/Kernel_Prio.thy ===== *)
theory Kernel_Prio
  imports Prelude
begin

text \<open>
  \<open>setpriority\<close> and \<open>getpriority\<close> of \<open>src/Semaphore and Synchronization/sys.c\<close>, with the helpers
  \<open>set_one_prio_perm\<close> and \<open>set_one_prio\<close>.

  The state holds the nice values of the tasks and a count of the references to user structures that a call takes
  (\<open>find_user\<close>) and returns (\<open>free_uid\<close>). The rest of the kernel is \<open>prio_env\<close>: the credentials, the process tables that the
  iteration macros walk, the permission functions; \<open>prio_env_ok\<close> states the documented behaviour the
  properties use. The calls run under the tasklist lock and are atomic here.
\<close>

section \<open>State and environment\<close>

definition MIN_NICE :: int where "MIN_NICE = - 20"
definition MAX_NICE :: int where "MAX_NICE = 19"
definition PRIO_PROCESS :: int where "PRIO_PROCESS = 0"
definition PRIO_PGRP :: int where "PRIO_PGRP = 1"
definition PRIO_USER :: int where "PRIO_USER = 2"

record prio_state =
  task_nice :: "nat \<Rightarrow> int"
  user_refs :: int

record prio_env =
  pe_current :: nat
  task_uid :: "nat \<Rightarrow> int"
  task_euid :: "nat \<Rightarrow> int"
  task_user_ns :: "nat \<Rightarrow> nat"
  ns_capable_nice :: "nat \<Rightarrow> bool"
  find_task_by_vpid :: "int \<Rightarrow> nat option"
  find_vpid :: "int \<Rightarrow> nat option"
  task_pgrp :: "nat \<Rightarrow> nat option"
  pgrp_threads :: "nat \<Rightarrow> nat list"
  all_threads :: "nat list"
  task_pid_vnr :: "nat \<Rightarrow> int"
  ns_make_kuid :: "nat \<Rightarrow> int \<Rightarrow> int"
  user_exists :: "int \<Rightarrow> bool"
  can_nice :: "nat \<Rightarrow> int \<Rightarrow> bool"
  security_task_setnice :: "nat \<Rightarrow> int \<Rightarrow> int"
  set_user_nice :: "nat \<Rightarrow> int \<Rightarrow> (nat \<Rightarrow> int) \<Rightarrow> nat \<Rightarrow> int"
  nice_to_rlimit :: "int \<Rightarrow> int"

definition prio_env_ok :: "prio_env \<Rightarrow> bool" where
  "prio_env_ok env \<longleftrightarrow>
     (\<forall>p n f. MIN_NICE \<le> n \<and> n \<le> MAX_NICE \<longrightarrow> set_user_nice env p n f = f(p := n))
     \<and> (\<forall>n. nice_to_rlimit env n = MAX_NICE - n + 1)
     \<and> (\<forall>p n. security_task_setnice env p n \<noteq> - ESRCH)"

section \<open>The system calls\<close>

definition set_one_prio_perm :: "prio_env \<Rightarrow> nat \<Rightarrow> bool" where
  "set_one_prio_perm env p =
     (if task_uid env p = task_euid env (pe_current env) \<or> task_euid env p = task_euid env (pe_current env) then True
      else if ns_capable_nice env (task_user_ns env p) then True
      else False)"

definition set_one_prio :: "prio_env \<Rightarrow> nat \<Rightarrow> int \<Rightarrow> int \<Rightarrow> prio_state \<Rightarrow> int \<times> prio_state" where
  "set_one_prio env p niceval error s =
     (if \<not> set_one_prio_perm env p then (- EPERM, s)
      else if niceval < task_nice s p \<and> \<not> can_nice env p niceval then (- EACCES, s)
      else
        let no_nice = security_task_setnice env p niceval in
        if no_nice \<noteq> 0 then (no_nice, s)
        else
          let error = (if error = - ESRCH then 0 else error) in
          (error, s\<lparr>task_nice := set_user_nice env p niceval (task_nice s)\<rparr>))"

text \<open>A loop of the iteration macros over a list of threads.\<close>

fun set_prio_loop :: "prio_env \<Rightarrow> int \<Rightarrow> nat list \<Rightarrow> int \<Rightarrow> prio_state \<Rightarrow> int \<times> prio_state" where
  "set_prio_loop env niceval [] error s = (error, s)"
| "set_prio_loop env niceval (p # ps) error s =
     (let (error, s) = set_one_prio env p niceval error s in set_prio_loop env niceval ps error s)"

definition user_threads :: "prio_env \<Rightarrow> int \<Rightarrow> nat list" where
  "user_threads env uid = filter (\<lambda>p. task_uid env p = uid \<and> task_pid_vnr env p \<noteq> 0) (all_threads env)"

definition setpriority :: "prio_env \<Rightarrow> int \<Rightarrow> int \<Rightarrow> int \<Rightarrow> prio_state \<Rightarrow> int \<times> prio_state" where
  "setpriority env which who niceval s =
     (if which > PRIO_USER \<or> which < PRIO_PROCESS then (- EINVAL, s)
      else
        let error = - ESRCH;
            niceval = (if niceval < MIN_NICE then MIN_NICE else niceval);
            niceval = (if niceval > MAX_NICE then MAX_NICE else niceval);
            cur = pe_current env in
        if which = PRIO_PROCESS then
          (case if who \<noteq> 0 then find_task_by_vpid env who else Some cur of
             Some p \<Rightarrow> set_one_prio env p niceval error s
           | None \<Rightarrow> (error, s))
        else if which = PRIO_PGRP then
          (case if who \<noteq> 0 then find_vpid env who else task_pgrp env cur of
             Some pgrp \<Rightarrow> set_prio_loop env niceval (pgrp_threads env pgrp) error s
           | None \<Rightarrow> (error, s))
        else
          let uid = ns_make_kuid env (task_user_ns env cur) who; cuid = task_uid env cur in
          if who = 0 then set_prio_loop env niceval (user_threads env cuid) error s
          else if uid \<noteq> cuid then
            if \<not> user_exists env uid then (error, s)
            else
              let s = s\<lparr>user_refs := user_refs s + 1\<rparr>;
                  (error, s) = set_prio_loop env niceval (user_threads env uid) error s in
              (error, s\<lparr>user_refs := user_refs s - 1\<rparr>)
          else set_prio_loop env niceval (user_threads env uid) error s)"

definition max_prio :: "prio_env \<Rightarrow> prio_state \<Rightarrow> nat \<Rightarrow> int \<Rightarrow> int" where
  "max_prio env s p retval =
     (let niceval = nice_to_rlimit env (task_nice s p) in if niceval > retval then niceval else retval)"

definition getpriority :: "prio_env \<Rightarrow> int \<Rightarrow> int \<Rightarrow> prio_state \<Rightarrow> int \<times> prio_state" where
  "getpriority env which who s =
     (if which > PRIO_USER \<or> which < PRIO_PROCESS then (- EINVAL, s)
      else
        let retval = - ESRCH; cur = pe_current env in
        if which = PRIO_PROCESS then
          (case if who \<noteq> 0 then find_task_by_vpid env who else Some cur of
             Some p \<Rightarrow> (max_prio env s p retval, s)
           | None \<Rightarrow> (retval, s))
        else if which = PRIO_PGRP then
          (case if who \<noteq> 0 then find_vpid env who else task_pgrp env cur of
             Some pgrp \<Rightarrow> (fold (max_prio env s) (pgrp_threads env pgrp) retval, s)
           | None \<Rightarrow> (retval, s))
        else
          let uid = ns_make_kuid env (task_user_ns env cur) who; cuid = task_uid env cur in
          if who = 0 then (fold (max_prio env s) (user_threads env cuid) retval, s)
          else if uid \<noteq> cuid then
            if \<not> user_exists env uid then (retval, s)
            else
              let s = s\<lparr>user_refs := user_refs s + 1\<rparr>;
                  retval = fold (max_prio env s) (user_threads env uid) retval in
              (retval, s\<lparr>user_refs := user_refs s - 1\<rparr>)
          else (fold (max_prio env s) (user_threads env uid) retval, s))"

section \<open>The tasks a call is about\<close>

definition targets :: "prio_env \<Rightarrow> int \<Rightarrow> int \<Rightarrow> nat list" where
  "targets env which who =
     (let cur = pe_current env in
      if which = PRIO_PROCESS then
        (case if who \<noteq> 0 then find_task_by_vpid env who else Some cur of Some p \<Rightarrow> [p] | None \<Rightarrow> [])
      else if which = PRIO_PGRP then
        (case if who \<noteq> 0 then find_vpid env who else task_pgrp env cur of Some g \<Rightarrow> pgrp_threads env g | None \<Rightarrow> [])
      else
        let uid = (if who = 0 then task_uid env cur else ns_make_kuid env (task_user_ns env cur) who) in
        if uid = task_uid env cur \<or> user_exists env uid then user_threads env uid else [])"

definition clamp :: "int \<Rightarrow> int" where "clamp n = max MIN_NICE (min MAX_NICE n)"

text \<open>The caller may give task \<open>p\<close> the nice value \<open>n\<close>.\<close>

definition may_set :: "prio_env \<Rightarrow> prio_state \<Rightarrow> int \<Rightarrow> nat \<Rightarrow> bool" where
  "may_set env s n p \<longleftrightarrow> set_one_prio_perm env p \<and> (task_nice s p \<le> n \<or> can_nice env p n) \<and> security_task_setnice env p n = 0"

lemma clamp_range: "MIN_NICE \<le> clamp n" "clamp n \<le> MAX_NICE"
  by (auto simp: clamp_def MIN_NICE_def MAX_NICE_def)

lemma user_refs_roundtrip [simp]: "(s\<lparr>user_refs := a\<rparr>)\<lparr>user_refs := user_refs s\<rparr> = (s :: prio_state)"
  by simp

lemma set_one_prio_effect:
  assumes "prio_env_ok env" "MIN_NICE \<le> n" "n \<le> MAX_NICE" "set_one_prio env p n e s = (e', s')"
  shows "s' = (if may_set env s n p then s\<lparr>task_nice := (task_nice s)(p := n)\<rparr> else s)"
    "e' = 0 \<longleftrightarrow> may_set env s n p \<and> (e = 0 \<or> e = - ESRCH)" "e' \<noteq> - ESRCH"
  using assms by (auto simp: set_one_prio_def may_set_def prio_env_ok_def Let_def split: if_splits)

lemma set_prio_loop_effect:
  assumes ok: "prio_env_ok env" "MIN_NICE \<le> n" "n \<le> MAX_NICE" and l: "set_prio_loop env n ps e s = (e', s')"
  shows "user_refs s' = user_refs s \<and>
    task_nice s' = (\<lambda>p. if p \<in> set ps \<and> may_set env s n p then n else task_nice s p) \<and>
    (e' = 0 \<longleftrightarrow> (\<forall>p \<in> set ps. may_set env s n p) \<and> (e = 0 \<or> (e = - ESRCH \<and> ps \<noteq> [])))"
  using l
proof (induction ps arbitrary: e s)
  case Nil
  then show ?case by auto
next
  case (Cons p ps)
  obtain e1 s1 where o: "set_one_prio env p n e s = (e1, s1)" by (metis surj_pair)
  note one = set_one_prio_effect [OF ok o]
  have may: "may_set env s1 n q = may_set env s n q" for q
    using one(1) by (auto simp: may_set_def)
  from Cons.prems o have "set_prio_loop env n ps e1 s1 = (e', s')" by simp
  from Cons.IH [OF this] have s': "user_refs s' = user_refs s1"
    "task_nice s' = (\<lambda>q. if q \<in> set ps \<and> may_set env s n q then n else task_nice s1 q)"
    "e' = 0 \<longleftrightarrow> (\<forall>q \<in> set ps. may_set env s n q) \<and> (e1 = 0 \<or> (e1 = - ESRCH \<and> ps \<noteq> []))" by (auto simp: may)
  have "task_nice s' = (\<lambda>q. if q \<in> set (p # ps) \<and> may_set env s n q then n else task_nice s q)"
    unfolding s'(2) using one(1) by (auto simp: fun_eq_iff)
  moreover have "e' = 0 \<longleftrightarrow> (\<forall>q \<in> set (p # ps). may_set env s n q) \<and> (e = 0 \<or> (e = - ESRCH \<and> p # ps \<noteq> []))"
    using s'(3) one(2,3) by auto
  moreover have "user_refs s' = user_refs s" using s'(1) one(1) by simp
  ultimately show ?case by blast
qed

lemma which_cases:
  "PRIO_PROCESS \<le> which \<Longrightarrow> which \<le> PRIO_USER \<Longrightarrow> which = PRIO_PROCESS \<or> which = PRIO_PGRP \<or> which = PRIO_USER"
  unfolding PRIO_PROCESS_def PRIO_PGRP_def PRIO_USER_def by linarith

lemma setpriority_targets:
  assumes "PRIO_PROCESS \<le> which" "which \<le> PRIO_USER"
  shows "\<exists>k. setpriority env which who niceval s =
    (let (e, s') = set_prio_loop env (clamp niceval) (targets env which who) (- ESRCH) (s\<lparr>user_refs := user_refs s + k\<rparr>)
     in (e, s'\<lparr>user_refs := user_refs s' - k\<rparr>))"
proof -
  have c: "(let n = (if niceval < MIN_NICE then MIN_NICE else niceval) in if n > MAX_NICE then MAX_NICE else n) = clamp niceval"
    by (auto simp: clamp_def MIN_NICE_def MAX_NICE_def)
  have z: "(let (e, s') = r in (e, s'\<lparr>user_refs := user_refs s' - 0\<rparr>)) = r" for r :: "int \<times> prio_state"
    by (cases r) simp
  have i: "(case set_one_prio env p n e s of (e, s) \<Rightarrow> set_prio_loop env m [] e s) = set_one_prio env p n e s" for p n e m
    by (cases "set_one_prio env p n e s") simp
  let ?k = "if which = PRIO_USER \<and> who \<noteq> 0 \<and> ns_make_kuid env (task_user_ns env (pe_current env)) who \<noteq> task_uid env (pe_current env)
    \<and> user_exists env (ns_make_kuid env (task_user_ns env (pe_current env)) who) then 1 else (0::int)"
  from assms consider "which = PRIO_PROCESS" | "which = PRIO_PGRP" | "which = PRIO_USER"
    using which_cases by blast
  then show ?thesis
  proof cases
    case 1
    then show ?thesis
      unfolding setpriority_def Let_def c [unfolded Let_def]
      by (intro exI [of _ 0]) (auto simp: targets_def Let_def z [unfolded Let_def] i PRIO_PROCESS_def
        PRIO_PGRP_def PRIO_USER_def split: option.splits)
  next
    case 2
    then show ?thesis
      unfolding setpriority_def Let_def c [unfolded Let_def]
      by (intro exI [of _ 0]) (auto simp: targets_def Let_def z [unfolded Let_def] PRIO_PROCESS_def
        PRIO_PGRP_def PRIO_USER_def split: option.splits)
  next
    case 3
    then show ?thesis
      unfolding setpriority_def Let_def c [unfolded Let_def]
      by (intro exI [of _ ?k]) (auto simp: targets_def Let_def z [unfolded Let_def] PRIO_PROCESS_def
        PRIO_PGRP_def PRIO_USER_def)
  qed
qed

lemma max_prio_refs [simp]: "max_prio env (s\<lparr>user_refs := r\<rparr>) = max_prio env s"
  by (simp add: max_prio_def fun_eq_iff)

lemma getpriority_targets:
  assumes "PRIO_PROCESS \<le> which" "which \<le> PRIO_USER"
  shows "getpriority env which who s = (fold (max_prio env s) (targets env which who) (- ESRCH), s)"
  using which_cases [OF assms]
proof (elim disjE)
  assume "which = PRIO_PROCESS"
  then show ?thesis
    by (auto simp: getpriority_def targets_def Let_def PRIO_PROCESS_def PRIO_PGRP_def PRIO_USER_def split: option.splits)
next
  assume "which = PRIO_PGRP"
  then show ?thesis
    by (auto simp: getpriority_def targets_def Let_def PRIO_PROCESS_def PRIO_PGRP_def PRIO_USER_def split: option.splits)
next
  assume "which = PRIO_USER"
  then show ?thesis
    by (auto simp: getpriority_def targets_def Let_def PRIO_PROCESS_def PRIO_PGRP_def PRIO_USER_def)
qed

lemma fold_max_prio_const:
  assumes "prio_env_ok env"
  shows "ps \<noteq> [] \<Longrightarrow> \<forall>p \<in> set ps. task_nice s p = n \<Longrightarrow> fold (max_prio env s) ps r = max (20 - n) r"
proof (induction ps arbitrary: r)
  case Nil
  then show ?case by simp
next
  case (Cons p ps)
  have "max_prio env s p r = max (20 - n) r"
    using assms Cons.prems(2) by (auto simp: max_prio_def prio_env_ok_def MAX_NICE_def Let_def max_def)
  then show ?case using Cons by (cases "ps = []") auto
qed

section \<open>Properties\<close>

text \<open>A small system with three tasks of two users; the caller is task 0.\<close>

definition small_prio_env :: prio_env where
  "small_prio_env = \<lparr>pe_current = 0, task_uid = (\<lambda>p. if p = 2 then 7 else 5), task_euid = (\<lambda>p. if p = 2 then 7 else 5), task_user_ns = (\<lambda>_. 0),
     ns_capable_nice = (\<lambda>_. False), find_task_by_vpid = (\<lambda>x. if 0 \<le> x \<and> x < 3 then Some (nat x) else None),
     find_vpid = (\<lambda>_. Some 0), task_pgrp = (\<lambda>_. Some 0), pgrp_threads = (\<lambda>_. [0, 1, 2]), all_threads = [0, 1, 2],
     task_pid_vnr = (\<lambda>p. int p + 1), ns_make_kuid = (\<lambda>_ u. u), user_exists = (\<lambda>u. u = 5 \<or> u = 7),
     can_nice = (\<lambda>_ _. False), security_task_setnice = (\<lambda>_ _. 0), set_user_nice = (\<lambda>p n f. f(p := n)), nice_to_rlimit = (\<lambda>n. 20 - n)\<rparr>"

lemma small_prio_env_ok: "prio_env_ok small_prio_env"
  by (simp add: prio_env_ok_def small_prio_env_def MAX_NICE_def)

text \<open>
  C30. \<open>setpriority\<close>. A bad selector gives \<open>EINVAL\<close>. Otherwise exactly the selected tasks whose owner, resource limit and security hook allow it
  get the nice value, limited to the range from -20 to 19; all other tasks keep theirs, and no reference
  to a user structure is left behind. The result is 0 exactly when a task was selected and all selected
  tasks could be changed.
\<close>

theorem setpriority_effect:
  assumes "prio_env_ok env" "setpriority env which who niceval s = (r, s')"
  shows "user_refs s' = user_refs s \<and>
    (if which < PRIO_PROCESS \<or> PRIO_USER < which then r = - EINVAL \<and> s' = s
     else task_nice s' = (\<lambda>p. if p \<in> set (targets env which who) \<and> may_set env s (clamp niceval) p then clamp niceval else task_nice s p)
       \<and> (r = 0 \<longleftrightarrow> targets env which who \<noteq> [] \<and> (\<forall>p \<in> set (targets env which who). may_set env s (clamp niceval) p)))"
proof (cases "which < PRIO_PROCESS \<or> PRIO_USER < which")
  case True
  with assms(2) show ?thesis by (auto simp: setpriority_def)
next
  case False
  then obtain k where "setpriority env which who niceval s =
    (let (e, s') = set_prio_loop env (clamp niceval) (targets env which who) (- ESRCH) (s\<lparr>user_refs := user_refs s + k\<rparr>)
     in (e, s'\<lparr>user_refs := user_refs s' - k\<rparr>))" using setpriority_targets [of which] by force
  moreover obtain e t where l: "set_prio_loop env (clamp niceval) (targets env which who) (- ESRCH) (s\<lparr>user_refs := user_refs s + k\<rparr>) = (e, t)"
    by (metis surj_pair)
  ultimately have r: "r = e" "s' = t\<lparr>user_refs := user_refs t - k\<rparr>" using assms(2) by auto
  have "may_set env (s\<lparr>user_refs := x\<rparr>) = may_set env s" for x by (simp add: may_set_def fun_eq_iff)
  with set_prio_loop_effect [OF assms(1) clamp_range l] False r show ?thesis by auto
qed

theorem setpriority_effect_witness:
  "fst (setpriority small_prio_env PRIO_PROCESS 1 100 \<lparr>task_nice = (\<lambda>_. 0), user_refs = 0\<rparr>) = 0"
proof -
  let ?s = "\<lparr>task_nice = (\<lambda>_. 0), user_refs = 0\<rparr> :: prio_state"
  obtain r s' where "setpriority small_prio_env PRIO_PROCESS 1 100 ?s = (r, s')" by (metis surj_pair)
  with setpriority_effect [OF small_prio_env_ok this] show ?thesis
    by (auto simp: targets_def small_prio_env_def PRIO_PROCESS_def PRIO_USER_def may_set_def set_one_prio_perm_def clamp_def
      MIN_NICE_def MAX_NICE_def)
qed

text \<open>
  Reading back. After a successful \<open>setpriority\<close> the same selection in \<open>getpriority\<close> returns 20 minus the limited nice value, a
  number from 1 to 40, and changes nothing.
\<close>

theorem getpriority_readback:
  assumes ok: "prio_env_ok env" and set: "setpriority env which who niceval s = (0, s')"
  shows "getpriority env which who s' = (20 - clamp niceval, s') \<and> 1 \<le> 20 - clamp niceval \<and> 20 - clamp niceval \<le> 40"
proof -
  have w: "PRIO_PROCESS \<le> which" "which \<le> PRIO_USER" using set by (auto simp: setpriority_def split: if_splits)
  then obtain k where "setpriority env which who niceval s =
    (let (e, s') = set_prio_loop env (clamp niceval) (targets env which who) (- ESRCH) (s\<lparr>user_refs := user_refs s + k\<rparr>)
     in (e, s'\<lparr>user_refs := user_refs s' - k\<rparr>))" using setpriority_targets by blast
  with set obtain t where l: "set_prio_loop env (clamp niceval) (targets env which who) (- ESRCH) (s\<lparr>user_refs := user_refs s + k\<rparr>) = (0, t)"
    "s' = t\<lparr>user_refs := user_refs t - k\<rparr>" by (auto simp: Let_def split: prod.splits)
  from set_prio_loop_effect [OF ok clamp_range l(1)] l(2)
  have "targets env which who \<noteq> []" "\<forall>p \<in> set (targets env which who). task_nice s' p = clamp niceval" by auto
  note best = fold_max_prio_const [OF ok this, of "- ESRCH"]
  have "1 \<le> 20 - clamp niceval" "20 - clamp niceval \<le> 40" using clamp_range [of niceval] by (auto simp: MIN_NICE_def MAX_NICE_def)
  with best show ?thesis by (simp add: getpriority_targets [OF w])
qed

theorem getpriority_readback_witness:
  "fst (getpriority small_prio_env PRIO_USER 5 (snd (setpriority small_prio_env PRIO_USER 5 12 \<lparr>task_nice = (\<lambda>_. 0), user_refs = 0\<rparr>))) = 8"
proof -
  let ?s = "\<lparr>task_nice = (\<lambda>_. 0), user_refs = 0\<rparr> :: prio_state"
  have "fst (setpriority small_prio_env PRIO_USER 5 12 ?s) = 0"
    by (simp add: setpriority_def small_prio_env_def PRIO_PROCESS_def PRIO_PGRP_def PRIO_USER_def user_threads_def set_one_prio_def
      set_one_prio_perm_def MIN_NICE_def MAX_NICE_def Let_def)
  then have "setpriority small_prio_env PRIO_USER 5 12 ?s = (0, snd (setpriority small_prio_env PRIO_USER 5 12 ?s))"
    by (metis prod.collapse)
  from getpriority_readback [OF small_prio_env_ok this] show ?thesis by (simp add: clamp_def MIN_NICE_def MAX_NICE_def)
qed

end
