(* ===== verification/Kernel_Pids.thy ===== *)
theory Kernel_Pids
  imports Prelude
begin

text \<open>
  Process groups and sessions: \<open>setpgid\<close>, \<open>getpgid\<close>, \<open>getsid\<close>, \<open>setsid\<close> and the calls that return process ids in
  \<open>src/Semaphore and Synchronization/sys.c\<close>.

  Threads are numbers; the threads of a process share a signal structure, which holds the process group, the
  session and the session-leader flag. The pid tables and \<open>change_pid\<close> are not in the repository and are fields
  of \<open>pid_env\<close>, with their documented behaviour in \<open>pid_env_ok\<close>. Each call holds the tasklist lock while it reads and
  changes the state, so it is one step of the state machine \<open>pid_step\<close>.
\<close>

section \<open>State and environment\<close>

record thread =
  t_pid :: nat
  t_signal :: nat
  group_leader :: nat
  real_parent :: nat
  forknoexec :: bool

record signal =
  s_pgrp :: "nat option"
  s_session :: "nat option"
  s_leader :: bool
  s_tty :: "nat option"

record pid_state =
  signals :: "nat \<Rightarrow> signal"

record pid_env =
  live :: "nat set"
  threads :: "nat \<Rightarrow> thread"
  task_of_vpid :: "int \<Rightarrow> nat option"
  pid_of_vpid :: "int \<Rightarrow> nat option"
  pid_vnr :: "nat option \<Rightarrow> int"
  pid_task_pgid :: "pid_state \<Rightarrow> nat option \<Rightarrow> nat option"
  security_task_setpgid :: "nat \<Rightarrow> int \<Rightarrow> int"
  security_task_getpgid :: "nat \<Rightarrow> int"
  security_task_getsid :: "nat \<Rightarrow> int"
  change_pgid :: "nat \<Rightarrow> nat option \<Rightarrow> pid_state \<Rightarrow> pid_state"
  change_sid :: "nat \<Rightarrow> nat option \<Rightarrow> pid_state \<Rightarrow> pid_state"
  proc_clear_tty :: "nat \<Rightarrow> pid_state \<Rightarrow> pid_state"

definition sig :: "pid_env \<Rightarrow> pid_state \<Rightarrow> nat \<Rightarrow> signal" where
  "sig env s p = signals s (t_signal (threads env p))"

definition upd_sig :: "pid_env \<Rightarrow> nat \<Rightarrow> (signal \<Rightarrow> signal) \<Rightarrow> pid_state \<Rightarrow> pid_state" where
  "upd_sig env p f s = s\<lparr>signals := (signals s)(t_signal (threads env p) := f (sig env s p))\<rparr>"

definition pgrp_of :: "pid_env \<Rightarrow> pid_state \<Rightarrow> nat \<Rightarrow> nat option" where "pgrp_of env s p = s_pgrp (sig env s p)"
definition session_of :: "pid_env \<Rightarrow> pid_state \<Rightarrow> nat \<Rightarrow> nat option" where "session_of env s p = s_session (sig env s p)"

text \<open>
  The tables: two processes share neither a pid nor a signal structure; lookups return live threads; \<open>pid_task\<close> finds a member of a
  group when there is one; \<open>change_pid\<close> moves the process of a thread, \<open>proc_clear_tty\<close> drops its terminal.
\<close>

definition pid_env_ok :: "pid_env \<Rightarrow> bool" where
  "pid_env_ok env \<longleftrightarrow>
     (\<forall>p \<in> live env. group_leader (threads env p) \<in> live env
        \<and> t_signal (threads env (group_leader (threads env p))) = t_signal (threads env p)
        \<and> group_leader (threads env (group_leader (threads env p))) = group_leader (threads env p))
     \<and> (\<forall>p \<in> live env. \<forall>q \<in> live env. t_pid (threads env p) = t_pid (threads env q) \<longrightarrow> p = q)
     \<and> (\<forall>p \<in> live env. \<forall>q \<in> live env. t_signal (threads env p) = t_signal (threads env q) \<longrightarrow>
          group_leader (threads env p) = group_leader (threads env q))
     \<and> (\<forall>v p. task_of_vpid env v = Some p \<longrightarrow> p \<in> live env) \<and> (\<forall>g. 0 \<le> pid_vnr env g)
     \<and> (\<forall>s g q. pid_task_pgid env s g = Some q \<longrightarrow> g \<noteq> None \<and> q \<in> live env \<and> pgrp_of env s q = g)
     \<and> (\<forall>s g. g \<noteq> None \<and> pid_task_pgid env s g = None \<longrightarrow> (\<forall>q \<in> live env. pgrp_of env s q \<noteq> g))
     \<and> (\<forall>p g s. change_pgid env p g s = upd_sig env p (\<lambda>x. x\<lparr>s_pgrp := g\<rparr>) s)
     \<and> (\<forall>p g s. change_sid env p g s = upd_sig env p (\<lambda>x. x\<lparr>s_session := g\<rparr>) s)
     \<and> (\<forall>p s. proc_clear_tty env p s = upd_sig env p (\<lambda>x. x\<lparr>s_tty := None\<rparr>) s)"

lemma pid_env_okD:
  assumes "pid_env_ok env"
  shows "p \<in> live env \<Longrightarrow> group_leader (threads env p) \<in> live env"
    "p \<in> live env \<Longrightarrow> group_leader (threads env (group_leader (threads env p))) = group_leader (threads env p)"
    "p \<in> live env \<Longrightarrow> q \<in> live env \<Longrightarrow> t_pid (threads env p) = t_pid (threads env q) \<Longrightarrow> p = q"
    "p \<in> live env \<Longrightarrow> q \<in> live env \<Longrightarrow> t_signal (threads env p) = t_signal (threads env q) \<Longrightarrow>
       group_leader (threads env p) = group_leader (threads env q)"
    "0 \<le> pid_vnr env g"
    "p \<in> live env \<Longrightarrow> t_signal (threads env (group_leader (threads env p))) = t_signal (threads env p)"
proof -
  note a = assms [unfolded pid_env_ok_def]
  note b = conjunct2 [OF a]
  note c = conjunct2 [OF b]
  show "p \<in> live env \<Longrightarrow> group_leader (threads env p) \<in> live env"
    "p \<in> live env \<Longrightarrow> group_leader (threads env (group_leader (threads env p))) = group_leader (threads env p)"
    "p \<in> live env \<Longrightarrow> t_signal (threads env (group_leader (threads env p))) = t_signal (threads env p)"
    using conjunct1 [OF a] by blast+
  show "p \<in> live env \<Longrightarrow> q \<in> live env \<Longrightarrow> t_pid (threads env p) = t_pid (threads env q) \<Longrightarrow> p = q"
    using conjunct1 [OF b] by blast
  show "p \<in> live env \<Longrightarrow> q \<in> live env \<Longrightarrow> t_signal (threads env p) = t_signal (threads env q) \<Longrightarrow>
       group_leader (threads env p) = group_leader (threads env q)"
    using conjunct1 [OF c] by blast
  show "0 \<le> pid_vnr env g" using c by blast
qed

section \<open>The system calls\<close>

text \<open>\<open>task_tgid_vnr\<close> of a thread is the pid of its leader.\<close>

definition sys_getpid :: "pid_env \<Rightarrow> nat \<Rightarrow> int" where
  "sys_getpid env cur = pid_vnr env (Some (t_pid (threads env (group_leader (threads env cur)))))"

definition sys_gettid :: "pid_env \<Rightarrow> nat \<Rightarrow> int" where
  "sys_gettid env cur = pid_vnr env (Some (t_pid (threads env cur)))"

definition sys_getppid :: "pid_env \<Rightarrow> nat \<Rightarrow> int" where
  "sys_getppid env cur = sys_getpid env (real_parent (threads env cur))"

definition same_thread_group :: "pid_env \<Rightarrow> nat \<Rightarrow> nat \<Rightarrow> bool" where
  "same_thread_group env p q \<longleftrightarrow> t_signal (threads env p) = t_signal (threads env q)"

definition sys_setpgid :: "pid_env \<Rightarrow> nat \<Rightarrow> int \<Rightarrow> int \<Rightarrow> pid_state \<Rightarrow> int \<times> pid_state" where
  "sys_setpgid env cur pid pgid s =
     (let gl = group_leader (threads env cur);
          pid = (if pid = 0 then sys_gettid env gl else pid);
          pgid = (if pgid = 0 then pid else pgid) in
      if pgid < 0 then (- EINVAL, s)
      else case task_of_vpid env pid of
        None \<Rightarrow> (- ESRCH, s)
      | Some p \<Rightarrow>
          if group_leader (threads env p) \<noteq> p then (- EINVAL, s)
          else
            let child = same_thread_group env (real_parent (threads env p)) gl in
            if child \<and> session_of env s p \<noteq> session_of env s gl then (- EPERM, s)
            else if child \<and> \<not> forknoexec (threads env p) then (- EACCES, s)
            else if \<not> child \<and> p \<noteq> gl then (- ESRCH, s)
            else if s_leader (sig env s p) then (- EPERM, s)
            else
              let pgrp = (if pgid \<noteq> pid then pid_of_vpid env pgid else Some (t_pid (threads env p))) in
              if pgid \<noteq> pid \<and> (case pid_task_pgid env s pgrp of None \<Rightarrow> True | Some g \<Rightarrow> session_of env s g \<noteq> session_of env s gl)
              then (- EPERM, s)
              else
                let err = security_task_setpgid env p pgid in
                if err \<noteq> 0 then (err, s)
                else (0, if pgrp_of env s p \<noteq> pgrp then change_pgid env p pgrp s else s))"

definition do_getpgid :: "pid_env \<Rightarrow> nat \<Rightarrow> int \<Rightarrow> pid_state \<Rightarrow> int" where
  "do_getpgid env cur pid s =
     (if pid = 0 then pid_vnr env (pgrp_of env s cur)
      else case task_of_vpid env pid of
        None \<Rightarrow> - ESRCH
      | Some p \<Rightarrow>
          let grp = pgrp_of env s p in
          if grp = None then - ESRCH
          else let retval = security_task_getpgid env p in
            if retval \<noteq> 0 then retval else pid_vnr env grp)"

definition sys_getpgid :: "pid_env \<Rightarrow> nat \<Rightarrow> int \<Rightarrow> pid_state \<Rightarrow> int" where
  "sys_getpgid env cur pid s = do_getpgid env cur pid s"

definition sys_getpgrp :: "pid_env \<Rightarrow> nat \<Rightarrow> pid_state \<Rightarrow> int" where
  "sys_getpgrp env cur s = do_getpgid env cur 0 s"

definition sys_getsid :: "pid_env \<Rightarrow> nat \<Rightarrow> int \<Rightarrow> pid_state \<Rightarrow> int" where
  "sys_getsid env cur pid s =
     (if pid = 0 then pid_vnr env (session_of env s cur)
      else case task_of_vpid env pid of
        None \<Rightarrow> - ESRCH
      | Some p \<Rightarrow>
          let sid = session_of env s p in
          if sid = None then - ESRCH
          else let retval = security_task_getsid env p in
            if retval \<noteq> 0 then retval else pid_vnr env sid)"

definition set_special_pids :: "pid_env \<Rightarrow> nat \<Rightarrow> nat option \<Rightarrow> pid_state \<Rightarrow> pid_state" where
  "set_special_pids env cur pid s =
     (let curr = group_leader (threads env cur);
          s = (if session_of env s curr \<noteq> pid then change_sid env curr pid s else s) in
      if pgrp_of env s curr \<noteq> pid then change_pgid env curr pid s else s)"

text \<open>The notification of the process connector and of the scheduler after a success is left out.\<close>

definition ksys_setsid :: "pid_env \<Rightarrow> nat \<Rightarrow> pid_state \<Rightarrow> int \<times> pid_state" where
  "ksys_setsid env cur s =
     (let gl = group_leader (threads env cur); sid = Some (t_pid (threads env gl)); session = pid_vnr env sid in
      if s_leader (sig env s gl) then (- EPERM, s)
      else if pid_task_pgid env s sid \<noteq> None then (- EPERM, s)
      else
        let s = upd_sig env gl (\<lambda>x. x\<lparr>s_leader := True\<rparr>) s;
            s = set_special_pids env cur sid s;
            s = proc_clear_tty env gl s in
        (session, s))"

section \<open>Lemmas\<close>

lemma sig_upd:
  "sig env (upd_sig env p f s) q = (if t_signal (threads env q) = t_signal (threads env p) then f (sig env s p) else sig env s q)"
  by (simp add: sig_def upd_sig_def)

lemma set_special_pids_sig:
  assumes "pid_env_ok env"
  shows "sig env (set_special_pids env cur pid s) q =
    (if t_signal (threads env q) = t_signal (threads env (group_leader (threads env cur)))
     then (sig env s (group_leader (threads env cur)))\<lparr>s_session := pid, s_pgrp := pid\<rparr> else sig env s q)"
proof -
  have c: "change_sid env p g s = upd_sig env p (\<lambda>x. x\<lparr>s_session := g\<rparr>) s"
    "change_pgid env p g s = upd_sig env p (\<lambda>x. x\<lparr>s_pgrp := g\<rparr>) s" for p g s
    using assms by (auto simp: pid_env_ok_def)
  show ?thesis
    by (auto simp: set_special_pids_def Let_def c sig_upd session_of_def pgrp_of_def) (auto simp: sig_def)
qed

lemma setsid_sig:
  assumes "pid_env_ok env" "ksys_setsid env cur s = (r, s')" "r \<noteq> - EPERM"
  defines "gl \<equiv> group_leader (threads env cur)"
  shows "r = pid_vnr env (Some (t_pid (threads env gl)))"
    and "pid_task_pgid env s (Some (t_pid (threads env gl))) = None"
    and "sig env s' q = (if t_signal (threads env q) = t_signal (threads env gl)
      then \<lparr>s_pgrp = Some (t_pid (threads env gl)), s_session = Some (t_pid (threads env gl)), s_leader = True, s_tty = None\<rparr>
      else sig env s q)"
proof -
  have t: "proc_clear_tty env p s = upd_sig env p (\<lambda>x. x\<lparr>s_tty := None\<rparr>) s" for p s
    using assms(1) by (auto simp: pid_env_ok_def)
  have e: "x\<lparr>s_leader := True, s_session := a, s_pgrp := a, s_tty := None\<rparr> = \<lparr>s_pgrp = a, s_session = a, s_leader = True, s_tty = None\<rparr>" for x :: signal and a
    by (cases x) simp
  show "r = pid_vnr env (Some (t_pid (threads env gl)))" "pid_task_pgid env s (Some (t_pid (threads env gl))) = None"
    "sig env s' q = (if t_signal (threads env q) = t_signal (threads env gl)
      then \<lparr>s_pgrp = Some (t_pid (threads env gl)), s_session = Some (t_pid (threads env gl)), s_leader = True, s_tty = None\<rparr>
      else sig env s q)"
    using assms(2,3)
    by (auto simp: ksys_setsid_def Let_def t sig_upd set_special_pids_sig [OF assms(1)] gl_def [symmetric] e split: if_splits)
qed

lemma setpgid_cases:
  assumes "pid_env_ok env" "cur \<in> live env" "sys_setpgid env cur pid pgid s = (r, s')"
  shows "s' = s \<or> (\<exists>p pgrp. r = 0 \<and> p \<in> live env \<and> group_leader (threads env p) = p \<and> \<not> s_leader (sig env s p)
    \<and> (\<forall>q. sig env s' q = (if t_signal (threads env q) = t_signal (threads env p) then (sig env s p)\<lparr>s_pgrp := pgrp\<rparr> else sig env s q))
    \<and> (pgrp = Some (t_pid (threads env p)) \<or> (\<exists>g \<in> live env. pgrp_of env s g = pgrp \<and> session_of env s g = session_of env s p)))"
proof (cases "s' = s")
  case False
  let ?gl = "group_leader (threads env cur)"
  define pid' where "pid' = (if pid = 0 then sys_gettid env ?gl else pid)"
  define pgid' where "pgid' = (if pgid = 0 then pid' else pgid)"
  note r1 = assms(3) [unfolded sys_setpgid_def Let_def, folded pid'_def, folded pgid'_def]
  from r1 False obtain p where p: "task_of_vpid env pid' = Some p"
    by (auto split: if_splits option.splits)
  define pgrp where "pgrp = (if pgid' \<noteq> pid' then pid_of_vpid env pgid' else Some (t_pid (threads env p)))"
  have c: "change_pgid env p g s = upd_sig env p (\<lambda>x. x\<lparr>s_pgrp := g\<rparr>) s" for p g s
    using assms(1) by (auto simp: pid_env_ok_def)
  have lp: "p \<in> live env" using assms(1) p by (auto simp: pid_env_ok_def)
  note r2 = r1 [unfolded p option.case, folded pgrp_def]
  from r2 False have "group_leader (threads env p) = p" "\<not> s_leader (sig env s p)" "r = 0"
    and s': "s' = upd_sig env p (\<lambda>x. x\<lparr>s_pgrp := pgrp\<rparr>) s"
    and sess: "session_of env s p = session_of env s ?gl"
    and g: "pgid' \<noteq> pid' \<longrightarrow> (\<exists>g. pid_task_pgid env s pgrp = Some g \<and> session_of env s g = session_of env s ?gl)"
    by (auto simp: c split: if_splits option.splits)
  moreover have "pgrp = Some (t_pid (threads env p)) \<or> (\<exists>g \<in> live env. pgrp_of env s g = pgrp \<and> session_of env s g = session_of env s p)"
  proof (cases "pgid' = pid'")
    case True
    then show ?thesis by (simp add: pgrp_def)
  next
    case False
    with g obtain x where x: "pid_task_pgid env s pgrp = Some x" "session_of env s x = session_of env s ?gl" by blast
    moreover have "x \<in> live env" "pgrp_of env s x = pgrp" using assms(1) x(1) unfolding pid_env_ok_def by blast+
    ultimately show ?thesis using sess by auto
  qed
  ultimately show ?thesis using lp by (intro disjI2 exI [of _ p] exI [of _ pgrp]) (auto simp: sig_upd)
qed simp

section \<open>The state machine and its invariant\<close>

text \<open>
  The processes of a group belong to one session, and so does the process whose pid names the group, while it lives.
\<close>

definition groups_in_session :: "pid_env \<Rightarrow> pid_state \<Rightarrow> bool" where
  "groups_in_session env s \<longleftrightarrow>
     (\<forall>p \<in> live env. \<forall>q \<in> live env. pgrp_of env s p = pgrp_of env s q \<longrightarrow> session_of env s p = session_of env s q)
     \<and> (\<forall>p \<in> live env. \<forall>q \<in> live env. group_leader (threads env q) = q \<and> pgrp_of env s p = Some (t_pid (threads env q)) \<longrightarrow>
          session_of env s p = session_of env s q)"

lemma groups_in_sessionD:
  assumes "groups_in_session env s" "p \<in> live env" "q \<in> live env"
  shows "pgrp_of env s p = pgrp_of env s q \<Longrightarrow> session_of env s p = session_of env s q"
    "group_leader (threads env q) = q \<Longrightarrow> pgrp_of env s p = Some (t_pid (threads env q)) \<Longrightarrow> session_of env s p = session_of env s q"
  using assms unfolding groups_in_session_def by blast+

inductive pid_step :: "pid_env \<Rightarrow> pid_state \<Rightarrow> pid_state \<Rightarrow> bool" for env where
  Setpgid: "cur \<in> live env \<Longrightarrow> sys_setpgid env cur pid pgid s = (r, s') \<Longrightarrow> pid_step env s s'"
| Setsid: "cur \<in> live env \<Longrightarrow> ksys_setsid env cur s = (r, s') \<Longrightarrow> pid_step env s s'"

inductive_cases pid_stepE: "pid_step env s s'"

lemma setpgid_keeps:
  assumes ok: "pid_env_ok env" and inv: "groups_in_session env s" and "cur \<in> live env" "sys_setpgid env cur pid pgid s = (r, s')"
  shows "groups_in_session env s'"
proof (cases "s' = s")
  case False
  with setpgid_cases [OF ok assms(3,4)] obtain p pgrp where p: "p \<in> live env" "group_leader (threads env p) = p"
    and sg: "\<forall>q. sig env s' q = (if t_signal (threads env q) = t_signal (threads env p) then (sig env s p)\<lparr>s_pgrp := pgrp\<rparr> else sig env s q)"
    and g: "pgrp = Some (t_pid (threads env p)) \<or> (\<exists>g \<in> live env. pgrp_of env s g = pgrp \<and> session_of env s g = session_of env s p)" by blast
  let ?same = "\<lambda>q. t_signal (threads env q) = t_signal (threads env p)"
  have sess: "session_of env s' q = session_of env s q" for q using sg by (simp add: session_of_def) (simp add: sig_def)
  have pg: "pgrp_of env s' q = (if ?same q then pgrp else pgrp_of env s q)" for q using sg by (simp add: pgrp_of_def)
  have eq: "session_of env s q = session_of env s p" if "?same q" for q using that by (simp add: session_of_def sig_def)
  have mem: "session_of env s q = session_of env s p" if "q \<in> live env" "pgrp_of env s q = pgrp" for q
    using g
  proof
    assume "pgrp = Some (t_pid (threads env p))"
    then show ?thesis using groups_in_sessionD(2) [OF inv that(1) p(1)] p(2) that(2) by simp
  next
    assume "\<exists>g \<in> live env. pgrp_of env s g = pgrp \<and> session_of env s g = session_of env s p"
    then obtain x where "x \<in> live env" "pgrp_of env s x = pgrp" "session_of env s x = session_of env s p" by blast
    then show ?thesis using groups_in_sessionD(1) [OF inv that(1), of x] that(2) by simp
  qed
  have 1: "session_of env s' a = session_of env s' b" if ab: "a \<in> live env" "b \<in> live env" "pgrp_of env s' a = pgrp_of env s' b" for a b
    using ab(3) groups_in_sessionD(1) [OF inv ab(1,2)] mem [OF ab(1)] mem [OF ab(2)] eq [of a] eq [of b]
    unfolding sess pg by (auto split: if_splits)
  have nm: "session_of env s p = session_of env s b" if "b \<in> live env" "group_leader (threads env b) = b" "pgrp = Some (t_pid (threads env b))" for b
  proof (cases "pgrp = Some (t_pid (threads env p))")
    case True
    with that(3) have "t_pid (threads env b) = t_pid (threads env p)" by simp
    then have "b = p" by (rule pid_env_okD(3) [OF ok that(1) p(1)])
    then show ?thesis by simp
  next
    case False
    with g obtain x where x: "x \<in> live env" "pgrp_of env s x = pgrp" "session_of env s x = session_of env s p" by blast
    then show ?thesis using groups_in_sessionD(2) [OF inv x(1) that(1,2)] that(3) by simp
  qed
  have 2: "session_of env s' a = session_of env s' b"
    if ab: "a \<in> live env" "b \<in> live env" "group_leader (threads env b) = b" "pgrp_of env s' a = Some (t_pid (threads env b))" for a b
    using ab(4) groups_in_sessionD(2) [OF inv ab(1-3)] nm [OF ab(2,3)] eq [of a] unfolding sess pg by (auto split: if_splits)
  show ?thesis unfolding groups_in_session_def using 1 2 by blast
qed (use inv in simp)

lemma setsid_keeps:
  assumes ok: "pid_env_ok env" and inv: "groups_in_session env s" and cur: "cur \<in> live env" and r: "ksys_setsid env cur s = (r, s')"
  shows "groups_in_session env s'"
proof (cases "r = - EPERM")
  case True
  moreover have "pid_vnr env g \<noteq> - 1" for g using pid_env_okD(5) [OF ok, of g] by linarith
  ultimately have "s' = s" using r by (auto simp: ksys_setsid_def Let_def split: if_splits)
  with inv show ?thesis by simp
next
  case False
  let ?gl = "group_leader (threads env cur)"
  let ?sid = "Some (t_pid (threads env ?gl))"
  let ?same = "\<lambda>q. t_signal (threads env q) = t_signal (threads env ?gl)"
  note st = setsid_sig [OF ok r False]
  have none: "pgrp_of env s q \<noteq> ?sid" if "q \<in> live env" for q using st(2) ok that unfolding pid_env_ok_def by blast
  have pg: "pgrp_of env s' q = (if ?same q then ?sid else pgrp_of env s q)"
    and sess: "session_of env s' q = (if ?same q then ?sid else session_of env s q)" for q
    using st(3) [of q] by (simp_all add: pgrp_of_def session_of_def)
  have lead: "?gl \<in> live env" "group_leader (threads env ?gl) = ?gl" using pid_env_okD(1,2) [OF ok cur] by auto
  have 1: "session_of env s' a = session_of env s' b" if "a \<in> live env" "b \<in> live env" "pgrp_of env s' a = pgrp_of env s' b" for a b
    using that(3) groups_in_sessionD(1) [OF inv that(1,2)] none [OF that(1)] none [OF that(2)] unfolding sess pg
    by (auto split: if_splits)
  have 2: "session_of env s' a = session_of env s' b"
    if "a \<in> live env" "b \<in> live env" "group_leader (threads env b) = b" "pgrp_of env s' a = Some (t_pid (threads env b))" for a b
  proof (cases "?same a")
    case True
    with that(4) have "t_pid (threads env b) = t_pid (threads env ?gl)" by (simp add: pg)
    then have "b = ?gl" by (rule pid_env_okD(3) [OF ok that(2) lead(1)])
    with True show ?thesis by (simp add: sess)
  next
    case False
    with that have "pgrp_of env s a = Some (t_pid (threads env b))" by (simp add: pg)
    moreover have "\<not> ?same b"
    proof
      assume "?same b"
      then have "group_leader (threads env b) = group_leader (threads env ?gl)"
        using pid_env_okD(4) [OF ok that(2) lead(1)] by blast
      then have "b = ?gl" using that(3) lead(2) by simp
      then show False using none [OF that(1)] calculation by simp
    qed
    ultimately show ?thesis using groups_in_sessionD(2) [OF inv that(1-3)] False unfolding sess by simp
  qed
  show ?thesis unfolding groups_in_session_def using 1 2 by blast
qed

lemma reachable_groups:
  assumes "(pid_step env)\<^sup>*\<^sup>* s s'" "pid_env_ok env" "groups_in_session env s"
  shows "groups_in_session env s'"
  using assms
proof (induction rule: rtranclp_induct)
  case (step y z)
  from step.hyps(2) step.IH [OF step.prems] step.prems(1) show ?case
    by (elim pid_stepE) (auto intro: setpgid_keeps setsid_keeps)
qed simp

section \<open>Properties\<close>

text \<open>A small system: three processes 1, 2, 3 of one thread each, 2 and 3 children of 1, all in the session and the group of 1.\<close>

definition small_pid_env :: pid_env where
  "small_pid_env = \<lparr>live = {1, 2, 3}, threads = (\<lambda>p. \<lparr>t_pid = p, t_signal = p, group_leader = p, real_parent = 1, forknoexec = True\<rparr>),
     task_of_vpid = (\<lambda>v. if v \<in> {1, 2, 3} then Some (nat v) else None), pid_of_vpid = (\<lambda>v. if v \<in> {1, 2, 3} then Some (nat v) else None),
     pid_vnr = (\<lambda>g. case g of None \<Rightarrow> 0 | Some n \<Rightarrow> int n),
     pid_task_pgid = (\<lambda>s g. if g = None then None else find (\<lambda>q. s_pgrp (signals s q) = g) [1, 2, 3]),
     security_task_setpgid = (\<lambda>_ _. 0), security_task_getpgid = (\<lambda>_. 0), security_task_getsid = (\<lambda>_. 0),
     change_pgid = (\<lambda>p g s. s\<lparr>signals := (signals s)(p := (signals s p)\<lparr>s_pgrp := g\<rparr>)\<rparr>),
     change_sid = (\<lambda>p g s. s\<lparr>signals := (signals s)(p := (signals s p)\<lparr>s_session := g\<rparr>)\<rparr>),
     proc_clear_tty = (\<lambda>p s. s\<lparr>signals := (signals s)(p := (signals s p)\<lparr>s_tty := None\<rparr>)\<rparr>)\<rparr>"

definition boot :: pid_state where
  "boot = \<lparr>signals = (\<lambda>p. \<lparr>s_pgrp = Some 1, s_session = Some 1, s_leader = (p = 1), s_tty = Some 0\<rparr>)\<rparr>"

lemma small_pid_env_ok: "pid_env_ok small_pid_env"
  by (auto simp: pid_env_ok_def small_pid_env_def pgrp_of_def sig_def upd_sig_def find_Some_iff find_None_iff less_Suc_eq numeral_3_eq_3
    split: option.splits if_splits)

lemma boot_groups: "groups_in_session small_pid_env boot"
  by (simp add: groups_in_session_def boot_def session_of_def pgrp_of_def sig_def)

text \<open>
  C12. Groups stay within sessions. In a system whose process groups each lie in one session, no sequence of \<open>setpgid\<close> and \<open>setsid\<close> calls by any of the processes
  creates a group that spans two sessions, and a group named by a living process always belongs to that
  process's session.
\<close>

theorem groups_never_span_sessions:
  assumes "pid_env_ok env" "groups_in_session env s" "(pid_step env)\<^sup>*\<^sup>* s s'"
    and "p \<in> live env" "q \<in> live env"
  shows "(pgrp_of env s' p = pgrp_of env s' q \<longrightarrow> session_of env s' p = session_of env s' q)
    \<and> (group_leader (threads env q) = q \<and> pgrp_of env s' p = Some (t_pid (threads env q)) \<longrightarrow> session_of env s' p = session_of env s' q)"
  using groups_in_sessionD [OF reachable_groups [OF assms(3,1,2)] assms(4,5)] by blast

theorem groups_never_span_sessions_witness:
  "\<exists>s'. (pid_step small_pid_env)\<^sup>*\<^sup>* boot s' \<and> pgrp_of small_pid_env s' 2 = Some 2 \<and> pgrp_of small_pid_env s' 3 = Some 2
     \<and> session_of small_pid_env s' 2 = session_of small_pid_env s' 3"
proof -
  let ?a = "snd (sys_setpgid small_pid_env 1 2 2 boot)"
  let ?b = "snd (sys_setpgid small_pid_env 1 3 2 ?a)"
  have p: "pgrp_of small_pid_env ?b 2 = Some 2" "pgrp_of small_pid_env ?b 3 = Some 2"
    by (simp_all add: sys_setpgid_def small_pid_env_def boot_def pgrp_of_def session_of_def sig_def same_thread_group_def Let_def)
  have l: "1 \<in> live small_pid_env" "2 \<in> live small_pid_env" "3 \<in> live small_pid_env" by (simp_all add: small_pid_env_def)
  have "pid_step small_pid_env boot ?a" "pid_step small_pid_env ?a ?b"
    using Setpgid [OF l(1) prod.collapse [symmetric]] by blast+
  then have reach: "(pid_step small_pid_env)\<^sup>*\<^sup>* boot ?b" by simp
  from groups_never_span_sessions [OF small_pid_env_ok boot_groups this l(2,3)] p reach show ?thesis by (intro exI [of _ ?b]) simp
qed

text \<open>
  C32. \<open>setsid\<close>. The call fails with \<open>EPERM\<close>, changing nothing, for a session leader and when a living process is in the group named by the caller's
  pid. Otherwise it returns the caller's process id, which \<open>getsid\<close> and \<open>getpgrp\<close> return from then on for every thread of the
  process; the process leads the session and has no terminal; no other process is affected; and a
  second call fails.
\<close>

theorem setsid_correct:
  assumes ok: "pid_env_ok env" and cur: "cur \<in> live env" and r: "ksys_setsid env cur s = (r, s')"
  defines "gl \<equiv> group_leader (threads env cur)"
  shows "if s_leader (sig env s gl) \<or> (\<exists>q \<in> live env. pgrp_of env s q = Some (t_pid (threads env gl)))
    then r = - EPERM \<and> s' = s
    else r = sys_getpid env cur \<and> sys_getsid env cur 0 s' = r \<and> sys_getpgrp env cur s' = r
      \<and> s_leader (sig env s' gl) \<and> s_tty (sig env s' gl) = None \<and> fst (ksys_setsid env cur s') = - EPERM
      \<and> (\<forall>q \<in> live env. group_leader (threads env q) \<noteq> gl \<longrightarrow> sig env s' q = sig env s q)"
proof -
  let ?sid = "Some (t_pid (threads env gl))"
  have same: "t_signal (threads env gl) = t_signal (threads env cur)" using pid_env_okD(6) [OF ok cur] by (simp add: gl_def)
  have find: "pid_task_pgid env s ?sid \<noteq> None \<longleftrightarrow> (\<exists>q \<in> live env. pgrp_of env s q = ?sid)"
  proof (cases "pid_task_pgid env s ?sid")
    case None
    then have "\<forall>q \<in> live env. pgrp_of env s q \<noteq> ?sid" using ok unfolding pid_env_ok_def by blast
    with None show ?thesis by blast
  next
    case (Some q)
    then have "q \<in> live env" "pgrp_of env s q = ?sid" using ok unfolding pid_env_ok_def by blast+
    with Some show ?thesis by auto
  qed
  show ?thesis
  proof (cases "s_leader (sig env s gl) \<or> pid_task_pgid env s ?sid \<noteq> None")
    case True
    then have "r = - EPERM \<and> s' = s" using r by (auto simp: ksys_setsid_def Let_def gl_def split: if_splits)
    with True find show ?thesis by simp
  next
    case False
    then have "r = pid_vnr env ?sid" using r by (simp add: ksys_setsid_def Let_def gl_def)
    then have "r \<noteq> - EPERM" using pid_env_okD(5) [OF ok, of ?sid] by linarith
    note st = setsid_sig [OF ok r this, folded gl_def]
    have "fst (ksys_setsid env cur s') = - EPERM" using st(3) [of gl] by (simp add: ksys_setsid_def Let_def gl_def)
    moreover have "sig env s' q = sig env s q" if "q \<in> live env" "group_leader (threads env q) \<noteq> gl" for q
      using st(3) [of q] that pid_env_okD(2) [OF ok cur] pid_env_okD(4) [OF ok that(1), of gl] pid_env_okD(1) [OF ok cur]
      by (auto simp: gl_def)
    ultimately show ?thesis using False find st(1) st(3) [of cur] st(3) [of gl] same
      by (simp add: sys_getpid_def sys_getsid_def sys_getpgrp_def do_getpgid_def session_of_def pgrp_of_def gl_def)
  qed
qed

theorem setsid_correct_witness: "fst (ksys_setsid small_pid_env 2 boot) = 2"
proof -
  obtain r s' where r: "ksys_setsid small_pid_env 2 boot = (r, s')" by (metis surj_pair)
  have l: "2 \<in> live small_pid_env" by (simp add: small_pid_env_def)
  from setsid_correct [OF small_pid_env_ok l r] r show ?thesis
    by (simp add: small_pid_env_def boot_def sig_def pgrp_of_def sys_getpid_def)
qed

end
