(* ===== verification/Kernel_Uts.thy ===== *)
theory Kernel_Uts
  imports Kernel_User
begin

text \<open>
  The name of the system: \<open>uname\<close> in its three versions, \<open>sethostname\<close>, \<open>gethostname\<close> and
  \<open>setdomainname\<close> of \<open>src/Semaphore and Synchronization/sys.c\<close>. The structure \<open>new_utsname\<close> is six
  arrays of 65 characters. Constants that the build generates (\<open>UTS_RELEASE\<close>, the patch level, the machine name for
  32-bit programs) and the personality of the caller are fields of \<open>uts_env\<close>.
\<close>

section \<open>State\<close>

definition NEW_UTS_LEN :: int where "NEW_UTS_LEN = 64"
definition OLD_UTS_LEN :: nat where "OLD_UTS_LEN = 8"

record new_utsname =
  sysname :: "char list"
  nodename :: "char list"
  release :: "char list"
  version :: "char list"
  machine :: "char list"
  domainname :: "char list"

definition uts_bytes :: "new_utsname \<Rightarrow> char list" where
  "uts_bytes u = sysname u @ nodename u @ release u @ version u @ machine u @ domainname u"

text \<open>The first five arrays: \<open>memcpy\<close> of \<open>sizeof (struct old_utsname)\<close> bytes.\<close>

definition old_uts_bytes :: "new_utsname \<Rightarrow> char list" where
  "old_uts_bytes u = take 325 (uts_bytes u)"

definition oldold_uts_bytes :: "new_utsname \<Rightarrow> char list" where
  "oldold_uts_bytes u = concat (map (\<lambda>f. take OLD_UTS_LEN f @ [NUL]) [sysname u, nodename u, release u, version u, machine u])"

record uts_env =
  uts_capable :: bool
  uname26 :: bool
  per_linux32 :: bool
  UTS_RELEASE :: string
  PATCHLEVEL :: nat
  COMPAT_MACHINE :: "string option"

section \<open>The release number for old programs\<close>

definition is_digit :: "char \<Rightarrow> bool" where
  "is_digit c \<longleftrightarrow> 48 \<le> (of_char c :: nat) \<and> (of_char c :: nat) \<le> 57"

text \<open>The loop over \<open>rest\<close>, with the number of dots seen.\<close>

fun skip_release :: "nat \<Rightarrow> string \<Rightarrow> string" where
  "skip_release ndots [] = []"
| "skip_release ndots (c # cs) =
     (let ndots = (if c = CHR ''.'' then Suc ndots else ndots) in
      if c = CHR ''.'' \<and> ndots \<ge> 3 then c # cs
      else if \<not> is_digit c \<and> c \<noteq> CHR ''.'' then c # cs
      else skip_release ndots cs)"

text \<open>The conversion \<open>%u\<close>.\<close>

fun dec_string :: "nat \<Rightarrow> string" where
  "dec_string n = (if n < 10 then [char_of (48 + n)] else dec_string (n div 10) @ [char_of (48 + n mod 10)])"

declare dec_string.simps [simp del]

definition release26 :: "uts_env \<Rightarrow> string" where
  "release26 env = ''2.6.'' @ dec_string (PATCHLEVEL env + 60) @ skip_release 0 (UTS_RELEASE env)"

text \<open>
  \<open>scnprintf\<close> stores at most one character less than the size and a terminator, and returns the number of characters.
\<close>

definition override_release :: "uts_env \<Rightarrow> uaccess \<Rightarrow> nat \<Rightarrow> nat \<Rightarrow> umem \<Rightarrow> nat \<times> umem" where
  "override_release env ua rel len m =
     (if uname26 env then
        let limit = max 1 (min len 65);
            text = take (limit - 1) (release26 env) in
        copy_to_user ua rel (text @ [NUL]) m
      else (0, m))"

definition override_architecture :: "uts_env \<Rightarrow> uaccess \<Rightarrow> nat \<Rightarrow> umem \<Rightarrow> bool \<times> umem" where
  "override_architecture env ua mach m =
     (case COMPAT_MACHINE env of
        None \<Rightarrow> (False, m)
      | Some name \<Rightarrow>
          if per_linux32 env then let (r, m) = copy_to_user ua mach (name @ [NUL]) m in (r \<noteq> 0, m) else (False, m))"

section \<open>The system calls\<close>

definition sys_newuname :: "uts_env \<Rightarrow> uaccess \<Rightarrow> nat \<Rightarrow> new_utsname \<Rightarrow> umem \<Rightarrow> int \<times> umem" where
  "sys_newuname env ua name u m =
     (let (r, m) = copy_to_user ua name (uts_bytes u) m in
      if r \<noteq> 0 then (- EFAULT, m)
      else
        let (r, m) = override_release env ua (name + 130) 65 m in
        if r \<noteq> 0 then (- EFAULT, m)
        else
          let (b, m) = override_architecture env ua (name + 260) m in
          if b then (- EFAULT, m) else (0, m))"

definition sys_uname :: "uts_env \<Rightarrow> uaccess \<Rightarrow> nat \<Rightarrow> new_utsname \<Rightarrow> umem \<Rightarrow> int \<times> umem" where
  "sys_uname env ua name u m =
     (if name = 0 then (- EFAULT, m)
      else
        let (r, m) = copy_to_user ua name (old_uts_bytes u) m in
        if r \<noteq> 0 then (- EFAULT, m)
        else
          let (r, m) = override_release env ua (name + 130) 65 m in
          if r \<noteq> 0 then (- EFAULT, m)
          else
            let (b, m) = override_architecture env ua (name + 260) m in
            if b then (- EFAULT, m) else (0, m))"

definition sys_olduname :: "uts_env \<Rightarrow> uaccess \<Rightarrow> nat \<Rightarrow> new_utsname \<Rightarrow> umem \<Rightarrow> int \<times> umem" where
  "sys_olduname env ua name u m =
     (if name = 0 then (- EFAULT, m)
      else
        let (r, m) = copy_to_user ua name (oldold_uts_bytes u) m in
        if r \<noteq> 0 then (- EFAULT, m)
        else
          let (b, m) = override_architecture env ua (name + 36) m in
          if b then (- EFAULT, m)
          else
            let (r, m) = override_release env ua (name + 18) 9 m in
            if r \<noteq> 0 then (- EFAULT, m) else (0, m))"

definition set_field :: "char list \<Rightarrow> int \<Rightarrow> char list" where
  "set_field tmp len = take (nat len) tmp @ replicate (65 - nat len) NUL"

definition sys_sethostname :: "uts_env \<Rightarrow> uaccess \<Rightarrow> nat \<Rightarrow> int \<Rightarrow> new_utsname \<Rightarrow> umem \<Rightarrow> int \<times> new_utsname" where
  "sys_sethostname env ua name len u m =
     (if \<not> uts_capable env then (- EPERM, u)
      else if len < 0 \<or> len > NEW_UTS_LEN then (- EINVAL, u)
      else
        let (r, tmp) = copy_from_user ua name (nat len) m in
        if r = 0 then (0, u\<lparr>nodename := set_field tmp len\<rparr>) else (- EFAULT, u))"

definition sys_gethostname :: "uaccess \<Rightarrow> nat \<Rightarrow> int \<Rightarrow> new_utsname \<Rightarrow> umem \<Rightarrow> (int \<times> umem) option" where
  "sys_gethostname ua name len u m =
     (if len < 0 then Some (- EINVAL, m)
      else do {
        s \<leftarrow> cstr (nodename u);
        let i = 1 + int (length s);
        let i = (if i > len then len else i);
        let (r, m) = copy_to_user ua name (take (nat i) (nodename u)) m;
        if r \<noteq> 0 then Some (- EFAULT, m) else Some (0, m)
      })"

definition sys_setdomainname :: "uts_env \<Rightarrow> uaccess \<Rightarrow> nat \<Rightarrow> int \<Rightarrow> new_utsname \<Rightarrow> umem \<Rightarrow> int \<times> new_utsname" where
  "sys_setdomainname env ua name len u m =
     (if \<not> uts_capable env then (- EPERM, u)
      else if len < 0 \<or> len > NEW_UTS_LEN then (- EINVAL, u)
      else
        let (r, tmp) = copy_from_user ua name (nat len) m in
        if r = 0 then (0, u\<lparr>domainname := set_field tmp len\<rparr>) else (- EFAULT, u))"

section \<open>Lemmas\<close>

definition uts_ok :: "new_utsname \<Rightarrow> bool" where
  "uts_ok u \<longleftrightarrow> (\<forall>f \<in> set [sysname u, nodename u, release u, version u, machine u, domainname u]. length f = 65 \<and> NUL \<in> set f)"

lemma set_field_ok: "0 \<le> len \<Longrightarrow> len \<le> 64 \<Longrightarrow> length tmp = nat len \<Longrightarrow> length (set_field tmp len) = 65 \<and> NUL \<in> set (set_field tmp len)"
  by (auto simp: set_field_def)

lemma cstr_set_field: "0 \<le> len \<Longrightarrow> len \<le> 64 \<Longrightarrow> length tmp = nat len \<Longrightarrow> c_string tmp \<Longrightarrow> cstr (set_field tmp len) = Some tmp"
proof -
  assume a: "0 \<le> len" "len \<le> 64" "length tmp = nat len" "c_string tmp"
  then obtain k where "65 - nat len = Suc k" by (cases "65 - nat len") auto
  with a show ?thesis by (simp add: set_field_def cstr_append_NUL)
qed

lemma setname_cases:
  assumes "uaccess_ok ua" "sys_sethostname env ua name len u m = (r, u')"
  shows "(r = - EPERM \<and> \<not> uts_capable env \<and> u' = u) \<or> (r = - EINVAL \<and> (len < 0 \<or> 64 < len) \<and> u' = u) \<or> (r = - EFAULT \<and> u' = u)
    \<or> (r = 0 \<and> 0 \<le> len \<and> len \<le> 64 \<and> u' = u\<lparr>nodename := set_field (load m name (nat len)) len\<rparr>)"
  using assms copy_from_userD [OF assms(1), of name "nat len" m]
  by (auto simp: sys_sethostname_def NEW_UTS_LEN_def split: if_splits prod.splits)

lemma override_release_frame:
  assumes "uaccess_ok ua" "override_release env ua rel len m = (r, m')" "1 \<le> len" "x < rel \<or> rel + len \<le> x"
  shows "m' x = m x"
proof (cases "uname26 env")
  case True
  let ?t = "take (max 1 (min len 65) - 1) (release26 env) @ [NUL]"
  have "length ?t \<le> len" using assms(3) by (auto simp: min_def max_def)
  then show ?thesis using assms copy_to_userD(2) [OF assms(1), of rel ?t m r m' x] True
    by (auto simp: override_release_def Let_def)
qed (use assms in \<open>simp add: override_release_def\<close>)

lemma override_architecture_frame:
  assumes "uaccess_ok ua" "override_architecture env ua mach m = (b, m')" "x < mach"
  shows "m' x = m x"
  using assms copy_to_userD(2) [OF assms(1)]
  by (auto simp: override_architecture_def split: option.splits if_splits prod.splits)

lemma load_cong: "(\<And>x. a \<le> x \<Longrightarrow> x < a + n \<Longrightarrow> m' x = m x) \<Longrightarrow> load m' a n = load m a n"
  by (simp add: load_def)

lemma uts_bytes_parts:
  assumes "uts_ok u"
  shows "length (uts_bytes u) = 390" "take 65 (drop 65 (uts_bytes u)) = nodename u" "take 65 (drop 130 (uts_bytes u)) = release u"
  using assms by (simp_all add: uts_ok_def uts_bytes_def)

lemma newuname_steps:
  assumes ua: "uaccess_ok ua" and u: "uts_ok u" and r: "sys_newuname env ua name u m = (0, m')"
  shows "load m' (name + 65) 65 = nodename u"
    and "\<exists>m1. override_release env ua (name + 130) 65 (store name (uts_bytes u) m) = (0, m1) \<and> load m' (name + 130) 65 = load m1 (name + 130) 65"
proof -
  obtain m0 where m0: "copy_to_user ua name (uts_bytes u) m = (0, m0)"
    using r by (auto simp: sys_newuname_def split: prod.splits if_splits)
  then have s: "m0 = store name (uts_bytes u) m" using copy_to_userD(1) [OF ua] by blast
  obtain m1 where m1: "override_release env ua (name + 130) 65 m0 = (0, m1)"
    using r m0 by (auto simp: sys_newuname_def split: prod.splits if_splits)
  have m2: "override_architecture env ua (name + 260) m1 = (False, m')"
    using r m0 m1 by (auto simp: sys_newuname_def split: prod.splits if_splits)
  have f2: "m' x = m1 x" if "x < name + 260" for x using override_architecture_frame [OF ua m2 that] .
  have f1: "m1 x = m0 x" if "x < name + 130" for x using override_release_frame [OF ua m1, of x] that by simp
  have "load m' (name + 65) 65 = load m0 (name + 65) 65" by (rule load_cong) (simp add: f1 f2)
  also have "\<dots> = nodename u"
    unfolding s using load_part [of 65 65 390 "store name (uts_bytes u) m" name] uts_bytes_parts [OF u] by (simp add: load_store_same)
  finally show "load m' (name + 65) 65 = nodename u" .
  have "load m' (name + 130) 65 = load m1 (name + 130) 65" by (rule load_cong) (simp add: f2)
  with m1 s show "\<exists>m1. override_release env ua (name + 130) 65 (store name (uts_bytes u) m) = (0, m1) \<and> load m' (name + 130) 65 = load m1 (name + 130) 65"
    by blast
qed

lemma c_string_dec: "c_string (dec_string n)"
proof (induction n rule: dec_string.induct)
  case (1 n)
  have "NUL \<noteq> char_of (48 + d)" if "d < 10" for d :: nat
  proof
    assume "NUL = char_of (48 + d)"
    then have "of_char (char_of (48 + d)) = (of_char NUL :: nat)" by simp
    with that show False by simp
  qed
  with 1 show ?case by (simp add: dec_string.simps [of n] c_string_def)
qed

lemma c_string_skip: "c_string s \<Longrightarrow> c_string (skip_release n s)"
  by (induction n s rule: skip_release.induct) (auto simp: c_string_def Let_def)

lemma c_string_release26: "c_string (UTS_RELEASE env) \<Longrightarrow> c_string (release26 env)"
  using c_string_dec [of "PATCHLEVEL env + 60"] c_string_skip [of "UTS_RELEASE env" 0] by (auto simp: release26_def c_string_def)

section \<open>Properties\<close>

text \<open>
  C35. The host name. \<open>sethostname\<close> fails with \<open>EPERM\<close>, \<open>EINVAL\<close> (length outside 0 to 64) or \<open>EFAULT\<close> and changes nothing, or stores the name: the arrays stay
  65 characters with a terminator, the other fields are unchanged, and a name without terminator inside is
  what \<open>gethostname\<close> with enough room and \<open>uname\<close> deliver to the caller, whatever the overrides of the release and the
  machine do.
\<close>

theorem hostname_roundtrip:
  assumes ua: "uaccess_ok ua" and u: "uts_ok u" and set: "sys_sethostname env ua name len u m = (r, u')"
  shows "(r \<noteq> 0 \<longrightarrow> u' = u \<and> r \<in> {- EPERM, - EINVAL, - EFAULT})
    \<and> (r = 0 \<longrightarrow> uts_ok u' \<and> u'\<lparr>nodename := []\<rparr> = u\<lparr>nodename := []\<rparr> \<and> 0 \<le> len \<and> len \<le> 64)
    \<and> (r = 0 \<and> c_string (load m name (nat len)) \<longrightarrow>
        (\<forall>buf n m2 m3. len < n \<and> sys_gethostname ua buf n u' m2 = Some (0, m3) \<longrightarrow>
          load m3 buf (nat len + 1) = load m name (nat len) @ [NUL])
        \<and> (\<forall>env2 buf m2 m3. sys_newuname env2 ua buf u' m2 = (0, m3) \<longrightarrow> cstr (load m3 (buf + 65) 65) = Some (load m name (nat len))))"
proof (cases "r = 0")
  case False
  with setname_cases [OF ua set] show ?thesis by auto
next
  case True
  with setname_cases [OF ua set] have len: "0 \<le> len" "len \<le> 64" and u': "u' = u\<lparr>nodename := set_field (load m name (nat len)) len\<rparr>" by auto
  note sf = set_field_ok [OF len, of "load m name (nat len)", simplified]
  have ok: "uts_ok u'" using u sf by (auto simp: uts_ok_def u')
  {
    assume cs: "c_string (load m name (nat len))"
    have nn: "cstr (nodename u') = Some (load m name (nat len))" using cstr_set_field [OF len, of "load m name (nat len)"] cs by (simp add: u')
    have "load m3 buf (nat len + 1) = load m name (nat len) @ [NUL]"
      if n: "len < n" and g: "sys_gethostname ua buf n u' m2 = Some (0, m3)" for buf n m2 m3
    proof -
      have i: "nat (1 + len) = nat len + 1" using len by simp
      have t: "take (nat len + 1) (nodename u') = load m name (nat len) @ [NUL]" using len by (simp add: u' set_field_def take_Cons')
      obtain m4 where "copy_to_user ua buf (take (nat len + 1) (nodename u')) m2 = (0, m4)" "m3 = m4"
        using g n nn len i by (auto simp: sys_gethostname_def Let_def split: prod.splits if_splits)
      then have "m3 = store buf (load m name (nat len) @ [NUL]) m2" using copy_to_userD(1) [OF ua] t by metis
      then show ?thesis by (simp add: load_store_same)
    qed
    moreover have "cstr (load m3 (buf + 65) 65) = Some (load m name (nat len))" if "sys_newuname env2 ua buf u' m2 = (0, m3)" for env2 buf m2 m3
      using newuname_steps(1) [OF ua ok that] nn by simp
    ultimately have "(\<forall>buf n m2 m3. len < n \<and> sys_gethostname ua buf n u' m2 = Some (0, m3) \<longrightarrow>
          load m3 buf (nat len + 1) = load m name (nat len) @ [NUL])
        \<and> (\<forall>env2 buf m2 m3. sys_newuname env2 ua buf u' m2 = (0, m3) \<longrightarrow> cstr (load m3 (buf + 65) 65) = Some (load m name (nat len)))"
      by blast
  }
  with True ok len show ?thesis by (simp add: u')
qed

definition plain_env :: uts_env where
  "plain_env = \<lparr>uts_capable = True, uname26 = True, per_linux32 = False, UTS_RELEASE = ''5.15.0-generic'', PATCHLEVEL = 15, COMPAT_MACHINE = None\<rparr>"

definition plain_uts :: new_utsname where
  "plain_uts = (let f = replicate 65 NUL in \<lparr>sysname = f, nodename = f, release = f, version = f, machine = f, domainname = f\<rparr>)"

lemma plain_uts_ok: "uts_ok plain_uts"
  by (simp add: uts_ok_def plain_uts_def Let_def)

theorem hostname_roundtrip_witness:
  "\<exists>u'. sys_sethostname plain_env (flat_access 1000) 100 3 plain_uts (\<lambda>_. CHR ''x'') = (0, u')
     \<and> cstr (load (snd (sys_newuname plain_env (flat_access 1000) 0 u' (\<lambda>_. NUL))) 65 65) = Some ''xxx''"
proof -
  let ?r = "sys_sethostname plain_env (flat_access 1000) 100 3 plain_uts (\<lambda>_. CHR ''x'')"
  let ?n = "sys_newuname plain_env (flat_access 1000) 0 (snd ?r) (\<lambda>_. NUL)"
  have l: "load (\<lambda>_. CHR ''x'') 100 (nat 3) = ''xxx''" by (simp add: load_def numeral_3_eq_3)
  have 0: "fst ?r = 0" by (simp add: sys_sethostname_def plain_env_def NEW_UTS_LEN_def flat_access_def)
  then have r: "?r = (0, snd ?r)" by (metis prod.collapse)
  note hr = hostname_roundtrip [OF flat_access_ok plain_uts_ok r]
  then have "length (uts_bytes (snd ?r)) = 390" using uts_bytes_parts(1) by blast
  then have "fst ?n = 0"
    by (simp add: sys_newuname_def flat_access_def override_release_def override_architecture_def plain_env_def Let_def min_def)
  then have "?n = (0, snd ?n)" by (metis prod.collapse)
  with hr l r show ?thesis by (intro exI [of _ "snd ?r"]) (force simp: c_string_def)
qed

text \<open>
  The release for old programs. A caller with the \<open>UNAME26\<close> personality sees \<open>2.6.\<close>, the patch level plus 60 and what follows the first three numbers of the release, cut to 64
  characters and terminated inside the field; every other caller sees the release itself. The
  override writes only inside the field it is given.
\<close>

theorem uname_release:
  assumes ua: "uaccess_ok ua" and u: "uts_ok u" and "c_string (UTS_RELEASE env)" and "sys_newuname env ua name u m = (0, m')"
  shows "cstr (load m' (name + 130) 65) = (if uname26 env then Some (take 64 (release26 env)) else cstr (release u))
    \<and> (\<forall>rel len m1 r m2 x. 1 \<le> len \<and> override_release env ua rel len m1 = (r, m2) \<and> (x < rel \<or> rel + len \<le> x) \<longrightarrow> m2 x = m1 x)"
proof -
  let ?s = "store name (uts_bytes u) m"
  let ?t = "take 64 (release26 env) @ [NUL]"
  obtain m1 where m1: "override_release env ua (name + 130) 65 ?s = (0, m1)" "load m' (name + 130) 65 = load m1 (name + 130) 65"
    using newuname_steps(2) [OF ua u assms(4)] by blast
  have "cstr (load m1 (name + 130) 65) = (if uname26 env then Some (take 64 (release26 env)) else cstr (release u))"
  proof (cases "uname26 env")
    case True
    then have "copy_to_user ua (name + 130) ?t ?s = (0, m1)" using m1(1) by (simp add: override_release_def)
    then have "m1 = store (name + 130) ?t ?s" using copy_to_userD(1) [OF ua] by blast
    moreover have "length ?t \<le> 65" by simp
    ultimately have "load m1 (name + 130) 65 = take 64 (release26 env) @ NUL # load ?s (name + 130 + length ?t) (65 - length ?t)"
      using load_store_prefix [of ?t 65 "name + 130" ?s] by simp
    moreover have "c_string (take 64 (release26 env))" using c_string_release26 [OF assms(3)] by (meson c_string_def in_set_takeD)
    ultimately show ?thesis using True by (simp add: cstr_append_NUL)
  next
    case False
    then have "m1 = ?s" using m1(1) by (simp add: override_release_def)
    then show ?thesis using False uts_bytes_parts [OF u] load_part [of 130 65 390 ?s name] by (simp add: load_store_same)
  qed
  with m1(2) override_release_frame [OF ua] show ?thesis by metis
qed

theorem uname_release_witness:
  "cstr (load (snd (sys_newuname plain_env (flat_access 1000) 0 plain_uts (\<lambda>_. NUL))) 130 65) = Some ''2.6.75-generic''"
proof -
  let ?n = "sys_newuname plain_env (flat_access 1000) 0 plain_uts (\<lambda>_. NUL)"
  have "fst ?n = 0" using uts_bytes_parts(1) [OF plain_uts_ok]
    by (simp add: sys_newuname_def flat_access_def override_release_def override_architecture_def plain_env_def Let_def min_def)
  then have n: "?n = (0, snd ?n)" by (metis prod.collapse)
  have "release26 plain_env = ''2.6.75-generic''"
    by (simp add: release26_def plain_env_def dec_string.simps is_digit_def) (simp add: char_of_def bit_0)
  with uname_release [OF flat_access_ok plain_uts_ok _ n] show ?thesis by (simp add: plain_env_def c_string_def)
qed

end
