(* ===== verification/Kernel_Rlimit.thy ===== *)
theory Kernel_Rlimit
  imports Prelude
begin

text \<open>
  Resource limits: \<open>getrlimit\<close>, \<open>setrlimit\<close>, \<open>prlimit64\<close>, their variants for 32-bit programs and the functions they share, in
  \<open>src/Semaphore and Synchronization/sys.c\<close>. Limits are unsigned 64-bit words, those of 32-bit programs 32-bit words.

  A pointer argument that is read is a \<open>uarg\<close>: null, not readable, or readable with a value. A pointer that is written
  is a \<open>uout\<close>; what the caller finds there afterwards is returned. The limits belong to the signal structure \<open>tsk->signal\<close>, which the threads of a process share
  (\<open>signal_of\<close>). The process table, the permission functions and the
  security hooks are fields of \<open>rlim_env\<close>; references to tasks are counted.
\<close>

section \<open>State\<close>

datatype 'a uarg = Null_arg | Bad_arg | Arg 'a
datatype uout = Null_out | Bad_out | Out

record rlimit =
  rlim_cur :: "64 word"
  rlim_max :: "64 word"

record compat_rlimit =
  c_rlim_cur :: "32 word"
  c_rlim_max :: "32 word"

definition RLIM_NLIMITS :: nat where "RLIM_NLIMITS = 16"
definition RLIMIT_CPU :: nat where "RLIMIT_CPU = 0"
definition RLIMIT_NOFILE :: nat where "RLIMIT_NOFILE = 7"
definition RLIM_INFINITY :: "64 word" where "RLIM_INFINITY = - 1"
definition RLIM64_INFINITY :: "64 word" where "RLIM64_INFINITY = - 1"
definition COMPAT_RLIM_INFINITY :: "32 word" where "COMPAT_RLIM_INFINITY = - 1"

record rlim_state =
  rlim :: "nat \<Rightarrow> nat \<Rightarrow> rlimit"
  cpu_timer :: "nat \<Rightarrow> 64 word option"
  task_refs :: int

record rlim_env =
  sysctl_nr_open :: "64 word"
  has_sighand :: "nat \<Rightarrow> bool"
  capable_resource :: bool
  ns_capable_resource :: "nat \<Rightarrow> bool"
  sec_setrlimit :: "nat \<Rightarrow> nat \<Rightarrow> rlimit \<Rightarrow> int"
  sec_prlimit :: "nat \<Rightarrow> bool \<times> bool \<Rightarrow> int"
  posix_timers :: bool
  task_ids :: "nat \<Rightarrow> int list"
  my_uid :: int
  my_gid :: int
  me :: nat
  signal_of :: "nat \<Rightarrow> nat"
  rlim_task_of_vpid :: "int \<Rightarrow> nat option"

section \<open>Shared functions\<close>

definition rlim64_is_infinity :: "64 word \<Rightarrow> bool" where
  "rlim64_is_infinity r \<longleftrightarrow> r = RLIM64_INFINITY"

definition rlim_to_rlim64 :: "rlimit \<Rightarrow> rlimit" where
  "rlim_to_rlim64 r = \<lparr>rlim_cur = (if rlim_cur r = RLIM_INFINITY then RLIM64_INFINITY else rlim_cur r),
     rlim_max = (if rlim_max r = RLIM_INFINITY then RLIM64_INFINITY else rlim_max r)\<rparr>"

definition rlim64_to_rlim :: "rlimit \<Rightarrow> rlimit" where
  "rlim64_to_rlim r = \<lparr>rlim_cur = (if rlim64_is_infinity (rlim_cur r) then RLIM_INFINITY else rlim_cur r),
     rlim_max = (if rlim64_is_infinity (rlim_max r) then RLIM_INFINITY else rlim_max r)\<rparr>"

text \<open>
  \<open>do_prlimit\<close> with an optional new limit; the old limit is returned when the call succeeds. Arming the CPU timer
  (\<open>update_rlimit_cpu\<close>) is recorded.
\<close>

definition do_prlimit :: "rlim_env \<Rightarrow> nat \<Rightarrow> nat \<Rightarrow> rlimit option \<Rightarrow> rlim_state \<Rightarrow> int \<times> rlimit option \<times> rlim_state" where
  "do_prlimit env tsk resource new_rlim s =
     (if resource \<ge> RLIM_NLIMITS then (- EINVAL, None, s)
      else if (case new_rlim of None \<Rightarrow> False | Some n \<Rightarrow> rlim_cur n > rlim_max n) then (- EINVAL, None, s)
      else if (case new_rlim of None \<Rightarrow> False | Some n \<Rightarrow> resource = RLIMIT_NOFILE \<and> rlim_max n > sysctl_nr_open env)
      then (- EPERM, None, s)
      else if \<not> has_sighand env tsk then (- ESRCH, None, s)
      else
        let old = rlim s (signal_of env tsk) resource;
            retval =
              (case new_rlim of
                 None \<Rightarrow> 0
               | Some n \<Rightarrow>
                   if rlim_max n > rlim_max old \<and> \<not> capable_resource env then - EPERM else sec_setrlimit env tsk resource n) in
        if retval \<noteq> 0 then (retval, None, s)
        else
          (case new_rlim of
             None \<Rightarrow> (0, Some old, s)
           | Some n \<Rightarrow>
               let sg = signal_of env tsk; s = s\<lparr>rlim := (rlim s)(sg := (rlim s sg)(resource := n))\<rparr> in
               if resource = RLIMIT_CPU \<and> rlim_cur n \<noteq> RLIM_INFINITY \<and> posix_timers env
               then (0, Some old, s\<lparr>cpu_timer := (cpu_timer s)(tsk := Some (rlim_cur n))\<rparr>)
               else (0, Some old, s)))"

definition check_prlimit_permission :: "rlim_env \<Rightarrow> nat \<Rightarrow> bool \<times> bool \<Rightarrow> int" where
  "check_prlimit_permission env task flags =
     (if me env = task then 0
      else
        let id_match = (task_ids env task = [my_uid env, my_uid env, my_uid env, my_gid env, my_gid env, my_gid env]) in
        if \<not> id_match \<and> \<not> ns_capable_resource env task then - EPERM
        else sec_prlimit env task flags)"

section \<open>The system calls\<close>

definition sys_getrlimit :: "rlim_env \<Rightarrow> nat \<Rightarrow> uout \<Rightarrow> rlim_state \<Rightarrow> int \<times> rlimit option" where
  "sys_getrlimit env resource out s =
     (let (ret, value, _) = do_prlimit env (me env) resource None s in
      if ret = 0 then (if out = Out then (0, value) else (- EFAULT, None)) else (ret, None))"

definition widen :: "32 word \<Rightarrow> 64 word" where
  "widen x = (if x = COMPAT_RLIM_INFINITY then RLIM_INFINITY else ucast x)"

definition narrow :: "64 word \<Rightarrow> 32 word" where
  "narrow x = (if x > ucast COMPAT_RLIM_INFINITY then COMPAT_RLIM_INFINITY else ucast x)"

definition compat_setrlimit :: "rlim_env \<Rightarrow> nat \<Rightarrow> compat_rlimit uarg \<Rightarrow> rlim_state \<Rightarrow> int \<times> rlim_state" where
  "compat_setrlimit env resource arg s =
     (case arg of
        Arg r32 \<Rightarrow>
          let r = \<lparr>rlim_cur = widen (c_rlim_cur r32), rlim_max = widen (c_rlim_max r32)\<rparr>;
              (ret, _, s) = do_prlimit env (me env) resource (Some r) s in (ret, s)
      | _ \<Rightarrow> (- EFAULT, s))"

definition compat_getrlimit :: "rlim_env \<Rightarrow> nat \<Rightarrow> uout \<Rightarrow> rlim_state \<Rightarrow> int \<times> compat_rlimit option" where
  "compat_getrlimit env resource out s =
     (let (ret, value, _) = do_prlimit env (me env) resource None s in
      if ret = 0 then
        let r32 = map_option (\<lambda>r. \<lparr>c_rlim_cur = narrow (rlim_cur r), c_rlim_max = narrow (rlim_max r)\<rparr>) value in
        if out = Out then (ret, r32) else (- EFAULT, None)
      else (ret, None))"

definition cap31 :: "64 word \<Rightarrow> 64 word" where
  "cap31 x = (if x > 0x7FFFFFFF then 0x7FFFFFFF else x)"

definition old_getrlimit :: "rlim_env \<Rightarrow> nat \<Rightarrow> uout \<Rightarrow> rlim_state \<Rightarrow> int \<times> rlimit option" where
  "old_getrlimit env resource out s =
     (if resource \<ge> RLIM_NLIMITS then (- EINVAL, None)
      else
        let x = rlim s (signal_of env (me env)) resource; x = \<lparr>rlim_cur = cap31 (rlim_cur x), rlim_max = cap31 (rlim_max x)\<rparr> in
        if out = Out then (0, Some x) else (- EFAULT, None))"

text \<open>The 32-bit version stores the two fields one after the other; \<open>out\<close> and \<open>out2\<close> are their addresses.\<close>

definition compat_old_getrlimit ::
  "rlim_env \<Rightarrow> nat \<Rightarrow> uout \<Rightarrow> uout \<Rightarrow> rlim_state \<Rightarrow> int \<times> 32 word option \<times> 32 word option" where
  "compat_old_getrlimit env resource out out2 s =
     (if resource \<ge> RLIM_NLIMITS then (- EINVAL, None, None)
      else
        let r = rlim s (signal_of env (me env)) resource in
        if out \<noteq> Out then (- EFAULT, None, None)
        else if out2 \<noteq> Out then (- EFAULT, Some (ucast (cap31 (rlim_cur r))), None)
        else (0, Some (ucast (cap31 (rlim_cur r))), Some (ucast (cap31 (rlim_max r)))))"

definition sys_prlimit64 ::
  "rlim_env \<Rightarrow> int \<Rightarrow> nat \<Rightarrow> rlimit uarg \<Rightarrow> uout \<Rightarrow> rlim_state \<Rightarrow> int \<times> rlimit option \<times> rlim_state" where
  "sys_prlimit64 env pid resource arg out s =
     (if arg = Bad_arg then (- EFAULT, None, s)
      else
        let new = (case arg of Arg n64 \<Rightarrow> Some (rlim64_to_rlim n64) | _ \<Rightarrow> None);
            checkflags = (out \<noteq> Null_out, new \<noteq> None) in
        case if pid \<noteq> 0 then rlim_task_of_vpid env pid else Some (me env) of
          None \<Rightarrow> (- ESRCH, None, s)
        | Some tsk \<Rightarrow>
            let ret = check_prlimit_permission env tsk checkflags in
            if ret \<noteq> 0 then (ret, None, s)
            else
              let s = s\<lparr>task_refs := task_refs s + 1\<rparr>;
                  (ret, old, s) = do_prlimit env tsk resource new s;
                  (ret, res) =
                    (if ret = 0 \<and> out \<noteq> Null_out
                     then (if out = Out then (ret, map_option rlim_to_rlim64 old) else (- EFAULT, None))
                     else (ret, None)) in
              (ret, res, s\<lparr>task_refs := task_refs s - 1\<rparr>))"

definition sys_setrlimit :: "rlim_env \<Rightarrow> nat \<Rightarrow> rlimit uarg \<Rightarrow> rlim_state \<Rightarrow> int \<times> rlim_state" where
  "sys_setrlimit env resource arg s =
     (case arg of
        Arg r \<Rightarrow> let (ret, _, s) = do_prlimit env (me env) resource (Some r) s in (ret, s)
      | _ \<Rightarrow> (- EFAULT, s))"

section \<open>Lemmas\<close>

lemma do_prlimit_cases:
  assumes "do_prlimit env tsk res new s = (r, old, s')"
  shows "(r \<noteq> 0 \<and> old = None \<and> s' = s)
    \<or> (r = 0 \<and> old = Some (rlim s (signal_of env tsk) res) \<and> res < RLIM_NLIMITS \<and> task_refs s' = task_refs s
        \<and> (case new of None \<Rightarrow> s' = s
            | Some n \<Rightarrow> rlim s' = (rlim s)(signal_of env tsk := (rlim s (signal_of env tsk))(res := n)) \<and> rlim_cur n \<le> rlim_max n
                \<and> (rlim_max n \<le> rlim_max (rlim s (signal_of env tsk) res) \<or> capable_resource env)))"
  using assms
  by (cases new; cases "res < RLIM_NLIMITS"; cases "has_sighand env tsk")
    (auto simp: do_prlimit_def Let_def not_less not_le split: if_splits)

lemma rlim64_roundtrip: "rlim_to_rlim64 (rlim64_to_rlim r) = r" "rlim64_to_rlim (rlim_to_rlim64 r) = r"
  by (cases r; simp add: rlim_to_rlim64_def rlim64_to_rlim_def rlim64_is_infinity_def RLIM_INFINITY_def RLIM64_INFINITY_def)+

lemma ucast_back: "ucast (ucast x :: 64 word) = (x :: 32 word)"
  by transfer simp

lemma ucast_le_infinity: "(ucast (x :: 32 word) :: 64 word) \<le> ucast COMPAT_RLIM_INFINITY"
proof -
  have b: "take_bit 32 k \<le> (4294967295 :: int)" for k using take_bit_int_less_exp [of 32 k] by simp
  show ?thesis unfolding COMPAT_RLIM_INFINITY_def by transfer (simp add: take_bit_minus_one_eq_mask mask_eq_exp_minus_1 b)
qed

lemma narrow_widen: "narrow (widen x) = x"
proof (cases "x = COMPAT_RLIM_INFINITY")
  case True
  have "(ucast COMPAT_RLIM_INFINITY :: 64 word) < RLIM_INFINITY"
    unfolding COMPAT_RLIM_INFINITY_def RLIM_INFINITY_def by transfer (simp add: take_bit_minus_one_eq_mask mask_eq_exp_minus_1)
  with True show ?thesis by (simp add: narrow_def widen_def)
next
  case False
  then show ?thesis using ucast_le_infinity [of x] by (simp add: narrow_def widen_def ucast_back not_less)
qed

text \<open>The calls that can change a limit, by any task: the environment of a step is the caller's.\<close>

inductive rlim_step :: "(rlim_env \<Rightarrow> bool) \<Rightarrow> rlim_state \<Rightarrow> rlim_state \<Rightarrow> bool" for callers where
  Set: "callers env \<Longrightarrow> sys_setrlimit env resource arg s = (r, s') \<Longrightarrow> rlim_step callers s s'"
| Compat_set: "callers env \<Longrightarrow> compat_setrlimit env resource arg32 s = (r, s') \<Longrightarrow> rlim_step callers s s'"
| Prlimit: "callers env \<Longrightarrow> sys_prlimit64 env pid resource arg out s = (r, old, s') \<Longrightarrow> rlim_step callers s s'"

text \<open>The soft limit never exceeds the hard limit.\<close>

definition limits_ok :: "rlim_state \<Rightarrow> bool" where
  "limits_ok s \<longleftrightarrow> (\<forall>t i. rlim_cur (rlim s t i) \<le> rlim_max (rlim s t i))"

lemma do_prlimit_step:
  assumes "do_prlimit env tsk res new s = (r, old, s')"
  shows "limits_ok s \<Longrightarrow> limits_ok s'" "\<not> capable_resource env \<Longrightarrow> rlim_max (rlim s' t i) \<le> rlim_max (rlim s t i)"
    "task_refs s' = task_refs s" "r \<noteq> 0 \<Longrightarrow> s' = s"
  using do_prlimit_cases [OF assms] by (auto simp: limits_ok_def split: option.splits)

lemma prlimit64_shape:
  assumes "sys_prlimit64 env pid res arg out s = (r, old, s')"
  shows "s' = s \<or> (\<exists>tsk new r0 old0 s1. do_prlimit env tsk res new (s\<lparr>task_refs := task_refs s + 1\<rparr>) = (r0, old0, s1)
    \<and> s' = s1\<lparr>task_refs := task_refs s1 - 1\<rparr>)"
proof -
  consider "s' = s" | tsk new r0 old0 s1 where "do_prlimit env tsk res new (s\<lparr>task_refs := task_refs s + 1\<rparr>) = (r0, old0, s1)"
    "s' = s1\<lparr>task_refs := task_refs s1 - 1\<rparr>"
    using assms unfolding sys_prlimit64_def Let_def
    by (auto split: if_splits option.splits prod.splits; blast)
  then show ?thesis by cases blast+
qed

lemma rlim_step_keeps:
  assumes "rlim_step callers s s'"
  shows "limits_ok s \<Longrightarrow> limits_ok s'" "(\<And>env. callers env \<Longrightarrow> \<not> capable_resource env) \<Longrightarrow> rlim_max (rlim s' t i) \<le> rlim_max (rlim s t i)"
    "task_refs s' = task_refs s"
proof -
  have refs: "limits_ok (s\<lparr>task_refs := k\<rparr>) = limits_ok s" for s k by (simp add: limits_ok_def)
  from assms have "s' = s \<or> (\<exists>env tsk res new k r old s1. callers env \<and> do_prlimit env tsk res new (s\<lparr>task_refs := task_refs s + k\<rparr>) = (r, old, s1)
    \<and> s' = s1\<lparr>task_refs := task_refs s1 - k\<rparr>)"
  proof (cases rule: rlim_step.cases)
    case (Set env resource arg r)
    then obtain new r0 old where "do_prlimit env (me env) resource new s = (r0, old, s') \<or> s' = s"
      by (auto simp: sys_setrlimit_def split: uarg.splits prod.splits)
    with Set show ?thesis by (metis add.right_neutral diff_zero rlim_state.surjective rlim_state.update_convs(3))
  next
    case (Compat_set env resource arg32 r)
    then obtain new r0 old where "do_prlimit env (me env) resource new s = (r0, old, s') \<or> s' = s"
      by (auto simp: compat_setrlimit_def Let_def split: uarg.splits prod.splits)
    with Compat_set show ?thesis by (metis add.right_neutral diff_zero rlim_state.surjective rlim_state.update_convs(3))
  next
    case (Prlimit env pid resource arg out r old)
    from prlimit64_shape [OF Prlimit(2)] Prlimit(1) show ?thesis by blast
  qed
  then show "limits_ok s \<Longrightarrow> limits_ok s'" "(\<And>env. callers env \<Longrightarrow> \<not> capable_resource env) \<Longrightarrow> rlim_max (rlim s' t i) \<le> rlim_max (rlim s t i)"
    "task_refs s' = task_refs s"
    using do_prlimit_step refs by (fastforce)+
qed

lemma reachable_limits:
  assumes "(rlim_step callers)\<^sup>*\<^sup>* s s'"
  shows "limits_ok s \<Longrightarrow> limits_ok s'" "(\<And>env. callers env \<Longrightarrow> \<not> capable_resource env) \<Longrightarrow> rlim_max (rlim s' t i) \<le> rlim_max (rlim s t i)"
    "task_refs s' = task_refs s"
proof -
  show "limits_ok s \<Longrightarrow> limits_ok s'" using assms by (induction rule: rtranclp_induct) (auto dest: rlim_step_keeps(1))
  show "rlim_max (rlim s' t i) \<le> rlim_max (rlim s t i)" if np: "\<And>env. callers env \<Longrightarrow> \<not> capable_resource env"
    using assms by (induction rule: rtranclp_induct) (auto intro: order.trans [OF rlim_step_keeps(2) [OF _ np]])
  show "task_refs s' = task_refs s" using assms by (induction rule: rtranclp_induct) (auto dest: rlim_step_keeps(3))
qed

section \<open>Properties\<close>

definition small_rlim_env :: rlim_env where
  "small_rlim_env = \<lparr>sysctl_nr_open = 1024, has_sighand = (\<lambda>_. True), capable_resource = False, ns_capable_resource = (\<lambda>_. False),
     sec_setrlimit = (\<lambda>_ _ _. 0), sec_prlimit = (\<lambda>_ _. 0), posix_timers = True, task_ids = (\<lambda>_. []), my_uid = 0, my_gid = 0, me = 1, signal_of = (\<lambda>t. t),
     rlim_task_of_vpid = (\<lambda>_. None)\<rparr>"

definition small_rlims :: rlim_state where
  "small_rlims = \<lparr>rlim = (\<lambda>_ _. \<lparr>rlim_cur = 10, rlim_max = 20\<rparr>), cpu_timer = (\<lambda>_. None), task_refs = 0\<rparr>"

text \<open>
  C13. Limits hold. Whatever sequence of \<open>setrlimit\<close>, \<open>prlimit64\<close> and 32-bit \<open>setrlimit\<close> calls the tasks make: soft limits stay at or below hard limits, no task
  reference is leaked, and when none of the callers has the resource capability, no hard limit of any
  process ever rises.
\<close>

theorem hard_limits_never_rise:
  assumes "(rlim_step callers)\<^sup>*\<^sup>* s s'" "limits_ok s"
  shows "limits_ok s' \<and> task_refs s' = task_refs s
    \<and> ((\<forall>env. callers env \<longrightarrow> \<not> capable_resource env) \<longrightarrow> (\<forall>t i. rlim_max (rlim s' t i) \<le> rlim_max (rlim s t i)))"
  using reachable_limits [OF assms(1)] assms(2) by blast

theorem hard_limits_never_rise_witness:
  "\<exists>s'. sys_setrlimit small_rlim_env 3 (Arg \<lparr>rlim_cur = 5, rlim_max = 15\<rparr>) small_rlims = (0, s') \<and> rlim_max (rlim s' 1 3) \<le> 20
     \<and> rlim_max (rlim s' 1 3) = 15"
proof -
  let ?r = "sys_setrlimit small_rlim_env 3 (Arg \<lparr>rlim_cur = 5, rlim_max = 15\<rparr>) small_rlims"
  have 0: "fst ?r = 0" "rlim_max (rlim (snd ?r) 1 3) = 15"
    by (simp_all add: sys_setrlimit_def do_prlimit_def small_rlim_env_def small_rlims_def RLIM_NLIMITS_def RLIMIT_NOFILE_def RLIMIT_CPU_def Let_def)
  have "rlim_step (\<lambda>env. env = small_rlim_env) small_rlims (snd ?r)"
    by (rule Set [of _ small_rlim_env 3 "Arg \<lparr>rlim_cur = 5, rlim_max = 15\<rparr>" _ "fst ?r"]) simp_all
  moreover have "limits_ok small_rlims" by (simp add: limits_ok_def small_rlims_def)
  ultimately have "rlim_max (rlim (snd ?r) 1 3) \<le> rlim_max (rlim small_rlims 1 3)"
    using hard_limits_never_rise [OF r_into_rtranclp [of "rlim_step (\<lambda>env. env = small_rlim_env)"]] by (simp add: small_rlim_env_def)
  with 0 show ?thesis by (intro exI [of _ "snd ?r"]) (simp add: small_rlims_def prod_eq_iff)
qed

text \<open>
  What is set is read back. A failed call leaves every limit as it was. After a successful \<open>setrlimit\<close>, \<open>getrlimit\<close> returns the same pair;
  after a successful 32-bit \<open>setrlimit\<close>, the 32-bit \<open>getrlimit\<close> returns the same pair, the
  32-bit infinity included; and the conversion to and from the 64-bit structure of \<open>prlimit64\<close> loses nothing.
\<close>

theorem rlimit_readback:
  assumes "has_sighand env (me env)"
  shows "(sys_setrlimit env res arg s = (r, s1) \<and> r \<noteq> 0 \<longrightarrow> s1 = s) \<and> (compat_setrlimit env res arg32 s = (r, s2) \<and> r \<noteq> 0 \<longrightarrow> s2 = s)
    \<and> (sys_setrlimit env res (Arg v) s = (0, s1) \<longrightarrow> sys_getrlimit env res Out s1 = (0, Some v))
    \<and> (compat_setrlimit env res (Arg w) s = (0, s2) \<longrightarrow> compat_getrlimit env res Out s2 = (0, Some w))
    \<and> rlim_to_rlim64 (rlim64_to_rlim v) = v \<and> rlim64_to_rlim (rlim_to_rlim64 v) = v"
proof -
  have get: "do_prlimit env (me env) res None s' = (0, Some (rlim s' (signal_of env (me env)) res), s')" if "res < RLIM_NLIMITS" for s'
    using that assms by (simp add: do_prlimit_def)
  have set: "res < RLIM_NLIMITS \<and> rlim s' (signal_of env (me env)) res = n" if "do_prlimit env (me env) res (Some n) s = (0, old, s')" for n old s'
    using do_prlimit_cases [OF that] by auto
  show ?thesis
  proof (intro conjI impI)
    assume "sys_setrlimit env res arg s = (r, s1) \<and> r \<noteq> 0"
    then show "s1 = s" by (auto simp: sys_setrlimit_def split: uarg.splits prod.splits dest: do_prlimit_step(4))
  next
    assume "compat_setrlimit env res arg32 s = (r, s2) \<and> r \<noteq> 0"
    then show "s2 = s" by (auto simp: compat_setrlimit_def Let_def split: uarg.splits prod.splits dest: do_prlimit_step(4))
  next
    assume "sys_setrlimit env res (Arg v) s = (0, s1)"
    then obtain old where "do_prlimit env (me env) res (Some v) s = (0, old, s1)"
      by (auto simp: sys_setrlimit_def split: prod.splits)
    with set [OF this] get [of s1] show "sys_getrlimit env res Out s1 = (0, Some v)" by (simp add: sys_getrlimit_def)
  next
    assume "compat_setrlimit env res (Arg w) s = (0, s2)"
    then obtain old where "do_prlimit env (me env) res (Some \<lparr>rlim_cur = widen (c_rlim_cur w), rlim_max = widen (c_rlim_max w)\<rparr>) s = (0, old, s2)"
      by (auto simp: compat_setrlimit_def split: prod.splits)
    with set [OF this] get [of s2] show "compat_getrlimit env res Out s2 = (0, Some w)" by (simp add: compat_getrlimit_def narrow_widen)
  qed (rule rlim64_roundtrip)+
qed

theorem rlimit_readback_witness:
  "sys_getrlimit small_rlim_env 3 Out (snd (sys_setrlimit small_rlim_env 3 (Arg \<lparr>rlim_cur = 5, rlim_max = 15\<rparr>) small_rlims))
     = (0, Some \<lparr>rlim_cur = 5, rlim_max = 15\<rparr>)"
proof -
  let ?r = "sys_setrlimit small_rlim_env 3 (Arg \<lparr>rlim_cur = 5, rlim_max = 15\<rparr>) small_rlims"
  have "fst ?r = 0"
    by (simp add: sys_setrlimit_def do_prlimit_def small_rlim_env_def small_rlims_def RLIM_NLIMITS_def RLIMIT_NOFILE_def RLIMIT_CPU_def Let_def)
  then have "?r = (0, snd ?r)" by (metis prod.collapse)
  moreover have "has_sighand small_rlim_env (me small_rlim_env)" by (simp add: small_rlim_env_def)
  ultimately show ?thesis using rlimit_readback by blast
qed

end
