(* ===== verification/Kernel_Times.thy ===== *)
theory Kernel_Times
  imports Prelude "HOL-Library.Multiset"
begin

unbundle bit_operations_syntax

text \<open>
  Times and resource usage: \<open>times\<close>, \<open>getrusage\<close> with their versions for 32-bit programs, and \<open>umask\<close>, in
  \<open>src/Semaphore and Synchronization/sys.c\<close>. Counters and times are 64-bit words, as in the kernel. The clock
  conversions, the adjusted CPU times and the access to the memory descriptor are parameters
  (\<open>time_env\<close>); \<open>copied\<close> says whether a copy to the caller's memory succeeds.
\<close>

section \<open>Times\<close>

record tms =
  tms_utime :: "64 word"
  tms_stime :: "64 word"
  tms_cutime :: "64 word"
  tms_cstime :: "64 word"

record counters =
  nvcsw :: "64 word"
  nivcsw :: "64 word"
  min_flt :: "64 word"
  maj_flt :: "64 word"
  inblock :: "64 word"
  oublock :: "64 word"

record task_signal =
  sig_cutime :: "64 word"
  sig_cstime :: "64 word"
  sig_self :: counters
  sig_children :: counters
  sig_maxrss :: "64 word"
  sig_cmaxrss :: "64 word"

record time_env =
  thread_group_cputime_adjusted :: "64 word \<times> 64 word"
  task_cputime_adjusted :: "64 word \<times> 64 word"
  nsec_to_clock_t :: "64 word \<Rightarrow> 64 word"
  get_clock :: "64 word"
  compat_get_clock :: "32 word"
  clock_t_to_jiffies :: "64 word \<Rightarrow> 64 word"
  compat_jiffies_to_clock_t :: "64 word \<Rightarrow> 32 word"
  ns_to_timeval :: "64 word \<Rightarrow> int \<times> int"
  sighand_ok :: bool
  mm_hiwater :: "(64 word \<Rightarrow> 64 word) option"
  page_kb :: "64 word"

definition do_sys_times :: "time_env \<Rightarrow> task_signal \<Rightarrow> tms" where
  "do_sys_times env sg =
     (let (tgutime, tgstime) = thread_group_cputime_adjusted env in
      \<lparr>tms_utime = nsec_to_clock_t env tgutime, tms_stime = nsec_to_clock_t env tgstime,
       tms_cutime = nsec_to_clock_t env (sig_cutime sg), tms_cstime = nsec_to_clock_t env (sig_cstime sg)\<rparr>)"

definition sys_times :: "time_env \<Rightarrow> task_signal \<Rightarrow> bool \<Rightarrow> bool \<Rightarrow> int \<times> tms option" where
  "sys_times env sg tbuf copied =
     (if tbuf then
        let tmp = do_sys_times env sg in
        if \<not> copied then (- EFAULT, None) else (sint (get_clock env), Some tmp)
      else (sint (get_clock env), None))"

definition clock_t_to_compat_clock_t :: "time_env \<Rightarrow> 64 word \<Rightarrow> 32 word" where
  "clock_t_to_compat_clock_t env x = compat_jiffies_to_clock_t env (clock_t_to_jiffies env x)"

record compat_tms =
  c_utime :: "32 word"
  c_stime :: "32 word"
  c_cutime :: "32 word"
  c_cstime :: "32 word"

definition compat_times :: "time_env \<Rightarrow> task_signal \<Rightarrow> bool \<Rightarrow> bool \<Rightarrow> int \<times> compat_tms option" where
  "compat_times env sg tbuf copied =
     (if tbuf then
        let tms = do_sys_times env sg; conv = clock_t_to_compat_clock_t env;
            tmp = \<lparr>c_utime = conv (tms_utime tms), c_stime = conv (tms_stime tms),
                   c_cutime = conv (tms_cutime tms), c_cstime = conv (tms_cstime tms)\<rparr> in
        if \<not> copied then (- EFAULT, None) else (sint (compat_get_clock env), Some tmp)
      else (sint (compat_get_clock env), None))"

section \<open>Resource usage\<close>

definition RUSAGE_SELF :: int where "RUSAGE_SELF = 0"
definition RUSAGE_CHILDREN :: int where "RUSAGE_CHILDREN = - 1"
definition RUSAGE_BOTH :: int where "RUSAGE_BOTH = - 2"
definition RUSAGE_THREAD :: int where "RUSAGE_THREAD = 1"

record rusage =
  ru_utime :: "int \<times> int"
  ru_stime :: "int \<times> int"
  ru_count :: counters
  ru_maxrss :: "64 word"

definition zero_counters :: counters where
  "zero_counters = \<lparr>nvcsw = 0, nivcsw = 0, min_flt = 0, maj_flt = 0, inblock = 0, oublock = 0\<rparr>"

definition add_counters :: "counters \<Rightarrow> counters \<Rightarrow> counters" where
  "add_counters r t = \<lparr>nvcsw = nvcsw r + nvcsw t, nivcsw = nivcsw r + nivcsw t, min_flt = min_flt r + min_flt t,
     maj_flt = maj_flt r + maj_flt t, inblock = inblock r + inblock t, oublock = oublock r + oublock t\<rparr>"

text \<open>\<open>accumulate_thread_rusage (t, r)\<close> on the six counters of \<open>r\<close>; a thread is given by its own counters.\<close>

definition accumulate_thread_rusage :: "counters \<Rightarrow> counters \<Rightarrow> counters" where
  "accumulate_thread_rusage t r = add_counters r t"

text \<open>
  \<open>getrusage (p, who, r)\<close>: \<open>self\<close> are the counters of the thread \<open>p\<close>, \<open>ts\<close> those of all threads of its process in the order of
  \<open>while_each_thread\<close>, \<open>p\<close> first. \<open>None\<close> is \<open>BUG ()\<close>.
\<close>

definition rusage_out :: "time_env \<Rightarrow> int \<Rightarrow> 64 word \<Rightarrow> 64 word \<Rightarrow> counters \<Rightarrow> 64 word \<Rightarrow> rusage" where
  "rusage_out env who utime stime r maxrss =
     (let maxrss =
        (if who \<noteq> RUSAGE_CHILDREN then case mm_hiwater env of Some setmax \<Rightarrow> setmax maxrss | None \<Rightarrow> maxrss else maxrss) in
      \<lparr>ru_utime = ns_to_timeval env utime, ru_stime = ns_to_timeval env stime, ru_count = r, ru_maxrss = maxrss * page_kb env\<rparr>)"

definition getrusage :: "time_env \<Rightarrow> task_signal \<Rightarrow> counters \<Rightarrow> counters list \<Rightarrow> int \<Rightarrow> rusage option" where
  "getrusage env sg self ts who =
     (if who = RUSAGE_THREAD then
        let (utime, stime) = task_cputime_adjusted env in
        Some (rusage_out env who utime stime (accumulate_thread_rusage self zero_counters) (sig_maxrss sg))
      else if \<not> sighand_ok env then
        Some \<lparr>ru_utime = (0, 0), ru_stime = (0, 0), ru_count = zero_counters, ru_maxrss = 0\<rparr>
      else if who = RUSAGE_CHILDREN then
        Some (rusage_out env who (sig_cutime sg) (sig_cstime sg) (sig_children sg) (sig_cmaxrss sg))
      else if who = RUSAGE_BOTH \<or> who = RUSAGE_SELF then
        let (utime, stime, r, maxrss) =
              (if who = RUSAGE_BOTH then (sig_cutime sg, sig_cstime sg, sig_children sg, sig_cmaxrss sg)
               else (0, 0, zero_counters, 0));
            (tgutime, tgstime) = thread_group_cputime_adjusted env;
            r = add_counters r (sig_self sg);
            maxrss = (if maxrss < sig_maxrss sg then sig_maxrss sg else maxrss);
            r = fold accumulate_thread_rusage ts r in
        Some (rusage_out env who (utime + tgutime) (stime + tgstime) r maxrss)
      else None)"

definition sys_getrusage :: "time_env \<Rightarrow> task_signal \<Rightarrow> counters \<Rightarrow> counters list \<Rightarrow> int \<Rightarrow> bool \<Rightarrow> (int \<times> rusage option) option" where
  "sys_getrusage env sg self ts who copied =
     (if who \<noteq> RUSAGE_SELF \<and> who \<noteq> RUSAGE_CHILDREN \<and> who \<noteq> RUSAGE_THREAD then Some (- EINVAL, None)
      else do {
        r \<leftarrow> getrusage env sg self ts who;
        if copied then Some (0, Some r) else Some (- EFAULT, None)
      })"

text \<open>The 32-bit version ends in \<open>put_compat_rusage\<close>, a function of the rest of the kernel: \<open>put\<close>.\<close>

definition compat_getrusage ::
  "time_env \<Rightarrow> (rusage \<Rightarrow> int) \<Rightarrow> task_signal \<Rightarrow> counters \<Rightarrow> counters list \<Rightarrow> int \<Rightarrow> int option" where
  "compat_getrusage env put sg self ts who =
     (if who \<noteq> RUSAGE_SELF \<and> who \<noteq> RUSAGE_CHILDREN \<and> who \<noteq> RUSAGE_THREAD then Some (- EINVAL)
      else do {
        r \<leftarrow> getrusage env sg self ts who;
        Some (put r)
      })"

section \<open>The file mode creation mask\<close>

definition S_IRWXUGO :: "32 word" where "S_IRWXUGO = 0x1FF"

text \<open>\<open>xchg\<close> returns the old mask.\<close>

definition sys_umask :: "32 word \<Rightarrow> 32 word \<Rightarrow> 32 word \<times> 32 word" where
  "sys_umask old msk = (old, msk AND S_IRWXUGO)"

section \<open>Lemmas\<close>

text \<open>The counters are a commutative monoid, so the order of the threads does not matter.\<close>

lemma add_counters_ac:
  "add_counters (add_counters a b) c = add_counters a (add_counters b c)" "add_counters a b = add_counters b a"
  "add_counters zero_counters a = a" "add_counters a zero_counters = a"
  by (cases a; cases b; cases c; simp add: add_counters_def zero_counters_def ac_simps)+

interpretation cm: comm_monoid add_counters zero_counters
  by unfold_locales (fact add_counters_ac)+

definition sum_counters :: "counters list \<Rightarrow> counters" where
  "sum_counters ts = foldr add_counters ts zero_counters"

lemma fold_accumulate: "fold accumulate_thread_rusage ts r = add_counters r (sum_counters ts)"
  by (induction ts arbitrary: r) (simp_all add: accumulate_thread_rusage_def sum_counters_def cm.assoc)

lemma sum_counters_perm: "mset ts = mset us \<Longrightarrow> sum_counters ts = sum_counters us"
proof -
  assume "mset ts = mset us"
  then have "fold accumulate_thread_rusage ts = fold accumulate_thread_rusage us"
    by (rule fold_multiset_equiv [rotated]) (auto simp: accumulate_thread_rusage_def fun_eq_iff cm.assoc cm.commute cm.left_commute)
  then have "fold accumulate_thread_rusage ts zero_counters = fold accumulate_thread_rusage us zero_counters" by simp
  then show ?thesis by (simp add: fold_accumulate)
qed

lemma umask_twice: "fst (sys_umask (snd (sys_umask old a)) b) = a AND S_IRWXUGO"
  by (simp add: sys_umask_def)

section \<open>Properties\<close>

text \<open>
  C37. Resource usage adds up. With the signal lock, the counters reported for the process are those of its exited threads plus the sum over its living threads, in whatever order
  these are visited; those for the children are the accumulated ones; and the two together are what \<open>RUSAGE_BOTH\<close> reports. For one thread
  they are its own. The processor times are those of the living threads, of the children, of both added up, and of the one thread; the resident set size (when no address space is attached) is
  the recorded one, for both the larger of the two, in units of 1024 bytes. The system call returns \<open>EINVAL\<close> exactly for a selector other than self, children
  and thread, and never runs into the \<open>BUG\<close> of the default case.
\<close>

theorem rusage_sums:
  assumes "sighand_ok env"
  shows "(\<exists>s c b th. getrusage env sg self ts RUSAGE_SELF = Some s \<and> getrusage env sg self ts RUSAGE_CHILDREN = Some c
      \<and> getrusage env sg self ts RUSAGE_BOTH = Some b \<and> getrusage env sg self ts RUSAGE_THREAD = Some th
      \<and> ru_count s = add_counters (sig_self sg) (sum_counters ts) \<and> ru_count c = sig_children sg
      \<and> ru_count b = add_counters (ru_count c) (ru_count s) \<and> ru_count th = self
      \<and> map (\<lambda>r. (ru_utime r, ru_stime r)) [s, c, b, th] = map (map_prod (ns_to_timeval env) (ns_to_timeval env))
          [thread_group_cputime_adjusted env, (sig_cutime sg, sig_cstime sg),
           (sig_cutime sg + fst (thread_group_cputime_adjusted env), sig_cstime sg + snd (thread_group_cputime_adjusted env)),
           task_cputime_adjusted env]
      \<and> (mm_hiwater env = None \<longrightarrow> map ru_maxrss [s, c, b, th] = map (\<lambda>m. m * page_kb env)
          [sig_maxrss sg, sig_cmaxrss sg, max (sig_cmaxrss sg) (sig_maxrss sg), sig_maxrss sg]))
    \<and> (mset ts = mset us \<longrightarrow> getrusage env sg self ts who = getrusage env sg self us who)
    \<and> sys_getrusage env sg self ts who copied \<noteq> None
    \<and> (sys_getrusage env sg self ts who copied = Some (- EINVAL, None) \<longleftrightarrow> who \<notin> {RUSAGE_SELF, RUSAGE_CHILDREN, RUSAGE_THREAD})"
  (is "?sums \<and> ?perm \<and> ?def \<and> ?inval")
proof (intro conjI)
  note w = RUSAGE_SELF_def RUSAGE_CHILDREN_def RUSAGE_BOTH_def RUSAGE_THREAD_def
  obtain a b where t: "thread_group_cputime_adjusted env = (a, b)" by (metis surj_pair)
  obtain a' b' where t': "task_cputime_adjusted env = (a', b')" by (metis surj_pair)
  show ?sums using assms
    by (simp add: getrusage_def w t t' rusage_out_def fold_accumulate accumulate_thread_rusage_def cm.assoc Let_def max_def)
      (auto simp: order.strict_implies_order word_gt_0)
  show ?perm using sum_counters_perm [of ts us] by (auto simp: getrusage_def fold_accumulate)
  have g: "getrusage env sg self ts who \<noteq> None" if "who \<in> {RUSAGE_SELF, RUSAGE_CHILDREN, RUSAGE_THREAD}"
    using that by (auto simp: getrusage_def w t t')
  then show ?def by (auto simp: sys_getrusage_def)
  from g show ?inval by (auto simp: sys_getrusage_def split: if_splits)
qed

theorem rusage_sums_witness:
  "\<exists>env sg c. getrusage env sg c [c, c] RUSAGE_SELF \<noteq> None \<and> nvcsw (sum_counters [c, c]) = 2"
proof -
  define c :: counters where "c = \<lparr>nvcsw = 1, nivcsw = 0, min_flt = 0, maj_flt = 0, inblock = 0, oublock = 0\<rparr>"
  define env :: time_env where "env = \<lparr>thread_group_cputime_adjusted = (3, 4), task_cputime_adjusted = (1, 2), nsec_to_clock_t = (\<lambda>x. x), get_clock = 0,
    compat_get_clock = 0, clock_t_to_jiffies = (\<lambda>x. x), compat_jiffies_to_clock_t = ucast, ns_to_timeval = (\<lambda>x. (0, uint x)),
    sighand_ok = True, mm_hiwater = None, page_kb = 4\<rparr>"
  have "sighand_ok env" by (simp add: env_def)
  from rusage_sums [OF this, of undefined c "[c, c]"] have "getrusage env undefined c [c, c] RUSAGE_SELF \<noteq> None" by blast
  moreover have "nvcsw (sum_counters [c, c]) = 2" by (simp add: sum_counters_def add_counters_def zero_counters_def c_def)
  ultimately show ?thesis by blast
qed

end
