(* ===== verification/Kernel_Mm.thy ===== *)
theory Kernel_Mm
  imports Kernel_User
begin

text \<open>
  The calls \<open>prctl (PR_SET_MM, ...)\<close> of \<open>src/Semaphore and Synchronization/sys.c\<close>: they change the addresses of code, data, heap, stack,
  arguments and environment that the kernel keeps for a process, its auxiliary vector and its executable file.

  The memory descriptor is the record \<open>mm\<close>; addresses are unsigned 64-bit words. The auxiliary vector is kept as
  bytes, eight per entry. Files, virtual memory areas, permissions and the check of the data limit are
  fields of \<open>mm_env\<close>, and the kernel is configured with \<open>CONFIG_CHECKPOINT_RESTORE\<close>; the references to files that the code takes (\<open>get_file\<close>, \<open>get_mm_exe_file\<close>, \<open>fdget\<close>) and drops are counted in \<open>file_refs\<close>.
  The size that \<open>PR_SET_MM_MAP_SIZE\<close> stores for the caller with \<open>put_user\<close> is recorded, with its address, in \<open>size_stores\<close>.
\<close>

section \<open>State\<close>

type_synonym addr = "64 word"

record mm_map =
  start_code :: addr
  end_code :: addr
  start_data :: addr
  end_data :: addr
  start_brk :: addr
  brk :: addr
  start_stack :: addr
  arg_start :: addr
  arg_end :: addr
  env_start :: addr
  env_end :: addr

record prctl_mm_map = mm_map +
  auxv :: nat
  auxv_size :: "32 word"
  exe_fd :: "32 word"

record mm =
  mm_addrs :: mm_map
  saved_auxv :: "char list"
  exe_file :: "nat option"
  file_refs :: "nat \<Rightarrow> int"
  size_stores :: "(nat \<times> nat) list"

record mm_env =
  AT_VECTOR_SIZE :: nat
  TASK_SIZE :: addr
  mmap_min_addr :: addr
  data_limit_exceeded :: "mm_map \<Rightarrow> bool"
  fd_file :: "32 word \<Rightarrow> nat option"
  executable :: "nat \<Rightarrow> bool"
  file_permission :: "nat \<Rightarrow> int"
  vma_files :: "nat option list"
  same_path :: "nat \<Rightarrow> nat \<Rightarrow> bool"
  checkpoint_capable :: bool
  resource_capable :: bool
  vma_at :: "addr \<Rightarrow> bool"
  user_map :: "nat \<Rightarrow> prctl_mm_map option"
  put_user_ok :: "nat \<Rightarrow> bool"

text \<open>The vector has \<open>AT_VECTOR_SIZE\<close> entries of eight bytes.\<close>

definition AUXV_BYTES :: "mm_env \<Rightarrow> nat" where "AUXV_BYTES env = 8 * AT_VECTOR_SIZE env"
definition MAP_SIZE :: nat where "MAP_SIZE = 104"

section \<open>Validation of addresses\<close>

definition addr_list :: "('a) mm_map_scheme \<Rightarrow> addr list" where
  "addr_list p = [start_code p, end_code p, start_data p, end_data p, start_brk p, brk p, start_stack p,
     arg_start p, arg_end p, env_start p, env_end p]"

definition check_order :: "bool \<Rightarrow> int" where
  "check_order b = (if b then 0 else - EINVAL)"

definition plain :: "('a) mm_map_scheme \<Rightarrow> mm_map" where
  "plain p = \<lparr>start_code = start_code p, end_code = end_code p, start_data = start_data p, end_data = end_data p, start_brk = start_brk p,
     brk = brk p, start_stack = start_stack p, arg_start = arg_start p, arg_end = arg_end p, env_start = env_start p, env_end = env_end p\<rparr>"

definition validate_prctl_map_addr :: "mm_env \<Rightarrow> ('a) mm_map_scheme \<Rightarrow> int" where
  "validate_prctl_map_addr env p =
     (if (\<exists>val \<in> set (addr_list p). val \<ge> TASK_SIZE env \<or> val < mmap_min_addr env) then - EINVAL
      else if check_order (start_code p < end_code p) \<noteq> 0 \<or> check_order (start_data p \<le> end_data p) \<noteq> 0
         \<or> check_order (start_brk p \<le> brk p) \<noteq> 0 \<or> check_order (arg_start p \<le> arg_end p) \<noteq> 0
         \<or> check_order (env_start p \<le> env_end p) \<noteq> 0
      then - EINVAL
      else if start_brk p \<le> end_data p \<or> brk p \<le> end_data p then - EINVAL
      else if data_limit_exceeded env (plain p) then - EINVAL
      else 0)"

section \<open>The executable file\<close>

definition get_ref :: "nat \<Rightarrow> mm \<Rightarrow> mm" where "get_ref f m = m\<lparr>file_refs := (file_refs m)(f := file_refs m f + 1)\<rparr>"
definition put_ref :: "nat \<Rightarrow> mm \<Rightarrow> mm" where "put_ref f m = m\<lparr>file_refs := (file_refs m)(f := file_refs m f - 1)\<rparr>"

definition prctl_set_mm_exe_file :: "mm_env \<Rightarrow> 32 word \<Rightarrow> mm \<Rightarrow> int \<times> mm" where
  "prctl_set_mm_exe_file env fd m =
     (case fd_file env fd of
        None \<Rightarrow> (- EBADF, m)
      | Some exe \<Rightarrow>
          let m = get_ref exe m in
          if \<not> executable env exe then (- EACCES, put_ref exe m)
          else
            let err = file_permission env exe in
            if err \<noteq> 0 then (err, put_ref exe m)
            else
              let old = exe_file m;
                  m = (case old of None \<Rightarrow> m | Some f \<Rightarrow> get_ref f m) in
              if (case old of None \<Rightarrow> False | Some f \<Rightarrow> (\<exists>v \<in> set (vma_files env). case v of None \<Rightarrow> False | Some g \<Rightarrow> same_path env g f))
              then (- EBUSY, put_ref exe (put_ref (the old) m))
              else
                let m = (case old of None \<Rightarrow> m | Some f \<Rightarrow> put_ref f m);
                    m = get_ref exe m;
                    old_exe = exe_file m;
                    m = m\<lparr>exe_file := Some exe\<rparr>;
                    m = (case old_exe of None \<Rightarrow> m | Some f \<Rightarrow> put_ref f m) in
                (0, put_ref exe m))"

section \<open>Setting all addresses, or one\<close>

text \<open>The last two entries of the vector are made null.\<close>

definition end_auxv :: "mm_env \<Rightarrow> char list \<Rightarrow> char list" where
  "end_auxv env bs = take (AUXV_BYTES env - 16) bs @ replicate 16 NUL"

definition fill_auxv :: "mm_env \<Rightarrow> char list \<Rightarrow> char list" where
  "fill_auxv env bs = bs @ replicate (AUXV_BYTES env - length bs) NUL"

definition PR_SET_MM_MAP :: int where "PR_SET_MM_MAP = 14"
definition PR_SET_MM_MAP_SIZE :: int where "PR_SET_MM_MAP_SIZE = 15"

definition prctl_set_mm_map :: "mm_env \<Rightarrow> uaccess \<Rightarrow> umem \<Rightarrow> int \<Rightarrow> nat \<Rightarrow> nat \<Rightarrow> mm \<Rightarrow> int \<times> mm" where
  "prctl_set_mm_map env ua um opt addr data_size m =
     (if opt = PR_SET_MM_MAP_SIZE then (if put_user_ok env addr then (0, m\<lparr>size_stores := size_stores m @ [(addr, MAP_SIZE)]\<rparr>) else (- EFAULT, m))
      else if data_size \<noteq> MAP_SIZE then (- EINVAL, m)
      else case user_map env addr of
        None \<Rightarrow> (- EFAULT, m)
      | Some p \<Rightarrow>
          let error = validate_prctl_map_addr env p in
          if error \<noteq> 0 then (error, m)
          else if auxv_size p \<noteq> 0 \<and> (auxv p = 0 \<or> unat (auxv_size p) > AUXV_BYTES env) then (- EINVAL, m)
          else
            let (r, bs) = (if auxv_size p \<noteq> 0 then copy_from_user ua (auxv p) (unat (auxv_size p)) um else (0, [])) in
            if r \<noteq> 0 then (- EFAULT, m)
            else
              let user_auxv = end_auxv env (fill_auxv env bs) in
              if exe_fd p \<noteq> - 1 \<and> \<not> checkpoint_capable env then (- EPERM, m)
              else
                let (error, m) = (if exe_fd p \<noteq> - 1 then prctl_set_mm_exe_file env (exe_fd p) m else (0, m)) in
                if error \<noteq> 0 then (error, m)
                else
                  let m = m\<lparr>mm_addrs := plain p\<rparr> in
                  (0, if auxv_size p \<noteq> 0 then m\<lparr>saved_auxv := user_auxv\<rparr> else m))"

definition prctl_set_auxv :: "mm_env \<Rightarrow> uaccess \<Rightarrow> umem \<Rightarrow> nat \<Rightarrow> nat \<Rightarrow> mm \<Rightarrow> int \<times> mm" where
  "prctl_set_auxv env ua um addr len m =
     (if len > AUXV_BYTES env then (- EINVAL, m)
      else
        let (r, bs) = copy_from_user ua addr len um in
        if r \<noteq> 0 then (- EFAULT, m)
        else
          let user_auxv = end_auxv env (fill_auxv env bs) in
          (0, m\<lparr>saved_auxv := take len user_auxv @ drop len (saved_auxv m)\<rparr>))"

definition PR_SET_MM_EXE_FILE :: int where "PR_SET_MM_EXE_FILE = 13"
definition PR_SET_MM_AUXV :: int where "PR_SET_MM_AUXV = 12"

text \<open>The first \<open>switch\<close>: the options 1 to 11, by the field they set.\<close>

definition set_addr :: "int \<Rightarrow> addr \<Rightarrow> mm_map \<Rightarrow> mm_map option" where
  "set_addr opt a p =
     (if opt = 1 then Some (p\<lparr>start_code := a\<rparr>)
      else if opt = 2 then Some (p\<lparr>end_code := a\<rparr>)
      else if opt = 3 then Some (p\<lparr>start_data := a\<rparr>)
      else if opt = 4 then Some (p\<lparr>end_data := a\<rparr>)
      else if opt = 5 then Some (p\<lparr>start_stack := a\<rparr>)
      else if opt = 6 then Some (p\<lparr>start_brk := a\<rparr>)
      else if opt = 7 then Some (p\<lparr>brk := a\<rparr>)
      else if opt = 8 then Some (p\<lparr>arg_start := a\<rparr>)
      else if opt = 9 then Some (p\<lparr>arg_end := a\<rparr>)
      else if opt = 10 then Some (p\<lparr>env_start := a\<rparr>)
      else if opt = 11 then Some (p\<lparr>env_end := a\<rparr>)
      else None)"

definition needs_vma :: "int \<Rightarrow> bool" where
  "needs_vma opt \<longleftrightarrow> opt \<in> {5, 8, 9, 10, 11}"

definition prctl_set_mm :: "mm_env \<Rightarrow> uaccess \<Rightarrow> umem \<Rightarrow> int \<Rightarrow> addr \<Rightarrow> nat \<Rightarrow> nat \<Rightarrow> mm \<Rightarrow> int \<times> mm" where
  "prctl_set_mm env ua um opt a arg4 arg5 m =
     (if arg5 \<noteq> 0 \<or> (arg4 \<noteq> 0 \<and> opt \<noteq> PR_SET_MM_AUXV \<and> opt \<noteq> PR_SET_MM_MAP \<and> opt \<noteq> PR_SET_MM_MAP_SIZE) then (- EINVAL, m)
      else if opt = PR_SET_MM_MAP \<or> opt = PR_SET_MM_MAP_SIZE then prctl_set_mm_map env ua um opt (unat a) arg4 m
      else if \<not> resource_capable env then (- EPERM, m)
      else if opt = PR_SET_MM_EXE_FILE then prctl_set_mm_exe_file env (ucast a) m
      else if opt = PR_SET_MM_AUXV then prctl_set_auxv env ua um (unat a) arg4 m
      else if a \<ge> TASK_SIZE env \<or> a < mmap_min_addr env then (- EINVAL, m)
      else case set_addr opt a (mm_addrs m) of
        None \<Rightarrow> (- EINVAL, m)
      | Some p \<Rightarrow>
          let error = validate_prctl_map_addr env p in
          if error \<noteq> 0 then (error, m)
          else if needs_vma opt \<and> \<not> vma_at env a then (- EFAULT, m)
          else (0, m\<lparr>mm_addrs := p\<rparr>))"

section \<open>Well-formed descriptors\<close>

text \<open>
  All addresses lie in the address space of the process, the pairs are ordered, the heap lies behind the data, and the auxiliary
  vector ends with a null entry.
\<close>

definition map_ok :: "mm_env \<Rightarrow> mm_map \<Rightarrow> bool" where
  "map_ok env p \<longleftrightarrow>
     (\<forall>a \<in> set (addr_list p). mmap_min_addr env \<le> a \<and> a < TASK_SIZE env)
     \<and> start_code p < end_code p \<and> start_data p \<le> end_data p \<and> end_data p < start_brk p \<and> start_brk p \<le> brk p
     \<and> arg_start p \<le> arg_end p \<and> env_start p \<le> env_end p \<and> \<not> data_limit_exceeded env p"

definition auxv_ok :: "mm_env \<Rightarrow> char list \<Rightarrow> bool" where
  "auxv_ok env bs \<longleftrightarrow> length bs = AUXV_BYTES env \<and> drop (AUXV_BYTES env - 16) bs = replicate 16 NUL"

definition mm_ok :: "mm_env \<Rightarrow> mm \<Rightarrow> bool" where
  "mm_ok env m \<longleftrightarrow> 2 \<le> AT_VECTOR_SIZE env \<and> map_ok env (mm_addrs m) \<and> auxv_ok env (saved_auxv m)"

lemma validate_iff: "validate_prctl_map_addr env p = 0 \<longleftrightarrow> map_ok env (plain p)"
proof -
  have l: "addr_list (plain p) = addr_list p" by (simp add: addr_list_def plain_def)
  have b: "start_brk p \<le> brk p \<Longrightarrow> end_data p < start_brk p \<Longrightarrow> end_data p < brk p" by (rule order.strict_trans2)
  show ?thesis unfolding validate_prctl_map_addr_def map_ok_def l using b
    by (auto simp: check_order_def plain_def not_le not_less)
qed

lemma plain_id: "plain (p :: mm_map) = p"
  by (simp add: plain_def)

lemma validate_range: "validate_prctl_map_addr env p \<in> {0, - EINVAL}"
  by (simp add: validate_prctl_map_addr_def)

lemma refs_cancel [simp]: "put_ref f (get_ref f m) = m" "exe_file (get_ref f m) = exe_file m" "exe_file (put_ref f m) = exe_file m"
  by (simp_all add: get_ref_def put_ref_def fun_upd_idem)

lemma end_auxv_ok: "2 \<le> AT_VECTOR_SIZE env \<Longrightarrow> length bs \<le> AUXV_BYTES env \<Longrightarrow> auxv_ok env (end_auxv env (fill_auxv env bs))"
  by (simp add: auxv_ok_def end_auxv_def fill_auxv_def AUXV_BYTES_def)

lemma auxv_ok_prefix:
  assumes "auxv_ok env a" "auxv_ok env b"
  shows "auxv_ok env (take n a @ drop n b)"
proof -
  let ?k = "AUXV_BYTES env"
  have len: "length a = ?k" "length b = ?k" and t: "drop (?k - 16) a = replicate 16 NUL" "drop (?k - 16) b = replicate 16 NUL"
    using assms by (auto simp: auxv_ok_def)
  have k: "16 \<le> ?k" using len(1) t(1) by (metis diff_diff_cancel diff_le_self length_drop length_replicate nat_le_linear)
  have "drop (?k - 16) (take n a @ drop n b) = take (n - (?k - 16)) (replicate 16 NUL) @ drop (n - (?k - 16)) (replicate 16 NUL)"
  proof (cases "n \<le> ?k - 16")
    case True
    then show ?thesis using len k t(2) by (simp add: drop_take min_def add.commute)
  next
    case False
    then have "drop (?k - 16) (take n a) = take (n - (?k - 16)) (drop (?k - 16) a)" by (simp add: drop_take)
    moreover have "drop (?k - 16 - min (length a) n) (drop n b) = drop (n - (?k - 16)) (drop (?k - 16) b)"
      using False len k by (cases "n \<le> ?k") (simp_all add: min_def)
    ultimately show ?thesis using t by simp
  qed
  then have "drop (?k - 16) (take n a @ drop n b) = replicate 16 NUL" by (simp only: append_take_drop_id)
  moreover have "length (take n a @ drop n b) = ?k" using len by (auto simp: min_def)
  ultimately show ?thesis by (simp only: auxv_ok_def)
qed

lemma exe_file_cases:
  assumes "prctl_set_mm_exe_file env fd m = (r, m')"
  shows "(r \<noteq> 0 \<longrightarrow> m' = m) \<and> mm_addrs m' = mm_addrs m \<and> saved_auxv m' = saved_auxv m
    \<and> (r = 0 \<longrightarrow> (\<exists>exe. fd_file env fd = Some exe \<and> exe_file m' = Some exe
        \<and> (\<forall>f. file_refs m' f = file_refs m f + (if f = exe then 1 else 0) - (if exe_file m = Some f then 1 else 0))))"
  using assms
  by (auto simp: prctl_set_mm_exe_file_def Let_def split: option.splits if_splits) (auto simp: get_ref_def put_ref_def)

lemma set_auxv_cases:
  assumes "uaccess_ok ua" "prctl_set_auxv env ua um addr len m = (r, m')"
  shows "(r \<noteq> 0 \<longrightarrow> m' = m) \<and> mm_addrs m' = mm_addrs m \<and> exe_file m' = exe_file m \<and> file_refs m' = file_refs m
    \<and> (mm_ok env m \<longrightarrow> auxv_ok env (saved_auxv m'))"
proof -
  obtain k bs where c: "copy_from_user ua addr len um = (k, bs)" by (metis surj_pair)
  have "k = 0 \<Longrightarrow> length bs = len" using copy_from_userD [OF assms(1), of addr len um bs] c by simp
  then show ?thesis using assms(2) c end_auxv_ok [of env bs]
    by (auto simp: prctl_set_auxv_def mm_ok_def Let_def split: if_splits intro!: auxv_ok_prefix)
qed

lemma set_mm_map_cases:
  assumes ua: "uaccess_ok ua" and r: "prctl_set_mm_map env ua um opt addr sz m = (r, m')"
  shows "(r \<noteq> 0 \<longrightarrow> m' = m) \<and> (mm_ok env m \<longrightarrow> mm_ok env m')"
proof (cases "m' = m \<or> opt = PR_SET_MM_MAP_SIZE")
  case True
  then show ?thesis using r by (auto simp: prctl_set_mm_map_def mm_ok_def split: if_splits)
next
  case False
  then obtain p where p: "user_map env addr = Some p" using r by (auto simp: prctl_set_mm_map_def split: if_splits option.splits)
  let ?c = "if auxv_size p \<noteq> 0 then copy_from_user ua (auxv p) (unat (auxv_size p)) um else (0, [])"
  obtain k bs where c: "?c = (k, bs)" by (metis surj_pair)
  let ?e = "if exe_fd p \<noteq> - 1 then prctl_set_mm_exe_file env (exe_fd p) m else (0, m)"
  obtain er m1 where e: "?e = (er, m1)" by (metis surj_pair)
  then have e1: "er \<noteq> 0 \<Longrightarrow> m1 = m" "mm_addrs m1 = mm_addrs m" "saved_auxv m1 = saved_auxv m"
    using exe_file_cases [of env "exe_fd p" m er m1] by (auto split: if_splits)
  have len: "length bs \<le> AUXV_BYTES env" if "k = 0" "unat (auxv_size p) \<le> AUXV_BYTES env"
    using c that copy_from_userD [OF ua, of "auxv p" "unat (auxv_size p)" um bs] by (auto split: if_splits)
  note r' = r [unfolded prctl_set_mm_map_def Let_def p option.case c e prod.case]
  from r' False e1(1) have v: "validate_prctl_map_addr env p = 0" and z: "k = 0" "er = 0" "r = 0"
    and a: "auxv_size p \<noteq> 0 \<longrightarrow> unat (auxv_size p) \<le> AUXV_BYTES env"
    and m': "m' = (if auxv_size p \<noteq> 0 then m1\<lparr>mm_addrs := plain p, saved_auxv := end_auxv env (fill_auxv env bs)\<rparr> else m1\<lparr>mm_addrs := plain p\<rparr>)"
    by (auto split: if_splits)
  have "mm_ok env m'" if "mm_ok env m"
    using that v z(1) a m' e1(3) len end_auxv_ok [of env bs] by (auto simp: mm_ok_def validate_iff)
  with z show ?thesis by simp
qed

lemma set_mm_cases:
  assumes "uaccess_ok ua" "prctl_set_mm env ua um opt a arg4 arg5 m = (r, m')"
  shows "(r \<noteq> 0 \<longrightarrow> m' = m) \<and> (mm_ok env m \<longrightarrow> mm_ok env m')
    \<and> (\<not> resource_capable env \<and> r = 0 \<longrightarrow> opt = PR_SET_MM_MAP \<or> opt = PR_SET_MM_MAP_SIZE)"
proof -
  note r = assms(2) [unfolded prctl_set_mm_def]
  consider "m' = m" "r \<noteq> 0" | "opt = PR_SET_MM_MAP \<or> opt = PR_SET_MM_MAP_SIZE" "prctl_set_mm_map env ua um opt (unat a) arg4 m = (r, m')"
    | "resource_capable env" "prctl_set_mm_exe_file env (ucast a) m = (r, m')"
    | "resource_capable env" "prctl_set_auxv env ua um (unat a) arg4 m = (r, m')"
    | p where "resource_capable env" "r = 0" "validate_prctl_map_addr env p = 0" "m' = m\<lparr>mm_addrs := p\<rparr>"
    using r by (auto simp: Let_def split: if_splits option.splits)
  then show ?thesis
  proof cases
    case 1
    then show ?thesis by simp
  next
    case 2
    then show ?thesis using set_mm_map_cases [OF assms(1) 2(2)] by blast
  next
    case 3
    then show ?thesis using exe_file_cases [OF 3(2)] by (auto simp: mm_ok_def)
  next
    case 4
    then show ?thesis using set_auxv_cases [OF assms(1) 4(2)] by (auto simp: mm_ok_def)
  next
    case 5
    then show ?thesis by (simp add: mm_ok_def validate_iff plain_id)
  qed
qed

section \<open>Properties\<close>

text \<open>
  C31. The memory descriptor stays sane. Whatever a process passes to \<open>prctl (PR_SET_MM)\<close>: an error leaves the descriptor exactly as it was, references to files
  included. A well-formed descriptor stays well formed: every address inside the address space, code, data,
  heap, argument and environment ranges in order, the heap behind the data, the auxiliary vector ended by null entries.
  Without the resource capability only the whole-map options can succeed.
\<close>

theorem prctl_set_mm_safe:
  assumes "uaccess_ok ua" "prctl_set_mm env ua um opt a arg4 arg5 m = (r, m')"
  shows "(r \<noteq> 0 \<longrightarrow> m' = m) \<and> (mm_ok env m \<longrightarrow> mm_ok env m')
    \<and> (\<not> resource_capable env \<and> r = 0 \<longrightarrow> opt = PR_SET_MM_MAP \<or> opt = PR_SET_MM_MAP_SIZE)"
  using set_mm_cases [OF assms] .

definition small_mm_env :: mm_env where
  "small_mm_env = \<lparr>AT_VECTOR_SIZE = 46, TASK_SIZE = 1000, mmap_min_addr = 2, data_limit_exceeded = (\<lambda>_. False), fd_file = (\<lambda>_. None), executable = (\<lambda>_. True),
     file_permission = (\<lambda>_. 0), vma_files = [], same_path = (=), checkpoint_capable = False, resource_capable = True, vma_at = (\<lambda>_. True),
     user_map = (\<lambda>_. None), put_user_ok = (\<lambda>_. False)\<rparr>"

definition small_mm :: mm where
  "small_mm = \<lparr>mm_addrs = \<lparr>start_code = 2, end_code = 3, start_data = 4, end_data = 5, start_brk = 6, brk = 7, start_stack = 8, arg_start = 9, arg_end = 10,
     env_start = 11, env_end = 12\<rparr>, saved_auxv = replicate 368 NUL, exe_file = None, file_refs = (\<lambda>_. 0), size_stores = []\<rparr>"

theorem prctl_set_mm_safe_witness:
  "\<exists>m'. prctl_set_mm small_mm_env (flat_access 0) (\<lambda>_. NUL) 7 20 0 0 small_mm = (0, m') \<and> brk (mm_addrs m') = 20 \<and> mm_ok small_mm_env m'"
proof -
  let ?r = "prctl_set_mm small_mm_env (flat_access 0) (\<lambda>_. NUL) 7 20 0 0 small_mm"
  have 0: "fst ?r = 0" "brk (mm_addrs (snd ?r)) = 20"
    by (simp_all add: prctl_set_mm_def small_mm_env_def small_mm_def PR_SET_MM_MAP_def PR_SET_MM_MAP_SIZE_def PR_SET_MM_AUXV_def
      PR_SET_MM_EXE_FILE_def set_addr_def validate_prctl_map_addr_def addr_list_def check_order_def needs_vma_def Let_def)
  have "mm_ok small_mm_env small_mm"
    by (simp add: mm_ok_def map_ok_def auxv_ok_def AUXV_BYTES_def small_mm_env_def small_mm_def addr_list_def)
  moreover have "?r = (0, snd ?r)" using 0(1) by (metis prod.collapse)
  ultimately show ?thesis using prctl_set_mm_safe [OF flat_access_ok, of small_mm_env 0 "\<lambda>_. NUL" 7 20 0 0 small_mm 0 "snd ?r"] 0(2) by metis
qed

text \<open>
  The executable file. Changing it succeeds only for an executable file of the caller whose predecessor is no longer mapped; the descriptor then holds exactly one reference to the
  new file, and the one to the old file is dropped.
\<close>

theorem exe_file_references:
  assumes "prctl_set_mm_exe_file env fd m = (r, m')"
  shows "if r = 0
    then \<exists>exe. fd_file env fd = Some exe \<and> executable env exe \<and> file_permission env exe = 0 \<and> exe_file m' = Some exe
      \<and> (\<forall>old v. exe_file m = Some old \<and> Some v \<in> set (vma_files env) \<longrightarrow> \<not> same_path env v old)
      \<and> (\<forall>f. file_refs m' f = file_refs m f + (if f = exe then 1 else 0) - (if exe_file m = Some f then 1 else 0))
    else m' = m"
proof -
  have "\<exists>exe. fd_file env fd = Some exe \<and> executable env exe \<and> file_permission env exe = 0
      \<and> (\<forall>old v. exe_file m = Some old \<and> Some v \<in> set (vma_files env) \<longrightarrow> \<not> same_path env v old)" if "r = 0"
    using assms that by (auto simp: prctl_set_mm_exe_file_def Let_def split: option.splits if_splits)
  with exe_file_cases [OF assms] show ?thesis by auto
qed

theorem exe_file_references_witness:
  "\<exists>m'. prctl_set_mm_exe_file (small_mm_env\<lparr>fd_file := (\<lambda>_. Some 3)\<rparr>) 0 small_mm = (0, m') \<and> file_refs m' 3 = 1"
proof -
  let ?env = "small_mm_env\<lparr>fd_file := (\<lambda>_. Some 3)\<rparr>"
  let ?r = "prctl_set_mm_exe_file ?env 0 small_mm"
  have "fst ?r = 0" by (simp add: prctl_set_mm_exe_file_def small_mm_env_def small_mm_def Let_def get_ref_def put_ref_def)
  then have r: "?r = (0, snd ?r)" by (metis prod.collapse)
  from exe_file_references [OF r] have "file_refs (snd ?r) 3 = 1" by (auto simp: small_mm_env_def small_mm_def)
  with r show ?thesis by blast
qed

end
