(* ===== verification/Kernel_Sysinfo.thy ===== *)
theory Kernel_Sysinfo
  imports Prelude
begin

text \<open>
  \<open>sysinfo\<close>, its version for 32-bit programs, and \<open>getcpu\<close>, of \<open>src/Semaphore and Synchronization/sys.c\<close>. The memory figures are
  unsigned 64-bit numbers with the wrap-around written out, since the code detects overflow by comparing
  the wrapped values. What the kernel measures (\<open>si_meminfo\<close>, \<open>si_swapinfo\<close>, the load, the uptime) is a parameter.
\<close>

section \<open>Scaling to bytes\<close>

record sysinfo =
  uptime :: int
  loads :: "int list"
  totalram :: int
  freeram :: int
  sharedram :: int
  bufferram :: int
  totalswap :: int
  freeswap :: int
  procs :: int
  totalhigh :: int
  freehigh :: int
  mem_unit :: int

text \<open>
  The loop over \<open>mem_unit\<close>: the number of shifts, or \<open>None\<close> when the total overflows and the code jumps to \<open>out\<close>.
\<close>

function unit_loop :: "int \<Rightarrow> int \<Rightarrow> nat \<Rightarrow> nat option" where
  "unit_loop munit mem_total bitcount =
     (if munit > 1 then
        let bitcount = bitcount + 1; munit = munit div 2; sav_total = mem_total; mem_total = u64 (2 * mem_total) in
        if mem_total < sav_total then None else unit_loop munit mem_total bitcount
      else Some bitcount)"
  by pat_completeness auto
termination by (relation "measure (\<lambda>(u, _, _). nat u)") auto

declare unit_loop.simps [simp del]

definition shift_left :: "nat \<Rightarrow> int \<Rightarrow> int" where "shift_left b x = u64 (x * 2 ^ b)"
definition shift_right :: "nat \<Rightarrow> int \<Rightarrow> int" where "shift_right b x = x div 2 ^ b"

definition map_memory :: "(int \<Rightarrow> int) \<Rightarrow> sysinfo \<Rightarrow> sysinfo" where
  "map_memory f i = i\<lparr>totalram := f (totalram i), freeram := f (freeram i), sharedram := f (sharedram i), bufferram := f (bufferram i),
     totalswap := f (totalswap i), freeswap := f (freeswap i), totalhigh := f (totalhigh i), freehigh := f (freehigh i)\<rparr>"

text \<open>
  \<open>do_sysinfo\<close>, given the structure as it is filled in by the measurements, with the boot time \<open>(tv_sec, tv_nsec)\<close>.
\<close>

definition do_sysinfo :: "int \<times> int \<Rightarrow> sysinfo \<Rightarrow> sysinfo" where
  "do_sysinfo tp filled =
     (let info = filled\<lparr>uptime := fst tp + (if snd tp \<noteq> 0 then 1 else 0)\<rparr>;
          mem_total = u64 (totalram info + totalswap info) in
      if mem_total < totalram info \<or> mem_total < totalswap info then info
      else case unit_loop (mem_unit info) mem_total 0 of
        None \<Rightarrow> info
      | Some bitcount \<Rightarrow> map_memory (shift_left bitcount) (info\<lparr>mem_unit := 1\<rparr>))"

definition sys_sysinfo :: "int \<times> int \<Rightarrow> sysinfo \<Rightarrow> bool \<Rightarrow> int \<times> sysinfo option" where
  "sys_sysinfo tp filled copied =
     (let val = do_sysinfo tp filled in if copied then (0, Some val) else (- EFAULT, None))"

section \<open>The version for 32-bit programs\<close>

record compat_sysinfo =
  c_uptime :: int
  c_loads :: "int list"
  c_totalram :: int
  c_freeram :: int
  c_sharedram :: int
  c_bufferram :: int
  c_totalswap :: int
  c_freeswap :: int
  c_procs :: int
  c_totalhigh :: int
  c_freehigh :: int
  c_mem_unit :: int

definition PAGE_SIZE :: int where "PAGE_SIZE = 4096"

text \<open>The loop that doubles \<open>mem_unit\<close>; it does not end when the unit is 0.\<close>

partial_function (option) page_loop :: "int \<Rightarrow> nat \<Rightarrow> (int \<times> nat) option" where
  [code]: "page_loop unit bitcount = (if unit < PAGE_SIZE then page_loop (u32 (2 * unit)) (bitcount + 1) else Some (unit, bitcount))"

definition scale_down :: "sysinfo \<Rightarrow> sysinfo option" where
  "scale_down s =
     (if totalram s div 4294967296 \<noteq> 0 \<or> totalswap s div 4294967296 \<noteq> 0 then do {
        (unit, bitcount) \<leftarrow> page_loop (mem_unit s) 0;
        Some (map_memory (shift_right bitcount) (s\<lparr>mem_unit := unit\<rparr>))
      }
      else Some s)"

definition to_compat :: "sysinfo \<Rightarrow> compat_sysinfo" where
  "to_compat s = \<lparr>c_uptime = s32 (uptime s), c_loads = map u32 (loads s), c_totalram = u32 (totalram s), c_freeram = u32 (freeram s),
     c_sharedram = u32 (sharedram s), c_bufferram = u32 (bufferram s), c_totalswap = u32 (totalswap s), c_freeswap = u32 (freeswap s),
     c_procs = u16 (procs s), c_totalhigh = u32 (totalhigh s), c_freehigh = u32 (freehigh s), c_mem_unit = u32 (mem_unit s)\<rparr>"

definition compat_sysinfo_call :: "int \<times> int \<Rightarrow> sysinfo \<Rightarrow> bool \<Rightarrow> (int \<times> compat_sysinfo option) option" where
  "compat_sysinfo_call tp filled copied = do {
     s \<leftarrow> scale_down (do_sysinfo tp filled);
     if copied then Some (0, Some (to_compat s)) else Some (- EFAULT, None)
   }"

section \<open>The processor\<close>

text \<open>
  \<open>getcpu\<close>: \<open>put\<close> is the result of \<open>put_user\<close>; the stores are returned.
\<close>

definition sys_getcpu :: "(nat \<Rightarrow> int) \<Rightarrow> (int \<Rightarrow> int) \<Rightarrow> int \<Rightarrow> nat option \<Rightarrow> nat option \<Rightarrow> int \<times> (nat \<times> int) list" where
  "sys_getcpu put cpu_to_node cpu cpup nodep =
     (let one = (\<lambda>p v. case p of None \<Rightarrow> (0, []) | Some a \<Rightarrow> if put a = 0 then (0, [(a, v)]) else (put a, []));
          (e1, w1) = one cpup cpu;
          (e2, w2) = one nodep (cpu_to_node cpu) in
      (if e1 \<noteq> 0 \<or> e2 \<noteq> 0 then - EFAULT else 0, w1 @ w2))"

section \<open>Lemmas\<close>

lemma u64_over: "18446744073709551616 \<le> x \<Longrightarrow> x < 2 ^ 65 \<Longrightarrow> u64 x = x - 18446744073709551616"
proof -
  assume "18446744073709551616 \<le> x" "x < 2 ^ 65"
  then have "(x - 18446744073709551616) mod 18446744073709551616 = x - 18446744073709551616" by (intro mod_pos_pos_trivial) simp_all
  then show ?thesis by (simp only: u64_def minus_mod_self2)
qed

lemma unit_loop_power:
  assumes "0 \<le> t" "t < 18446744073709551616"
  shows "unit_loop (2 ^ k) t b = (if t * 2 ^ k < 18446744073709551616 then Some (b + k) else None)"
  using assms
proof (induction k arbitrary: t b)
  case 0
  then show ?case by (simp add: unit_loop.simps)
next
  case (Suc k)
  have u: "(2 :: int) ^ Suc k > 1" "2 ^ Suc k div 2 = (2 :: int) ^ k" by (rule power_gt1) simp_all
  show ?case
  proof (cases "2 * t < 18446744073709551616")
    case True
    then have "u64 (2 * t) = 2 * t" using Suc.prems by (intro u64_id) simp_all
    then show ?thesis using Suc.IH [of "2 * t" "b + 1"] Suc.prems True u by (simp add: unit_loop.simps [of "2 * 2 ^ k"] mult.commute mult.left_commute Let_def)
  next
    case False
    have "u64 (2 * t) = 2 * t - 18446744073709551616"
      using False Suc.prems by (intro u64_over) simp_all
    then have "u64 (2 * t) < t" using Suc.prems by simp
    moreover have "\<not> t * 2 ^ Suc k < 18446744073709551616"
    proof -
      have "t * 2 \<le> t * 2 ^ Suc k" using Suc.prems(1) by (intro mult_left_mono) simp_all
      with False show ?thesis by linarith
    qed
    ultimately show ?thesis using u by (simp add: unit_loop.simps [of "2 * 2 ^ k"] Let_def)
  qed
qed

text \<open>Figures that fit together: a part is never more than its total.\<close>

definition figures_ok :: "sysinfo \<Rightarrow> bool" where
  "figures_ok i \<longleftrightarrow> 0 \<le> totalram i \<and> totalram i < 18446744073709551616 \<and> 0 \<le> totalswap i \<and> totalswap i < 18446744073709551616
     \<and> (\<forall>x \<in> {freeram i, sharedram i, bufferram i, totalhigh i, freehigh i}. 0 \<le> x \<and> x \<le> totalram i)
     \<and> 0 \<le> freeswap i \<and> freeswap i \<le> totalswap i"

definition memory_values :: "sysinfo \<Rightarrow> int list" where
  "memory_values i = [totalram i, freeram i, sharedram i, bufferram i, totalswap i, freeswap i, totalhigh i, freehigh i]"

lemma memory_values_map: "memory_values (map_memory f i) = map f (memory_values i)"
  by (simp add: memory_values_def map_memory_def)

lemma wrapped_sum: "0 \<le> a \<Longrightarrow> a < 18446744073709551616 \<Longrightarrow> 0 \<le> b \<Longrightarrow> b < 18446744073709551616 \<Longrightarrow> u64 (a + b) < a \<or> u64 (a + b) < b \<longleftrightarrow> 18446744073709551616 \<le> a + b"
  by (cases "a + b < 18446744073709551616") (auto simp: u64_id u64_over)

lemma memory_values_le: "figures_ok i \<Longrightarrow> x \<in> set (memory_values i) \<Longrightarrow> x \<le> totalram i \<or> x \<le> totalswap i"
  by (auto simp: memory_values_def figures_ok_def)

lemma page_loop_power: "k \<le> 12 \<Longrightarrow> page_loop (2 ^ k) b = Some (4096, b + (12 - k))"
proof (induction "12 - k" arbitrary: k b)
  case 0
  then show ?case by (simp add: page_loop.simps PAGE_SIZE_def)
next
  case (Suc n)
  then have k: "k < 12" "n = 12 - Suc k" by simp_all
  then have "(2 :: int) ^ k < 2 ^ 12" by (intro power_strict_increasing) simp_all
  moreover have "u32 (2 * 2 ^ k) = 2 ^ Suc k" using calculation by (subst u32_id) simp_all
  ultimately show ?case using Suc.hyps(1) [OF k(2), of "b + 1"] k by (simp add: page_loop.simps [of "2 ^ k"] PAGE_SIZE_def)
qed

lemma memory_values_unit: "memory_values (i\<lparr>mem_unit := u\<rparr>) = memory_values i"
  by (simp add: memory_values_def)

lemma page_div:
  assumes "0 \<le> v" "v < 17592186044416"
  shows "u32 (shift_right 12 v) = v div 4096"
proof -
  have "0 \<le> v div 4096" using assms(1) by (simp add: pos_imp_zdiv_nonneg_iff)
  moreover have "v div 4096 < 4294967296" using assms zdiv_mono1 [of v 17592186044415 4096] by simp
  ultimately show ?thesis by (simp add: shift_right_def u32_id)
qed

lemma sysinfo_scaled:
  assumes "figures_ok i" "mem_unit i = 2 ^ k" "(totalram i + totalswap i) * 2 ^ k < 18446744073709551616"
  shows "mem_unit (do_sysinfo tp i) = 1" "memory_values (do_sysinfo tp i) = map (\<lambda>v. v * 2 ^ k) (memory_values i)"
proof -
  let ?i = "i\<lparr>uptime := fst tp + (if snd tp \<noteq> 0 then 1 else 0)\<rparr>"
  let ?t = "totalram i + totalswap i"
  have f: "0 \<le> totalram i" "0 \<le> totalswap i" using assms(1) by (auto simp: figures_ok_def)
  have "?t * 1 \<le> ?t * 2 ^ k" using f by (intro mult_left_mono) simp_all
  then have t: "?t < 18446744073709551616" using le_less_trans [OF _ assms(3)] by simp
  then have u: "u64 ?t = ?t" using f by (intro u64_id) simp_all
  have d: "do_sysinfo tp i = map_memory (shift_left k) (?i\<lparr>mem_unit := 1\<rparr>)"
    using unit_loop_power [of ?t k 0] f t assms(2,3) by (simp add: do_sysinfo_def u Let_def)
  then show "mem_unit (do_sysinfo tp i) = 1" by (simp add: map_memory_def)
  have "shift_left k x = x * 2 ^ k" if "x \<in> set (memory_values i)" for x
  proof -
    have x: "0 \<le> x" "x \<le> ?t" using that assms(1) f by (auto simp: memory_values_def figures_ok_def)
    then have "x * 2 ^ k \<le> ?t * 2 ^ k" "0 \<le> x * 2 ^ k" by (simp_all add: mult_right_mono)
    with assms(3) show ?thesis unfolding shift_left_def by (intro u64_id) linarith+
  qed
  then have "map (shift_left k) (memory_values i) = map (\<lambda>v. v * 2 ^ k) (memory_values i)" by simp
  moreover have "memory_values (?i\<lparr>mem_unit := 1\<rparr>) = memory_values i" by (simp add: memory_values_def)
  ultimately show "memory_values (do_sysinfo tp i) = map (\<lambda>v. v * 2 ^ k) (memory_values i)" by (simp add: d memory_values_map)
qed

lemma sysinfo_unscaled:
  assumes "figures_ok i" "mem_unit i = 2 ^ k" "\<not> (totalram i + totalswap i) * 2 ^ k < 18446744073709551616"
  shows "mem_unit (do_sysinfo tp i) = mem_unit i" "memory_values (do_sysinfo tp i) = memory_values i"
proof -
  let ?t = "totalram i + totalswap i"
  have f: "0 \<le> totalram i" "totalram i < 18446744073709551616" "0 \<le> totalswap i" "totalswap i < 18446744073709551616"
    using assms(1) by (auto simp: figures_ok_def)
  have "do_sysinfo tp i = i\<lparr>uptime := fst tp + (if snd tp \<noteq> 0 then 1 else 0)\<rparr>"
  proof (cases "?t < 18446744073709551616")
    case t: True
    then have "u64 ?t = ?t" using f by (intro u64_id) simp_all
    then show ?thesis using unit_loop_power [of ?t k 0] f t assms(2,3) by (simp add: do_sysinfo_def Let_def)
  next
    case t: False
    then have "u64 ?t < totalram i \<or> u64 ?t < totalswap i" using wrapped_sum [OF f] by simp
    then show ?thesis by (simp add: do_sysinfo_def Let_def)
  qed
  then show "mem_unit (do_sysinfo tp i) = mem_unit i" "memory_values (do_sysinfo tp i) = memory_values i"
    by (simp_all add: memory_values_def)
qed

section \<open>Properties\<close>

text \<open>
  C36. \<open>sysinfo\<close> reports bytes without losing any. For figures that fit together and a unit that is a power of two, the structure that is returned describes the same
  amounts: each value times the unit is what was measured, without wrap-around. The unit is 1 exactly when the sum of memory and swap in
  bytes fits in 64 bits, or was 1 before; otherwise nothing was scaled.
\<close>

theorem sysinfo_bytes:
  assumes "figures_ok i" "mem_unit i = 2 ^ k"
  shows "map (\<lambda>v. v * mem_unit (do_sysinfo tp i)) (memory_values (do_sysinfo tp i)) = map (\<lambda>v. v * mem_unit i) (memory_values i)
    \<and> (if (totalram i + totalswap i) * mem_unit i < 18446744073709551616 then mem_unit (do_sysinfo tp i) = 1
       else mem_unit (do_sysinfo tp i) = mem_unit i \<and> memory_values (do_sysinfo tp i) = memory_values i)"
  using sysinfo_scaled [OF assms] sysinfo_unscaled [OF assms] assms(2)
  by (cases "(totalram i + totalswap i) * 2 ^ k < 18446744073709551616") simp_all

definition laptop :: sysinfo where
  "laptop = \<lparr>uptime = 0, loads = [0, 0, 0], totalram = 4000000, freeram = 1000, sharedram = 10, bufferram = 20, totalswap = 1000, freeswap = 500,
     procs = 300, totalhigh = 0, freehigh = 0, mem_unit = 4096\<rparr>"

lemma laptop_ok: "figures_ok laptop" "mem_unit laptop = 2 ^ 12"
  by (simp_all add: laptop_def figures_ok_def)

theorem sysinfo_bytes_witness: "mem_unit (do_sysinfo (5, 1) laptop) = 1 \<and> totalram (do_sysinfo (5, 1) laptop) = 16384000000"
proof -
  note b = sysinfo_bytes [OF laptop_ok, of "(5, 1)"]
  have u: "mem_unit (do_sysinfo (5, 1) laptop) = 1" using conjunct2 [OF b] by (simp add: laptop_def)
  have "totalram (do_sysinfo (5, 1) laptop) = totalram laptop * mem_unit laptop"
    using conjunct1 [OF b] unfolding u by (simp add: memory_values_def)
  with u show ?thesis by (simp add: laptop_def)
qed

text \<open>
  The 32-bit version terminates and rounds down to whole units. When the figures are given in a unit that is a power of two of at most a page, the scaling loop ends. If memory and
  swap do not exceed \<open>2 ^ 32\<close> pages, each reported value is the exact amount divided by the reported unit,
  rounded down, and nothing is cut off by the narrower fields.
\<close>

theorem compat_sysinfo_rounds:
  assumes fig: "figures_ok i" and unit: "mem_unit i = 2 ^ k" "k \<le> 12"
    and small: "(totalram i + totalswap i) * mem_unit i < 4294967296 * PAGE_SIZE"
  shows "\<exists>c. compat_sysinfo_call tp i True = Some (0, Some c) \<and> 0 < c_mem_unit c
    \<and> [c_totalram c, c_freeram c, c_sharedram c, c_bufferram c, c_totalswap c, c_freeswap c, c_totalhigh c, c_freehigh c]
      = map (\<lambda>v. v * mem_unit i div c_mem_unit c) (memory_values i)"
proof -
  let ?d = "do_sysinfo tp i"
  let ?big = "totalram ?d div 4294967296 \<noteq> 0 \<or> totalswap ?d div 4294967296 \<noteq> 0"
  have f: "0 \<le> totalram i" "0 \<le> totalswap i" using fig by (auto simp: figures_ok_def)
  have lim: "(totalram i + totalswap i) * 2 ^ k < 17592186044416" using small by (simp add: PAGE_SIZE_def unit(1))
  note sc = sysinfo_scaled [OF fig unit(1), of tp]
  have one: "mem_unit ?d = 1" and vals: "memory_values ?d = map (\<lambda>v. v * 2 ^ k) (memory_values i)" using sc lim by auto
  have nn: "0 \<le> v \<and> v < 17592186044416" if "v \<in> set (memory_values ?d)" for v
  proof -
    from that obtain x where x: "v = x * 2 ^ k" "x \<in> set (memory_values i)" unfolding vals by auto
    then have "0 \<le> x" "x \<le> totalram i + totalswap i" using fig f by (auto simp: memory_values_def figures_ok_def)
    then have "x * 2 ^ k \<le> (totalram i + totalswap i) * 2 ^ k" "0 \<le> x * 2 ^ k" by (simp_all add: mult_right_mono)
    with lim x(1) show ?thesis by linarith
  qed
  let ?c = "\<lambda>c. [c_totalram c, c_freeram c, c_sharedram c, c_bufferram c, c_totalswap c, c_freeswap c, c_totalhigh c, c_freehigh c]"
  have tc: "?c (to_compat s) = map u32 (memory_values s)" for s by (simp add: to_compat_def memory_values_def)
  show ?thesis
  proof (cases ?big)
    case True
    let ?s = "map_memory (shift_right 12) (?d\<lparr>mem_unit := 4096\<rparr>)"
    have "scale_down ?d = Some ?s" using True page_loop_power [of 0 0] one by (simp add: scale_down_def)
    then have r: "compat_sysinfo_call tp i True = Some (0, Some (to_compat ?s))" by (simp add: compat_sysinfo_call_def)
    have u: "c_mem_unit (to_compat ?s) = 4096" by (simp add: to_compat_def map_memory_def u32_def)
    have "u32 (shift_right 12 v) = v div 4096" if "v \<in> set (memory_values ?d)" for v
      using nn [OF that] page_div by blast
    then have "map u32 (memory_values ?s) = map (\<lambda>v. v div 4096) (memory_values ?d)"
      by (simp add: memory_values_map memory_values_unit)
    with r u vals unit(1) tc [of ?s] show ?thesis by simp
  next
    case False
    have big: "x < 4294967296" if "\<not> x div 4294967296 \<noteq> 0" "0 \<le> x" for x :: int using that by (simp add: div_int_pos_iff zdiv_eq_0_iff)
    have "scale_down ?d = Some ?d" using False by (simp add: scale_down_def)
    then have r: "compat_sysinfo_call tp i True = Some (0, Some (to_compat ?d))" by (simp add: compat_sysinfo_call_def)
    have u: "c_mem_unit (to_compat ?d) = 1" by (simp add: to_compat_def one u32_def)
    have tr: "totalram ?d < 4294967296" "totalswap ?d < 4294967296" using False nn big by (auto simp: memory_values_def)
    have tv: "totalram ?d = totalram i * 2 ^ k" "totalswap ?d = totalswap i * 2 ^ k" using vals by (simp_all add: memory_values_def)
    have "v < 4294967296" if v: "v \<in> set (memory_values ?d)" for v
    proof -
      from v obtain x where x: "v = x * 2 ^ k" "x \<in> set (memory_values i)" unfolding vals by auto
      from memory_values_le [OF fig x(2)] have "x * 2 ^ k \<le> totalram ?d \<or> x * 2 ^ k \<le> totalswap ?d"
        unfolding tv by (auto intro: mult_right_mono)
      with tr x(1) show ?thesis by (metis le_less_trans)
    qed
    then have "map u32 (memory_values ?d) = memory_values ?d" using nn by (intro map_idI u32_id) auto
    with r u vals unit(1) tc [of ?d] show ?thesis by simp
  qed
qed

theorem compat_sysinfo_rounds_witness:
  "\<exists>c. compat_sysinfo_call (5, 1) laptop True = Some (0, Some c) \<and> c_totalram c * c_mem_unit c \<le> 16384000000"
proof -
  have "mem_unit laptop = 2 ^ 12" "(12::nat) \<le> 12" "(totalram laptop + totalswap laptop) * mem_unit laptop < 4294967296 * PAGE_SIZE"
    by (simp_all add: laptop_def PAGE_SIZE_def)
  from compat_sysinfo_rounds [OF laptop_ok(1) this, of "(5, 1)"]
  obtain c where c: "compat_sysinfo_call (5, 1) laptop True = Some (0, Some c)" "0 < c_mem_unit c"
    and "c_totalram c = 16384000000 div c_mem_unit c" by (auto simp: memory_values_def laptop_def)
  then have "c_totalram c * c_mem_unit c \<le> 16384000000" by (simp add: div_times_less_eq_dividend minus_mod_eq_div_mult [symmetric])
  with c(1) show ?thesis by blast
qed

end
