(* ===== verification/Kernel_Prctl.thy ===== *)
theory Kernel_Prctl
  imports Kernel_Mm
begin

unbundle bit_operations_syntax

text \<open>
  The system call \<open>prctl\<close> of \<open>src/Semaphore and Synchronization/sys.c\<close>, with the helpers above it and the defaults of the
  architecture macros at the top of the file.

  The state is the calling task (\<open>task\<close>), the flag \<open>has_child_subreaper\<close> of every process, the memory of the caller and
  whatever else the kernel keeps (\<open>other\<close>, of any type). Arguments are unsigned 64-bit words. What the call only passes on (architecture
  controls, seccomp, performance counters, the security hook, names and dump flags in other files of the kernel) is a
  field of \<open>prctl_env\<close>; \<open>prctl_env_ok\<close> says what is relied on. The \<open>switch\<close> is the table \<open>prctl_cases\<close>.
\<close>

section \<open>State\<close>

type_synonym args = "64 word \<times> 64 word \<times> 64 word \<times> 64 word"

record task =
  pdeath_signal :: int
  comm :: "char list"
  timer_slack_ns :: "64 word"
  default_timer_slack_ns :: "64 word"
  pflags :: "32 word"
  atomic_flags :: "64 word"
  clear_child_tid :: "64 word"
  is_child_subreaper :: bool
  mm_flags :: "64 word"
  mm_desc :: mm

record 'x pstate =
  me :: task
  has_child_subreaper :: "nat \<Rightarrow> bool"
  user :: umem
  other :: 'x

text \<open>The macros that an architecture may define, and the functions of other files.\<close>

datatype arch_op = SET_UNALIGN_CTL | GET_UNALIGN_CTL | SET_FPEMU_CTL | GET_FPEMU_CTL | SET_FPEXC_CTL | GET_FPEXC_CTL
  | GET_ENDIAN | SET_ENDIAN | GET_TSC_CTL | SET_TSC_CTL | GET_FP_MODE | SET_FP_MODE | SVE_SET_VL | SVE_GET_VL
  | PAC_RESET_KEYS | SET_TAGGED_ADDR_CTRL | GET_TAGGED_ADDR_CTRL | SPEC_CTRL_GET | SPEC_CTRL_SET

datatype service_op = GET_SECCOMP_MODE | SET_SECCOMP_MODE | PERF_DISABLE | PERF_ENABLE | SET_USER_DISPATCH

type_synonym 'x outside = "64 word list \<Rightarrow> umem \<Rightarrow> 'x \<Rightarrow> int \<times> umem \<times> 'x"

record 'x prctl_env =
  security_task_prctl :: "int \<Rightarrow> args \<Rightarrow> 'x \<Rightarrow> int \<times> 'x"
  arch :: "arch_op \<Rightarrow> 'x outside option"
  service :: "service_op \<Rightarrow> 'x outside"
  valid_signal :: "64 word \<Rightarrow> bool"
  get_dumpable :: "64 word \<Rightarrow> int"
  set_dumpable :: "64 word \<Rightarrow> int \<Rightarrow> 64 word"
  put_user :: "nat \<Rightarrow> char list \<Rightarrow> umem \<Rightarrow> int \<times> umem"
  access :: uaccess
  strncpy_from_user :: "nat \<Rightarrow> nat \<Rightarrow> umem \<Rightarrow> int \<times> char list"
  uninitialised :: "char list"
  set_task_comm :: "char list \<Rightarrow> char list \<Rightarrow> char list"
  get_task_comm :: "char list \<Rightarrow> char list"
  walk_process_tree :: "(nat \<Rightarrow> (nat \<Rightarrow> bool) \<Rightarrow> int \<times> (nat \<Rightarrow> bool)) \<Rightarrow> (nat \<Rightarrow> bool) \<Rightarrow> (nat \<Rightarrow> bool)"
  is_child_reaper :: "nat \<Rightarrow> bool"
  capable_resource :: bool
  mmap_write_lock_killable :: int
  CHECKPOINT_RESTORE :: bool
  mm_env :: mm_env

section \<open>Constants\<close>

definition PF_MCE_PROCESS :: "32 word" where "PF_MCE_PROCESS = 0x80"
definition PF_MCE_EARLY :: "32 word" where "PF_MCE_EARLY = 0x08000000"
definition PF_MEMALLOC_NOIO :: "32 word" where "PF_MEMALLOC_NOIO = 0x00080000"
definition PF_LOCAL_THROTTLE :: "32 word" where "PF_LOCAL_THROTTLE = 0x00100000"
definition PR_IO_FLUSHER :: "32 word" where "PR_IO_FLUSHER = PF_MEMALLOC_NOIO OR PF_LOCAL_THROTTLE"
abbreviation MMF_DISABLE_THP :: nat where "MMF_DISABLE_THP \<equiv> 24"
abbreviation PFA_NO_NEW_PRIVS :: nat where "PFA_NO_NEW_PRIVS \<equiv> 0"

abbreviation (input) PR_SET_PDEATHSIG :: int where "PR_SET_PDEATHSIG \<equiv> 1"
abbreviation (input) PR_GET_PDEATHSIG :: int where "PR_GET_PDEATHSIG \<equiv> 2"
abbreviation (input) PR_GET_DUMPABLE :: int where "PR_GET_DUMPABLE \<equiv> 3"
abbreviation (input) PR_SET_DUMPABLE :: int where "PR_SET_DUMPABLE \<equiv> 4"
abbreviation (input) PR_GET_UNALIGN :: int where "PR_GET_UNALIGN \<equiv> 5"
abbreviation (input) PR_SET_UNALIGN :: int where "PR_SET_UNALIGN \<equiv> 6"
abbreviation (input) PR_GET_FPEMU :: int where "PR_GET_FPEMU \<equiv> 9"
abbreviation (input) PR_SET_FPEMU :: int where "PR_SET_FPEMU \<equiv> 10"
abbreviation (input) PR_GET_FPEXC :: int where "PR_GET_FPEXC \<equiv> 11"
abbreviation (input) PR_SET_FPEXC :: int where "PR_SET_FPEXC \<equiv> 12"
abbreviation (input) PR_GET_TIMING :: int where "PR_GET_TIMING \<equiv> 13"
abbreviation (input) PR_SET_TIMING :: int where "PR_SET_TIMING \<equiv> 14"
abbreviation (input) PR_SET_NAME :: int where "PR_SET_NAME \<equiv> 15"
abbreviation (input) PR_GET_NAME :: int where "PR_GET_NAME \<equiv> 16"
abbreviation (input) PR_GET_ENDIAN :: int where "PR_GET_ENDIAN \<equiv> 19"
abbreviation (input) PR_SET_ENDIAN :: int where "PR_SET_ENDIAN \<equiv> 20"
abbreviation (input) PR_GET_SECCOMP :: int where "PR_GET_SECCOMP \<equiv> 21"
abbreviation (input) PR_SET_SECCOMP :: int where "PR_SET_SECCOMP \<equiv> 22"
abbreviation (input) PR_GET_TSC :: int where "PR_GET_TSC \<equiv> 25"
abbreviation (input) PR_SET_TSC :: int where "PR_SET_TSC \<equiv> 26"
abbreviation (input) PR_SET_TIMERSLACK :: int where "PR_SET_TIMERSLACK \<equiv> 29"
abbreviation (input) PR_GET_TIMERSLACK :: int where "PR_GET_TIMERSLACK \<equiv> 30"
abbreviation (input) PR_TASK_PERF_EVENTS_DISABLE :: int where "PR_TASK_PERF_EVENTS_DISABLE \<equiv> 31"
abbreviation (input) PR_TASK_PERF_EVENTS_ENABLE :: int where "PR_TASK_PERF_EVENTS_ENABLE \<equiv> 32"
abbreviation (input) PR_MCE_KILL :: int where "PR_MCE_KILL \<equiv> 33"
abbreviation (input) PR_MCE_KILL_GET :: int where "PR_MCE_KILL_GET \<equiv> 34"
abbreviation (input) PR_SET_MM :: int where "PR_SET_MM \<equiv> 35"
abbreviation (input) PR_SET_CHILD_SUBREAPER :: int where "PR_SET_CHILD_SUBREAPER \<equiv> 36"
abbreviation (input) PR_GET_CHILD_SUBREAPER :: int where "PR_GET_CHILD_SUBREAPER \<equiv> 37"
abbreviation (input) PR_SET_NO_NEW_PRIVS :: int where "PR_SET_NO_NEW_PRIVS \<equiv> 38"
abbreviation (input) PR_GET_NO_NEW_PRIVS :: int where "PR_GET_NO_NEW_PRIVS \<equiv> 39"
abbreviation (input) PR_GET_TID_ADDRESS :: int where "PR_GET_TID_ADDRESS \<equiv> 40"
abbreviation (input) PR_SET_THP_DISABLE :: int where "PR_SET_THP_DISABLE \<equiv> 41"
abbreviation (input) PR_GET_THP_DISABLE :: int where "PR_GET_THP_DISABLE \<equiv> 42"
abbreviation (input) PR_MPX_ENABLE_MANAGEMENT :: int where "PR_MPX_ENABLE_MANAGEMENT \<equiv> 43"
abbreviation (input) PR_MPX_DISABLE_MANAGEMENT :: int where "PR_MPX_DISABLE_MANAGEMENT \<equiv> 44"
abbreviation (input) PR_SET_FP_MODE :: int where "PR_SET_FP_MODE \<equiv> 45"
abbreviation (input) PR_GET_FP_MODE :: int where "PR_GET_FP_MODE \<equiv> 46"
abbreviation (input) PR_SVE_SET_VL :: int where "PR_SVE_SET_VL \<equiv> 50"
abbreviation (input) PR_SVE_GET_VL :: int where "PR_SVE_GET_VL \<equiv> 51"
abbreviation (input) PR_GET_SPECULATION_CTRL :: int where "PR_GET_SPECULATION_CTRL \<equiv> 52"
abbreviation (input) PR_SET_SPECULATION_CTRL :: int where "PR_SET_SPECULATION_CTRL \<equiv> 53"
abbreviation (input) PR_PAC_RESET_KEYS :: int where "PR_PAC_RESET_KEYS \<equiv> 54"
abbreviation (input) PR_SET_TAGGED_ADDR_CTRL :: int where "PR_SET_TAGGED_ADDR_CTRL \<equiv> 55"
abbreviation (input) PR_GET_TAGGED_ADDR_CTRL :: int where "PR_GET_TAGGED_ADDR_CTRL \<equiv> 56"
abbreviation (input) PR_SET_IO_FLUSHER :: int where "PR_SET_IO_FLUSHER \<equiv> 57"
abbreviation (input) PR_GET_IO_FLUSHER :: int where "PR_GET_IO_FLUSHER \<equiv> 58"
abbreviation (input) PR_SET_SYSCALL_USER_DISPATCH :: int where "PR_SET_SYSCALL_USER_DISPATCH \<equiv> 59"

section \<open>Helpers\<close>

definition nonzero :: "64 word list \<Rightarrow> bool" where "nonzero xs \<longleftrightarrow> (\<exists>x \<in> set xs. x \<noteq> 0)"

definition on_me :: "(task \<Rightarrow> task) \<Rightarrow> 'x pstate \<Rightarrow> 'x pstate" where "on_me f s = s\<lparr>me := f (me s)\<rparr>"

definition run_outside :: "'x outside \<Rightarrow> 64 word list \<Rightarrow> 'x pstate \<Rightarrow> int \<times> 'x pstate" where
  "run_outside f xs s = (let (r, u, y) = f xs (user s) (other s) in (r, s\<lparr>user := u, other := y\<rparr>))"

text \<open>A macro or weak function that the architecture does not define is \<open>- EINVAL\<close>.\<close>

definition arch_call :: "'x prctl_env \<Rightarrow> arch_op \<Rightarrow> 64 word list \<Rightarrow> 'x pstate \<Rightarrow> int \<times> 'x pstate" where
  "arch_call env m xs s = (case arch env m of None \<Rightarrow> (- EINVAL, s) | Some f \<Rightarrow> run_outside f xs s)"

definition put_out :: "'x prctl_env \<Rightarrow> char list \<Rightarrow> 64 word \<Rightarrow> 'x pstate \<Rightarrow> int \<times> 'x pstate" where
  "put_out env bs p s = (let (r, u) = put_user env (unat p) bs (user s) in (r, s\<lparr>user := u\<rparr>))"

definition prctl_get_tid_address :: "'x prctl_env \<Rightarrow> 64 word \<Rightarrow> 'x pstate \<Rightarrow> int \<times> 'x pstate" where
  "prctl_get_tid_address env tid_addr s =
     (if CHECKPOINT_RESTORE env then put_out env (enc_long (uint (clear_child_tid (me s)))) tid_addr s else (- EINVAL, s))"

definition propagate_has_child_subreaper :: "(nat \<Rightarrow> bool) \<Rightarrow> nat \<Rightarrow> (nat \<Rightarrow> bool) \<Rightarrow> int \<times> (nat \<Rightarrow> bool)" where
  "propagate_has_child_subreaper reaper p has = (if has p \<or> reaper p then (0, has) else (1, has(p := True)))"

section \<open>The cases of the switch\<close>

definition set_pdeathsig :: "'x prctl_env \<Rightarrow> args \<Rightarrow> 'x pstate \<Rightarrow> int \<times> 'x pstate" where
  "set_pdeathsig env = (\<lambda>(arg2, arg3, arg4, arg5) s.
     if \<not> valid_signal env arg2 then (- EINVAL, s)
     else (0, on_me (\<lambda>t. t\<lparr>pdeath_signal := s32 (uint arg2)\<rparr>) s))"

definition prctl_set_dumpable :: "'x prctl_env \<Rightarrow> args \<Rightarrow> 'x pstate \<Rightarrow> int \<times> 'x pstate" where
  "prctl_set_dumpable env = (\<lambda>(arg2, arg3, arg4, arg5) s.
     if arg2 \<noteq> 0 \<and> arg2 \<noteq> 1 then (- EINVAL, s)
     else (0, on_me (\<lambda>t. t\<lparr>mm_flags := set_dumpable env (mm_flags t) (uint arg2)\<rparr>) s))"

definition set_name :: "'x prctl_env \<Rightarrow> args \<Rightarrow> 'x pstate \<Rightarrow> int \<times> 'x pstate" where
  "set_name env = (\<lambda>(arg2, arg3, arg4, arg5) s.
     let (r, written) = strncpy_from_user env (unat arg2) 15 (user s);
         buf = take 15 (written @ drop (length written) (uninitialised env)) @ [NUL] in
     if r < 0 then (- EFAULT, s)
     else (0, on_me (\<lambda>t. t\<lparr>comm := set_task_comm env (comm t) buf\<rparr>) s))"

definition get_name :: "'x prctl_env \<Rightarrow> args \<Rightarrow> 'x pstate \<Rightarrow> int \<times> 'x pstate" where
  "get_name env = (\<lambda>(arg2, arg3, arg4, arg5) s.
     let (r, u) = copy_to_user (access env) (unat arg2) (get_task_comm env (comm (me s))) (user s) in
     (if r \<noteq> 0 then - EFAULT else 0, s\<lparr>user := u\<rparr>))"

text \<open>\<open>timer_slack_ns\<close> never exceeds \<open>ULONG_MAX\<close> on a 64-bit machine; the result is read as a signed \<open>long\<close>.\<close>

definition get_timerslack :: "'x pstate \<Rightarrow> int \<times> 'x pstate" where
  "get_timerslack s = (if uint (timer_slack_ns (me s)) > 18446744073709551615 then - 1 else sint (timer_slack_ns (me s)), s)"

definition set_timerslack :: "args \<Rightarrow> 'x pstate \<Rightarrow> int \<times> 'x pstate" where
  "set_timerslack = (\<lambda>(arg2, arg3, arg4, arg5) s.
     (0, on_me (\<lambda>t. if arg2 \<le> 0 then t\<lparr>timer_slack_ns := default_timer_slack_ns t\<rparr> else t\<lparr>timer_slack_ns := arg2\<rparr>) s))"

text \<open>The policies are \<open>LATE\<close> 0, \<open>EARLY\<close> 1 and \<open>DEFAULT\<close> 2; the commands \<open>CLEAR\<close> 0 and \<open>SET\<close> 1.\<close>

definition mce_kill :: "args \<Rightarrow> 'x pstate \<Rightarrow> int \<times> 'x pstate" where
  "mce_kill = (\<lambda>(arg2, arg3, arg4, arg5) s.
     if arg4 OR arg5 \<noteq> 0 then (- EINVAL, s)
     else if arg2 = 0 then
       if arg3 \<noteq> 0 then (- EINVAL, s)
       else (0, on_me (\<lambda>t. t\<lparr>pflags := pflags t AND NOT PF_MCE_PROCESS\<rparr>) s)
     else if arg2 = 1 then
       let s = on_me (\<lambda>t. t\<lparr>pflags := pflags t OR PF_MCE_PROCESS\<rparr>) s in
       if arg3 = 1 then (0, on_me (\<lambda>t. t\<lparr>pflags := pflags t OR PF_MCE_EARLY\<rparr>) s)
       else if arg3 = 0 then (0, on_me (\<lambda>t. t\<lparr>pflags := pflags t AND NOT PF_MCE_EARLY\<rparr>) s)
       else if arg3 = 2 then (0, on_me (\<lambda>t. t\<lparr>pflags := pflags t AND NOT (PF_MCE_EARLY OR PF_MCE_PROCESS)\<rparr>) s)
       else (- EINVAL, s)
     else (- EINVAL, s))"

definition mce_kill_get :: "args \<Rightarrow> 'x pstate \<Rightarrow> int \<times> 'x pstate" where
  "mce_kill_get = (\<lambda>(arg2, arg3, arg4, arg5) s.
     if arg2 OR arg3 OR arg4 OR arg5 \<noteq> 0 then (- EINVAL, s)
     else if pflags (me s) AND PF_MCE_PROCESS \<noteq> 0 then (if pflags (me s) AND PF_MCE_EARLY \<noteq> 0 then 1 else 0, s)
     else (2, s))"

definition set_mm :: "'x prctl_env \<Rightarrow> args \<Rightarrow> 'x pstate \<Rightarrow> int \<times> 'x pstate" where
  "set_mm env = (\<lambda>(arg2, arg3, arg4, arg5) s.
     let (r, m) = prctl_set_mm (mm_env env) (access env) (user s) (s32 (uint arg2)) arg3 (unat arg4) (unat arg5) (mm_desc (me s)) in
     (r, on_me (\<lambda>t. t\<lparr>mm_desc := m\<rparr>) s))"

definition set_child_subreaper :: "'x prctl_env \<Rightarrow> args \<Rightarrow> 'x pstate \<Rightarrow> int \<times> 'x pstate" where
  "set_child_subreaper env = (\<lambda>(arg2, arg3, arg4, arg5) s.
     let s = on_me (\<lambda>t. t\<lparr>is_child_subreaper := (arg2 \<noteq> 0)\<rparr>) s in
     if arg2 = 0 then (0, s)
     else (0, s\<lparr>has_child_subreaper :=
       walk_process_tree env (propagate_has_child_subreaper (is_child_reaper env)) (has_child_subreaper s)\<rparr>))"

definition set_no_new_privs :: "args \<Rightarrow> 'x pstate \<Rightarrow> int \<times> 'x pstate" where
  "set_no_new_privs = (\<lambda>(arg2, arg3, arg4, arg5) s.
     if arg2 \<noteq> 1 \<or> nonzero [arg3, arg4, arg5] then (- EINVAL, s)
     else (0, on_me (\<lambda>t. t\<lparr>atomic_flags := set_bit PFA_NO_NEW_PRIVS (atomic_flags t)\<rparr>) s))"

definition get_no_new_privs :: "args \<Rightarrow> 'x pstate \<Rightarrow> int \<times> 'x pstate" where
  "get_no_new_privs = (\<lambda>(arg2, arg3, arg4, arg5) s.
     if nonzero [arg2, arg3, arg4, arg5] then (- EINVAL, s)
     else (if bit (atomic_flags (me s)) PFA_NO_NEW_PRIVS then 1 else 0, s))"

definition get_thp_disable :: "args \<Rightarrow> 'x pstate \<Rightarrow> int \<times> 'x pstate" where
  "get_thp_disable = (\<lambda>(arg2, arg3, arg4, arg5) s.
     if nonzero [arg2, arg3, arg4, arg5] then (- EINVAL, s)
     else (of_bool (bit (mm_flags (me s)) MMF_DISABLE_THP), s))"

definition set_thp_disable :: "'x prctl_env \<Rightarrow> args \<Rightarrow> 'x pstate \<Rightarrow> int \<times> 'x pstate" where
  "set_thp_disable env = (\<lambda>(arg2, arg3, arg4, arg5) s.
     if nonzero [arg3, arg4, arg5] then (- EINVAL, s)
     else if mmap_write_lock_killable env \<noteq> 0 then (- EINTR, s)
     else (0, on_me (\<lambda>t. t\<lparr>mm_flags := (if arg2 \<noteq> 0 then set_bit else unset_bit) MMF_DISABLE_THP (mm_flags t)\<rparr>) s))"

definition set_io_flusher :: "'x prctl_env \<Rightarrow> args \<Rightarrow> 'x pstate \<Rightarrow> int \<times> 'x pstate" where
  "set_io_flusher env = (\<lambda>(arg2, arg3, arg4, arg5) s.
     if \<not> capable_resource env then (- EPERM, s)
     else if nonzero [arg3, arg4, arg5] then (- EINVAL, s)
     else if arg2 = 1 then (0, on_me (\<lambda>t. t\<lparr>pflags := pflags t OR PR_IO_FLUSHER\<rparr>) s)
     else if arg2 = 0 then (0, on_me (\<lambda>t. t\<lparr>pflags := pflags t AND NOT PR_IO_FLUSHER\<rparr>) s)
     else (- EINVAL, s))"

definition get_io_flusher :: "'x prctl_env \<Rightarrow> args \<Rightarrow> 'x pstate \<Rightarrow> int \<times> 'x pstate" where
  "get_io_flusher env = (\<lambda>(arg2, arg3, arg4, arg5) s.
     if \<not> capable_resource env then (- EPERM, s)
     else if nonzero [arg2, arg3, arg4, arg5] then (- EINVAL, s)
     else (of_bool (pflags (me s) AND PR_IO_FLUSHER = PR_IO_FLUSHER), s))"

text \<open>Cases that check that unused arguments are 0 and then call the architecture.\<close>

definition checked :: "64 word list \<Rightarrow> 'x prctl_env \<Rightarrow> arch_op \<Rightarrow> 64 word list \<Rightarrow> 'x pstate \<Rightarrow> int \<times> 'x pstate" where
  "checked unused env m xs s = (if nonzero unused then (- EINVAL, s) else arch_call env m xs s)"

section \<open>The system call\<close>

text \<open>The first cases of the \<open>switch\<close>, up to the machine-check policy, and the rest.\<close>

definition task_cases :: "'x prctl_env \<Rightarrow> (int \<times> (args \<Rightarrow> 'x pstate \<Rightarrow> int \<times> 'x pstate)) list" where
  "task_cases env = [
     (PR_SET_PDEATHSIG, set_pdeathsig env),
     (PR_GET_PDEATHSIG, \<lambda>(arg2, _) s. put_out env (enc_int (pdeath_signal (me s))) arg2 s),
     (PR_GET_DUMPABLE, \<lambda>_ s. (get_dumpable env (mm_flags (me s)), s)),
     (PR_SET_DUMPABLE, prctl_set_dumpable env),
     (PR_SET_UNALIGN, \<lambda>(arg2, _). arch_call env SET_UNALIGN_CTL [arg2]),
     (PR_GET_UNALIGN, \<lambda>(arg2, _). arch_call env GET_UNALIGN_CTL [arg2]),
     (PR_SET_FPEMU, \<lambda>(arg2, _). arch_call env SET_FPEMU_CTL [arg2]),
     (PR_GET_FPEMU, \<lambda>(arg2, _). arch_call env GET_FPEMU_CTL [arg2]),
     (PR_SET_FPEXC, \<lambda>(arg2, _). arch_call env SET_FPEXC_CTL [arg2]),
     (PR_GET_FPEXC, \<lambda>(arg2, _). arch_call env GET_FPEXC_CTL [arg2]),
     (PR_GET_TIMING, \<lambda>_ s. (0, s)),
     (PR_SET_TIMING, \<lambda>(arg2, _) s. (if arg2 \<noteq> 0 then - EINVAL else 0, s)),
     (PR_SET_NAME, set_name env),
     (PR_GET_NAME, get_name env),
     (PR_GET_ENDIAN, \<lambda>(arg2, _). arch_call env GET_ENDIAN [arg2]),
     (PR_SET_ENDIAN, \<lambda>(arg2, _). arch_call env SET_ENDIAN [arg2]),
     (PR_GET_SECCOMP, \<lambda>_. run_outside (service env GET_SECCOMP_MODE) []),
     (PR_SET_SECCOMP, \<lambda>(arg2, arg3, _). run_outside (service env SET_SECCOMP_MODE) [arg2, arg3]),
     (PR_GET_TSC, \<lambda>(arg2, _). arch_call env GET_TSC_CTL [arg2]),
     (PR_SET_TSC, \<lambda>(arg2, _). arch_call env SET_TSC_CTL [arg2]),
     (PR_TASK_PERF_EVENTS_DISABLE, \<lambda>_. run_outside (service env PERF_DISABLE) []),
     (PR_TASK_PERF_EVENTS_ENABLE, \<lambda>_. run_outside (service env PERF_ENABLE) []),
     (PR_GET_TIMERSLACK, \<lambda>_. get_timerslack),
     (PR_SET_TIMERSLACK, set_timerslack),
     (PR_MCE_KILL, mce_kill),
     (PR_MCE_KILL_GET, mce_kill_get)]"

definition feature_cases :: "'x prctl_env \<Rightarrow> (int \<times> (args \<Rightarrow> 'x pstate \<Rightarrow> int \<times> 'x pstate)) list" where
  "feature_cases env = [
     (PR_SET_MM, set_mm env),
     (PR_GET_TID_ADDRESS, \<lambda>(arg2, _). prctl_get_tid_address env arg2),
     (PR_SET_CHILD_SUBREAPER, set_child_subreaper env),
     (PR_GET_CHILD_SUBREAPER, \<lambda>(arg2, _) s. put_out env (enc_int (of_bool (is_child_subreaper (me s)))) arg2 s),
     (PR_SET_NO_NEW_PRIVS, set_no_new_privs),
     (PR_GET_NO_NEW_PRIVS, get_no_new_privs),
     (PR_GET_THP_DISABLE, get_thp_disable),
     (PR_SET_THP_DISABLE, set_thp_disable env),
     (PR_MPX_ENABLE_MANAGEMENT, \<lambda>_ s. (- EINVAL, s)),
     (PR_MPX_DISABLE_MANAGEMENT, \<lambda>_ s. (- EINVAL, s)),
     (PR_SET_FP_MODE, \<lambda>(arg2, _). arch_call env SET_FP_MODE [arg2]),
     (PR_GET_FP_MODE, \<lambda>_. arch_call env GET_FP_MODE []),
     (PR_SVE_SET_VL, \<lambda>(arg2, _). arch_call env SVE_SET_VL [arg2]),
     (PR_SVE_GET_VL, \<lambda>_. arch_call env SVE_GET_VL []),
     (PR_GET_SPECULATION_CTRL, \<lambda>(arg2, arg3, arg4, arg5). checked [arg3, arg4, arg5] env SPEC_CTRL_GET [arg2]),
     (PR_SET_SPECULATION_CTRL, \<lambda>(arg2, arg3, arg4, arg5). checked [arg4, arg5] env SPEC_CTRL_SET [arg2, arg3]),
     (PR_PAC_RESET_KEYS, \<lambda>(arg2, arg3, arg4, arg5). checked [arg3, arg4, arg5] env PAC_RESET_KEYS [arg2]),
     (PR_SET_TAGGED_ADDR_CTRL, \<lambda>(arg2, arg3, arg4, arg5). checked [arg3, arg4, arg5] env SET_TAGGED_ADDR_CTRL [arg2]),
     (PR_GET_TAGGED_ADDR_CTRL, \<lambda>(arg2, arg3, arg4, arg5). checked [arg2, arg3, arg4, arg5] env GET_TAGGED_ADDR_CTRL []),
     (PR_SET_IO_FLUSHER, set_io_flusher env),
     (PR_GET_IO_FLUSHER, get_io_flusher env),
     (PR_SET_SYSCALL_USER_DISPATCH, \<lambda>(arg2, arg3, arg4, arg5). run_outside (service env SET_USER_DISPATCH) [arg2, arg3, arg4, arg5])]"

definition prctl_cases :: "'x prctl_env \<Rightarrow> (int \<times> (args \<Rightarrow> 'x pstate \<Rightarrow> int \<times> 'x pstate)) list" where
  "prctl_cases env = task_cases env @ feature_cases env"

definition prctl :: "'x prctl_env \<Rightarrow> int \<Rightarrow> args \<Rightarrow> 'x pstate \<Rightarrow> int \<times> 'x pstate" where
  "prctl env option args s =
     (let (error, y) = security_task_prctl env option args (other s);
          s = s\<lparr>other := y\<rparr> in
      if error \<noteq> - ENOSYS then (error, s)
      else case map_of (prctl_cases env) option of
        None \<Rightarrow> (- EINVAL, s)
      | Some h \<Rightarrow> h args s)"

definition prctl_run :: "'x prctl_env \<Rightarrow> (int \<times> args) list \<Rightarrow> 'x pstate \<Rightarrow> 'x pstate" where
  "prctl_run env = fold (\<lambda>(opt, args) s. snd (prctl env opt args s))"

section \<open>What the rest of the kernel promises\<close>

definition prctl_env_ok :: "'x prctl_env \<Rightarrow> bool" where
  "prctl_env_ok env \<longleftrightarrow> uaccess_ok (access env)
     \<and> (\<forall>a bs m. fst (put_user env a bs m) = 0 \<longrightarrow> snd (put_user env a bs m) = store a bs m)
     \<and> (\<forall>a. valid_signal env a \<longrightarrow> a \<le> 64)
     \<and> (\<forall>w v. v \<in> {0, 1} \<longrightarrow> get_dumpable env (set_dumpable env w v) = v)
     \<and> (\<forall>w v. bit (set_dumpable env w v) MMF_DISABLE_THP = bit w MMF_DISABLE_THP)
     \<and> (\<forall>w. get_dumpable env (set_bit MMF_DISABLE_THP w) = get_dumpable env w \<and> get_dumpable env (unset_bit MMF_DISABLE_THP w) = get_dumpable env w)
     \<and> length (uninitialised env) = 15
     \<and> (\<forall>a m r bs. strncpy_from_user env a 15 m = (r, bs) \<and> 0 \<le> r \<longrightarrow>
          bs = take 15 (takeWhile (\<lambda>c. c \<noteq> NUL) (load m a 15) @ [NUL]))
     \<and> (\<forall>old buf. NUL \<in> set buf \<and> length buf = 16 \<longrightarrow> length (set_task_comm env old buf) = 16 \<and> cstr (set_task_comm env old buf) = cstr buf)
     \<and> (\<forall>c. length (get_task_comm env c) = 16 \<and> (length c = 16 \<and> cstr c \<noteq> None \<longrightarrow> cstr (get_task_comm env c) = cstr c))"

text \<open>No security module takes over the call.\<close>

definition consents :: "'x prctl_env \<Rightarrow> bool" where
  "consents env \<longleftrightarrow> (\<forall>opt args y. fst (security_task_prctl env opt args y) = - ENOSYS)"

lemma prctl_env_okD:
  assumes "prctl_env_ok env"
  shows "uaccess_ok (access env)"
    and "put_user env a bs m = (0, m') \<Longrightarrow> m' = store a bs m"
    and "valid_signal env v \<Longrightarrow> v \<le> 64"
    and "get_dumpable env (set_dumpable env w 0) = 0" "get_dumpable env (set_dumpable env w 1) = 1"
    and "bit (set_dumpable env w d) MMF_DISABLE_THP = bit w MMF_DISABLE_THP"
    and "get_dumpable env (set_bit MMF_DISABLE_THP w) = get_dumpable env w" "get_dumpable env (unset_bit MMF_DISABLE_THP w) = get_dumpable env w"
    and "length (uninitialised env) = 15"
    and "strncpy_from_user env a 15 m = (r, cs) \<Longrightarrow> 0 \<le> r \<Longrightarrow> cs = take 15 (takeWhile (\<lambda>c. c \<noteq> NUL) (load m a 15) @ [NUL])"
    and "NUL \<in> set buf \<Longrightarrow> length buf = 16 \<Longrightarrow> length (set_task_comm env old buf) = 16 \<and> cstr (set_task_comm env old buf) = cstr buf"
    and "length (get_task_comm env cs) = 16" "length cs = 16 \<Longrightarrow> cstr cs = Some t \<Longrightarrow> cstr (get_task_comm env cs) = Some t"
proof -
  note d = assms [unfolded prctl_env_ok_def]
  have put: "\<forall>a bs m. fst (put_user env a bs m) = 0 \<longrightarrow> snd (put_user env a bs m) = store a bs m" using d by (elim conjE)
  have sig: "\<forall>a. valid_signal env a \<longrightarrow> a \<le> 64" using d by (elim conjE)
  have dump: "\<forall>w v. v \<in> {0, 1} \<longrightarrow> get_dumpable env (set_dumpable env w v) = v" using d by (elim conjE)
  have thp: "\<forall>w. get_dumpable env (set_bit MMF_DISABLE_THP w) = get_dumpable env w \<and> get_dumpable env (unset_bit MMF_DISABLE_THP w) = get_dumpable env w" using d by (elim conjE)
  have bit: "\<forall>w v. bit (set_dumpable env w v) MMF_DISABLE_THP = bit w MMF_DISABLE_THP" using d by (elim conjE)
  have get: "\<forall>c. length (get_task_comm env c) = 16 \<and> (length c = 16 \<and> cstr c \<noteq> None \<longrightarrow> cstr (get_task_comm env c) = cstr c)" using d by (elim conjE)
  have cpy: "\<forall>a m r bs. strncpy_from_user env a 15 m = (r, bs) \<and> 0 \<le> r \<longrightarrow> bs = take 15 (takeWhile (\<lambda>c. c \<noteq> NUL) (load m a 15) @ [NUL])" using d by (elim conjE)
  have cm: "\<forall>old buf. NUL \<in> set buf \<and> length buf = 16 \<longrightarrow> length (set_task_comm env old buf) = 16 \<and> cstr (set_task_comm env old buf) = cstr buf" using d by (elim conjE)
  show "uaccess_ok (access env)" using d by (elim conjE)
  show "length (uninitialised env) = 15" using d by (elim conjE)
  show "put_user env a bs m = (0, m') \<Longrightarrow> m' = store a bs m" using put [rule_format, of a bs m] by simp
  show "valid_signal env v \<Longrightarrow> v \<le> 64" using sig by blast
  show "get_dumpable env (set_dumpable env w 0) = 0" "get_dumpable env (set_dumpable env w 1) = 1" using dump by simp_all
  show "bit (set_dumpable env w d) MMF_DISABLE_THP = bit w MMF_DISABLE_THP" using bit by blast
  show "get_dumpable env (set_bit MMF_DISABLE_THP w) = get_dumpable env w" "get_dumpable env (unset_bit MMF_DISABLE_THP w) = get_dumpable env w"
    using thp by blast+
  show "strncpy_from_user env a 15 m = (r, cs) \<Longrightarrow> 0 \<le> r \<Longrightarrow> cs = take 15 (takeWhile (\<lambda>c. c \<noteq> NUL) (load m a 15) @ [NUL])" using cpy by blast
  show "NUL \<in> set buf \<Longrightarrow> length buf = 16 \<Longrightarrow> length (set_task_comm env old buf) = 16 \<and> cstr (set_task_comm env old buf) = cstr buf" using cm by blast
  show "length (get_task_comm env cs) = 16" using get by blast
  show "length cs = 16 \<Longrightarrow> cstr cs = Some t \<Longrightarrow> cstr (get_task_comm env cs) = Some t" using get by simp
qed

section \<open>The effect of a call on the task\<close>

lemma outside_me [simp]:
  "me (snd (run_outside f xs s)) = me s" "has_child_subreaper (snd (run_outside f xs s)) = has_child_subreaper s"
  "me (snd (arch_call env m xs s)) = me s" "has_child_subreaper (snd (arch_call env m xs s)) = has_child_subreaper s"
  "me (snd (checked us env m xs s)) = me s" "has_child_subreaper (snd (checked us env m xs s)) = has_child_subreaper s"
  "me (snd (put_out env bs p s)) = me s" "has_child_subreaper (snd (put_out env bs p s)) = has_child_subreaper s"
  by (simp_all add: run_outside_def arch_call_def checked_def put_out_def split_beta split: option.split)

lemma getters_me [simp]:
  "me (snd (prctl_get_tid_address env a s)) = me s" "has_child_subreaper (snd (prctl_get_tid_address env a s)) = has_child_subreaper s"
  "me (snd (get_name env args s)) = me s" "has_child_subreaper (snd (get_name env args s)) = has_child_subreaper s"
  "snd (get_timerslack s) = s" "snd (mce_kill_get args s) = s" "snd (get_no_new_privs args s) = s"
  "snd (get_thp_disable args s) = s" "snd (get_io_flusher env args s) = s"
  by (simp_all add: prctl_get_tid_address_def get_name_def get_timerslack_def mce_kill_get_def get_no_new_privs_def
    get_thp_disable_def get_io_flusher_def split_beta)

lemma me_on_me [simp]: "me (on_me f s) = f (me s)" "has_child_subreaper (on_me f s) = has_child_subreaper s" "user (on_me f s) = user s"
  by (simp_all add: on_me_def)

text \<open>The cases that change the task.\<close>

definition setter_cases :: "'x prctl_env \<Rightarrow> (int \<times> (args \<Rightarrow> 'x pstate \<Rightarrow> int \<times> 'x pstate)) list" where
  "setter_cases env = [(PR_SET_PDEATHSIG, set_pdeathsig env), (PR_SET_DUMPABLE, prctl_set_dumpable env), (PR_SET_NAME, set_name env),
     (PR_SET_TIMERSLACK, set_timerslack), (PR_MCE_KILL, mce_kill), (PR_SET_MM, set_mm env), (PR_SET_CHILD_SUBREAPER, set_child_subreaper env),
     (PR_SET_NO_NEW_PRIVS, set_no_new_privs), (PR_SET_THP_DISABLE, set_thp_disable env), (PR_SET_IO_FLUSHER, set_io_flusher env)]"

lemma other_cases:
  "list_all (\<lambda>(k, h). k \<in> fst ` set (setter_cases env)
     \<or> (\<forall>args s. me (snd (h args s)) = me s \<and> has_child_subreaper (snd (h args s)) = has_child_subreaper s)) (prctl_cases env)"
  by (simp add: prctl_cases_def task_cases_def feature_cases_def setter_cases_def split_beta)

lemma prctl_cases_at:
  "map_of (prctl_cases env) PR_SET_PDEATHSIG = Some (set_pdeathsig env)" "map_of (prctl_cases env) PR_SET_DUMPABLE = Some (prctl_set_dumpable env)"
  "map_of (prctl_cases env) PR_SET_NAME = Some (set_name env)" "map_of (prctl_cases env) PR_SET_TIMERSLACK = Some set_timerslack"
  "map_of (prctl_cases env) PR_MCE_KILL = Some mce_kill" "map_of (prctl_cases env) PR_SET_MM = Some (set_mm env)"
  "map_of (prctl_cases env) PR_SET_CHILD_SUBREAPER = Some (set_child_subreaper env)" "map_of (prctl_cases env) PR_SET_NO_NEW_PRIVS = Some set_no_new_privs"
  "map_of (prctl_cases env) PR_SET_THP_DISABLE = Some (set_thp_disable env)" "map_of (prctl_cases env) PR_SET_IO_FLUSHER = Some (set_io_flusher env)"
  "map_of (prctl_cases env) PR_GET_DUMPABLE = Some (\<lambda>_ s. (get_dumpable env (mm_flags (me s)), s))"
  "map_of (prctl_cases env) PR_GET_PDEATHSIG = Some (\<lambda>(arg2, _) s. put_out env (enc_int (pdeath_signal (me s))) arg2 s)"
  "map_of (prctl_cases env) PR_GET_CHILD_SUBREAPER = Some (\<lambda>(arg2, _) s. put_out env (enc_int (of_bool (is_child_subreaper (me s)))) arg2 s)"
  "map_of (prctl_cases env) PR_GET_NAME = Some (get_name env)" "map_of (prctl_cases env) PR_GET_TIMERSLACK = Some (\<lambda>_. get_timerslack)"
  "map_of (prctl_cases env) PR_MCE_KILL_GET = Some mce_kill_get" "map_of (prctl_cases env) PR_GET_NO_NEW_PRIVS = Some get_no_new_privs"
  "map_of (prctl_cases env) PR_GET_THP_DISABLE = Some get_thp_disable" "map_of (prctl_cases env) PR_GET_IO_FLUSHER = Some (get_io_flusher env)"
  by (simp_all add: prctl_cases_def task_cases_def feature_cases_def)

lemma prctl_case:
  assumes "prctl env opt args s = (r, s')"
  obtains (other) "me s' = me s" "has_child_subreaper s' = has_child_subreaper s"
  | (set) h y where "(opt, h) \<in> set (setter_cases env)" "map_of (prctl_cases env) opt = Some h" "h args (s\<lparr>other := y\<rparr>) = (r, s')"
      "fst (security_task_prctl env opt args (pstate.other s)) = - ENOSYS"
proof -
  obtain e y where e: "security_task_prctl env opt args (pstate.other s) = (e, y)" by (metis surj_pair)
  note r = assms [unfolded prctl_def e Let_def prod.case]
  show thesis
  proof (cases "e \<noteq> - 38 \<or> map_of (prctl_cases env) opt = None")
    case True
    then show thesis using r other by (auto split: if_splits)
  next
    case False
    then obtain h where h: "map_of (prctl_cases env) opt = Some h" "h args (s\<lparr>other := y\<rparr>) = (r, s')" "e = - 38" using r by auto
    show thesis
    proof (cases "opt \<in> fst ` set (setter_cases env)")
      case True
      then have "(opt, h) \<in> set (setter_cases env)" using h(1) unfolding setter_cases_def list.set image_insert image_empty fst_conv
        by (elim insertE emptyE) (simp_all only: prctl_cases_at option.inject insert_iff simp_thms)
      then show thesis using set h e by simp
    next
      case False
      from bspec [OF other_cases [of env, unfolded list_all_iff] map_of_SomeD [OF h(1)]] False
      have "me (snd (h args (s\<lparr>other := y\<rparr>))) = me (s\<lparr>other := y\<rparr>)
        \<and> has_child_subreaper (snd (h args (s\<lparr>other := y\<rparr>))) = has_child_subreaper (s\<lparr>other := y\<rparr>)" unfolding prod.case by blast
      with h(2) show thesis using other by simp
    qed
  qed
qed

lemma prctl_consented:
  assumes "consents env" "map_of (prctl_cases env) opt = Some h"
  shows "\<exists>y. prctl env opt args s = h args (s\<lparr>other := y\<rparr>)"
proof -
  obtain e y where e: "security_task_prctl env opt args (other s) = (e, y)" by (metis surj_pair)
  then have "e = - 38" using assms(1) unfolding consents_def by (metis fst_conv)
  then show ?thesis using assms(2) e by (auto simp: prctl_def Let_def)
qed

section \<open>Settings\<close>

text \<open>
  The contract of a setting: the one call that changes it, what a successful such call makes it, and that no other call touches it.
\<close>

locale setting =
  fixes ok :: bool
    and call :: "int \<Rightarrow> args \<Rightarrow> 'x pstate \<Rightarrow> int \<times> 'x pstate"
    and setter :: int
    and wanted :: "args \<Rightarrow> 'x pstate \<Rightarrow> 'v"
    and obs :: "task \<Rightarrow> 'v"
  assumes keeps: "ok \<Longrightarrow> opt \<noteq> setter \<Longrightarrow> obs (me (snd (call opt args s))) = obs (me s)"
    and sets: "ok \<Longrightarrow> call setter args s = (0, s') \<Longrightarrow> obs (me s') = wanted args s"
begin

lemma run_keeps: "ok \<Longrightarrow> setter \<notin> fst ` set cs \<Longrightarrow> obs (me (fold (\<lambda>(opt, args) s. snd (call opt args s)) cs s)) = obs (me s)"
  by (induction cs arbitrary: s) (auto simp: keeps)

lemma remembers:
  assumes ok "call setter args s = (0, s')" "setter \<notin> fst ` set cs"
  shows "obs (me (fold (\<lambda>(opt, args) s. snd (call opt args s)) cs s')) = wanted args s"
  using run_keeps [OF assms(1,3)] sets [OF assms(1,2)] by simp

end

lemma prctl_keep:
  assumes "list_all (\<lambda>(k, h). k = k0 \<or> (\<forall>args s. f (me (snd (h args s))) = f (me s))) (setter_cases env)" "opt \<noteq> k0"
  shows "f (me (snd (prctl env opt args s))) = f (me s)"
proof -
  obtain r s' where r: "prctl env opt args s = (r, s')" by (metis surj_pair)
  then show ?thesis
  proof (cases rule: prctl_case)
    case other
    with r show ?thesis by simp
  next
    case (set h y)
    from bspec [OF assms(1) [unfolded list_all_iff] set(1)] assms(2)
    have "f (me (snd (h args (s\<lparr>other := y\<rparr>)))) = f (me (s\<lparr>other := y\<rparr>))" unfolding prod.case by blast
    with set(3) r show ?thesis by simp
  qed
qed

lemma prctl_set:
  assumes "consents env" "prctl env k args s = (0, s')" "map_of (prctl_cases env) k = Some h"
    "\<And>y. fst (h args (s\<lparr>other := y\<rparr>)) = 0 \<Longrightarrow> f (me (snd (h args (s\<lparr>other := y\<rparr>)))) = v"
  shows "f (me s') = v"
proof -
  from prctl_consented [OF assms(1,3)] obtain y where "h args (s\<lparr>other := y\<rparr>) = (0, s')" using assms(2) by metis
  with assms(4) [of y] show ?thesis by simp
qed

lemmas setter_defs = setter_cases_def set_pdeathsig_def prctl_set_dumpable_def set_name_def set_timerslack_def mce_kill_def set_mm_def
  set_child_subreaper_def set_no_new_privs_def set_thp_disable_def set_io_flusher_def

lemma PF_powers: "PF_MCE_PROCESS = 2 ^ 7" "PF_MCE_EARLY = 2 ^ 27" "PF_MEMALLOC_NOIO = 2 ^ 19" "PF_LOCAL_THROTTLE = 2 ^ 20"
  by (simp_all add: PF_MCE_PROCESS_def PF_MCE_EARLY_def PF_MEMALLOC_NOIO_def PF_LOCAL_THROTTLE_def)

lemma bit_power_32: "k < 32 \<Longrightarrow> bit (2 ^ k :: 32 word) n \<longleftrightarrow> n = k"
  by (auto simp: bit_exp_iff)

lemma bit_PF:
  "bit PF_MCE_PROCESS n \<longleftrightarrow> n = 7" "bit PF_MCE_EARLY n \<longleftrightarrow> n = 27" "bit PR_IO_FLUSHER n \<longleftrightarrow> n = 19 \<or> n = 20"
  unfolding PR_IO_FLUSHER_def PF_powers bit_or_iff by (simp_all only: bit_power_32)

lemma and_PF:
  "w AND PF_MCE_PROCESS \<noteq> 0 \<longleftrightarrow> bit w 7" "w AND PF_MCE_EARLY \<noteq> 0 \<longleftrightarrow> bit w 27"
  unfolding PF_powers by (simp_all only: and_exp_eq_0_iff_not_bit not_not)

lemma and_IO_FLUSHER: "w AND PR_IO_FLUSHER = PR_IO_FLUSHER \<longleftrightarrow> bit w 19 \<and> bit w 20"
proof
  assume e: "w AND PR_IO_FLUSHER = PR_IO_FLUSHER"
  have "bit (w AND PR_IO_FLUSHER) 19" "bit (w AND PR_IO_FLUSHER) 20" unfolding e by (simp_all add: bit_PF)
  then show "bit w 19 \<and> bit w 20" by (simp add: bit_and_iff)
next
  assume "bit w 19 \<and> bit w 20"
  then show "w AND PR_IO_FLUSHER = PR_IO_FLUSHER" by (intro bit_eqI) (auto simp only: bit_and_iff bit_PF)
qed

lemmas flag_bits = bit_and_iff bit_or_iff bit_not_iff bit_PF

definition mce_policy :: "task \<Rightarrow> int" where
  "mce_policy t = (if bit (pflags t) 7 then (if bit (pflags t) 27 then 1 else 0) else 2)"

definition io_flusher :: "task \<Rightarrow> bool \<times> bool" where
  "io_flusher t = (bit (pflags t) 19, bit (pflags t) 20)"

interpretation psig: setting "prctl_env_ok env \<and> consents env" "prctl env" PR_SET_PDEATHSIG "\<lambda>args _. uint (fst args)" pdeath_signal for env
proof (unfold_locales, goal_cases)
  case (1 opt args s)
  show ?case by (rule prctl_keep [OF _ 1(2)]) (simp add: setter_defs split_beta Let_def)
next
  case (2 args s s')
  have s: "s32 (uint a) = uint a" if "valid_signal env a" for a
  proof -
    have "uint a \<le> 64" using prctl_env_okD(3) [OF conjunct1 [OF 2(1)] that] by (simp add: word_le_def)
    then show ?thesis using uint_ge_0 [of a] by (intro s32_id) linarith+
  qed
  show ?case by (rule prctl_set [OF conjunct2 [OF 2(1)] 2(2) prctl_cases_at(1)]) (auto simp: set_pdeathsig_def split_beta s split: if_splits)
qed

interpretation dump: setting "prctl_env_ok env \<and> consents env" "prctl env" PR_SET_DUMPABLE "\<lambda>args _. uint (fst args)"
  "\<lambda>t. get_dumpable env (mm_flags t)" for env
proof (unfold_locales, goal_cases)
  case (1 opt args s)
  note d = prctl_env_okD(7,8) [OF conjunct1 [OF 1(1)]]
  show ?case by (rule prctl_keep [OF _ 1(2), where f = "\<lambda>t. get_dumpable env (mm_flags t)"]) (simp add: setter_defs split_beta Let_def d)
next
  case (2 args s s')
  note d = prctl_env_okD(4,5) [OF conjunct1 [OF 2(1)]]
  show ?case by (rule prctl_set [OF conjunct2 [OF 2(1)] 2(2) prctl_cases_at(2), where f = "\<lambda>t. get_dumpable env (mm_flags t)"])
    (auto simp: prctl_set_dumpable_def split_beta d split: if_splits)
qed

interpretation slack: setting "prctl_env_ok env \<and> consents env" "prctl env" PR_SET_TIMERSLACK
  "\<lambda>args s. if fst args = 0 then default_timer_slack_ns (me s) else fst args" timer_slack_ns for env
proof (unfold_locales, goal_cases)
  case (1 opt args s)
  show ?case by (rule prctl_keep [OF _ 1(2)]) (simp add: setter_defs split_beta Let_def)
next
  case (2 args s s')
  show ?case by (rule prctl_set [OF conjunct2 [OF 2(1)] 2(2) prctl_cases_at(4)]) (auto simp: set_timerslack_def split_beta)
qed

interpretation mce: setting "prctl_env_ok env \<and> consents env" "prctl env" PR_MCE_KILL
  "\<lambda>(arg2, arg3, _) _. if arg2 = 0 then 2 else uint arg3" mce_policy for env
proof (unfold_locales, goal_cases)
  case (1 opt args s)
  show ?case by (rule prctl_keep [OF _ 1(2)]) (simp add: setter_defs split_beta Let_def mce_policy_def flag_bits)
next
  case (2 args s s')
  show ?case by (rule prctl_set [OF conjunct2 [OF 2(1)] 2(2) prctl_cases_at(5)])
    (auto simp: mce_kill_def split_beta mce_policy_def flag_bits Let_def split: if_splits)
qed

interpretation sub: setting "prctl_env_ok env \<and> consents env" "prctl env" PR_SET_CHILD_SUBREAPER "\<lambda>args _. fst args \<noteq> 0" is_child_subreaper for env
proof (unfold_locales, goal_cases)
  case (1 opt args s)
  show ?case by (rule prctl_keep [OF _ 1(2)]) (simp add: setter_defs split_beta Let_def)
next
  case (2 args s s')
  show ?case by (rule prctl_set [OF conjunct2 [OF 2(1)] 2(2) prctl_cases_at(7)]) (auto simp: set_child_subreaper_def split_beta Let_def)
qed

interpretation thp: setting "prctl_env_ok env \<and> consents env" "prctl env" PR_SET_THP_DISABLE "\<lambda>args _. fst args \<noteq> 0"
  "\<lambda>t. bit (mm_flags t) MMF_DISABLE_THP" for env
proof (unfold_locales, goal_cases)
  case (1 opt args s)
  note d = prctl_env_okD(6) [OF conjunct1 [OF 1(1)]]
  show ?case by (rule prctl_keep [OF _ 1(2), where f = "\<lambda>t. bit (mm_flags t) MMF_DISABLE_THP"]) (simp add: setter_defs split_beta Let_def d)
next
  case (2 args s s')
  show ?case by (rule prctl_set [OF conjunct2 [OF 2(1)] 2(2) prctl_cases_at(9), where f = "\<lambda>t. bit (mm_flags t) MMF_DISABLE_THP"])
    (auto simp: set_thp_disable_def split_beta bit_set_bit_iff bit_unset_bit_iff split: if_splits)
qed

interpretation io: setting "prctl_env_ok env \<and> consents env" "prctl env" PR_SET_IO_FLUSHER "\<lambda>args _. (fst args = 1, fst args = 1)" io_flusher for env
proof (unfold_locales, goal_cases)
  case (1 opt args s)
  show ?case by (rule prctl_keep [OF _ 1(2)]) (simp add: setter_defs split_beta Let_def io_flusher_def flag_bits)
next
  case (2 args s s')
  show ?case by (rule prctl_set [OF conjunct2 [OF 2(1)] 2(2) prctl_cases_at(10)])
    (auto simp: set_io_flusher_def split_beta io_flusher_def flag_bits split: if_splits)
qed

text \<open>The name that \<open>PR_SET_NAME\<close> takes: at most 15 bytes, up to the terminator.\<close>

definition name_at :: "umem \<Rightarrow> nat \<Rightarrow> string" where "name_at m a = takeWhile (\<lambda>c. c \<noteq> NUL) (load m a 15)"

lemma name_buffer:
  assumes "bs = take 15 (name_at m a @ [NUL])" "length g = 15"
  defines "buf \<equiv> take 15 (bs @ drop (length bs) g) @ [NUL]"
  shows "length buf = 16" "cstr buf = Some (name_at m a)"
proof -
  let ?t = "name_at m a"
  have t: "NUL \<notin> set ?t" by (auto simp: name_at_def dest: set_takeWhileD)
  have l: "length ?t \<le> 15" unfolding name_at_def using length_takeWhile_le [of _ "load m a 15"] by simp
  show "length buf = 16" using assms(1,2) l by (simp add: buf_def)
  have "\<exists>rest. buf = ?t @ NUL # rest"
  proof (cases "length ?t = 15")
    case True
    then show ?thesis using assms(1,2) by (simp add: buf_def)
  next
    case False
    with l have "bs = ?t @ [NUL]" using assms(1) by simp
    then show ?thesis using False l by (cases "15 - length ?t") (auto simp: buf_def)
  qed
  then show "cstr buf = Some ?t" using cstr_append_NUL t by (auto simp: c_string_def)
qed

interpretation name: setting "prctl_env_ok env \<and> consents env" "prctl env" PR_SET_NAME "\<lambda>args s. (16, Some (name_at (user s) (unat (fst args))))"
  "\<lambda>t. (length (comm t), cstr (comm t))" for env
proof (unfold_locales, goal_cases)
  case (1 opt args s)
  show ?case by (rule prctl_keep [OF _ 1(2), where f = "\<lambda>t. (length (comm t), cstr (comm t))"]) (simp add: setter_defs split_beta Let_def)
next
  case (2 args s s')
  note ok = conjunct1 [OF 2(1)]
  obtain r bs where r: "strncpy_from_user env (unat (fst args)) 15 (user s) = (r, bs)" by (metis surj_pair)
  let ?buf = "take 15 (bs @ drop (length bs) (uninitialised env)) @ [NUL]"
  show ?case
  proof (rule prctl_set [OF conjunct2 [OF 2(1)] 2(2) prctl_cases_at(3), where f = "\<lambda>t. (length (comm t), cstr (comm t))"], goal_cases)
    case (1 y)
    then have nn: "0 \<le> r" and "snd (set_name env args (s\<lparr>other := y\<rparr>)) = on_me (\<lambda>t. t\<lparr>comm := set_task_comm env (comm t) ?buf\<rparr>) (s\<lparr>other := y\<rparr>)"
      using r by (auto simp: set_name_def split_beta Let_def split: if_splits)
    moreover have "bs = take 15 (name_at (user s) (unat (fst args)) @ [NUL])" using prctl_env_okD(10) [OF ok r nn] by (simp add: name_at_def)
    note name_buffer [OF this prctl_env_okD(9) [OF ok]]
    ultimately show ?case using prctl_env_okD(11) [OF ok, of ?buf] by simp
  qed
qed

interpretation nnp: setting "prctl_env_ok env \<and> consents env" "prctl env" PR_SET_NO_NEW_PRIVS "\<lambda>_ _. True"
  "\<lambda>t. bit (atomic_flags t) PFA_NO_NEW_PRIVS" for env
proof (unfold_locales, goal_cases)
  case (1 opt args s)
  show ?case by (rule prctl_keep [OF _ 1(2), where f = "\<lambda>t. bit (atomic_flags t) PFA_NO_NEW_PRIVS"]) (simp add: setter_defs split_beta Let_def)
next
  case (2 args s s')
  show ?case by (rule prctl_set [OF conjunct2 [OF 2(1)] 2(2) prctl_cases_at(8), where f = "\<lambda>t. bit (atomic_flags t) PFA_NO_NEW_PRIVS"])
    (auto simp: set_no_new_privs_def split_beta bit_set_bit_iff split: if_splits)
qed

section \<open>Reading a setting\<close>

lemma get_value:
  assumes "consents env"
  shows "fst (prctl env PR_GET_DUMPABLE args s) = get_dumpable env (mm_flags (me s))"
    and "fst (prctl env PR_GET_TIMERSLACK args s) = sint (timer_slack_ns (me s))"
    and "fst (prctl env PR_MCE_KILL_GET (0, 0, 0, 0) s) = mce_policy (me s)"
    and "fst (prctl env PR_GET_NO_NEW_PRIVS (0, 0, 0, 0) s) = of_bool (bit (atomic_flags (me s)) PFA_NO_NEW_PRIVS)"
    and "fst (prctl env PR_GET_THP_DISABLE (0, 0, 0, 0) s) = of_bool (bit (mm_flags (me s)) MMF_DISABLE_THP)"
    and "capable_resource env \<Longrightarrow> fst (prctl env PR_GET_IO_FLUSHER (0, 0, 0, 0) s) = of_bool (io_flusher (me s) = (True, True))"
proof -
  note c = prctl_consented [OF assms]
  show "fst (prctl env PR_GET_DUMPABLE args s) = get_dumpable env (mm_flags (me s))"
    using c [OF prctl_cases_at(11), of args s] by auto
  have "uint (timer_slack_ns (me s)) \<le> 18446744073709551615" using uint_lt2p [of "timer_slack_ns (me s)"] by simp
  then show "fst (prctl env PR_GET_TIMERSLACK args s) = sint (timer_slack_ns (me s))"
    using c [OF prctl_cases_at(15), of args s] by (auto simp: get_timerslack_def)
  show "fst (prctl env PR_MCE_KILL_GET (0, 0, 0, 0) s) = mce_policy (me s)"
    using c [OF prctl_cases_at(16), of "(0, 0, 0, 0)" s] by (auto simp: mce_kill_get_def mce_policy_def and_PF)
  show "fst (prctl env PR_GET_NO_NEW_PRIVS (0, 0, 0, 0) s) = of_bool (bit (atomic_flags (me s)) PFA_NO_NEW_PRIVS)"
    using c [OF prctl_cases_at(17), of "(0, 0, 0, 0)" s] by (auto simp: get_no_new_privs_def nonzero_def)
  show "fst (prctl env PR_GET_THP_DISABLE (0, 0, 0, 0) s) = of_bool (bit (mm_flags (me s)) MMF_DISABLE_THP)"
    using c [OF prctl_cases_at(18), of "(0, 0, 0, 0)" s] by (auto simp: get_thp_disable_def nonzero_def)
  show "fst (prctl env PR_GET_IO_FLUSHER (0, 0, 0, 0) s) = of_bool (io_flusher (me s) = (True, True))" if "capable_resource env"
    using c [OF prctl_cases_at(19), of "(0, 0, 0, 0)" s] that by (auto simp: get_io_flusher_def nonzero_def io_flusher_def and_IO_FLUSHER)
qed

lemma put_out_load: "prctl_env_ok env \<Longrightarrow> put_out env bs p s = (0, s') \<Longrightarrow> length bs = n \<Longrightarrow> load (user s') (unat p) n = bs"
  using prctl_env_okD(2) [of env "unat p" bs "user s"] by (auto simp: put_out_def load_store_same split: prod.splits)

lemma get_stored:
  assumes "prctl_env_ok env" "consents env"
  shows "prctl env PR_GET_PDEATHSIG args s = (0, s') \<Longrightarrow> load (user s') (unat (fst args)) 4 = enc_int (pdeath_signal (me s))"
    and "prctl env PR_GET_CHILD_SUBREAPER args s = (0, s') \<Longrightarrow> load (user s') (unat (fst args)) 4 = enc_int (of_bool (is_child_subreaper (me s)))"
    and "prctl env PR_GET_NAME args s = (0, s') \<Longrightarrow> length (comm (me s)) = 16 \<Longrightarrow> cstr (comm (me s)) = Some t \<Longrightarrow> cstr (load (user s') (unat (fst args)) 16) = Some t"
proof -
  note c = prctl_consented [OF assms(2)]
  show "load (user s') (unat (fst args)) 4 = enc_int (pdeath_signal (me s))" if g: "prctl env PR_GET_PDEATHSIG args s = (0, s')"
  proof -
    from c [OF prctl_cases_at(12), of args s] obtain y where "put_out env (enc_int (pdeath_signal (me s))) (fst args) (s\<lparr>other := y\<rparr>) = (0, s')"
      using g by (auto simp: split_beta)
    from put_out_load [OF assms(1) this] show ?thesis by simp
  qed
  show "load (user s') (unat (fst args)) 4 = enc_int (of_bool (is_child_subreaper (me s)))" if g: "prctl env PR_GET_CHILD_SUBREAPER args s = (0, s')"
  proof -
    from c [OF prctl_cases_at(13), of args s] obtain y where "put_out env (enc_int (of_bool (is_child_subreaper (me s)))) (fst args) (s\<lparr>other := y\<rparr>) = (0, s')"
      using g by (auto simp: split_beta)
    from put_out_load [OF assms(1) this] show ?thesis by simp
  qed
  show "cstr (load (user s') (unat (fst args)) 16) = Some t" if g: "prctl env PR_GET_NAME args s = (0, s')" "length (comm (me s)) = 16" "cstr (comm (me s)) = Some t"
  proof -
    from c [OF prctl_cases_at(14), of args s] g(1) obtain y where y: "get_name env args (s\<lparr>other := y\<rparr>) = (0, s')" by metis
    obtain r u where r: "copy_to_user (access env) (unat (fst args)) (get_task_comm env (comm (me s))) (user s) = (r, u)" by (metis surj_pair)
    with y have "r = 0" "user s' = u" by (auto simp: get_name_def split_beta split: if_splits)
    with copy_to_userD(1) [OF prctl_env_okD(1) [OF assms(1)] r] prctl_env_okD(12) [OF assms(1)] prctl_env_okD(13) [OF assms(1) g(2,3)]
    show ?thesis by (simp add: load_store_same)
  qed
qed

section \<open>Properties\<close>

lemma ex_split_Cons:
  "(\<exists>pre post. c # cs = pre @ x # post \<and> P pre) \<longleftrightarrow> c = x \<and> P [] \<or> (\<exists>pre post. cs = pre @ x # post \<and> P (c # pre))" (is "?l \<longleftrightarrow> ?r")
proof
  assume ?l
  then obtain pre post where "c # cs = pre @ x # post" "P pre" by blast
  then show ?r by (cases pre) auto
next
  assume ?r
  then show ?l by (metis append_Cons append_Nil)
qed

lemma no_new_privs_step:
  "bit (atomic_flags (me (snd (prctl env opt args s)))) PFA_NO_NEW_PRIVS \<longleftrightarrow>
     bit (atomic_flags (me s)) PFA_NO_NEW_PRIVS
     \<or> opt = PR_SET_NO_NEW_PRIVS \<and> args = (1, 0, 0, 0) \<and> fst (security_task_prctl env opt args (other s)) = - ENOSYS"
proof (cases "opt = PR_SET_NO_NEW_PRIVS")
  case False
  from prctl_keep [OF _ this, where f = "\<lambda>t. bit (atomic_flags t) PFA_NO_NEW_PRIVS", of env args s] False show ?thesis
    by (simp add: setter_defs split_beta Let_def)
next
  case True
  then show ?thesis
    by (cases args) (auto simp: prctl_def prctl_cases_at Let_def set_no_new_privs_def nonzero_def bit_set_bit_iff split_beta)
qed

text \<open>
  C23. \<open>no_new_privs\<close> cannot be taken back. After any sequence of \<open>prctl\<close> calls, with any arguments and whatever the security module, the architecture and the rest of the kernel do, the flag is set exactly
  if it was set before or one of the calls was \<open>PR_SET_NO_NEW_PRIVS\<close> with the arguments 1, 0, 0, 0 that no security module took over.
  \<open>PR_GET_NO_NEW_PRIVS\<close> then reports it.
\<close>

theorem prctl_no_new_privs:
  "bit (atomic_flags (me (prctl_run env cs s))) PFA_NO_NEW_PRIVS \<longleftrightarrow>
     bit (atomic_flags (me s)) PFA_NO_NEW_PRIVS
     \<or> (\<exists>pre post. cs = pre @ (PR_SET_NO_NEW_PRIVS, (1, 0, 0, 0)) # post
          \<and> fst (security_task_prctl env PR_SET_NO_NEW_PRIVS (1, 0, 0, 0) (other (prctl_run env pre s))) = - ENOSYS)"
proof (induction cs arbitrary: s)
  case Nil
  then show ?case by (simp add: prctl_run_def)
next
  case (Cons c cs)
  obtain opt args where c: "c = (opt, args)" by (metis surj_pair)
  let ?s = "snd (prctl env opt args s)"
  let ?ok = "\<lambda>s. fst (security_task_prctl env PR_SET_NO_NEW_PRIVS (1, 0, 0, 0) (other s)) = - ENOSYS"
  have run: "prctl_run env (c # ds) s = prctl_run env ds ?s" "prctl_run env [] s = s" for ds by (simp_all add: prctl_run_def c)
  have e: "(\<exists>pre post. c # cs = pre @ (PR_SET_NO_NEW_PRIVS, (1, 0, 0, 0)) # post \<and> ?ok (prctl_run env pre s)) \<longleftrightarrow>
      c = (PR_SET_NO_NEW_PRIVS, (1, 0, 0, 0)) \<and> ?ok s
      \<or> (\<exists>pre post. cs = pre @ (PR_SET_NO_NEW_PRIVS, (1, 0, 0, 0)) # post \<and> ?ok (prctl_run env pre ?s))"
    by (subst ex_split_Cons) (simp add: run)
  have st: "bit (atomic_flags (me ?s)) PFA_NO_NEW_PRIVS \<longleftrightarrow>
      bit (atomic_flags (me s)) PFA_NO_NEW_PRIVS \<or> c = (PR_SET_NO_NEW_PRIVS, (1, 0, 0, 0)) \<and> ?ok s"
    unfolding no_new_privs_step c prod.inject(1) by metis
  show ?case unfolding e run(1) Cons.IH [of ?s] st by (simp only: disj_assoc)
qed

text \<open>
  C24. Every setting is read back. After a successful call that sets the death signal, the dump flag, the timer slack, the machine-check policy, the child-subreaper flag, transparent huge pages, the
  I/O-flusher flags, the name or \<open>no_new_privs\<close>, and after any further calls that do not set the same thing, the corresponding
  \<open>PR_GET\<close> call returns or stores exactly the value that was set; a name is cut to 15 bytes.
\<close>

theorem prctl_readback:
  assumes env: "prctl_env_ok env" "consents env" and set: "prctl env opt args s = (0, s1)" and quiet: "opt \<notin> fst ` set cs"
  defines "s2 \<equiv> prctl_run env cs s1"
  shows "(opt = PR_SET_PDEATHSIG \<longrightarrow> (\<forall>q s3. prctl env PR_GET_PDEATHSIG q s2 = (0, s3) \<longrightarrow> load (user s3) (unat (fst q)) 4 = enc_int (uint (fst args))))
    \<and> (opt = PR_SET_DUMPABLE \<longrightarrow> fst (prctl env PR_GET_DUMPABLE q s2) = uint (fst args))
    \<and> (opt = PR_SET_TIMERSLACK \<longrightarrow> fst (prctl env PR_GET_TIMERSLACK q s2) = sint (if fst args = 0 then default_timer_slack_ns (me s) else fst args))
    \<and> (opt = PR_MCE_KILL \<longrightarrow> fst (prctl env PR_MCE_KILL_GET (0, 0, 0, 0) s2) = (if fst args = 0 then 2 else uint (fst (snd args))))
    \<and> (opt = PR_SET_CHILD_SUBREAPER \<longrightarrow> (\<forall>q s3. prctl env PR_GET_CHILD_SUBREAPER q s2 = (0, s3) \<longrightarrow>
          load (user s3) (unat (fst q)) 4 = enc_int (of_bool (fst args \<noteq> 0))))
    \<and> (opt = PR_SET_THP_DISABLE \<longrightarrow> fst (prctl env PR_GET_THP_DISABLE (0, 0, 0, 0) s2) = of_bool (fst args \<noteq> 0))
    \<and> (opt = PR_SET_IO_FLUSHER \<and> capable_resource env \<longrightarrow> fst (prctl env PR_GET_IO_FLUSHER (0, 0, 0, 0) s2) = of_bool (fst args = 1))
    \<and> (opt = PR_SET_NAME \<longrightarrow> (\<forall>q s3. prctl env PR_GET_NAME q s2 = (0, s3) \<longrightarrow>
          cstr (load (user s3) (unat (fst q)) 16) = Some (name_at (user s) (unat (fst args)))))
    \<and> (opt = PR_SET_NO_NEW_PRIVS \<longrightarrow> fst (prctl env PR_GET_NO_NEW_PRIVS (0, 0, 0, 0) s2) = 1)"
proof (intro conjI impI allI; (elim conjE)?)
  note ok = conjI [OF env]
  note v = get_value [OF env(2)] and st = get_stored [OF env]
  note s2 = s2_def [unfolded prctl_run_def]
  note r = set quiet
  show "load (user s3) (unat (fst q)) 4 = enc_int (uint (fst args))" if "opt = PR_SET_PDEATHSIG" "prctl env PR_GET_PDEATHSIG q s2 = (0, s3)" for q s3
    using st(1) [OF that(2)] psig.remembers [OF ok r [unfolded that(1)]] by (simp add: s2)
  show "fst (prctl env PR_GET_DUMPABLE q s2) = uint (fst args)" if "opt = PR_SET_DUMPABLE"
    using v(1) dump.remembers [OF ok r [unfolded that]] by (simp add: s2)
  show "fst (prctl env PR_GET_TIMERSLACK q s2) = sint (if fst args = 0 then default_timer_slack_ns (me s) else fst args)" if "opt = PR_SET_TIMERSLACK"
    using v(2) slack.remembers [OF ok r [unfolded that]] by (simp add: s2)
  show "fst (prctl env PR_MCE_KILL_GET (0, 0, 0, 0) s2) = (if fst args = 0 then 2 else uint (fst (snd args)))" if "opt = PR_MCE_KILL"
    using v(3) mce.remembers [OF ok r [unfolded that]] by (simp add: s2 split_beta)
  show "load (user s3) (unat (fst q)) 4 = enc_int (of_bool (fst args \<noteq> 0))"
    if "opt = PR_SET_CHILD_SUBREAPER" "prctl env PR_GET_CHILD_SUBREAPER q s2 = (0, s3)" for q s3
    using st(2) [OF that(2)] sub.remembers [OF ok r [unfolded that(1)]] by (simp add: s2)
  show "fst (prctl env PR_GET_THP_DISABLE (0, 0, 0, 0) s2) = of_bool (fst args \<noteq> 0)" if "opt = PR_SET_THP_DISABLE"
    using v(5) thp.remembers [OF ok r [unfolded that]] by (simp add: s2)
  show "fst (prctl env PR_GET_IO_FLUSHER (0, 0, 0, 0) s2) = of_bool (fst args = 1)" if "opt = PR_SET_IO_FLUSHER" "capable_resource env"
    using v(6) [OF that(2)] io.remembers [OF ok r [unfolded that(1)]] by (simp add: s2)
  show "cstr (load (user s3) (unat (fst q)) 16) = Some (name_at (user s) (unat (fst args)))"
    if "opt = PR_SET_NAME" "prctl env PR_GET_NAME q s2 = (0, s3)" for q s3
    using st(3) [OF that(2)] name.remembers [OF ok r [unfolded that(1)]] by (simp add: s2)
  show "fst (prctl env PR_GET_NO_NEW_PRIVS (0, 0, 0, 0) s2) = 1" if "opt = PR_SET_NO_NEW_PRIVS"
    using v(4) nnp.remembers [OF ok r [unfolded that]] by (simp add: s2)
qed

lemma setter_errors:
  assumes "uaccess_ok (access env)"
  shows "list_all (\<lambda>(k, h). k = PR_MCE_KILL \<or> (\<forall>args s. fst (h args s) < 0 \<longrightarrow> me (snd (h args s)) = me s
    \<and> has_child_subreaper (snd (h args s)) = has_child_subreaper s)) (setter_cases env)"
proof -
  have "fst (set_mm env args s) < 0 \<longrightarrow> me (snd (set_mm env args s)) = me s \<and> has_child_subreaper (snd (set_mm env args s)) = has_child_subreaper s" for args s
  proof -
    obtain a2 a3 a4 a5 where args: "args = (a2, a3, a4, a5)" by (metis prod.collapse)
    obtain r m where r: "prctl_set_mm (mm_env env) (access env) (user s) (s32 (uint a2)) a3 (unat a4) (unat a5) (mm_desc (me s)) = (r, m)" by (metis surj_pair)
    from set_mm_cases [OF assms r] show ?thesis by (auto simp: set_mm_def args r)
  qed
  then show ?thesis
    by (simp add: setter_cases_def) (simp add: set_pdeathsig_def prctl_set_dumpable_def set_name_def set_timerslack_def
      set_child_subreaper_def set_no_new_privs_def set_thp_disable_def set_io_flusher_def split_beta Let_def)
qed

text \<open>
  C39. Errors leave the task alone, with one exception. A call that returns a negative value has changed neither the task nor the subreaper flags, except that \<open>PR_MCE_KILL_SET\<close> with an unknown
  policy returns \<open>EINVAL\<close> after it has already set \<open>PF_MCE_PROCESS\<close>, which changes the policy of the task.
\<close>

theorem prctl_error_unchanged:
  assumes "uaccess_ok (access env)" "prctl env opt args s = (r, s')" "r < 0"
  shows "has_child_subreaper s' = has_child_subreaper s
    \<and> (if opt = PR_MCE_KILL \<and> fst args = 1 \<and> fst (snd args) \<notin> {0, 1, 2} \<and> snd (snd args) = (0, 0)
          \<and> fst (security_task_prctl env opt args (other s)) = - ENOSYS
       then r = - EINVAL \<and> me s' = (me s)\<lparr>pflags := pflags (me s) OR PF_MCE_PROCESS\<rparr>
       else me s' = me s)"
proof (cases "opt = PR_MCE_KILL")
  case False
  from assms(2) show ?thesis
  proof (cases rule: prctl_case)
    case other
    with False show ?thesis by simp
  next
    case (set h y)
    from bspec [OF setter_errors [OF assms(1), unfolded list_all_iff] set(1), unfolded prod.case] False set(3) assms(3)
    have "me s' = me (s\<lparr>other := y\<rparr>) \<and> has_child_subreaper s' = has_child_subreaper (s\<lparr>other := y\<rparr>)" by (metis fst_conv snd_conv)
    with False show ?thesis by simp
  qed
next
  case True
  obtain a2 a3 a4 a5 where args: "args = (a2, a3, a4, a5)" by (metis prod.collapse)
  obtain e y where e: "security_task_prctl env opt args (other s) = (e, y)" by (metis surj_pair)
  have z: "a4 OR a5 = 0 \<longleftrightarrow> a4 = 0 \<and> a5 = 0" by (rule or_eq_0_iff)
  show ?thesis
  proof (cases "e = - ENOSYS")
    case False
    with assms(2) e show ?thesis by (auto simp: prctl_def)
  next
    case [simp]: True
    have "mce_kill args (s\<lparr>other := y\<rparr>) = (r, s')" using assms(2) \<open>opt = PR_MCE_KILL\<close> e by (simp add: prctl_def prctl_cases_at)
    with assms(3) e \<open>opt = PR_MCE_KILL\<close> show ?thesis by (auto simp: mce_kill_def args z Let_def on_me_def split: if_splits)
  qed
qed

section \<open>The walk over the descendants\<close>

text \<open>
  \<open>walk_process_tree\<close> visits the children of the caller and, whenever the visitor returns a positive number, those of the visited process.
  \<open>visits\<close> says that \<open>ps\<close> is the order of such a walk: \<open>kids\<close> are the children of a process, \<open>root\<close> is the caller.
\<close>

definition after_visits :: "(nat \<Rightarrow> 'f \<Rightarrow> int \<times> 'f) \<Rightarrow> nat list \<Rightarrow> 'f \<Rightarrow> 'f" where
  "after_visits visit ps m = fold (\<lambda>p m. snd (visit p m)) ps m"

definition visits :: "(nat \<Rightarrow> nat set) \<Rightarrow> nat \<Rightarrow> (nat \<Rightarrow> 'f \<Rightarrow> int \<times> 'f) \<Rightarrow> 'f \<Rightarrow> nat list \<Rightarrow> bool" where
  "visits kids root visit m ps \<longleftrightarrow>
     kids root \<subseteq> set ps
     \<and> (\<forall>i < length ps. 0 < fst (visit (ps ! i) (after_visits visit (take i ps) m)) \<longrightarrow> kids (ps ! i) \<subseteq> set ps)
     \<and> (\<forall>i < length ps. ps ! i \<in> kids root
          \<or> (\<exists>j < i. 0 < fst (visit (ps ! j) (after_visits visit (take j ps) m)) \<and> ps ! i \<in> kids (ps ! j)))"

definition walk_ok :: "'x prctl_env \<Rightarrow> (nat \<Rightarrow> nat set) \<Rightarrow> nat \<Rightarrow> bool" where
  "walk_ok env kids root \<longleftrightarrow>
     (\<forall>visit m. (\<forall>p m. 0 \<le> fst (visit p m)) \<longrightarrow>
        (\<exists>ps. walk_process_tree env visit m = after_visits visit ps m \<and> visits kids root visit m ps))"

text \<open>The descendants that are reached without passing the init process of another namespace.\<close>

inductive below :: "(nat \<Rightarrow> nat set) \<Rightarrow> nat \<Rightarrow> (nat \<Rightarrow> bool) \<Rightarrow> nat \<Rightarrow> bool" for kids root reaper where
  child: "p \<in> kids root \<Longrightarrow> \<not> reaper p \<Longrightarrow> below kids root reaper p"
| grandchild: "below kids root reaper p \<Longrightarrow> q \<in> kids p \<Longrightarrow> \<not> reaper q \<Longrightarrow> below kids root reaper q"

inductive_cases belowE: "below kids root reaper p"

lemma after_propagate:
  "after_visits (propagate_has_child_subreaper reaper) ps m = (\<lambda>q. m q \<or> q \<in> set ps \<and> \<not> reaper q)"
proof (induction ps arbitrary: m)
  case Nil
  then show ?case by (simp add: after_visits_def)
next
  case (Cons p ps)
  have c: "after_visits (propagate_has_child_subreaper reaper) (p # ps) m
      = after_visits (propagate_has_child_subreaper reaper) ps (snd (propagate_has_child_subreaper reaper p m))" by (simp add: after_visits_def)
  show ?case unfolding c Cons.IH by (auto simp: propagate_has_child_subreaper_def fun_eq_iff)
qed

lemma propagate_positive: "0 < fst (propagate_has_child_subreaper reaper p m) \<longleftrightarrow> \<not> m p \<and> \<not> reaper p"
  by (simp add: propagate_has_child_subreaper_def)

lemma visited_below:
  assumes v: "visits kids root (propagate_has_child_subreaper reaper) m ps" and i: "i < length ps" "\<not> reaper (ps ! i)"
  shows "below kids root reaper (ps ! i)"
  using i
proof (induction i rule: less_induct)
  case (less i)
  from v less.prems(1) consider "ps ! i \<in> kids root"
    | j where "j < i" "\<not> reaper (ps ! j)" "ps ! i \<in> kids (ps ! j)" unfolding visits_def propagate_positive by blast
  then show ?case
  proof cases
    case 1
    then show ?thesis using less.prems(2) by (rule below.child)
  next
    case (2 j)
    with less.IH [of j] less.prems show ?thesis by (auto intro: below.grandchild)
  qed
qed

lemma below_visited:
  assumes v: "visits kids root (propagate_has_child_subreaper reaper) m ps"
    and closed: "\<forall>p q. m p \<longrightarrow> q \<in> kids p \<longrightarrow> \<not> reaper q \<longrightarrow> m q"
  shows "below kids root reaper q \<Longrightarrow> m q \<or> q \<in> set ps"
proof (induction rule: below.induct)
  case (child p)
  then show ?case using v by (auto simp: visits_def)
next
  case (grandchild p q)
  show ?case
  proof (cases "m p")
    case True
    with closed grandchild.hyps show ?thesis by blast
  next
    case False
    with grandchild.IH have "p \<in> set ps" by simp
    then obtain xs ys where ps: "ps = xs @ p # ys" "p \<notin> set xs" by (metis split_list_first)
    let ?i = "length xs"
    have "\<not> reaper p" using grandchild.hyps(1) by (rule belowE)
    with False ps have "0 < fst (propagate_has_child_subreaper reaper (ps ! ?i) (after_visits (propagate_has_child_subreaper reaper) (take ?i ps) m))"
      by (simp add: propagate_positive after_propagate)
    moreover have "?i < length ps" "ps ! ?i = p" using ps by simp_all
    ultimately have "kids p \<subseteq> set ps" using v unfolding visits_def by metis
    with grandchild.hyps(2) show ?thesis by blast
  qed
qed

text \<open>
  Becoming a subreaper marks exactly the descendants. Let the marks be closed under children that are not init processes of their own namespace, which every such call keeps. Then \<open>PR_SET_CHILD_SUBREAPER\<close> with a non-zero argument
  marks exactly the descendants of the caller that are reached without passing such an init process, although the walk skips subtrees
  that are marked already; with 0 it marks nobody. The set of marks stays closed.
\<close>

theorem prctl_subreaper:
  assumes walk: "walk_ok env kids root" and hook: "fst (security_task_prctl env PR_SET_CHILD_SUBREAPER args (other s)) = - ENOSYS"
    and closed: "\<And>p q. has_child_subreaper s p \<Longrightarrow> q \<in> kids p \<Longrightarrow> \<not> is_child_reaper env q \<Longrightarrow> has_child_subreaper s q"
    and call: "prctl env PR_SET_CHILD_SUBREAPER args s = (r, s')"
  shows "r = 0 \<and> is_child_subreaper (me s') = (fst args \<noteq> 0)
    \<and> (\<forall>q. has_child_subreaper s' q \<longleftrightarrow> has_child_subreaper s q \<or> fst args \<noteq> 0 \<and> below kids root (is_child_reaper env) q)
    \<and> (\<forall>p q. has_child_subreaper s' p \<longrightarrow> q \<in> kids p \<longrightarrow> \<not> is_child_reaper env q \<longrightarrow> has_child_subreaper s' q)"
proof -
  let ?v = "propagate_has_child_subreaper (is_child_reaper env)"
  let ?m = "has_child_subreaper s"
  obtain ps where ps: "walk_process_tree env ?v ?m = after_visits ?v ps ?m" "visits kids root ?v ?m ps"
    using walk unfolding walk_ok_def by (metis (no_types) fst_conv order_refl propagate_has_child_subreaper_def zero_le_one)
  have cl: "\<forall>p q. ?m p \<longrightarrow> q \<in> kids p \<longrightarrow> \<not> is_child_reaper env q \<longrightarrow> ?m q" using closed by blast
  obtain y where y: "security_task_prctl env PR_SET_CHILD_SUBREAPER args (other s) = (- ENOSYS, y)" using hook by (metis prod.collapse)
  have "set_child_subreaper env args (s\<lparr>other := y\<rparr>) = (r, s')" using call by (simp add: prctl_def prctl_cases_at y)
  then have s': "r = 0" "is_child_subreaper (me s') = (fst args \<noteq> 0)"
    "has_child_subreaper s' = (if fst args = 0 then ?m else after_visits ?v ps ?m)"
    using ps(1) by (auto simp: set_child_subreaper_def split_beta Let_def split: if_splits)
  have "q \<in> set ps \<and> \<not> is_child_reaper env q \<longrightarrow> below kids root (is_child_reaper env) q" for q
    using visited_below [OF ps(2)] unfolding in_set_conv_nth by blast
  moreover have "below kids root (is_child_reaper env) q \<longrightarrow> ?m q \<or> q \<in> set ps \<and> \<not> is_child_reaper env q" for q
  proof
    assume b: "below kids root (is_child_reaper env) q"
    then have "\<not> is_child_reaper env q" by (rule belowE)
    with below_visited [OF ps(2) cl b] show "?m q \<or> q \<in> set ps \<and> \<not> is_child_reaper env q" by blast
  qed
  ultimately have marks: "has_child_subreaper s' q \<longleftrightarrow> ?m q \<or> fst args \<noteq> 0 \<and> below kids root (is_child_reaper env) q" for q
    unfolding s'(3) after_propagate by auto
  have "has_child_subreaper s' q" if "has_child_subreaper s' p" "q \<in> kids p" "\<not> is_child_reaper env q" for p q
  proof -
    from that(1) consider "?m p" | "fst args \<noteq> 0" "below kids root (is_child_reaper env) p" unfolding marks by blast
    then show ?thesis using that(2,3) closed [of p q] below.grandchild [of kids root _ p q] unfolding marks by cases simp_all
  qed
  with s'(1,2) marks show ?thesis by simp
qed

section \<open>Witnesses\<close>

text \<open>A kernel without security module or architecture controls, in which process 1 calls; 2 is its child and 3 the child of 2.\<close>

definition plain_env :: "unit prctl_env" where
  "plain_env = \<lparr>security_task_prctl = (\<lambda>_ _ y. (- 38, y)), arch = (\<lambda>_. None), service = (\<lambda>_ _ u y. (0, u, y)), valid_signal = (\<lambda>a. a \<le> 64),
     get_dumpable = (\<lambda>w. of_bool (bit w 0)), set_dumpable = (\<lambda>w v. if v = 1 then set_bit 0 w else unset_bit 0 w),
     put_user = (\<lambda>a bs m. (0, store a bs m)), access = flat_access 1000,
     strncpy_from_user = (\<lambda>a n m. (0, take n (takeWhile (\<lambda>c. c \<noteq> NUL) (load m a n) @ [NUL]))), uninitialised = replicate 15 NUL,
     set_task_comm = (\<lambda>_ buf. buf), get_task_comm = (\<lambda>c. if length c = 16 then c else replicate 16 NUL),
     walk_process_tree = (\<lambda>v m. let (r, m) = v 2 m in if 0 < r then snd (v 3 m) else m), is_child_reaper = (\<lambda>_. False),
     capable_resource = True, mmap_write_lock_killable = 0, CHECKPOINT_RESTORE = True, mm_env = small_mm_env\<rparr>"

definition plain_state :: "unit pstate" where
  "plain_state = \<lparr>me = \<lparr>pdeath_signal = 0, comm = replicate 16 NUL, timer_slack_ns = 50000, default_timer_slack_ns = 50000, pflags = 0, atomic_flags = 0,
     clear_child_tid = 0, is_child_subreaper = False, mm_flags = 0, mm_desc = small_mm\<rparr>, has_child_subreaper = (\<lambda>_. False), user = (\<lambda>_. NUL), other = ()\<rparr>"

lemma plain_env_ok: "prctl_env_ok plain_env" "consents plain_env"
  by (auto simp: prctl_env_ok_def consents_def plain_env_def flat_access_ok bit_set_bit_iff bit_unset_bit_iff)

definition family :: "nat \<Rightarrow> nat set" where "family p = (if p = 1 then {2} else if p = 2 then {3} else {})"

lemma plain_walk: "walk_ok plain_env family 1"
proof -
  have "\<exists>ps. (let (r, m1) = v 2 m in if 0 < r then snd (v 3 m1) else m1) = after_visits v ps m \<and> visits family 1 v m ps"
    for v :: "nat \<Rightarrow> (nat \<Rightarrow> bool) \<Rightarrow> int \<times> (nat \<Rightarrow> bool)" and m
  proof (cases "0 < fst (v 2 m)")
    case True
    then have "visits family 1 v m [2, 3]" by (auto simp: visits_def family_def after_visits_def less_Suc_eq nth_Cons split: nat.splits)
    with True show ?thesis by (intro exI [of _ "[2, 3]"]) (simp add: split_beta after_visits_def)
  next
    case False
    then have "visits family 1 v m [2]" by (auto simp: visits_def family_def after_visits_def)
    with False show ?thesis by (intro exI [of _ "[2]"]) (simp add: split_beta after_visits_def)
  qed
  then show ?thesis by (simp add: walk_ok_def plain_env_def)
qed

theorem prctl_readback_witness:
  "fst (prctl plain_env PR_GET_TIMERSLACK (0, 0, 0, 0) (prctl_run plain_env [(PR_SET_DUMPABLE, (0, 0, 0, 0))]
     (snd (prctl plain_env PR_SET_TIMERSLACK (70000, 0, 0, 0) plain_state)))) = 70000"
proof -
  let ?r = "prctl plain_env PR_SET_TIMERSLACK (70000, 0, 0, 0) plain_state"
  have "fst ?r = 0" by (simp add: prctl_def prctl_cases_at plain_env_def set_timerslack_def)
  then have r: "?r = (0, snd ?r)" by (metis prod.collapse)
  from prctl_readback [OF plain_env_ok r, of "[(PR_SET_DUMPABLE, (0, 0, 0, 0))]" "(0, 0, 0, 0)"] show ?thesis by simp
qed

theorem prctl_error_unchanged_witness:
  "\<exists>s'. prctl plain_env PR_MCE_KILL (1, 7, 0, 0) plain_state = (- EINVAL, s') \<and> pflags (me s') = PF_MCE_PROCESS"
proof -
  let ?r = "prctl plain_env PR_MCE_KILL (1, 7, 0, 0) plain_state"
  have f: "fst ?r = - EINVAL" by (simp add: prctl_def prctl_cases_at plain_env_def mce_kill_def Let_def)
  then have r: "?r = (- EINVAL, snd ?r)" by (metis prod.collapse)
  have a: "uaccess_ok (access plain_env)" "fst (security_task_prctl plain_env PR_MCE_KILL (1, 7, 0, 0) (other plain_state)) = - ENOSYS"
    by (simp_all add: plain_env_def flat_access_ok)
  from prctl_error_unchanged [OF a(1) r] a(2) have "pflags (me (snd ?r)) = PF_MCE_PROCESS" by (simp add: plain_state_def)
  with r show ?thesis by blast
qed

theorem prctl_subreaper_witness:
  "\<exists>s'. prctl plain_env PR_SET_CHILD_SUBREAPER (5, 0, 0, 0) plain_state = (0, s') \<and> has_child_subreaper s' 3 \<and> \<not> has_child_subreaper s' 1"
proof -
  obtain r s' where r: "prctl plain_env PR_SET_CHILD_SUBREAPER (5, 0, 0, 0) plain_state = (r, s')" by (metis surj_pair)
  have h: "fst (security_task_prctl plain_env PR_SET_CHILD_SUBREAPER (5, 0, 0, 0) (other plain_state)) = - ENOSYS" by (simp add: plain_env_def)
  have c: "has_child_subreaper plain_state p \<Longrightarrow> q \<in> family p \<Longrightarrow> \<not> is_child_reaper plain_env q \<Longrightarrow> has_child_subreaper plain_state q" for p q
    by (simp add: plain_state_def)
  note t = prctl_subreaper [OF plain_walk h c r]
  have "below family 1 (is_child_reaper plain_env) 2" by (rule below.child) (simp_all add: family_def plain_env_def)
  then have "below family 1 (is_child_reaper plain_env) 3" by (rule below.grandchild) (simp_all add: family_def plain_env_def)
  moreover have "\<not> below family 1 (is_child_reaper plain_env) 1"
    by (rule notI, erule belowE) (simp_all add: family_def split: if_splits)
  ultimately have "r = 0 \<and> has_child_subreaper s' 3 \<and> \<not> has_child_subreaper s' 1" using t by (simp add: plain_state_def)
  with r show ?thesis by blast
qed

end
