(* ===== verification/Unistd_Cpp.thy ===== *)
theory Unistd_Cpp
  imports Prelude
begin

text \<open>
  The preprocessor as far as \<open>unistd.h\<close> uses it, and the five macros that turn one line of the
  header into an entry of the system-call table.  The header is a list of directives; running it
  on the macros defined before the \<open>#include\<close> gives the macros defined after it and the calls of
  \<open>__SYSCALL\<close> it expands to, in order.  A macro that is defined again with another body, and an
  entry whose number is not a number, are errors (\<open>None\<close>).
\<close>

section \<open>Macros, directives and entries\<close>

text \<open>\<open>NR x\<close> is the macro \<open>__NR_x\<close>, \<open>NR3264 x\<close> is \<open>__NR3264_x\<close>, any other macro is \<open>Macro\<close>.
  \<open>Sys x\<close> is the C function \<open>sys_x\<close> and \<open>Compat x\<close> the function \<open>compat_sys_x\<close>.\<close>

datatype mac = NR string | NR3264 string | Macro string

datatype handler = Sys string | Compat string

text \<open>A body is a number, the name of another macro, the empty text, or (\<open>Emit\<close>) the
  including file's own definition of \<open>__SYSCALL\<close>, which makes a table entry.\<close>

datatype pp_body = Num nat | Name mac | Blank | Emit

datatype pp_cond =
    Defined mac | Equals mac nat | Negated pp_cond | Either pp_cond pp_cond | Both pp_cond pp_cond

datatype sc_call =
    SYSCALL mac handler
  | SC_3264 mac handler handler
  | SC_COMP mac handler handler
  | SC_COMP_3264 mac handler handler handler

datatype pp_line =
    Define mac pp_body
  | Undef mac
  | Entry sc_call
  | Cond pp_cond "pp_line list" "pp_line list"

type_synonym macros = "mac \<Rightarrow> pp_body option"

record pp_state =
  macros :: macros
  entries :: "(mac \<times> nat \<times> handler) list"

section \<open>Running the directives\<close>

text \<open>The number a macro stands for.  The header uses numbers and names of numbers only.\<close>

definition mac_value :: "macros \<Rightarrow> mac \<Rightarrow> nat option" where
  "mac_value ms x = (case ms x of
     Some (Num n) \<Rightarrow> Some n
   | Some (Name y) \<Rightarrow> (case ms y of Some (Num n) \<Rightarrow> Some n | _ \<Rightarrow> None)
   | _ \<Rightarrow> None)"

text \<open>In an \<open>#if\<close> a name that is not a number counts as 0.\<close>

fun pp_true :: "macros \<Rightarrow> pp_cond \<Rightarrow> bool" where
  "pp_true ms (Defined x) = (ms x \<noteq> None)"
| "pp_true ms (Equals x n) = ((case mac_value ms x of Some v \<Rightarrow> v | None \<Rightarrow> 0) = n)"
| "pp_true ms (Negated c) = (\<not> pp_true ms c)"
| "pp_true ms (Either c d) = (pp_true ms c \<or> pp_true ms d)"
| "pp_true ms (Both c d) = (pp_true ms c \<and> pp_true ms d)"

text \<open>The macros \<open>__SC_3264\<close>, \<open>__SC_COMP\<close> and \<open>__SC_COMP_3264\<close>: the function an entry names.
  The header chooses their bodies once, at its start; nothing it defined_macs later changes the
  conditions (\<open>sc_stable\<close> below).\<close>

definition narrow :: pp_cond where
  "narrow = Either (Equals (Macro ''__BITS_PER_LONG'') 32) (Defined (Macro ''__SYSCALL_COMPAT''))"

definition sc_3264 :: "macros \<Rightarrow> handler \<Rightarrow> handler \<Rightarrow> handler" where
  "sc_3264 ms h32 h64 = (if pp_true ms narrow then h32 else h64)"

definition sc_comp :: "macros \<Rightarrow> handler \<Rightarrow> handler \<Rightarrow> handler" where
  "sc_comp ms sys comp32 = (if pp_true ms (Defined (Macro ''__SYSCALL_COMPAT'')) then comp32 else sys)"

definition sc_comp_3264 :: "macros \<Rightarrow> handler \<Rightarrow> handler \<Rightarrow> handler \<Rightarrow> handler" where
  "sc_comp_3264 ms h32 h64 comp32 =
     (if pp_true ms (Defined (Macro ''__SYSCALL_COMPAT'')) then comp32 else sc_3264 ms h32 h64)"

fun call_nr :: "sc_call \<Rightarrow> mac" where
  "call_nr (SYSCALL x h) = x"
| "call_nr (SC_3264 x h32 h64) = x"
| "call_nr (SC_COMP x h comp32) = x"
| "call_nr (SC_COMP_3264 x h32 h64 comp32) = x"

fun call_handler :: "macros \<Rightarrow> sc_call \<Rightarrow> handler" where
  "call_handler ms (SYSCALL x h) = h"
| "call_handler ms (SC_3264 x h32 h64) = sc_3264 ms h32 h64"
| "call_handler ms (SC_COMP x h comp32) = sc_comp ms h comp32"
| "call_handler ms (SC_COMP_3264 x h32 h64 comp32) = sc_comp_3264 ms h32 h64 comp32"

text \<open>\<open>__SYSCALL(nr, h)\<close>: an entry when the including file gave the macro a meaning, nothing
  after the header's own empty definition.\<close>

definition run_entry :: "sc_call \<Rightarrow> pp_state \<Rightarrow> pp_state option" where
  "run_entry c st =
     (if macros st (Macro ''__SYSCALL'') \<noteq> Some Emit then Some st
      else case mac_value (macros st) (call_nr c) of
        None \<Rightarrow> None
      | Some n \<Rightarrow> Some (st\<lparr>entries := entries st @
                          [(call_nr c, n, call_handler (macros st) c)]\<rparr>))"

definition run_define :: "mac \<Rightarrow> pp_body \<Rightarrow> pp_state \<Rightarrow> pp_state option" where
  "run_define x b st =
     (if macros st x = None \<or> macros st x = Some b
      then Some (st\<lparr>macros := (macros st)(x \<mapsto> b)\<rparr>) else None)"

fun run_line :: "pp_line \<Rightarrow> pp_state \<Rightarrow> pp_state option"
  and run_lines :: "pp_line list \<Rightarrow> pp_state \<Rightarrow> pp_state option" where
  "run_line (Define x b) st = run_define x b st"
| "run_line (Undef x) st = Some (st\<lparr>macros := (macros st)(x := None)\<rparr>)"
| "run_line (Entry c) st = run_entry c st"
| "run_line (Cond c ts es) st = (if pp_true (macros st) c then run_lines ts st else run_lines es st)"
| "run_lines [] st = Some st"
| "run_lines (l # ls) st = (case run_line l st of None \<Rightarrow> None | Some st' \<Rightarrow> run_lines ls st')"

lemma run_lines_append:
  "run_lines (xs @ ys) st =
     (case run_lines xs st of None \<Rightarrow> None | Some st' \<Rightarrow> run_lines ys st')"
  by (induction xs arbitrary: st) (auto split: option.splits)


section \<open>A static check of a list of directives\<close>

text \<open>\<open>ascending lo ls\<close> walks over every branch of every \<open>#if\<close>: each entry stands right after the
  definition of its own number, and these numbers grow from \<open>lo\<close> on; the result is a bound above
  them all.\<close>

fun ascending :: "nat \<Rightarrow> pp_line list \<Rightarrow> nat option" where
  "ascending lo [] = Some lo"
| "ascending lo (Define x (Num n) # Entry c # ls) =
     (if call_nr c = x \<and> lo \<le> n then ascending (Suc n) ls else None)"
| "ascending lo (Define x b # ls) = ascending lo ls"
| "ascending lo (Cond c ts es # ls) =
     (case (ascending lo ts, ascending lo es) of
        (Some i, Some j) \<Rightarrow> ascending (max i j) ls
      | _ \<Rightarrow> None)"
| "ascending lo (Undef x # ls) = None"
| "ascending lo (Entry c # ls) = None"

text \<open>The macros a list defined_macs, and the entries it may make: those of all branches, and those
  outside every \<open>#if\<close>.\<close>

fun defined_macs :: "pp_line list \<Rightarrow> mac list" where
  "defined_macs [] = []"
| "defined_macs (Define x b # ls) = x # defined_macs ls"
| "defined_macs (Cond c ts es # ls) = defined_macs ts @ defined_macs es @ defined_macs ls"
| "defined_macs (l # ls) = defined_macs ls"

fun call_handlers :: "sc_call \<Rightarrow> handler list" where
  "call_handlers (SYSCALL x h) = [h]"
| "call_handlers (SC_3264 x h32 h64) = [h32, h64]"
| "call_handlers (SC_COMP x h comp32) = [h, comp32]"
| "call_handlers (SC_COMP_3264 x h32 h64 comp32) = [h32, h64, comp32]"

fun calls :: "pp_line list \<Rightarrow> (nat \<times> sc_call) list" where
  "calls [] = []"
| "calls (Define x (Num n) # Entry c # ls) = (n, c) # calls ls"
| "calls (Cond c ts es # ls) = calls ts @ calls es @ calls ls"
| "calls (l # ls) = calls ls"

fun plain_calls :: "pp_line list \<Rightarrow> (nat \<times> sc_call) list" where
  "plain_calls [] = []"
| "plain_calls (Define x (Num n) # Entry c # ls) = (n, c) # plain_calls ls"
| "plain_calls (Cond c ts es # ls) = plain_calls ls"
| "plain_calls (l # ls) = plain_calls ls"

fun is_nr :: "mac \<Rightarrow> bool" where
  "is_nr (Macro x) = False"
| "is_nr _ = True"

text \<open>What the check promises of a run: it succeeds; it adds entries with growing numbers inside
  the bounds, each one from the list of calls, under the number its name stands for; it keeps the
  macros defined before.\<close>

definition emits :: "macros \<Rightarrow> bool" where
  "emits ms \<longleftrightarrow> ms (Macro ''__SYSCALL'') = Some Emit"

definition entry_ok :: "macros \<Rightarrow> (nat \<times> sc_call) list \<Rightarrow> mac \<times> nat \<times> handler \<Rightarrow> bool" where
  "entry_ok ms cs = (\<lambda>(x, n, h). is_nr x \<and> ms x = Some (Num n) \<and>
      (\<exists>c. (n, c) \<in> set cs \<and> call_nr c = x \<and> h = call_handler ms c))"

definition made :: "macros \<Rightarrow> nat \<times> sc_call \<Rightarrow> mac \<times> nat \<times> handler" where
  "made ms = (\<lambda>(n, c). (call_nr c, n, call_handler ms c))"

definition run_ok ::
  "nat \<Rightarrow> nat \<Rightarrow> mac list \<Rightarrow> (nat \<times> sc_call) list \<Rightarrow> (nat \<times> sc_call) list \<Rightarrow>
   pp_state \<Rightarrow> pp_state \<Rightarrow> bool" where
  "run_ok lo hi xs cs ps st st' \<longleftrightarrow>
     lo \<le> hi \<and> macros st \<subseteq>\<^sub>m macros st' \<and> (\<forall>x. x \<notin> set xs \<longrightarrow> macros st' x = macros st x) \<and>
     (\<forall>x. macros st' (Macro x) = macros st (Macro x)) \<and>
     (\<exists>new. entries st' = entries st @ new \<and> sorted_wrt (<) (map (fst \<circ> snd) new) \<and>
        (\<forall>e\<in>set new. lo \<le> fst (snd e) \<and> fst (snd e) < hi \<and> entry_ok (macros st') cs e) \<and>
        (if emits (macros st) then made (macros st') ` set ps \<subseteq> set new else new = []))"

section \<open>The check is sound\<close>

definition word_size_known :: "macros \<Rightarrow> bool" where
  "word_size_known ms \<longleftrightarrow> (\<exists>b. ms (Macro ''__BITS_PER_LONG'') = Some (Num b))"

lemma sc_stable:
  assumes "word_size_known ms" "\<And>x. ms' (Macro x) = ms (Macro x)"
  shows "call_handler ms' c = call_handler ms c"
proof -
  have "pp_true ms' narrow = pp_true ms narrow"
    using assms by (auto simp: narrow_def word_size_known_def mac_value_def)
  with assms show ?thesis
    by (cases c) (simp_all add: sc_3264_def sc_comp_def sc_comp_3264_def)
qed

lemma run_ok_refl: "run_ok lo lo xs cs [] st st"
  by (simp add: run_ok_def)

lemma entry_ok_mono:
  assumes "entry_ok ms cs e" "ms \<subseteq>\<^sub>m ms'" "word_size_known ms" "\<And>x. ms' (Macro x) = ms (Macro x)"
    "set cs \<subseteq> set cs'"
  shows "entry_ok ms' cs' e"
proof -
  obtain x n h where e: "e = (x, n, h)" by (cases e) auto
  have "ms' x = Some (Num n)"
    using assms(1,2) by (auto simp: entry_ok_def e map_le_def dom_def)
  then show ?thesis
    using assms(1,5) sc_stable [OF assms(3,4)] by (auto simp: entry_ok_def e)
qed

lemma run_ok_trans:
  assumes 1: "run_ok lo mid xs cs ps st st1" and 2: "run_ok mid hi xs' cs' ps' st1 st2"
    and w: "word_size_known (macros st)"
  shows "run_ok lo hi (xs @ xs') (cs @ cs') (ps @ ps') st st2"
proof -
  obtain new where n: "entries st1 = entries st @ new" "sorted_wrt (<) (map (fst \<circ> snd) new)"
    "\<forall>e\<in>set new. lo \<le> fst (snd e) \<and> fst (snd e) < mid \<and> entry_ok (macros st1) cs e"
    "if emits (macros st) then made (macros st1) ` set ps \<subseteq> set new else new = []"
    using 1 by (auto simp: run_ok_def)
  obtain new' where n': "entries st2 = entries st1 @ new'"
    "sorted_wrt (<) (map (fst \<circ> snd) new')"
    "\<forall>e\<in>set new'. mid \<le> fst (snd e) \<and> fst (snd e) < hi \<and> entry_ok (macros st2) cs' e"
    "if emits (macros st1) then made (macros st2) ` set ps' \<subseteq> set new' else new' = []"
    using 2 by (auto simp: run_ok_def)
  have s1: "macros st1 (Macro x) = macros st (Macro x)" and
    s2: "macros st2 (Macro x) = macros st1 (Macro x)" for x
    using 1 2 by (auto simp: run_ok_def)
  have le: "lo \<le> mid" "mid \<le> hi" "macros st1 \<subseteq>\<^sub>m macros st2" "macros st \<subseteq>\<^sub>m macros st1"
    using 1 2 by (auto simp: run_ok_def)
  have w1: "word_size_known (macros st1)" using w s1 by (simp add: word_size_known_def)
  have em: "emits (macros st1) = emits (macros st)" by (simp add: emits_def s1)
  have md: "made (macros st2) = made (macros st1)"
    using sc_stable [OF w1 s2] by (auto simp: made_def)
  have "sorted_wrt (<) (map (fst \<circ> snd) (new @ new'))"
    using n(2,3) n'(2,3) le(1,2) by (fastforce simp: sorted_wrt_append)
  moreover have "\<forall>e\<in>set (new @ new'). lo \<le> fst (snd e) \<and> fst (snd e) < hi
      \<and> entry_ok (macros st2) (cs @ cs') e"
    using n(3) n'(3) le(1,2) entry_ok_mono [OF _ le(3) w1 s2, of cs _ "cs @ cs'"]
      entry_ok_mono [of "macros st2" cs' _ "macros st2" "cs @ cs'"] w1 s2
    by (fastforce simp: word_size_known_def)
  moreover have "if emits (macros st) then made (macros st2) ` set (ps @ ps') \<subseteq> set (new @ new')
      else new @ new' = []"
    using n(4) n'(4) by (auto simp: em md split: if_splits)
  moreover have "macros st \<subseteq>\<^sub>m macros st2" using le(3,4) by (rule map_le_trans [rotated])
  ultimately show ?thesis
    using 1 2 n(1) n'(1) by (auto simp: run_ok_def s1 s2 intro!: exI [of _ "new @ new'"])
qed

lemma run_ok_weaken:
  assumes "run_ok lo mid xs cs ps st st'" "mid \<le> hi" "set xs \<subseteq> set ys" "set cs \<subseteq> set ds"
    and w: "word_size_known (macros st)"
  shows "run_ok lo hi ys ds [] st st'"
proof -
  have s: "macros st' (Macro x) = macros st (Macro x)" for x
    using assms(1) by (auto simp: run_ok_def)
  have w': "word_size_known (macros st')" using w s by (simp add: word_size_known_def)
  have "entry_ok (macros st') ds e" if "entry_ok (macros st') cs e" for e
    using entry_ok_mono [OF that _ w' refl assms(4)] by simp
  then show ?thesis
    using assms(1-3) by (fastforce simp: run_ok_def split: if_splits)
qed

lemma run_define_ok:
  assumes "macros st x = None" "is_nr x"
  shows "\<exists>st'. run_line (Define x b) st = Some st' \<and> run_ok lo lo [x] [] [] st st'
           \<and> macros st' x = Some b \<and> entries st' = entries st"
  using assms by (cases x) (auto simp: run_define_def run_ok_def map_le_def)

lemma run_pair_ok:
  assumes "macros st x = None" "is_nr x" "call_nr c = x" "lo \<le> n" "word_size_known (macros st)"
  shows "\<exists>st'. run_lines (Define x (Num n) # Entry c # ls) st = run_lines ls st'
           \<and> run_ok lo (Suc n) [x] [(n, c)] [(n, c)] st st'"
proof -
  obtain s1 where s1: "run_line (Define x (Num n)) st = Some s1" "run_ok lo lo [x] [] [] st s1"
    "macros s1 x = Some (Num n)" "entries s1 = entries st"
    using run_define_ok [OF assms(1,2)] by blast
  have em: "emits (macros s1) = emits (macros st)" using s1(2) by (auto simp: run_ok_def emits_def)
  show ?thesis
  proof (cases "emits (macros s1)")
    case True
    let ?s2 = "s1\<lparr>entries := entries s1 @ [(x, n, call_handler (macros s1) c)]\<rparr>"
    have "run_entry c s1 = Some ?s2"
      using True s1(3) assms(3) by (simp add: run_entry_def emits_def mac_value_def)
    moreover have "run_ok lo (Suc n) [x] [(n, c)] [(n, c)] st ?s2"
      using s1 True em assms(2-4)
      by (auto simp: run_ok_def entry_ok_def made_def)
    ultimately show ?thesis using s1(1) by auto
  next
    case False
    then have "run_entry c s1 = Some s1" by (simp add: run_entry_def emits_def)
    moreover have "run_ok lo (Suc n) [x] [(n, c)] [(n, c)] st s1"
      using s1 False em assms(4) by (auto simp: run_ok_def)
    ultimately show ?thesis using s1(1) by auto
  qed
qed

lemma run_ok_keeps:
  assumes "run_ok lo hi xs cs ps st st'" "word_size_known (macros st)"
    "\<forall>x\<in>set ys. macros st x = None" "set xs \<inter> set ys = {}"
  shows "word_size_known (macros st')" "\<forall>x\<in>set ys. macros st' x = None"
  using assms by (auto simp: run_ok_def word_size_known_def)

definition ready :: "pp_line list \<Rightarrow> pp_state \<Rightarrow> bool" where
  "ready ls st \<longleftrightarrow> distinct (defined_macs ls) \<and> list_all is_nr (defined_macs ls) \<and>
     (\<forall>x\<in>set (defined_macs ls). macros st x = None) \<and> word_size_known (macros st)"

definition sound :: "nat \<Rightarrow> nat \<Rightarrow> pp_line list \<Rightarrow> pp_state \<Rightarrow> bool" where
  "sound lo hi ls st \<longleftrightarrow> (\<exists>st'. run_lines ls st = Some st' \<and>
     run_ok lo hi (defined_macs ls) (calls ls) (plain_calls ls) st st')"

text \<open>One step, whatever it is, followed by a list that is sound.\<close>

lemma sound_step:
  assumes "run_lines (l @ ls) st = run_lines ls st1" "run_ok lo mid xs cs ps st st1"
    "word_size_known (macros st)" "sound mid hi ls st1"
    "defined_macs (l @ ls) = xs @ defined_macs ls" "calls (l @ ls) = cs @ calls ls"
    "plain_calls (l @ ls) = ps @ plain_calls ls"
  shows "sound lo hi (l @ ls) st"
  using assms run_ok_trans [OF assms(2) _ assms(3)] unfolding sound_def by metis

lemma sound_define:
  assumes IH: "\<And>st. ready ls st \<Longrightarrow> sound lo hi ls st" and r: "ready (Define x b # ls) st"
    and d: "calls (Define x b # ls) = calls ls" "plain_calls (Define x b # ls) = plain_calls ls"
  shows "sound lo hi (Define x b # ls) st"
proof -
  have x: "macros st x = None" "is_nr x" "word_size_known (macros st)"
    using r by (auto simp: ready_def)
  obtain s1 where s1: "run_line (Define x b) st = Some s1" "run_ok lo lo [x] [] [] st s1"
    using run_define_ok [OF x(1,2)] by blast
  have "ready ls s1"
    using r run_ok_keeps [OF s1(2) x(3), of "defined_macs ls"] by (auto simp: ready_def)
  then show ?thesis
    using sound_step [of "[Define x b]" ls st s1] IH s1 x(3) d by simp
qed

lemma sound_pair:
  assumes IH: "\<And>st. ready ls st \<Longrightarrow> sound (Suc n) hi ls st"
    and r: "ready (Define x (Num n) # Entry c # ls) st" and c: "call_nr c = x" "lo \<le> n"
  shows "sound lo hi (Define x (Num n) # Entry c # ls) st"
proof -
  have x: "macros st x = None" "is_nr x" "word_size_known (macros st)"
    using r by (auto simp: ready_def)
  obtain s1 where s1: "run_lines (Define x (Num n) # Entry c # ls) st = run_lines ls s1"
    "run_ok lo (Suc n) [x] [(n, c)] [(n, c)] st s1"
    using run_pair_ok [OF x(1,2) c x(3)] by blast
  have "ready ls s1"
    using r run_ok_keeps [OF s1(2) x(3), of "defined_macs ls"] by (auto simp: ready_def)
  then show ?thesis
    using sound_step [of "[Define x (Num n), Entry c]" ls st s1] IH s1 x(3) by simp
qed

lemma sound_cond:
  assumes IH: "\<And>st. ready ls st \<Longrightarrow> sound (max i j) hi ls st"
    and ts: "\<And>st. ready ts st \<Longrightarrow> sound lo i ts st" and es: "\<And>st. ready es st \<Longrightarrow> sound lo j es st"
    and r: "ready (Cond c ts es # ls) st"
  shows "sound lo hi (Cond c ts es # ls) st"
proof -
  let ?bs = "if pp_true (macros st) c then ts else es"
  let ?xs = "defined_macs ts @ defined_macs es" and ?cs = "calls ts @ calls es"
  have w: "word_size_known (macros st)" and f: "\<forall>x\<in>set (defined_macs ls). macros st x = None"
    and d: "set ?xs \<inter> set (defined_macs ls) = {}"
    using r by (auto simp: ready_def)
  have "ready ts st" "ready es st" using r by (auto simp: ready_def)
  then have "sound lo (if pp_true (macros st) c then i else j) ?bs st"
    using ts [of st] es [of st] by simp
  then obtain s1 where s1: "run_lines ?bs st = Some s1"
    "run_ok lo (if pp_true (macros st) c then i else j) (defined_macs ?bs) (calls ?bs)
       (plain_calls ?bs) st s1"
    unfolding sound_def by blast
  have ok: "run_ok lo (max i j) ?xs ?cs [] st s1"
    by (rule run_ok_weaken [OF s1(2) _ _ _ w]) (simp_all add: le_supI1)
  have "ready ls s1"
    using r run_ok_keeps [OF ok w f d] by (simp add: ready_def)
  moreover have "run_lines ([Cond c ts es] @ ls) st = run_lines ls s1"
    using s1(1) by (simp split: if_splits)
  ultimately show ?thesis
    using sound_step [of "[Cond c ts es]" ls st s1 lo "max i j" ?xs ?cs "[]" hi] ok w IH [of s1]
    by simp
qed

theorem ascending_sound:
  "ascending lo ls = Some hi \<Longrightarrow> ready ls st \<Longrightarrow> sound lo hi ls st"
proof (induction lo ls arbitrary: hi st rule: ascending.induct)
  case (1 lo)
  then show ?case by (auto simp: sound_def run_ok_refl)
next
  case (2 lo x n c ls)
  then show ?case by (auto intro!: sound_pair split: if_splits)
next
  case (4 lo c ts es ls)
  obtain i j where ij: "ascending lo ts = Some i" "ascending lo es = Some j"
    "ascending (max i j) ls = Some hi"
    using "4.prems"(1) by (auto split: option.splits)
  show ?case
  proof (rule sound_cond [OF _ _ _ "4.prems"(2)])
    show "sound (max i j) hi ls st" if "ready ls st" for st
      using "4.IH"(3) [OF refl ij(1,2)] ij(3) that by simp
    show "sound lo i ts st" if "ready ts st" for st using "4.IH"(1) ij(1) that by simp
    show "sound lo j es st" if "ready es st" for st using "4.IH"(2) ij(2) that by simp
  qed
qed (auto intro: sound_define)

text \<open>A definition outside every \<open>#if\<close> is in force at the end, as long as nothing is undefined.\<close>

fun no_undef :: "pp_line list \<Rightarrow> bool" where
  "no_undef [] = True"
| "no_undef (Undef x # ls) = False"
| "no_undef (Cond c ts es # ls) = (no_undef ts \<and> no_undef es \<and> no_undef ls)"
| "no_undef (l # ls) = no_undef ls"

fun top_defs :: "pp_line list \<Rightarrow> (mac \<times> pp_body) list" where
  "top_defs [] = []"
| "top_defs (Define x b # ls) = (x, b) # top_defs ls"
| "top_defs (l # ls) = top_defs ls"

lemma no_undef_Cons: "no_undef (l # ls) \<longleftrightarrow> no_undef [l] \<and> no_undef ls"
  by (cases l) auto

lemma no_undef_append: "no_undef (xs @ ys) \<longleftrightarrow> no_undef xs \<and> no_undef ys"
  by (induction xs rule: no_undef.induct) auto

lemma ascending_no_undef: "ascending lo ls = Some hi \<Longrightarrow> no_undef ls"
  by (induction lo ls arbitrary: hi rule: ascending.induct) (auto split: if_splits option.splits)

lemma run_keeps_macros:
  "run_line l st = Some st' \<Longrightarrow> no_undef [l] \<Longrightarrow> macros st \<subseteq>\<^sub>m macros st'"
  "run_lines ls st = Some st' \<Longrightarrow> no_undef ls \<Longrightarrow> macros st \<subseteq>\<^sub>m macros st'"
proof (induction l st and ls st arbitrary: st' and st' rule: run_line_run_lines.induct)
  case (1 x b st)
  then show ?case by (auto simp: run_define_def map_le_def split: if_splits)
next
  case (3 c st)
  then show ?case by (auto simp: run_entry_def split: if_splits option.splits)
next
  case (6 l ls st)
  then show ?case
    using no_undef_Cons [of l ls] by (auto split: option.splits intro: map_le_trans)
qed (auto split: if_splits)

lemma top_defs_run:
  "run_lines ls st = Some st' \<Longrightarrow> no_undef ls \<Longrightarrow> (x, b) \<in> set (top_defs ls) \<Longrightarrow>
   macros st' x = Some b"
proof (induction ls arbitrary: st)
  case (Cons l ls)
  obtain s1 where s1: "run_line l st = Some s1" "run_lines ls s1 = Some st'"
    using Cons.prems(1) by (auto split: option.splits)
  have ls: "no_undef ls" using Cons.prems(2) no_undef_Cons by blast
  show ?case
  proof (cases "(x, b) \<in> set (top_defs ls)")
    case True
    then show ?thesis using Cons.IH [OF s1(2) ls] by simp
  next
    case False
    then have "l = Define x b" using Cons.prems(3) by (cases l) auto
    then have "macros s1 x = Some b" using s1(1) by (auto simp: run_define_def split: if_splits)
    then show ?thesis using run_keeps_macros(2) [OF s1(2) ls] by (auto simp: map_le_def dom_def)
  qed
qed simp

section \<open>Joining chunks\<close>

text \<open>The check and the lists of calls go through chunk by chunk, as long as a chunk does not
  start with an entry.\<close>

fun starts_entry :: "pp_line list \<Rightarrow> bool" where
  "starts_entry (Entry c # ls) = True"
| "starts_entry _ = False"

lemma defined_macs_append: "defined_macs (xs @ ys) = defined_macs xs @ defined_macs ys"
  by (induction xs rule: defined_macs.induct) simp_all

lemma skip_define:
  assumes "\<not> starts_entry ys"
  shows "ascending lo (Define x b # ys) = ascending lo ys" "calls (Define x b # ys) = calls ys"
    "plain_calls (Define x b # ys) = plain_calls ys"
  using assms by (cases b; cases ys rule: starts_entry.cases; simp)+

lemma ascending_append:
  "ascending lo xs = Some mid \<Longrightarrow> \<not> starts_entry ys \<Longrightarrow> ascending lo (xs @ ys) = ascending mid ys"
  by (induction lo xs rule: ascending.induct)
    (auto simp: skip_define split: if_splits option.splits)

lemma calls_append:
  "\<not> starts_entry ys \<Longrightarrow> calls (xs @ ys) = calls xs @ calls ys"
  by (induction xs rule: calls.induct) (simp_all add: skip_define)

lemma plain_calls_append:
  "\<not> starts_entry ys \<Longrightarrow> plain_calls (xs @ ys) = plain_calls xs @ plain_calls ys"
  by (induction xs rule: plain_calls.induct) (simp_all add: skip_define)

section \<open>Different names\<close>

text \<open>A number for each macro name, so that a list of several hundred names is shown to have no
  repetition by comparing numbers.\<close>

fun char_code :: "char \<Rightarrow> nat" where
  "char_code (Char a b c d e f g h) = of_bool a + 2 * of_bool b + 4 * of_bool c + 8 * of_bool d +
     16 * of_bool e + 32 * of_bool f + 64 * of_bool g + 128 * of_bool h"

fun str_code :: "nat \<Rightarrow> string \<Rightarrow> nat" where
  "str_code n [] = n"
| "str_code n (c # s) = str_code (n * 256 + char_code c) s"

fun mac_code :: "mac \<Rightarrow> nat" where
  "mac_code (NR s) = str_code 1 s"
| "mac_code (NR3264 s) = str_code 2 s"
| "mac_code (Macro s) = str_code 3 s"

lemma char_code_of_char: "char_code c = of_char c"
  by (cases c) (simp add: of_char_def horner_sum_simps)

lemma char_code_less: "char_code c < 256"
  by (simp add: char_code_of_char nat_of_char_less_256)

lemma char_code_inj: "char_code c = char_code d \<Longrightarrow> c = d"
  by (simp add: char_code_of_char)

lemma str_code_snoc: "str_code n (s @ [c]) = str_code n s * 256 + char_code c"
  by (induction s arbitrary: n) simp_all

lemma digit_unique:
  fixes i j :: nat
  assumes "c < 256" "d < 256" "i * 256 + c = j * 256 + d"
  shows "i = j \<and> c = d"
proof -
  have "i = (i * 256 + c) div 256" "j = (j * 256 + d) div 256" using assms(1,2) by simp_all
  then have "i = j" using assms(3) by simp
  then show ?thesis using assms(3) by simp
qed

lemma str_code_ge: "n \<le> str_code n s"
proof (induction s arbitrary: n)
  case (Cons c s)
  have "n \<le> n * 256 + char_code c" by simp
  then show ?case using Cons [of "n * 256 + char_code c"] by simp
qed simp

lemma str_code_inj: "str_code 1 s = str_code 1 t \<Longrightarrow> s = t"
proof (induction s arbitrary: t rule: rev_induct)
  case Nil
  then show ?case
  proof (cases t rule: rev_cases)
    case (snoc t' c)
    have "1 \<le> str_code 1 t'" by (rule str_code_ge)
    then show ?thesis using Nil snoc by (simp add: str_code_snoc)
  qed simp
next
  case (snoc c s)
  show ?case
  proof (cases t rule: rev_cases)
    case Nil
    have "1 \<le> str_code 1 s" by (rule str_code_ge)
    then show ?thesis using snoc.prems Nil by (simp add: str_code_snoc)
  next
    case t: (snoc t' d)
    have "str_code 1 s * 256 + char_code c = str_code 1 t' * 256 + char_code d"
      using snoc.prems t by (simp add: str_code_snoc)
    then have "str_code 1 s = str_code 1 t' \<and> char_code c = char_code d"
      using digit_unique [OF char_code_less char_code_less] by blast
    then show ?thesis using snoc.IH char_code_inj t by blast
  qed
qed

end
