(* ===== verification/Unistd_Data.thy ===== *)
theory Unistd_Data
  imports Unistd_Cpp
begin

text \<open>
  The system-call table of \<open>src/Semaphore and Synchronization/unistd.h\<close>, directive by directive in
  the order of the file.  The chunks follow its sections; \<open>unistd_new_sem\<close> holds the two calls the
  semaphore project adds and \<open>unistd_new_msg\<close> the two calls of the message project, whose copy of
  the header (\<open>src/Syscall Implementation/unistd.h\<close>) is the same in every other line.
\<close>

section \<open>The conditions of the header\<close>

definition time32 :: pp_cond where
  "time32 = Either (Defined (Macro ''__ARCH_WANT_TIME32_SYSCALLS''))
     (Negated (Equals (Macro ''__BITS_PER_LONG'') 32))"

definition want_stat :: pp_cond where
  "want_stat = Either (Defined (Macro ''__ARCH_WANT_NEW_STAT''))
     (Defined (Macro ''__ARCH_WANT_STAT64''))"

definition wide :: pp_cond where
  "wide = Both (Equals (Macro ''__BITS_PER_LONG'') 64)
     (Negated (Defined (Macro ''__SYSCALL_COMPAT'')))"

section \<open>The entries\<close>

text \<open>Without a \<open>__SYSCALL\<close> of the including file the entries expand to nothing.\<close>

definition unistd_guard :: "pp_line list" where
  "unistd_guard =
     [Cond (Negated (Defined (Macro ''__SYSCALL''))) [Define (Macro ''__SYSCALL'') Blank] []]"

definition unistd_fs1 :: "pp_line list" where
  "unistd_fs1 = [
   Define (NR ''io_setup'') (Num 0),
   Entry (SC_COMP (NR ''io_setup'') (Sys ''io_setup'') (Compat ''io_setup'')),
   Define (NR ''io_destroy'') (Num 1),
   Entry (SYSCALL (NR ''io_destroy'') (Sys ''io_destroy'')),
   Define (NR ''io_submit'') (Num 2),
   Entry (SC_COMP (NR ''io_submit'') (Sys ''io_submit'') (Compat ''io_submit'')),
   Define (NR ''io_cancel'') (Num 3),
   Entry (SYSCALL (NR ''io_cancel'') (Sys ''io_cancel'')),
   Cond time32
    [Define (NR ''io_getevents'') (Num 4),
     Entry (SC_3264 (NR ''io_getevents'') (Sys ''io_getevents_time32'') (Sys ''io_getevents''))]
    [],
   Define (NR ''setxattr'') (Num 5),
   Entry (SYSCALL (NR ''setxattr'') (Sys ''setxattr'')),
   Define (NR ''lsetxattr'') (Num 6),
   Entry (SYSCALL (NR ''lsetxattr'') (Sys ''lsetxattr'')),
   Define (NR ''fsetxattr'') (Num 7),
   Entry (SYSCALL (NR ''fsetxattr'') (Sys ''fsetxattr'')),
   Define (NR ''getxattr'') (Num 8),
   Entry (SYSCALL (NR ''getxattr'') (Sys ''getxattr'')),
   Define (NR ''lgetxattr'') (Num 9),
   Entry (SYSCALL (NR ''lgetxattr'') (Sys ''lgetxattr'')),
   Define (NR ''fgetxattr'') (Num 10),
   Entry (SYSCALL (NR ''fgetxattr'') (Sys ''fgetxattr'')),
   Define (NR ''listxattr'') (Num 11),
   Entry (SYSCALL (NR ''listxattr'') (Sys ''listxattr'')),
   Define (NR ''llistxattr'') (Num 12),
   Entry (SYSCALL (NR ''llistxattr'') (Sys ''llistxattr'')),
   Define (NR ''flistxattr'') (Num 13),
   Entry (SYSCALL (NR ''flistxattr'') (Sys ''flistxattr'')),
   Define (NR ''removexattr'') (Num 14),
   Entry (SYSCALL (NR ''removexattr'') (Sys ''removexattr'')),
   Define (NR ''lremovexattr'') (Num 15),
   Entry (SYSCALL (NR ''lremovexattr'') (Sys ''lremovexattr'')),
   Define (NR ''fremovexattr'') (Num 16),
   Entry (SYSCALL (NR ''fremovexattr'') (Sys ''fremovexattr'')),
   Define (NR ''getcwd'') (Num 17),
   Entry (SYSCALL (NR ''getcwd'') (Sys ''getcwd'')),
   Define (NR ''lookup_dcookie'') (Num 18),
   Entry (SC_COMP (NR ''lookup_dcookie'') (Sys ''lookup_dcookie'') (Compat ''lookup_dcookie'')),
   Define (NR ''eventfd2'') (Num 19),
   Entry (SYSCALL (NR ''eventfd2'') (Sys ''eventfd2'')),
   Define (NR ''epoll_create1'') (Num 20),
   Entry (SYSCALL (NR ''epoll_create1'') (Sys ''epoll_create1'')),
   Define (NR ''epoll_ctl'') (Num 21),
   Entry (SYSCALL (NR ''epoll_ctl'') (Sys ''epoll_ctl'')),
   Define (NR ''epoll_pwait'') (Num 22),
   Entry (SC_COMP (NR ''epoll_pwait'') (Sys ''epoll_pwait'') (Compat ''epoll_pwait'')),
   Define (NR ''dup'') (Num 23),
   Entry (SYSCALL (NR ''dup'') (Sys ''dup'')),
   Define (NR ''dup3'') (Num 24),
   Entry (SYSCALL (NR ''dup3'') (Sys ''dup3'')),
   Define (NR3264 ''fcntl'') (Num 25),
   Entry (SC_COMP_3264 (NR3264 ''fcntl'') (Sys ''fcntl64'') (Sys ''fcntl'') (Compat ''fcntl64'')),
   Define (NR ''inotify_init1'') (Num 26),
   Entry (SYSCALL (NR ''inotify_init1'') (Sys ''inotify_init1'')),
   Define (NR ''inotify_add_watch'') (Num 27),
   Entry (SYSCALL (NR ''inotify_add_watch'') (Sys ''inotify_add_watch'')),
   Define (NR ''inotify_rm_watch'') (Num 28),
   Entry (SYSCALL (NR ''inotify_rm_watch'') (Sys ''inotify_rm_watch'')),
   Define (NR ''ioctl'') (Num 29),
   Entry (SC_COMP (NR ''ioctl'') (Sys ''ioctl'') (Compat ''ioctl'')),
   Define (NR ''ioprio_set'') (Num 30),
   Entry (SYSCALL (NR ''ioprio_set'') (Sys ''ioprio_set'')),
   Define (NR ''ioprio_get'') (Num 31),
   Entry (SYSCALL (NR ''ioprio_get'') (Sys ''ioprio_get'')),
   Define (NR ''flock'') (Num 32),
   Entry (SYSCALL (NR ''flock'') (Sys ''flock'')),
   Define (NR ''mknodat'') (Num 33),
   Entry (SYSCALL (NR ''mknodat'') (Sys ''mknodat'')),
   Define (NR ''mkdirat'') (Num 34),
   Entry (SYSCALL (NR ''mkdirat'') (Sys ''mkdirat'')),
   Define (NR ''unlinkat'') (Num 35),
   Entry (SYSCALL (NR ''unlinkat'') (Sys ''unlinkat'')),
   Define (NR ''symlinkat'') (Num 36),
   Entry (SYSCALL (NR ''symlinkat'') (Sys ''symlinkat'')),
   Define (NR ''linkat'') (Num 37),
   Entry (SYSCALL (NR ''linkat'') (Sys ''linkat'')),
   Cond (Defined (Macro ''__ARCH_WANT_RENAMEAT''))
    [Define (NR ''renameat'') (Num 38),
     Entry (SYSCALL (NR ''renameat'') (Sys ''renameat''))]
    [],
   Define (NR ''umount2'') (Num 39),
   Entry (SYSCALL (NR ''umount2'') (Sys ''umount'')),
   Define (NR ''mount'') (Num 40),
   Entry (SYSCALL (NR ''mount'') (Sys ''mount'')),
   Define (NR ''pivot_root'') (Num 41),
   Entry (SYSCALL (NR ''pivot_root'') (Sys ''pivot_root'')),
   Define (NR ''nfsservctl'') (Num 42),
   Entry (SYSCALL (NR ''nfsservctl'') (Sys ''ni_syscall'')),
   Define (NR3264 ''statfs'') (Num 43),
   Entry (SC_COMP_3264 (NR3264 ''statfs'')
       (Sys ''statfs64'') (Sys ''statfs'') (Compat ''statfs64'')),
   Define (NR3264 ''fstatfs'') (Num 44),
   Entry (SC_COMP_3264 (NR3264 ''fstatfs'')
       (Sys ''fstatfs64'') (Sys ''fstatfs'') (Compat ''fstatfs64'')),
   Define (NR3264 ''truncate'') (Num 45),
   Entry (SC_COMP_3264 (NR3264 ''truncate'')
       (Sys ''truncate64'') (Sys ''truncate'') (Compat ''truncate64'')),
   Define (NR3264 ''ftruncate'') (Num 46),
   Entry (SC_COMP_3264 (NR3264 ''ftruncate'')
       (Sys ''ftruncate64'') (Sys ''ftruncate'') (Compat ''ftruncate64'')),
   Define (NR ''fallocate'') (Num 47),
   Entry (SC_COMP (NR ''fallocate'') (Sys ''fallocate'') (Compat ''fallocate'')),
   Define (NR ''faccessat'') (Num 48),
   Entry (SYSCALL (NR ''faccessat'') (Sys ''faccessat'')),
   Define (NR ''chdir'') (Num 49),
   Entry (SYSCALL (NR ''chdir'') (Sys ''chdir'')),
   Define (NR ''fchdir'') (Num 50),
   Entry (SYSCALL (NR ''fchdir'') (Sys ''fchdir'')),
   Define (NR ''chroot'') (Num 51),
   Entry (SYSCALL (NR ''chroot'') (Sys ''chroot'')),
   Define (NR ''fchmod'') (Num 52),
   Entry (SYSCALL (NR ''fchmod'') (Sys ''fchmod'')),
   Define (NR ''fchmodat'') (Num 53),
   Entry (SYSCALL (NR ''fchmodat'') (Sys ''fchmodat'')),
   Define (NR ''fchownat'') (Num 54),
   Entry (SYSCALL (NR ''fchownat'') (Sys ''fchownat''))]"

definition unistd_fs2 :: "pp_line list" where
  "unistd_fs2 = [
   Define (NR ''fchown'') (Num 55),
   Entry (SYSCALL (NR ''fchown'') (Sys ''fchown'')),
   Define (NR ''openat'') (Num 56),
   Entry (SYSCALL (NR ''openat'') (Sys ''openat'')),
   Define (NR ''close'') (Num 57),
   Entry (SYSCALL (NR ''close'') (Sys ''close'')),
   Define (NR ''vhangup'') (Num 58),
   Entry (SYSCALL (NR ''vhangup'') (Sys ''vhangup'')),
   Define (NR ''pipe2'') (Num 59),
   Entry (SYSCALL (NR ''pipe2'') (Sys ''pipe2'')),
   Define (NR ''quotactl'') (Num 60),
   Entry (SYSCALL (NR ''quotactl'') (Sys ''quotactl'')),
   Define (NR ''getdents64'') (Num 61),
   Entry (SYSCALL (NR ''getdents64'') (Sys ''getdents64'')),
   Define (NR3264 ''lseek'') (Num 62),
   Entry (SC_3264 (NR3264 ''lseek'') (Sys ''llseek'') (Sys ''lseek'')),
   Define (NR ''read'') (Num 63),
   Entry (SYSCALL (NR ''read'') (Sys ''read'')),
   Define (NR ''write'') (Num 64),
   Entry (SYSCALL (NR ''write'') (Sys ''write'')),
   Define (NR ''readv'') (Num 65),
   Entry (SC_COMP (NR ''readv'') (Sys ''readv'') (Sys ''readv'')),
   Define (NR ''writev'') (Num 66),
   Entry (SC_COMP (NR ''writev'') (Sys ''writev'') (Sys ''writev'')),
   Define (NR ''pread64'') (Num 67),
   Entry (SC_COMP (NR ''pread64'') (Sys ''pread64'') (Compat ''pread64'')),
   Define (NR ''pwrite64'') (Num 68),
   Entry (SC_COMP (NR ''pwrite64'') (Sys ''pwrite64'') (Compat ''pwrite64'')),
   Define (NR ''preadv'') (Num 69),
   Entry (SC_COMP (NR ''preadv'') (Sys ''preadv'') (Compat ''preadv'')),
   Define (NR ''pwritev'') (Num 70),
   Entry (SC_COMP (NR ''pwritev'') (Sys ''pwritev'') (Compat ''pwritev'')),
   Define (NR3264 ''sendfile'') (Num 71),
   Entry (SYSCALL (NR3264 ''sendfile'') (Sys ''sendfile64'')),
   Cond time32
    [Define (NR ''pselect6'') (Num 72),
     Entry (SC_COMP_3264 (NR ''pselect6'')
         (Sys ''pselect6_time32'') (Sys ''pselect6'') (Compat ''pselect6_time32'')),
     Define (NR ''ppoll'') (Num 73),
     Entry (SC_COMP_3264 (NR ''ppoll'')
         (Sys ''ppoll_time32'') (Sys ''ppoll'') (Compat ''ppoll_time32''))]
    [],
   Define (NR ''signalfd4'') (Num 74),
   Entry (SC_COMP (NR ''signalfd4'') (Sys ''signalfd4'') (Compat ''signalfd4'')),
   Define (NR ''vmsplice'') (Num 75),
   Entry (SYSCALL (NR ''vmsplice'') (Sys ''vmsplice'')),
   Define (NR ''splice'') (Num 76),
   Entry (SYSCALL (NR ''splice'') (Sys ''splice'')),
   Define (NR ''tee'') (Num 77),
   Entry (SYSCALL (NR ''tee'') (Sys ''tee'')),
   Define (NR ''readlinkat'') (Num 78),
   Entry (SYSCALL (NR ''readlinkat'') (Sys ''readlinkat'')),
   Cond want_stat
    [Define (NR3264 ''fstatat'') (Num 79),
     Entry (SC_3264 (NR3264 ''fstatat'') (Sys ''fstatat64'') (Sys ''newfstatat'')),
     Define (NR3264 ''fstat'') (Num 80),
     Entry (SC_3264 (NR3264 ''fstat'') (Sys ''fstat64'') (Sys ''newfstat''))]
    [],
   Define (NR ''sync'') (Num 81),
   Entry (SYSCALL (NR ''sync'') (Sys ''sync'')),
   Define (NR ''fsync'') (Num 82),
   Entry (SYSCALL (NR ''fsync'') (Sys ''fsync'')),
   Define (NR ''fdatasync'') (Num 83),
   Entry (SYSCALL (NR ''fdatasync'') (Sys ''fdatasync'')),
   Cond (Defined (Macro ''__ARCH_WANT_SYNC_FILE_RANGE2''))
    [Define (NR ''sync_file_range2'') (Num 84),
     Entry (SC_COMP (NR ''sync_file_range2'')
         (Sys ''sync_file_range2'') (Compat ''sync_file_range2''))]
    [Define (NR ''sync_file_range'') (Num 84),
     Entry (SC_COMP (NR ''sync_file_range'')
         (Sys ''sync_file_range'') (Compat ''sync_file_range''))]]"

definition unistd_kernel1 :: "pp_line list" where
  "unistd_kernel1 = [
   Define (NR ''timerfd_create'') (Num 85),
   Entry (SYSCALL (NR ''timerfd_create'') (Sys ''timerfd_create'')),
   Cond time32
    [Define (NR ''timerfd_settime'') (Num 86),
     Entry (SC_3264 (NR ''timerfd_settime'')
         (Sys ''timerfd_settime32'') (Sys ''timerfd_settime'')),
     Define (NR ''timerfd_gettime'') (Num 87),
     Entry (SC_3264 (NR ''timerfd_gettime'')
         (Sys ''timerfd_gettime32'') (Sys ''timerfd_gettime''))]
    [],
   Cond time32
    [Define (NR ''utimensat'') (Num 88),
     Entry (SC_3264 (NR ''utimensat'') (Sys ''utimensat_time32'') (Sys ''utimensat''))]
    [],
   Define (NR ''acct'') (Num 89),
   Entry (SYSCALL (NR ''acct'') (Sys ''acct'')),
   Define (NR ''capget'') (Num 90),
   Entry (SYSCALL (NR ''capget'') (Sys ''capget'')),
   Define (NR ''capset'') (Num 91),
   Entry (SYSCALL (NR ''capset'') (Sys ''capset'')),
   Define (NR ''personality'') (Num 92),
   Entry (SYSCALL (NR ''personality'') (Sys ''personality'')),
   Define (NR ''exit'') (Num 93),
   Entry (SYSCALL (NR ''exit'') (Sys ''exit'')),
   Define (NR ''exit_group'') (Num 94),
   Entry (SYSCALL (NR ''exit_group'') (Sys ''exit_group'')),
   Define (NR ''waitid'') (Num 95),
   Entry (SC_COMP (NR ''waitid'') (Sys ''waitid'') (Compat ''waitid'')),
   Define (NR ''set_tid_address'') (Num 96),
   Entry (SYSCALL (NR ''set_tid_address'') (Sys ''set_tid_address'')),
   Define (NR ''unshare'') (Num 97),
   Entry (SYSCALL (NR ''unshare'') (Sys ''unshare'')),
   Cond time32
    [Define (NR ''futex'') (Num 98),
     Entry (SC_3264 (NR ''futex'') (Sys ''futex_time32'') (Sys ''futex''))]
    [],
   Define (NR ''set_robust_list'') (Num 99),
   Entry (SC_COMP (NR ''set_robust_list'')
       (Sys ''set_robust_list'') (Compat ''set_robust_list'')),
   Define (NR ''get_robust_list'') (Num 100),
   Entry (SC_COMP (NR ''get_robust_list'')
       (Sys ''get_robust_list'') (Compat ''get_robust_list'')),
   Cond time32
    [Define (NR ''nanosleep'') (Num 101),
     Entry (SC_3264 (NR ''nanosleep'') (Sys ''nanosleep_time32'') (Sys ''nanosleep''))]
    [],
   Define (NR ''getitimer'') (Num 102),
   Entry (SC_COMP (NR ''getitimer'') (Sys ''getitimer'') (Compat ''getitimer'')),
   Define (NR ''setitimer'') (Num 103),
   Entry (SC_COMP (NR ''setitimer'') (Sys ''setitimer'') (Compat ''setitimer'')),
   Define (NR ''kexec_load'') (Num 104),
   Entry (SC_COMP (NR ''kexec_load'') (Sys ''kexec_load'') (Compat ''kexec_load'')),
   Define (NR ''init_module'') (Num 105),
   Entry (SYSCALL (NR ''init_module'') (Sys ''init_module'')),
   Define (NR ''delete_module'') (Num 106),
   Entry (SYSCALL (NR ''delete_module'') (Sys ''delete_module'')),
   Define (NR ''timer_create'') (Num 107),
   Entry (SC_COMP (NR ''timer_create'') (Sys ''timer_create'') (Compat ''timer_create'')),
   Cond time32
    [Define (NR ''timer_gettime'') (Num 108),
     Entry (SC_3264 (NR ''timer_gettime'') (Sys ''timer_gettime32'') (Sys ''timer_gettime''))]
    [],
   Define (NR ''timer_getoverrun'') (Num 109),
   Entry (SYSCALL (NR ''timer_getoverrun'') (Sys ''timer_getoverrun'')),
   Cond time32
    [Define (NR ''timer_settime'') (Num 110),
     Entry (SC_3264 (NR ''timer_settime'') (Sys ''timer_settime32'') (Sys ''timer_settime''))]
    [],
   Define (NR ''timer_delete'') (Num 111),
   Entry (SYSCALL (NR ''timer_delete'') (Sys ''timer_delete'')),
   Cond time32
    [Define (NR ''clock_settime'') (Num 112),
     Entry (SC_3264 (NR ''clock_settime'') (Sys ''clock_settime32'') (Sys ''clock_settime'')),
     Define (NR ''clock_gettime'') (Num 113),
     Entry (SC_3264 (NR ''clock_gettime'') (Sys ''clock_gettime32'') (Sys ''clock_gettime'')),
     Define (NR ''clock_getres'') (Num 114),
     Entry (SC_3264 (NR ''clock_getres'') (Sys ''clock_getres_time32'') (Sys ''clock_getres'')),
     Define (NR ''clock_nanosleep'') (Num 115),
     Entry (SC_3264 (NR ''clock_nanosleep'')
         (Sys ''clock_nanosleep_time32'') (Sys ''clock_nanosleep''))]
    [],
   Define (NR ''syslog'') (Num 116),
   Entry (SYSCALL (NR ''syslog'') (Sys ''syslog'')),
   Define (NR ''ptrace'') (Num 117),
   Entry (SYSCALL (NR ''ptrace'') (Sys ''ptrace'')),
   Define (NR ''sched_setparam'') (Num 118),
   Entry (SYSCALL (NR ''sched_setparam'') (Sys ''sched_setparam'')),
   Define (NR ''sched_setscheduler'') (Num 119),
   Entry (SYSCALL (NR ''sched_setscheduler'') (Sys ''sched_setscheduler'')),
   Define (NR ''sched_getscheduler'') (Num 120),
   Entry (SYSCALL (NR ''sched_getscheduler'') (Sys ''sched_getscheduler'')),
   Define (NR ''sched_getparam'') (Num 121),
   Entry (SYSCALL (NR ''sched_getparam'') (Sys ''sched_getparam'')),
   Define (NR ''sched_setaffinity'') (Num 122),
   Entry (SC_COMP (NR ''sched_setaffinity'')
       (Sys ''sched_setaffinity'') (Compat ''sched_setaffinity'')),
   Define (NR ''sched_getaffinity'') (Num 123),
   Entry (SC_COMP (NR ''sched_getaffinity'')
       (Sys ''sched_getaffinity'') (Compat ''sched_getaffinity'')),
   Define (NR ''sched_yield'') (Num 124),
   Entry (SYSCALL (NR ''sched_yield'') (Sys ''sched_yield'')),
   Define (NR ''sched_get_priority_max'') (Num 125),
   Entry (SYSCALL (NR ''sched_get_priority_max'') (Sys ''sched_get_priority_max'')),
   Define (NR ''sched_get_priority_min'') (Num 126),
   Entry (SYSCALL (NR ''sched_get_priority_min'') (Sys ''sched_get_priority_min'')),
   Cond time32
    [Define (NR ''sched_rr_get_interval'') (Num 127),
     Entry (SC_3264 (NR ''sched_rr_get_interval'')
         (Sys ''sched_rr_get_interval_time32'') (Sys ''sched_rr_get_interval''))]
    []]"

definition unistd_kernel2 :: "pp_line list" where
  "unistd_kernel2 = [
   Define (NR ''restart_syscall'') (Num 128),
   Entry (SYSCALL (NR ''restart_syscall'') (Sys ''restart_syscall'')),
   Define (NR ''kill'') (Num 129),
   Entry (SYSCALL (NR ''kill'') (Sys ''kill'')),
   Define (NR ''tkill'') (Num 130),
   Entry (SYSCALL (NR ''tkill'') (Sys ''tkill'')),
   Define (NR ''tgkill'') (Num 131),
   Entry (SYSCALL (NR ''tgkill'') (Sys ''tgkill'')),
   Define (NR ''sigaltstack'') (Num 132),
   Entry (SC_COMP (NR ''sigaltstack'') (Sys ''sigaltstack'') (Compat ''sigaltstack'')),
   Define (NR ''rt_sigsuspend'') (Num 133),
   Entry (SC_COMP (NR ''rt_sigsuspend'') (Sys ''rt_sigsuspend'') (Compat ''rt_sigsuspend'')),
   Define (NR ''rt_sigaction'') (Num 134),
   Entry (SC_COMP (NR ''rt_sigaction'') (Sys ''rt_sigaction'') (Compat ''rt_sigaction'')),
   Define (NR ''rt_sigprocmask'') (Num 135),
   Entry (SC_COMP (NR ''rt_sigprocmask'') (Sys ''rt_sigprocmask'') (Compat ''rt_sigprocmask'')),
   Define (NR ''rt_sigpending'') (Num 136),
   Entry (SC_COMP (NR ''rt_sigpending'') (Sys ''rt_sigpending'') (Compat ''rt_sigpending'')),
   Cond time32
    [Define (NR ''rt_sigtimedwait'') (Num 137),
     Entry (SC_COMP_3264 (NR ''rt_sigtimedwait'')
         (Sys ''rt_sigtimedwait_time32'') (Sys ''rt_sigtimedwait'')
         (Compat ''rt_sigtimedwait_time32''))]
    [],
   Define (NR ''rt_sigqueueinfo'') (Num 138),
   Entry (SC_COMP (NR ''rt_sigqueueinfo'')
       (Sys ''rt_sigqueueinfo'') (Compat ''rt_sigqueueinfo'')),
   Define (NR ''rt_sigreturn'') (Num 139),
   Entry (SC_COMP (NR ''rt_sigreturn'') (Sys ''rt_sigreturn'') (Compat ''rt_sigreturn'')),
   Define (NR ''setpriority'') (Num 140),
   Entry (SYSCALL (NR ''setpriority'') (Sys ''setpriority'')),
   Define (NR ''getpriority'') (Num 141),
   Entry (SYSCALL (NR ''getpriority'') (Sys ''getpriority'')),
   Define (NR ''reboot'') (Num 142),
   Entry (SYSCALL (NR ''reboot'') (Sys ''reboot'')),
   Define (NR ''setregid'') (Num 143),
   Entry (SYSCALL (NR ''setregid'') (Sys ''setregid'')),
   Define (NR ''setgid'') (Num 144),
   Entry (SYSCALL (NR ''setgid'') (Sys ''setgid'')),
   Define (NR ''setreuid'') (Num 145),
   Entry (SYSCALL (NR ''setreuid'') (Sys ''setreuid'')),
   Define (NR ''setuid'') (Num 146),
   Entry (SYSCALL (NR ''setuid'') (Sys ''setuid'')),
   Define (NR ''setresuid'') (Num 147),
   Entry (SYSCALL (NR ''setresuid'') (Sys ''setresuid'')),
   Define (NR ''getresuid'') (Num 148),
   Entry (SYSCALL (NR ''getresuid'') (Sys ''getresuid'')),
   Define (NR ''setresgid'') (Num 149),
   Entry (SYSCALL (NR ''setresgid'') (Sys ''setresgid'')),
   Define (NR ''getresgid'') (Num 150),
   Entry (SYSCALL (NR ''getresgid'') (Sys ''getresgid'')),
   Define (NR ''setfsuid'') (Num 151),
   Entry (SYSCALL (NR ''setfsuid'') (Sys ''setfsuid'')),
   Define (NR ''setfsgid'') (Num 152),
   Entry (SYSCALL (NR ''setfsgid'') (Sys ''setfsgid'')),
   Define (NR ''times'') (Num 153),
   Entry (SC_COMP (NR ''times'') (Sys ''times'') (Compat ''times'')),
   Define (NR ''setpgid'') (Num 154),
   Entry (SYSCALL (NR ''setpgid'') (Sys ''setpgid'')),
   Define (NR ''getpgid'') (Num 155),
   Entry (SYSCALL (NR ''getpgid'') (Sys ''getpgid'')),
   Define (NR ''getsid'') (Num 156),
   Entry (SYSCALL (NR ''getsid'') (Sys ''getsid'')),
   Define (NR ''setsid'') (Num 157),
   Entry (SYSCALL (NR ''setsid'') (Sys ''setsid'')),
   Define (NR ''getgroups'') (Num 158),
   Entry (SYSCALL (NR ''getgroups'') (Sys ''getgroups'')),
   Define (NR ''setgroups'') (Num 159),
   Entry (SYSCALL (NR ''setgroups'') (Sys ''setgroups'')),
   Define (NR ''uname'') (Num 160),
   Entry (SYSCALL (NR ''uname'') (Sys ''newuname'')),
   Define (NR ''sethostname'') (Num 161),
   Entry (SYSCALL (NR ''sethostname'') (Sys ''sethostname'')),
   Define (NR ''setdomainname'') (Num 162),
   Entry (SYSCALL (NR ''setdomainname'') (Sys ''setdomainname'')),
   Cond (Defined (Macro ''__ARCH_WANT_SET_GET_RLIMIT''))
    [Define (NR ''getrlimit'') (Num 163),
     Entry (SC_COMP (NR ''getrlimit'') (Sys ''getrlimit'') (Compat ''getrlimit'')),
     Define (NR ''setrlimit'') (Num 164),
     Entry (SC_COMP (NR ''setrlimit'') (Sys ''setrlimit'') (Compat ''setrlimit''))]
    [],
   Define (NR ''getrusage'') (Num 165),
   Entry (SC_COMP (NR ''getrusage'') (Sys ''getrusage'') (Compat ''getrusage'')),
   Define (NR ''umask'') (Num 166),
   Entry (SYSCALL (NR ''umask'') (Sys ''umask'')),
   Define (NR ''prctl'') (Num 167),
   Entry (SYSCALL (NR ''prctl'') (Sys ''prctl'')),
   Define (NR ''getcpu'') (Num 168),
   Entry (SYSCALL (NR ''getcpu'') (Sys ''getcpu'')),
   Cond time32
    [Define (NR ''gettimeofday'') (Num 169),
     Entry (SC_COMP (NR ''gettimeofday'') (Sys ''gettimeofday'') (Compat ''gettimeofday'')),
     Define (NR ''settimeofday'') (Num 170),
     Entry (SC_COMP (NR ''settimeofday'') (Sys ''settimeofday'') (Compat ''settimeofday'')),
     Define (NR ''adjtimex'') (Num 171),
     Entry (SC_3264 (NR ''adjtimex'') (Sys ''adjtimex_time32'') (Sys ''adjtimex''))]
    [],
   Define (NR ''getpid'') (Num 172),
   Entry (SYSCALL (NR ''getpid'') (Sys ''getpid'')),
   Define (NR ''getppid'') (Num 173),
   Entry (SYSCALL (NR ''getppid'') (Sys ''getppid'')),
   Define (NR ''getuid'') (Num 174),
   Entry (SYSCALL (NR ''getuid'') (Sys ''getuid'')),
   Define (NR ''geteuid'') (Num 175),
   Entry (SYSCALL (NR ''geteuid'') (Sys ''geteuid'')),
   Define (NR ''getgid'') (Num 176),
   Entry (SYSCALL (NR ''getgid'') (Sys ''getgid'')),
   Define (NR ''getegid'') (Num 177),
   Entry (SYSCALL (NR ''getegid'') (Sys ''getegid'')),
   Define (NR ''gettid'') (Num 178),
   Entry (SYSCALL (NR ''gettid'') (Sys ''gettid'')),
   Define (NR ''sysinfo'') (Num 179),
   Entry (SC_COMP (NR ''sysinfo'') (Sys ''sysinfo'') (Compat ''sysinfo'')),
   Define (NR ''mq_open'') (Num 180),
   Entry (SC_COMP (NR ''mq_open'') (Sys ''mq_open'') (Compat ''mq_open'')),
   Define (NR ''mq_unlink'') (Num 181),
   Entry (SYSCALL (NR ''mq_unlink'') (Sys ''mq_unlink'')),
   Cond time32
    [Define (NR ''mq_timedsend'') (Num 182),
     Entry (SC_3264 (NR ''mq_timedsend'') (Sys ''mq_timedsend_time32'') (Sys ''mq_timedsend'')),
     Define (NR ''mq_timedreceive'') (Num 183),
     Entry (SC_3264 (NR ''mq_timedreceive'')
         (Sys ''mq_timedreceive_time32'') (Sys ''mq_timedreceive''))]
    []]"

definition unistd_net :: "pp_line list" where
  "unistd_net = [
   Define (NR ''mq_notify'') (Num 184),
   Entry (SC_COMP (NR ''mq_notify'') (Sys ''mq_notify'') (Compat ''mq_notify'')),
   Define (NR ''mq_getsetattr'') (Num 185),
   Entry (SC_COMP (NR ''mq_getsetattr'') (Sys ''mq_getsetattr'') (Compat ''mq_getsetattr'')),
   Define (NR ''msgget'') (Num 186),
   Entry (SYSCALL (NR ''msgget'') (Sys ''msgget'')),
   Define (NR ''msgctl'') (Num 187),
   Entry (SC_COMP (NR ''msgctl'') (Sys ''msgctl'') (Compat ''msgctl'')),
   Define (NR ''msgrcv'') (Num 188),
   Entry (SC_COMP (NR ''msgrcv'') (Sys ''msgrcv'') (Compat ''msgrcv'')),
   Define (NR ''msgsnd'') (Num 189),
   Entry (SC_COMP (NR ''msgsnd'') (Sys ''msgsnd'') (Compat ''msgsnd'')),
   Define (NR ''semget'') (Num 190),
   Entry (SYSCALL (NR ''semget'') (Sys ''semget'')),
   Define (NR ''semctl'') (Num 191),
   Entry (SC_COMP (NR ''semctl'') (Sys ''semctl'') (Compat ''semctl'')),
   Cond time32
    [Define (NR ''semtimedop'') (Num 192),
     Entry (SC_3264 (NR ''semtimedop'') (Sys ''semtimedop_time32'') (Sys ''semtimedop''))]
    [],
   Define (NR ''semop'') (Num 193),
   Entry (SYSCALL (NR ''semop'') (Sys ''semop'')),
   Define (NR ''shmget'') (Num 194),
   Entry (SYSCALL (NR ''shmget'') (Sys ''shmget'')),
   Define (NR ''shmctl'') (Num 195),
   Entry (SC_COMP (NR ''shmctl'') (Sys ''shmctl'') (Compat ''shmctl'')),
   Define (NR ''shmat'') (Num 196),
   Entry (SC_COMP (NR ''shmat'') (Sys ''shmat'') (Compat ''shmat'')),
   Define (NR ''shmdt'') (Num 197),
   Entry (SYSCALL (NR ''shmdt'') (Sys ''shmdt'')),
   Define (NR ''socket'') (Num 198),
   Entry (SYSCALL (NR ''socket'') (Sys ''socket'')),
   Define (NR ''socketpair'') (Num 199),
   Entry (SYSCALL (NR ''socketpair'') (Sys ''socketpair'')),
   Define (NR ''bind'') (Num 200),
   Entry (SYSCALL (NR ''bind'') (Sys ''bind'')),
   Define (NR ''listen'') (Num 201),
   Entry (SYSCALL (NR ''listen'') (Sys ''listen'')),
   Define (NR ''accept'') (Num 202),
   Entry (SYSCALL (NR ''accept'') (Sys ''accept'')),
   Define (NR ''connect'') (Num 203),
   Entry (SYSCALL (NR ''connect'') (Sys ''connect'')),
   Define (NR ''getsockname'') (Num 204),
   Entry (SYSCALL (NR ''getsockname'') (Sys ''getsockname'')),
   Define (NR ''getpeername'') (Num 205),
   Entry (SYSCALL (NR ''getpeername'') (Sys ''getpeername'')),
   Define (NR ''sendto'') (Num 206),
   Entry (SYSCALL (NR ''sendto'') (Sys ''sendto'')),
   Define (NR ''recvfrom'') (Num 207),
   Entry (SC_COMP (NR ''recvfrom'') (Sys ''recvfrom'') (Compat ''recvfrom'')),
   Define (NR ''setsockopt'') (Num 208),
   Entry (SC_COMP (NR ''setsockopt'') (Sys ''setsockopt'') (Sys ''setsockopt'')),
   Define (NR ''getsockopt'') (Num 209),
   Entry (SC_COMP (NR ''getsockopt'') (Sys ''getsockopt'') (Sys ''getsockopt'')),
   Define (NR ''shutdown'') (Num 210),
   Entry (SYSCALL (NR ''shutdown'') (Sys ''shutdown'')),
   Define (NR ''sendmsg'') (Num 211),
   Entry (SC_COMP (NR ''sendmsg'') (Sys ''sendmsg'') (Compat ''sendmsg'')),
   Define (NR ''recvmsg'') (Num 212),
   Entry (SC_COMP (NR ''recvmsg'') (Sys ''recvmsg'') (Compat ''recvmsg'')),
   Define (NR ''readahead'') (Num 213),
   Entry (SC_COMP (NR ''readahead'') (Sys ''readahead'') (Compat ''readahead'')),
   Define (NR ''brk'') (Num 214),
   Entry (SYSCALL (NR ''brk'') (Sys ''brk'')),
   Define (NR ''munmap'') (Num 215),
   Entry (SYSCALL (NR ''munmap'') (Sys ''munmap'')),
   Define (NR ''mremap'') (Num 216),
   Entry (SYSCALL (NR ''mremap'') (Sys ''mremap'')),
   Define (NR ''add_key'') (Num 217),
   Entry (SYSCALL (NR ''add_key'') (Sys ''add_key'')),
   Define (NR ''request_key'') (Num 218),
   Entry (SYSCALL (NR ''request_key'') (Sys ''request_key'')),
   Define (NR ''keyctl'') (Num 219),
   Entry (SC_COMP (NR ''keyctl'') (Sys ''keyctl'') (Compat ''keyctl'')),
   Define (NR ''clone'') (Num 220),
   Entry (SYSCALL (NR ''clone'') (Sys ''clone'')),
   Define (NR ''execve'') (Num 221),
   Entry (SC_COMP (NR ''execve'') (Sys ''execve'') (Compat ''execve'')),
   Define (NR3264 ''mmap'') (Num 222),
   Entry (SC_3264 (NR3264 ''mmap'') (Sys ''mmap2'') (Sys ''mmap'')),
   Define (NR3264 ''fadvise64'') (Num 223),
   Entry (SC_COMP (NR3264 ''fadvise64'') (Sys ''fadvise64_64'') (Compat ''fadvise64_64'')),
   Cond (Negated (Defined (Macro ''__ARCH_NOMMU'')))
    [Define (NR ''swapon'') (Num 224),
     Entry (SYSCALL (NR ''swapon'') (Sys ''swapon'')),
     Define (NR ''swapoff'') (Num 225),
     Entry (SYSCALL (NR ''swapoff'') (Sys ''swapoff'')),
     Define (NR ''mprotect'') (Num 226),
     Entry (SYSCALL (NR ''mprotect'') (Sys ''mprotect'')),
     Define (NR ''msync'') (Num 227),
     Entry (SYSCALL (NR ''msync'') (Sys ''msync'')),
     Define (NR ''mlock'') (Num 228),
     Entry (SYSCALL (NR ''mlock'') (Sys ''mlock'')),
     Define (NR ''munlock'') (Num 229),
     Entry (SYSCALL (NR ''munlock'') (Sys ''munlock'')),
     Define (NR ''mlockall'') (Num 230),
     Entry (SYSCALL (NR ''mlockall'') (Sys ''mlockall'')),
     Define (NR ''munlockall'') (Num 231),
     Entry (SYSCALL (NR ''munlockall'') (Sys ''munlockall'')),
     Define (NR ''mincore'') (Num 232),
     Entry (SYSCALL (NR ''mincore'') (Sys ''mincore'')),
     Define (NR ''madvise'') (Num 233),
     Entry (SYSCALL (NR ''madvise'') (Sys ''madvise'')),
     Define (NR ''remap_file_pages'') (Num 234),
     Entry (SYSCALL (NR ''remap_file_pages'') (Sys ''remap_file_pages'')),
     Define (NR ''mbind'') (Num 235),
     Entry (SC_COMP (NR ''mbind'') (Sys ''mbind'') (Compat ''mbind'')),
     Define (NR ''get_mempolicy'') (Num 236),
     Entry (SC_COMP (NR ''get_mempolicy'') (Sys ''get_mempolicy'') (Compat ''get_mempolicy'')),
     Define (NR ''set_mempolicy'') (Num 237),
     Entry (SC_COMP (NR ''set_mempolicy'') (Sys ''set_mempolicy'') (Compat ''set_mempolicy'')),
     Define (NR ''migrate_pages'') (Num 238),
     Entry (SC_COMP (NR ''migrate_pages'') (Sys ''migrate_pages'') (Compat ''migrate_pages'')),
     Define (NR ''move_pages'') (Num 239),
     Entry (SC_COMP (NR ''move_pages'') (Sys ''move_pages'') (Compat ''move_pages''))]
    []]"

definition unistd_late1 :: "pp_line list" where
  "unistd_late1 = [
   Define (NR ''rt_tgsigqueueinfo'') (Num 240),
   Entry (SC_COMP (NR ''rt_tgsigqueueinfo'')
       (Sys ''rt_tgsigqueueinfo'') (Compat ''rt_tgsigqueueinfo'')),
   Define (NR ''perf_event_open'') (Num 241),
   Entry (SYSCALL (NR ''perf_event_open'') (Sys ''perf_event_open'')),
   Define (NR ''accept4'') (Num 242),
   Entry (SYSCALL (NR ''accept4'') (Sys ''accept4'')),
   Cond time32
    [Define (NR ''recvmmsg'') (Num 243),
     Entry (SC_COMP_3264 (NR ''recvmmsg'')
         (Sys ''recvmmsg_time32'') (Sys ''recvmmsg'') (Compat ''recvmmsg_time32''))]
    [],
   Define (NR ''arch_specific_syscall'') (Num 244),
   Cond time32
    [Define (NR ''wait4'') (Num 260),
     Entry (SC_COMP (NR ''wait4'') (Sys ''wait4'') (Compat ''wait4''))]
    [],
   Define (NR ''prlimit64'') (Num 261),
   Entry (SYSCALL (NR ''prlimit64'') (Sys ''prlimit64'')),
   Define (NR ''fanotify_init'') (Num 262),
   Entry (SYSCALL (NR ''fanotify_init'') (Sys ''fanotify_init'')),
   Define (NR ''fanotify_mark'') (Num 263),
   Entry (SYSCALL (NR ''fanotify_mark'') (Sys ''fanotify_mark'')),
   Define (NR ''name_to_handle_at'') (Num 264),
   Entry (SYSCALL (NR ''name_to_handle_at'') (Sys ''name_to_handle_at'')),
   Define (NR ''open_by_handle_at'') (Num 265),
   Entry (SYSCALL (NR ''open_by_handle_at'') (Sys ''open_by_handle_at'')),
   Cond time32
    [Define (NR ''clock_adjtime'') (Num 266),
     Entry (SC_3264 (NR ''clock_adjtime'') (Sys ''clock_adjtime32'') (Sys ''clock_adjtime''))]
    [],
   Define (NR ''syncfs'') (Num 267),
   Entry (SYSCALL (NR ''syncfs'') (Sys ''syncfs'')),
   Define (NR ''setns'') (Num 268),
   Entry (SYSCALL (NR ''setns'') (Sys ''setns'')),
   Define (NR ''sendmmsg'') (Num 269),
   Entry (SC_COMP (NR ''sendmmsg'') (Sys ''sendmmsg'') (Compat ''sendmmsg'')),
   Define (NR ''process_vm_readv'') (Num 270),
   Entry (SYSCALL (NR ''process_vm_readv'') (Sys ''process_vm_readv'')),
   Define (NR ''process_vm_writev'') (Num 271),
   Entry (SYSCALL (NR ''process_vm_writev'') (Sys ''process_vm_writev'')),
   Define (NR ''kcmp'') (Num 272),
   Entry (SYSCALL (NR ''kcmp'') (Sys ''kcmp'')),
   Define (NR ''finit_module'') (Num 273),
   Entry (SYSCALL (NR ''finit_module'') (Sys ''finit_module'')),
   Define (NR ''sched_setattr'') (Num 274),
   Entry (SYSCALL (NR ''sched_setattr'') (Sys ''sched_setattr'')),
   Define (NR ''sched_getattr'') (Num 275),
   Entry (SYSCALL (NR ''sched_getattr'') (Sys ''sched_getattr'')),
   Define (NR ''renameat2'') (Num 276),
   Entry (SYSCALL (NR ''renameat2'') (Sys ''renameat2'')),
   Define (NR ''seccomp'') (Num 277),
   Entry (SYSCALL (NR ''seccomp'') (Sys ''seccomp'')),
   Define (NR ''getrandom'') (Num 278),
   Entry (SYSCALL (NR ''getrandom'') (Sys ''getrandom'')),
   Define (NR ''memfd_create'') (Num 279),
   Entry (SYSCALL (NR ''memfd_create'') (Sys ''memfd_create'')),
   Define (NR ''bpf'') (Num 280),
   Entry (SYSCALL (NR ''bpf'') (Sys ''bpf'')),
   Define (NR ''execveat'') (Num 281),
   Entry (SC_COMP (NR ''execveat'') (Sys ''execveat'') (Compat ''execveat'')),
   Define (NR ''userfaultfd'') (Num 282),
   Entry (SYSCALL (NR ''userfaultfd'') (Sys ''userfaultfd'')),
   Define (NR ''membarrier'') (Num 283),
   Entry (SYSCALL (NR ''membarrier'') (Sys ''membarrier'')),
   Define (NR ''mlock2'') (Num 284),
   Entry (SYSCALL (NR ''mlock2'') (Sys ''mlock2'')),
   Define (NR ''copy_file_range'') (Num 285),
   Entry (SYSCALL (NR ''copy_file_range'') (Sys ''copy_file_range'')),
   Define (NR ''preadv2'') (Num 286),
   Entry (SC_COMP (NR ''preadv2'') (Sys ''preadv2'') (Compat ''preadv2'')),
   Define (NR ''pwritev2'') (Num 287),
   Entry (SC_COMP (NR ''pwritev2'') (Sys ''pwritev2'') (Compat ''pwritev2'')),
   Define (NR ''pkey_mprotect'') (Num 288),
   Entry (SYSCALL (NR ''pkey_mprotect'') (Sys ''pkey_mprotect'')),
   Define (NR ''pkey_alloc'') (Num 289),
   Entry (SYSCALL (NR ''pkey_alloc'') (Sys ''pkey_alloc'')),
   Define (NR ''pkey_free'') (Num 290),
   Entry (SYSCALL (NR ''pkey_free'') (Sys ''pkey_free'')),
   Define (NR ''statx'') (Num 291),
   Entry (SYSCALL (NR ''statx'') (Sys ''statx'')),
   Cond time32
    [Define (NR ''io_pgetevents'') (Num 292),
     Entry (SC_COMP_3264 (NR ''io_pgetevents'')
         (Sys ''io_pgetevents_time32'') (Sys ''io_pgetevents'') (Compat ''io_pgetevents''))]
    [],
   Define (NR ''rseq'') (Num 293),
   Entry (SYSCALL (NR ''rseq'') (Sys ''rseq'')),
   Define (NR ''kexec_file_load'') (Num 294),
   Entry (SYSCALL (NR ''kexec_file_load'') (Sys ''kexec_file_load''))]"

definition unistd_late2 :: "pp_line list" where
  "unistd_late2 = [
   Cond (Equals (Macro ''__BITS_PER_LONG'') 32)
    [Define (NR ''clock_gettime64'') (Num 403),
     Entry (SYSCALL (NR ''clock_gettime64'') (Sys ''clock_gettime'')),
     Define (NR ''clock_settime64'') (Num 404),
     Entry (SYSCALL (NR ''clock_settime64'') (Sys ''clock_settime'')),
     Define (NR ''clock_adjtime64'') (Num 405),
     Entry (SYSCALL (NR ''clock_adjtime64'') (Sys ''clock_adjtime'')),
     Define (NR ''clock_getres_time64'') (Num 406),
     Entry (SYSCALL (NR ''clock_getres_time64'') (Sys ''clock_getres'')),
     Define (NR ''clock_nanosleep_time64'') (Num 407),
     Entry (SYSCALL (NR ''clock_nanosleep_time64'') (Sys ''clock_nanosleep'')),
     Define (NR ''timer_gettime64'') (Num 408),
     Entry (SYSCALL (NR ''timer_gettime64'') (Sys ''timer_gettime'')),
     Define (NR ''timer_settime64'') (Num 409),
     Entry (SYSCALL (NR ''timer_settime64'') (Sys ''timer_settime'')),
     Define (NR ''timerfd_gettime64'') (Num 410),
     Entry (SYSCALL (NR ''timerfd_gettime64'') (Sys ''timerfd_gettime'')),
     Define (NR ''timerfd_settime64'') (Num 411),
     Entry (SYSCALL (NR ''timerfd_settime64'') (Sys ''timerfd_settime'')),
     Define (NR ''utimensat_time64'') (Num 412),
     Entry (SYSCALL (NR ''utimensat_time64'') (Sys ''utimensat'')),
     Define (NR ''pselect6_time64'') (Num 413),
     Entry (SC_COMP (NR ''pselect6_time64'') (Sys ''pselect6'') (Compat ''pselect6_time64'')),
     Define (NR ''ppoll_time64'') (Num 414),
     Entry (SC_COMP (NR ''ppoll_time64'') (Sys ''ppoll'') (Compat ''ppoll_time64'')),
     Define (NR ''io_pgetevents_time64'') (Num 416),
     Entry (SYSCALL (NR ''io_pgetevents_time64'') (Sys ''io_pgetevents'')),
     Define (NR ''recvmmsg_time64'') (Num 417),
     Entry (SC_COMP (NR ''recvmmsg_time64'') (Sys ''recvmmsg'') (Compat ''recvmmsg_time64'')),
     Define (NR ''mq_timedsend_time64'') (Num 418),
     Entry (SYSCALL (NR ''mq_timedsend_time64'') (Sys ''mq_timedsend'')),
     Define (NR ''mq_timedreceive_time64'') (Num 419),
     Entry (SYSCALL (NR ''mq_timedreceive_time64'') (Sys ''mq_timedreceive'')),
     Define (NR ''semtimedop_time64'') (Num 420),
     Entry (SYSCALL (NR ''semtimedop_time64'') (Sys ''semtimedop'')),
     Define (NR ''rt_sigtimedwait_time64'') (Num 421),
     Entry (SC_COMP (NR ''rt_sigtimedwait_time64'')
         (Sys ''rt_sigtimedwait'') (Compat ''rt_sigtimedwait_time64'')),
     Define (NR ''futex_time64'') (Num 422),
     Entry (SYSCALL (NR ''futex_time64'') (Sys ''futex'')),
     Define (NR ''sched_rr_get_interval_time64'') (Num 423),
     Entry (SYSCALL (NR ''sched_rr_get_interval_time64'') (Sys ''sched_rr_get_interval''))]
    [],
   Define (NR ''pidfd_send_signal'') (Num 424),
   Entry (SYSCALL (NR ''pidfd_send_signal'') (Sys ''pidfd_send_signal'')),
   Define (NR ''io_uring_setup'') (Num 425),
   Entry (SYSCALL (NR ''io_uring_setup'') (Sys ''io_uring_setup'')),
   Define (NR ''io_uring_enter'') (Num 426),
   Entry (SYSCALL (NR ''io_uring_enter'') (Sys ''io_uring_enter'')),
   Define (NR ''io_uring_register'') (Num 427),
   Entry (SYSCALL (NR ''io_uring_register'') (Sys ''io_uring_register'')),
   Define (NR ''open_tree'') (Num 428),
   Entry (SYSCALL (NR ''open_tree'') (Sys ''open_tree'')),
   Define (NR ''move_mount'') (Num 429),
   Entry (SYSCALL (NR ''move_mount'') (Sys ''move_mount'')),
   Define (NR ''fsopen'') (Num 430),
   Entry (SYSCALL (NR ''fsopen'') (Sys ''fsopen'')),
   Define (NR ''fsconfig'') (Num 431),
   Entry (SYSCALL (NR ''fsconfig'') (Sys ''fsconfig'')),
   Define (NR ''fsmount'') (Num 432),
   Entry (SYSCALL (NR ''fsmount'') (Sys ''fsmount'')),
   Define (NR ''fspick'') (Num 433),
   Entry (SYSCALL (NR ''fspick'') (Sys ''fspick'')),
   Define (NR ''pidfd_open'') (Num 434),
   Entry (SYSCALL (NR ''pidfd_open'') (Sys ''pidfd_open'')),
   Cond (Defined (Macro ''__ARCH_WANT_SYS_CLONE3''))
    [Define (NR ''clone3'') (Num 435),
     Entry (SYSCALL (NR ''clone3'') (Sys ''clone3''))]
    [],
   Define (NR ''close_range'') (Num 436),
   Entry (SYSCALL (NR ''close_range'') (Sys ''close_range'')),
   Define (NR ''openat2'') (Num 437),
   Entry (SYSCALL (NR ''openat2'') (Sys ''openat2'')),
   Define (NR ''pidfd_getfd'') (Num 438),
   Entry (SYSCALL (NR ''pidfd_getfd'') (Sys ''pidfd_getfd'')),
   Define (NR ''faccessat2'') (Num 439),
   Entry (SYSCALL (NR ''faccessat2'') (Sys ''faccessat2'')),
   Define (NR ''process_madvise'') (Num 440),
   Entry (SYSCALL (NR ''process_madvise'') (Sys ''process_madvise'')),
   Define (NR ''epoll_pwait2'') (Num 441),
   Entry (SC_COMP (NR ''epoll_pwait2'') (Sys ''epoll_pwait2'') (Compat ''epoll_pwait2'')),
   Define (NR ''mount_setattr'') (Num 442),
   Entry (SYSCALL (NR ''mount_setattr'') (Sys ''mount_setattr''))]"

definition unistd_new_sem :: "pp_line list" where
  "unistd_new_sem = [
   Define (NR ''csc452_down'') (Num 443),
   Entry (SYSCALL (NR ''csc452_down'') (Sys ''csc452_down'')),
   Define (NR ''csc452_up'') (Num 444),
   Entry (SYSCALL (NR ''csc452_up'') (Sys ''csc452_up''))]"

definition unistd_new_msg :: "pp_line list" where
  "unistd_new_msg = [
   Define (NR ''csc452_send_msg'') (Num 443),
   Entry (SYSCALL (NR ''csc452_send_msg'') (Sys ''csc452_send_msg'')),
   Define (NR ''csc452_get_msg'') (Num 444),
   Entry (SYSCALL (NR ''csc452_get_msg'') (Sys ''csc452_get_msg''))]"

text \<open>The count of the calls, after the last entry.\<close>

definition unistd_count :: "pp_line list" where
  "unistd_count = [
   Undef (NR ''syscalls''),
   Define (NR ''syscalls'') (Num 445)]"

definition unistd_alias :: "pp_line list" where
  "unistd_alias = [
   Cond wide
    [Define (NR ''fcntl'') (Name (NR3264 ''fcntl'')),
     Define (NR ''statfs'') (Name (NR3264 ''statfs'')),
     Define (NR ''fstatfs'') (Name (NR3264 ''fstatfs'')),
     Define (NR ''truncate'') (Name (NR3264 ''truncate'')),
     Define (NR ''ftruncate'') (Name (NR3264 ''ftruncate'')),
     Define (NR ''lseek'') (Name (NR3264 ''lseek'')),
     Define (NR ''sendfile'') (Name (NR3264 ''sendfile'')),
     Cond want_stat
      [Define (NR ''newfstatat'') (Name (NR3264 ''fstatat'')),
       Define (NR ''fstat'') (Name (NR3264 ''fstat''))]
      [],
     Define (NR ''mmap'') (Name (NR3264 ''mmap'')),
     Define (NR ''fadvise64'') (Name (NR3264 ''fadvise64'')),
     Cond (Defined (NR3264 ''stat''))
      [Define (NR ''stat'') (Name (NR3264 ''stat'')),
       Define (NR ''lstat'') (Name (NR3264 ''lstat''))]
      []]
    [Define (NR ''fcntl64'') (Name (NR3264 ''fcntl'')),
     Define (NR ''statfs64'') (Name (NR3264 ''statfs'')),
     Define (NR ''fstatfs64'') (Name (NR3264 ''fstatfs'')),
     Define (NR ''truncate64'') (Name (NR3264 ''truncate'')),
     Define (NR ''ftruncate64'') (Name (NR3264 ''ftruncate'')),
     Define (NR ''llseek'') (Name (NR3264 ''lseek'')),
     Define (NR ''sendfile64'') (Name (NR3264 ''sendfile'')),
     Cond want_stat
      [Define (NR ''fstatat64'') (Name (NR3264 ''fstatat'')),
       Define (NR ''fstat64'') (Name (NR3264 ''fstat''))]
      [],
     Define (NR ''mmap2'') (Name (NR3264 ''mmap'')),
     Define (NR ''fadvise64_64'') (Name (NR3264 ''fadvise64'')),
     Cond (Defined (NR3264 ''stat''))
      [Define (NR ''stat64'') (Name (NR3264 ''stat'')),
       Define (NR ''lstat64'') (Name (NR3264 ''lstat''))]
      []]]"

section \<open>The header\<close>

definition unistd_body :: "pp_line list \<Rightarrow> pp_line list" where
  "unistd_body new = unistd_fs1 @ unistd_fs2 @ unistd_kernel1 @ unistd_kernel2 @ unistd_net @
     unistd_late1 @ unistd_late2 @ new"

definition unistd_h :: "pp_line list \<Rightarrow> pp_line list" where
  "unistd_h new = unistd_guard @ unistd_body new @ unistd_count @ unistd_alias"

section \<open>The chunks pass the check\<close>

lemmas unistd_stock_defs = unistd_fs1_def unistd_fs2_def unistd_kernel1_def unistd_kernel2_def
  unistd_net_def unistd_late1_def unistd_late2_def
lemmas unistd_new_defs = unistd_new_sem_def unistd_new_msg_def
lemmas unistd_chunk_defs = unistd_stock_defs unistd_new_defs unistd_alias_def

text \<open>The new calls of either project.\<close>

definition is_new :: "pp_line list \<Rightarrow> bool" where
  "is_new new \<longleftrightarrow> new = unistd_new_sem \<or> new = unistd_new_msg"

lemma chunk_bounds:
  "ascending 0 unistd_fs1 = Some 55"
  "ascending 55 unistd_fs2 = Some 85"
  "ascending 85 unistd_kernel1 = Some 128"
  "ascending 128 unistd_kernel2 = Some 184"
  "ascending 184 unistd_net = Some 240"
  "ascending 240 unistd_late1 = Some 295"
  "ascending 295 unistd_late2 = Some 443"
  by (simp_all add: unistd_stock_defs)

lemma new_bounds: "is_new new \<Longrightarrow> ascending 443 new = Some 445"
  by (auto simp: is_new_def unistd_new_defs)

lemma alias_bounds: "ascending 445 unistd_alias = Some 445"
  by (simp add: unistd_alias_def)

lemma chunk_starts:
  "\<not> starts_entry (unistd_fs1 @ ys)"
  "\<not> starts_entry (unistd_fs2 @ ys)"
  "\<not> starts_entry (unistd_kernel1 @ ys)"
  "\<not> starts_entry (unistd_kernel2 @ ys)"
  "\<not> starts_entry (unistd_net @ ys)"
  "\<not> starts_entry (unistd_late1 @ ys)"
  "\<not> starts_entry (unistd_late2 @ ys)"
  by (simp_all add: unistd_stock_defs)

lemma new_starts: "is_new new \<Longrightarrow> \<not> starts_entry new"
  by (auto simp: is_new_def unistd_new_defs)

lemma body_ascending: "is_new new \<Longrightarrow> ascending 0 (unistd_body new) = Some 445"
  unfolding unistd_body_def
  by (simp add: ascending_append [OF chunk_bounds(1)] ascending_append [OF chunk_bounds(2)]
      ascending_append [OF chunk_bounds(3)] ascending_append [OF chunk_bounds(4)]
      ascending_append [OF chunk_bounds(5)] ascending_append [OF chunk_bounds(6)]
      ascending_append [OF chunk_bounds(7)] chunk_starts new_starts new_bounds)

text \<open>No name is defined twice, in any configuration of either header.\<close>

lemma all_names_differ:
  "distinct (defined_macs (unistd_body (unistd_new_sem @ unistd_new_msg)) @ NR ''syscalls'' #
     defined_macs unistd_alias)"
proof -
  have "distinct (map mac_code (defined_macs (unistd_body (unistd_new_sem @ unistd_new_msg)) @
     NR ''syscalls'' # defined_macs unistd_alias))"
    by (simp add: unistd_body_def unistd_chunk_defs)
  then show ?thesis by (simp only: distinct_map)
qed

lemma all_names_nr:
  "list_all is_nr (defined_macs (unistd_body (unistd_new_sem @ unistd_new_msg)))"
  "list_all is_nr (defined_macs unistd_alias)"
  by (simp_all add: unistd_body_def unistd_chunk_defs)

end
