(* ===== verification/Syscall_Table.thy ===== *)
theory Syscall_Table
  imports Unistd_Data
begin

text \<open>
  The system-call table that \<open>unistd.h\<close> describes, for any word size and any set of
  \<open>__ARCH_WANT\<close> and \<open>CONFIG\<close> macros: the header runs without error, its numbers are in order and
  inside the count, the name a program uses stands for the place its function has in the table,
  and the calls the two projects add are reached under 443 and 444.
\<close>

section \<open>Including the header\<close>

definition include_unistd :: "pp_line list \<Rightarrow> macros \<Rightarrow> pp_state option" where
  "include_unistd new env = run_lines (unistd_h new) \<lparr>macros = env, entries = []\<rparr>"

text \<open>Where the header is included: the word size is known and no \<open>__NR\<close> macro exists yet.\<close>

definition clean :: "macros \<Rightarrow> bool" where
  "clean env \<longleftrightarrow> word_size_known env \<and> (\<forall>x. env (NR x) = None \<and> env (NR3264 x) = None)"

text \<open>The table as the including file builds it from the entries, \<open>[nr] = function\<close>.\<close>

definition syscall_table :: "pp_state \<Rightarrow> (nat \<times> handler) list" where
  "syscall_table st = map snd (entries st)"

definition table_at :: "pp_state \<Rightarrow> nat \<Rightarrow> handler option" where
  "table_at st n = map_of (syscall_table st) n"

lemma clean_nr: "clean env \<Longrightarrow> is_nr x \<Longrightarrow> env x = None"
  by (cases x) (auto simp: clean_def)

section \<open>One run of the header\<close>

lemma guard_run:
  assumes "clean env"
  shows "\<exists>env'. run_lines unistd_guard \<lparr>macros = env, entries = []\<rparr>
             = Some \<lparr>macros = env', entries = []\<rparr> \<and> clean env' \<and>
           emits env' = emits env \<and>
           (\<forall>x. x \<noteq> Macro ''__SYSCALL'' \<longrightarrow> env' x = env x)"
proof (cases "env (Macro ''__SYSCALL'')")
  case None
  let ?env' = "env(Macro ''__SYSCALL'' \<mapsto> Blank)"
  have "clean ?env'" using assms by (simp add: clean_def word_size_known_def)
  moreover have "emits ?env' = emits env" using None by (simp add: emits_def)
  ultimately show ?thesis
    using None by (intro exI [of _ ?env']) (simp add: unistd_guard_def run_define_def)
next
  case (Some b)
  then show ?thesis using assms by (intro exI [of _ env]) (simp add: unistd_guard_def)
qed

lemma count_run:
  "run_lines unistd_count st =
     Some (st\<lparr>macros := (macros st)(NR ''syscalls'' \<mapsto> Num 445)\<rparr>)"
  by (simp add: unistd_count_def run_define_def)

lemma distinct_drop_part:
  assumes "distinct ((xs @ ys @ zs) @ ws)" "vs = ys \<or> vs = zs"
  shows "distinct ((xs @ vs) @ ws)"
  using assms by auto

lemma new_names:
  assumes "is_new new"
  shows "set (defined_macs (unistd_body new)) \<subseteq>
     set (defined_macs (unistd_body (unistd_new_sem @ unistd_new_msg)))"
    "distinct (defined_macs (unistd_body new) @ NR ''syscalls'' # defined_macs unistd_alias)"
proof -
  let ?stock = "defined_macs unistd_fs1 @ defined_macs unistd_fs2 @ defined_macs unistd_kernel1 @
    defined_macs unistd_kernel2 @ defined_macs unistd_net @ defined_macs unistd_late1 @
    defined_macs unistd_late2"
  have eq: "defined_macs (unistd_body ls) = ?stock @ defined_macs ls" for ls
    by (simp add: unistd_body_def defined_macs_append)
  have both: "distinct ((?stock @ defined_macs unistd_new_sem @ defined_macs unistd_new_msg) @
      NR ''syscalls'' # defined_macs unistd_alias)"
    using all_names_differ unfolding eq defined_macs_append by simp
  show "set (defined_macs (unistd_body new)) \<subseteq>
      set (defined_macs (unistd_body (unistd_new_sem @ unistd_new_msg)))"
    unfolding eq defined_macs_append using assms unfolding is_new_def by fastforce
  show "distinct (defined_macs (unistd_body new) @ NR ''syscalls'' # defined_macs unistd_alias)"
    unfolding eq by (rule distinct_drop_part [OF both]) (use assms in \<open>auto simp: is_new_def\<close>)
qed

text \<open>The run of the entries, then the count, then the aliases.\<close>

lemma header_runs:
  assumes new: "is_new new" and env: "clean env"
  obtains env' st1 st where
    "include_unistd new env = Some st"
    "run_lines (unistd_body new) \<lparr>macros = env', entries = []\<rparr> = Some st1"
    "run_ok 0 445 (defined_macs (unistd_body new)) (calls (unistd_body new))
       (plain_calls (unistd_body new)) \<lparr>macros = env', entries = []\<rparr> st1"
    "run_lines unistd_alias (st1\<lparr>macros := (macros st1)(NR ''syscalls'' \<mapsto> Num 445)\<rparr>) = Some st"
    "run_ok 445 445 (defined_macs unistd_alias) (calls unistd_alias) (plain_calls unistd_alias)
       (st1\<lparr>macros := (macros st1)(NR ''syscalls'' \<mapsto> Num 445)\<rparr>) st"
    "clean env'" "emits env' = emits env" "\<forall>x. x \<noteq> Macro ''__SYSCALL'' \<longrightarrow> env' x = env x"
proof -
  let ?xs = "defined_macs (unistd_body new)" and ?as = "defined_macs unistd_alias"
  obtain env' where g: "run_lines unistd_guard \<lparr>macros = env, entries = []\<rparr>
      = Some \<lparr>macros = env', entries = []\<rparr>" "clean env'" "emits env' = emits env"
    "\<forall>x. x \<noteq> Macro ''__SYSCALL'' \<longrightarrow> env' x = env x"
    using guard_run [OF env] by blast
  let ?s0 = "\<lparr>macros = env', entries = []\<rparr>"
  have nr: "list_all is_nr ?xs" "list_all is_nr ?as"
    using new_names(1) [OF new] all_names_nr by (auto simp: list_all_iff)
  have w: "word_size_known (macros ?s0)" using g(2) by (simp add: clean_def)
  have free: "\<forall>x\<in>set ?xs. macros ?s0 x = None" "\<forall>x\<in>set ?as. macros ?s0 x = None"
    using nr clean_nr [OF g(2)] by (simp_all add: list_all_iff)
  have d: "distinct ?xs" "distinct ?as" "set ?xs \<inter> set ?as = {}" "NR ''syscalls'' \<notin> set ?as"
    using new_names(2) [OF new] by auto
  have "ready (unistd_body new) ?s0"
    unfolding ready_def using d(1) nr(1) free(1) w by blast
  then obtain st1 where st1: "run_lines (unistd_body new) ?s0 = Some st1"
    "run_ok 0 445 ?xs (calls (unistd_body new)) (plain_calls (unistd_body new)) ?s0 st1"
    using ascending_sound [OF body_ascending [OF new]] by (auto simp: sound_def)
  let ?s2 = "st1\<lparr>macros := (macros st1)(NR ''syscalls'' \<mapsto> Num 445)\<rparr>"
  have k: "word_size_known (macros st1)" "\<forall>x\<in>set ?as. macros st1 x = None"
    by (rule run_ok_keeps [OF st1(2) w free(2) d(3)])+
  have "ready unistd_alias ?s2"
    unfolding ready_def using d(2,4) nr(2) k by (auto simp: word_size_known_def)
  then obtain st where st: "run_lines unistd_alias ?s2 = Some st"
    "run_ok 445 445 ?as (calls unistd_alias) (plain_calls unistd_alias) ?s2 st"
    using ascending_sound [OF alias_bounds] by (auto simp: sound_def)
  have "include_unistd new env = Some st"
    by (simp add: include_unistd_def unistd_h_def run_lines_append g(1) st1(1) count_run st(1))
  then show ?thesis using that st1 st g(2-4) by blast
qed

lemma header_parts:
  assumes "is_new new" "clean env" "include_unistd new env = Some st"
  obtains env' st1 where
    "run_lines (unistd_body new) \<lparr>macros = env', entries = []\<rparr> = Some st1"
    "run_ok 0 445 (defined_macs (unistd_body new)) (calls (unistd_body new))
       (plain_calls (unistd_body new)) \<lparr>macros = env', entries = []\<rparr> st1"
    "run_ok 445 445 (defined_macs unistd_alias) (calls unistd_alias) (plain_calls unistd_alias)
       (st1\<lparr>macros := (macros st1)(NR ''syscalls'' \<mapsto> Num 445)\<rparr>) st"
    "clean env'" "emits env' = emits env" "\<forall>x. x \<noteq> Macro ''__SYSCALL'' \<longrightarrow> env' x = env x"
    "run_lines unistd_alias (st1\<lparr>macros := (macros st1)(NR ''syscalls'' \<mapsto> Num 445)\<rparr>) = Some st"
proof (rule header_runs [OF assms(1,2)])
  fix env' st1 st2
  assume st2: "include_unistd new env = Some st2"
    and r: "run_lines (unistd_body new) \<lparr>macros = env', entries = []\<rparr> = Some st1"
    "run_ok 0 445 (defined_macs (unistd_body new)) (calls (unistd_body new))
       (plain_calls (unistd_body new)) \<lparr>macros = env', entries = []\<rparr> st1"
    "run_lines unistd_alias (st1\<lparr>macros := (macros st1)(NR ''syscalls'' \<mapsto> Num 445)\<rparr>) = Some st2"
    "run_ok 445 445 (defined_macs unistd_alias) (calls unistd_alias) (plain_calls unistd_alias)
       (st1\<lparr>macros := (macros st1)(NR ''syscalls'' \<mapsto> Num 445)\<rparr>) st2"
    "clean env'" "emits env' = emits env" "\<forall>x. x \<noteq> Macro ''__SYSCALL'' \<longrightarrow> env' x = env x"
  have "st2 = st" using assms(3) st2 by simp
  then show thesis using that r by blast
qed

lemma handler_cong:
  assumes "word_size_known ms" "\<forall>x. x \<noteq> Macro ''__SYSCALL'' \<longrightarrow> ms' x = ms x"
  shows "call_handler ms' c = call_handler ms c"
proof -
  have "pp_true ms' narrow = pp_true ms narrow"
    using assms by (auto simp: narrow_def word_size_known_def mac_value_def)
  with assms(2) show ?thesis by (cases c) (simp_all add: sc_3264_def sc_comp_def sc_comp_3264_def)
qed

lemma run_ok_no_calls:
  assumes "run_ok lo hi xs [] ps st st'" shows "entries st' = entries st"
proof -
  obtain es where "entries st' = entries st @ es" "\<forall>e\<in>set es. entry_ok (macros st') [] e"
    using assms by (auto simp: run_ok_def)
  then show ?thesis by (cases es) (auto simp: entry_ok_def)
qed

lemma alias_calls: "calls unistd_alias = []"
  by (simp add: unistd_alias_def)

lemma header_entries:
  assumes new: "is_new new" and env: "clean env" and run: "include_unistd new env = Some st"
  shows "sorted_wrt (<) (map fst (syscall_table st))"
    "(x, n, h) \<in> set (entries st) \<Longrightarrow> n < 445 \<and> macros st x = Some (Num n) \<and>
       (\<exists>c. (n, c) \<in> set (calls (unistd_body new)) \<and> call_nr c = x \<and> h = call_handler env c)"
    "emits env \<Longrightarrow> (n, c) \<in> set (plain_calls (unistd_body new)) \<Longrightarrow>
       (call_nr c, n, call_handler env c) \<in> set (entries st)"
    "\<not> emits env \<Longrightarrow> entries st = []"
    "macros st (NR ''syscalls'') = Some (Num 445)"
    "(x, b) \<in> set (top_defs (unistd_body new)) \<Longrightarrow> macros st x = Some b"
proof -
  obtain env' st1 where b: "run_lines (unistd_body new) \<lparr>macros = env', entries = []\<rparr> = Some st1"
    and r: "run_ok 0 445 (defined_macs (unistd_body new))
      (calls (unistd_body new)) (plain_calls (unistd_body new)) \<lparr>macros = env', entries = []\<rparr> st1"
    "run_ok 445 445 (defined_macs unistd_alias) (calls unistd_alias) (plain_calls unistd_alias)
       (st1\<lparr>macros := (macros st1)(NR ''syscalls'' \<mapsto> Num 445)\<rparr>) st"
    and e: "clean env'" "emits env' = emits env"
    "\<forall>x. x \<noteq> Macro ''__SYSCALL'' \<longrightarrow> env' x = env x"
    by (rule header_parts [OF new env run])
  have st: "entries st = entries st1"
    using run_ok_no_calls [OF r(2) [unfolded alias_calls]] by simp
  have m: "macros st1 \<subseteq>\<^sub>m macros st" "macros st (NR ''syscalls'') = Some (Num 445)"
  proof -
    have "NR ''syscalls'' \<notin> set (defined_macs (unistd_body new))"
      using new_names(2) [OF new] by auto
    then have "macros st1 (NR ''syscalls'') = None"
      using r(1) e(1) by (auto simp: run_ok_def clean_def)
    then show "macros st1 \<subseteq>\<^sub>m macros st" "macros st (NR ''syscalls'') = Some (Num 445)"
      using r(2) by (auto simp: run_ok_def map_le_def dom_def)
  qed
  have s: "macros st1 (Macro x) = env' (Macro x)" for x using r(1) by (auto simp: run_ok_def)
  have h: "call_handler (macros st1) c = call_handler env c" for c
    using sc_stable [of env' "macros st1" c, OF _ s] handler_cong [OF _ e(3)] env e(1)
    by (simp add: clean_def)
  obtain new_es where n: "entries st1 = new_es" "sorted_wrt (<) (map (fst \<circ> snd) new_es)"
    "\<forall>e\<in>set new_es. fst (snd e) < 445 \<and> entry_ok (macros st1) (calls (unistd_body new)) e"
    "if emits env then made (macros st1) ` set (plain_calls (unistd_body new)) \<subseteq> set new_es
     else new_es = []"
    using r(1) e(2) by (auto simp: run_ok_def)
  show "sorted_wrt (<) (map fst (syscall_table st))"
    using n(1,2) by (simp add: syscall_table_def st)
  show "macros st (NR ''syscalls'') = Some (Num 445)" by (rule m(2))
  show "macros st x = Some b" if "(x, b) \<in> set (top_defs (unistd_body new))"
    using top_defs_run [OF b ascending_no_undef [OF body_ascending [OF new]] that] m(1)
    by (auto simp: map_le_def dom_def)
  show "\<not> emits env \<Longrightarrow> entries st = []" using n(1,4) st by simp
  show "emits env \<Longrightarrow> (n, c) \<in> set (plain_calls (unistd_body new)) \<Longrightarrow>
       (call_nr c, n, call_handler env c) \<in> set (entries st)"
    using n(1,4) st by (force simp: made_def h)
  show "n < 445 \<and> macros st x = Some (Num n) \<and>
      (\<exists>c. (n, c) \<in> set (calls (unistd_body new)) \<and> call_nr c = x \<and> h = call_handler env c)"
    if "(x, n, h) \<in> set (entries st)"
    using n(3) that m(1) by (force simp: n(1) st entry_ok_def h map_le_def dom_def)
qed

text \<open>Every entry of the two headers carries a number outside the ranges the header reserves.\<close>

definition reserved :: "nat \<Rightarrow> bool" where
  "reserved n \<longleftrightarrow> 244 \<le> n \<and> n \<le> 259 \<or> 295 \<le> n \<and> n \<le> 402 \<or> n = 415"

lemma no_reserved_number:
  assumes "is_new new" "(n, c) \<in> set (calls (unistd_body new))"
  shows "\<not> reserved n"
proof -
  have "list_all (\<lambda>(n, c). \<not> reserved n) (calls (unistd_body new))"
    using assms(1)
    by (auto simp: is_new_def reserved_def unistd_body_def unistd_stock_defs unistd_new_defs)
  then show ?thesis using assms(2) by (auto simp: list_all_iff)
qed

lemma table_at_entry:
  assumes "is_new new" "clean env" "include_unistd new env = Some st" "(x, n, h) \<in> set (entries st)"
  shows "table_at st n = Some h"
proof -
  have "distinct (map fst (syscall_table st))"
    using header_entries(1) [OF assms(1-3)] by (simp add: strict_sorted_iff)
  moreover have "(n, h) \<in> set (syscall_table st)" using assms(4) by (force simp: syscall_table_def)
  ultimately show ?thesis by (simp add: table_at_def)
qed

lemma plain_call_at:
  assumes "is_new new" "clean env" "include_unistd new env = Some st"
    "(x, Num n) \<in> set (top_defs (unistd_body new))"
    "(n, SYSCALL x h) \<in> set (plain_calls (unistd_body new))"
  shows "mac_value (macros st) x = Some n"
    "table_at st n = (if emits env then Some h else None)"
proof -
  note es = header_entries [OF assms(1-3)]
  show "mac_value (macros st) x = Some n" using es(6) [OF assms(4)] by (simp add: mac_value_def)
  show "table_at st n = (if emits env then Some h else None)"
  proof (cases "emits env")
    case True
    then have "(x, n, h) \<in> set (entries st)" using es(3) [OF _ assms(5)] by simp
    then show ?thesis using table_at_entry [OF assms(1-3)] True by simp
  next
    case False
    then show ?thesis using es(4) by (simp add: table_at_def syscall_table_def)
  qed
qed

lemma top_defs_append: "top_defs (xs @ ys) = top_defs xs @ top_defs ys"
  by (induction xs rule: top_defs.induct) simp_all

lemma new_in_body:
  assumes "is_new new"
  shows "set (plain_calls new) \<subseteq> set (plain_calls (unistd_body new))"
    "set (top_defs new) \<subseteq> set (top_defs (unistd_body new))"
  using new_starts [OF assms]
  by (auto simp: unistd_body_def plain_calls_append top_defs_append chunk_starts)

lemma sem_is_new: "is_new unistd_new_sem"
  and msg_is_new: "is_new unistd_new_msg"
  by (simp_all add: is_new_def)

text \<open>The entries of a new call, from the two lines that define it.\<close>

lemma new_call_at:
  assumes "is_new new" "clean env" "include_unistd new env = Some st"
    "(x, Num n) \<in> set (top_defs new)" "(n, SYSCALL x h) \<in> set (plain_calls new)"
  shows "mac_value (macros st) x = Some n \<and> table_at st n = (if emits env then Some h else None)"
  using plain_call_at [OF assms(1-3)] new_in_body [OF assms(1)] assms(4,5) by blast

lemma new_call_entries:
  assumes "clean env" "include_unistd unistd_new_sem env = Some st"
  shows "mac_value (macros st) (NR ''csc452_down'') = Some 443 \<and>
      table_at st 443 = (if emits env then Some (Sys ''csc452_down'') else None)"
    "mac_value (macros st) (NR ''csc452_up'') = Some 444 \<and>
      table_at st 444 = (if emits env then Some (Sys ''csc452_up'') else None)"
  by (rule new_call_at [OF sem_is_new assms]; simp add: unistd_new_sem_def)+

lemma new_msg_entries:
  assumes "clean env" "include_unistd unistd_new_msg env = Some st"
  shows "mac_value (macros st) (NR ''csc452_send_msg'') = Some 443 \<and>
      table_at st 443 = (if emits env then Some (Sys ''csc452_send_msg'') else None)"
    "mac_value (macros st) (NR ''csc452_get_msg'') = Some 444 \<and>
      table_at st 444 = (if emits env then Some (Sys ''csc452_get_msg'') else None)"
  by (rule new_call_at [OF msg_is_new assms]; simp add: unistd_new_msg_def)+

section \<open>Properties of the table\<close>

text \<open>
  C26. For every word size and every set of configuration macros the header of either project
  runs without error and describes a table whose numbers strictly increase, stay below the count
  \<open>__NR_syscalls\<close> and avoid the numbers left to architectures and the unassigned ones; so no
  entry overwrites another.
\<close>

theorem unistd_table_in_order:
  assumes "is_new new" "clean env"
  shows "\<exists>st. include_unistd new env = Some st \<and>
     sorted_wrt (<) (map fst (syscall_table st)) \<and> mac_value (macros st) (NR ''syscalls'') = Some 445 \<and>
     (\<forall>(n, h)\<in>set (syscall_table st). n < 445 \<and> \<not> reserved n)"
proof -
  obtain st where st: "include_unistd new env = Some st" using header_runs [OF assms] by blast
  note es = header_entries [OF assms st]
  have "n < 445 \<and> \<not> reserved n" if "(n, h) \<in> set (syscall_table st)" for n h
    using es(2) that no_reserved_number [OF assms(1)] by (force simp: syscall_table_def)
  then show ?thesis using st es(1,5) by (auto simp: mac_value_def)
qed

text \<open>
  Whatever table entry a configuration has, the macro a program uses for it stands, at the
  end of the header, for the place where the table holds the entry's function.
\<close>

theorem unistd_names_reach_functions:
  assumes "is_new new" "clean env" "include_unistd new env = Some st" "(x, n, h) \<in> set (entries st)"
  shows "mac_value (macros st) x = Some n \<and> table_at st n = Some h"
  using header_entries(2) [OF assms] table_at_entry [OF assms] by (simp add: mac_value_def)

text \<open>
  In every configuration the semaphore project's table holds down and up, and the message
  project's table send and get, at 443 and 444, under the names the headers define; these are
  the last two entries.  A program that includes the header without a \<open>__SYSCALL\<close> of its own
  gets the same numbers and no table.
\<close>

theorem new_calls_reached:
  assumes "clean env"
  shows "(\<exists>st. include_unistd unistd_new_sem env = Some st \<and>
      mac_value (macros st) (NR ''csc452_down'') = Some 443 \<and>
      mac_value (macros st) (NR ''csc452_up'') = Some 444 \<and>
      table_at st 443 = (if emits env then Some (Sys ''csc452_down'') else None) \<and>
      table_at st 444 = (if emits env then Some (Sys ''csc452_up'') else None)) \<and>
    (\<exists>st. include_unistd unistd_new_msg env = Some st \<and>
      mac_value (macros st) (NR ''csc452_send_msg'') = Some 443 \<and>
      mac_value (macros st) (NR ''csc452_get_msg'') = Some 444 \<and>
      table_at st 443 = (if emits env then Some (Sys ''csc452_send_msg'') else None) \<and>
      table_at st 444 = (if emits env then Some (Sys ''csc452_get_msg'') else None))"
proof -
  obtain s1 s2 where st: "include_unistd unistd_new_sem env = Some s1"
    "include_unistd unistd_new_msg env = Some s2"
    using header_runs [OF sem_is_new assms] header_runs [OF msg_is_new assms] by metis
  then show ?thesis using new_call_entries [OF assms] new_msg_entries [OF assms] by blast
qed

section \<open>The 32-bit and the 64-bit names\<close>

text \<open>The calls whose offsets have two widths: the name on 32-bit and on 64-bit machines, the
  shared macro, its number, and the function on either.\<close>

definition two_widths :: "(string \<times> string \<times> string \<times> nat \<times> string \<times> string) list" where
  "two_widths = [
   (''fcntl64'', ''fcntl'', ''fcntl'', 25, ''fcntl64'', ''fcntl''),
   (''statfs64'', ''statfs'', ''statfs'', 43, ''statfs64'', ''statfs''),
   (''fstatfs64'', ''fstatfs'', ''fstatfs'', 44, ''fstatfs64'', ''fstatfs''),
   (''truncate64'', ''truncate'', ''truncate'', 45, ''truncate64'', ''truncate''),
   (''ftruncate64'', ''ftruncate'', ''ftruncate'', 46, ''ftruncate64'', ''ftruncate''),
   (''llseek'', ''lseek'', ''lseek'', 62, ''llseek'', ''lseek''),
   (''sendfile64'', ''sendfile'', ''sendfile'', 71, ''sendfile64'', ''sendfile64''),
   (''mmap2'', ''mmap'', ''mmap'', 222, ''mmap2'', ''mmap''),
   (''fadvise64_64'', ''fadvise64'', ''fadvise64'', 223, ''fadvise64_64'', ''fadvise64_64'')]"

definition word64 :: "macros \<Rightarrow> bool" where
  "word64 env \<longleftrightarrow> env (Macro ''__BITS_PER_LONG'') = Some (Num 64) \<and>
     env (Macro ''__SYSCALL_COMPAT'') = None"

definition word32 :: "macros \<Rightarrow> bool" where
  "word32 env \<longleftrightarrow> env (Macro ''__BITS_PER_LONG'') = Some (Num 32) \<and>
     env (Macro ''__SYSCALL_COMPAT'') = None"

definition wide_of :: "pp_line list \<Rightarrow> pp_line list" where
  "wide_of ls = (case ls of [Cond c ts es] \<Rightarrow> ts | _ \<Rightarrow> [])"

definition narrow_of :: "pp_line list \<Rightarrow> pp_line list" where
  "narrow_of ls = (case ls of [Cond c ts es] \<Rightarrow> es | _ \<Rightarrow> [])"

lemma run_single_cond:
  "run_lines [Cond c ts es] st = (if pp_true (macros st) c then run_lines ts st else run_lines es st)"
  by (simp split: option.splits)

lemma alias_shape: "unistd_alias = [Cond wide (wide_of unistd_alias) (narrow_of unistd_alias)]"
  by (simp add: unistd_alias_def wide_of_def narrow_of_def)

lemma alias_no_undef: "no_undef (wide_of unistd_alias)" "no_undef (narrow_of unistd_alias)"
  by (simp_all add: unistd_alias_def wide_of_def narrow_of_def)

lemma alias_defs:
  assumes "is_new new" "clean env" "include_unistd new env = Some st"
  shows "word64 env \<Longrightarrow> (x, b) \<in> set (top_defs (wide_of unistd_alias)) \<Longrightarrow> macros st x = Some b"
    "word32 env \<Longrightarrow> (x, b) \<in> set (top_defs (narrow_of unistd_alias)) \<Longrightarrow> macros st x = Some b"
proof -
  obtain env' st1 where r: "run_ok 0 445 (defined_macs (unistd_body new))
      (calls (unistd_body new)) (plain_calls (unistd_body new)) \<lparr>macros = env', entries = []\<rparr> st1"
    and e: "\<forall>x. x \<noteq> Macro ''__SYSCALL'' \<longrightarrow> env' x = env x"
    and a: "run_lines unistd_alias (st1\<lparr>macros := (macros st1)(NR ''syscalls'' \<mapsto> Num 445)\<rparr>) = Some st"
    by (rule header_parts [OF assms])
  let ?s2 = "st1\<lparr>macros := (macros st1)(NR ''syscalls'' \<mapsto> Num 445)\<rparr>"
  have "macros st1 (Macro x) = env' (Macro x)" for x using r by (simp add: run_ok_def)
  then have s: "macros ?s2 (Macro x) = env (Macro x)" if "x \<noteq> ''__SYSCALL''" for x
    using e that by simp
  have "word64 env \<Longrightarrow> pp_true (macros ?s2) wide" "word32 env \<Longrightarrow> \<not> pp_true (macros ?s2) wide"
    using s by (simp_all add: wide_def word64_def word32_def mac_value_def)
  then have "word64 env \<Longrightarrow> run_lines (wide_of unistd_alias) ?s2 = Some st"
    "word32 env \<Longrightarrow> run_lines (narrow_of unistd_alias) ?s2 = Some st"
    using a run_single_cond [of wide "wide_of unistd_alias" "narrow_of unistd_alias" ?s2]
    unfolding alias_shape [symmetric] by simp_all
  then show "word64 env \<Longrightarrow> (x, b) \<in> set (top_defs (wide_of unistd_alias)) \<Longrightarrow> macros st x = Some b"
    "word32 env \<Longrightarrow> (x, b) \<in> set (top_defs (narrow_of unistd_alias)) \<Longrightarrow> macros st x = Some b"
    using top_defs_run alias_no_undef by blast+
qed

text \<open>What the lists of directives say about one row.\<close>

fun call_native :: "bool \<Rightarrow> sc_call \<Rightarrow> handler" where
  "call_native w (SYSCALL x h) = h"
| "call_native w (SC_3264 x h32 h64) = (if w then h64 else h32)"
| "call_native w (SC_COMP x h comp32) = h"
| "call_native w (SC_COMP_3264 x h32 h64 comp32) = (if w then h64 else h32)"

lemma call_native:
  "word64 env \<Longrightarrow> call_handler env c = call_native True c"
  "word32 env \<Longrightarrow> call_handler env c = call_native False c"
  by (cases c; simp add: word64_def word32_def sc_3264_def sc_comp_def sc_comp_3264_def narrow_def
      mac_value_def)+

definition row_listed :: "string \<times> string \<times> string \<times> nat \<times> string \<times> string \<Rightarrow> bool" where
  "row_listed = (\<lambda>(n32, n64, t, nr, h32, h64).
     (NR n64, Name (NR3264 t)) \<in> set (top_defs (wide_of unistd_alias)) \<and>
     (NR n32, Name (NR3264 t)) \<in> set (top_defs (narrow_of unistd_alias)) \<and>
     (NR3264 t, Num nr) \<in> set (top_defs (unistd_body [])) \<and>
     list_ex (\<lambda>(n, c). n = nr \<and> call_nr c = NR3264 t \<and> call_native True c = Sys h64 \<and>
       call_native False c = Sys h32) (plain_calls (unistd_body [])))"

lemma rows_listed: "list_all row_listed two_widths"
  by (simp add: two_widths_def row_listed_def unistd_body_def unistd_stock_defs unistd_alias_def
      wide_of_def narrow_of_def)

lemma stock_in_body:
  assumes "is_new new"
  shows "set (plain_calls (unistd_body [])) \<subseteq> set (plain_calls (unistd_body new))"
    "set (top_defs (unistd_body [])) \<subseteq> set (top_defs (unistd_body new))"
  using new_starts [OF assms]
  by (auto simp: unistd_body_def plain_calls_append top_defs_append chunk_starts
      chunk_starts [of "[]", simplified])

text \<open>
  The calls with offsets of two widths have one number on 32-bit and 64-bit machines: under
  the 64-bit name on the one and the 32-bit name on the other a program finds the same number,
  and the table holds there the function for that width.
\<close>

theorem two_widths_same_number:
  assumes "is_new new" "clean env" "emits env" "include_unistd new env = Some st"
    "(n32, n64, t, nr, h32, h64) \<in> set two_widths" "word64 env \<or> word32 env"
  shows "mac_value (macros st) (NR (if word64 env then n64 else n32)) = Some nr \<and>
     table_at st nr = Some (Sys (if word64 env then h64 else h32))"
proof -
  note es = header_entries [OF assms(1,2,4)] and al = alias_defs [OF assms(1,2,4)]
  have row: "row_listed (n32, n64, t, nr, h32, h64)"
    using rows_listed assms(5) by (simp add: list_all_iff)
  then obtain c where c: "(nr, c) \<in> set (plain_calls (unistd_body []))" "call_nr c = NR3264 t"
    "call_native True c = Sys h64" "call_native False c = Sys h32"
    by (auto simp: row_listed_def list_ex_iff)
  have "macros st (NR3264 t) = Some (Num nr)"
    using row es(6) stock_in_body(2) [OF assms(1)] by (auto simp: row_listed_def)
  moreover have "macros st (NR (if word64 env then n64 else n32)) = Some (Name (NR3264 t))"
    using row al assms(6) by (auto simp: row_listed_def)
  moreover have "(NR3264 t, nr, call_handler env c) \<in> set (entries st)"
    using es(3) [OF assms(3), of nr c] c(1,2) stock_in_body(1) [OF assms(1)] by auto
  then have "table_at st nr = Some (call_handler env c)"
    by (rule table_at_entry [OF assms(1,2,4)])
  ultimately show ?thesis
    using assms(6) call_native [of env c] c(3,4) by (auto simp: mac_value_def)
qed

section \<open>Witnesses\<close>

text \<open>A machine with the given word size and no other configuration macro, building the table.\<close>

definition machine :: "nat \<Rightarrow> macros" where
  "machine b = (\<lambda>x. if x = Macro ''__BITS_PER_LONG'' then Some (Num b)
     else if x = Macro ''__SYSCALL'' then Some Emit else None)"

lemma machine_ok: "clean (machine b)" "emits (machine b)" "word64 (machine 64)" "word32 (machine 32)"
  by (simp_all add: machine_def clean_def word_size_known_def emits_def word64_def word32_def)

lemma machine_run: "is_new new \<Longrightarrow> \<exists>st. include_unistd new (machine b) = Some st"
  using header_runs [OF _ machine_ok(1), of new b] by metis

lemma unistd_table_in_order_witness:
  "\<exists>st. include_unistd unistd_new_sem (machine 64) = Some st \<and>
     sorted_wrt (<) (map fst (syscall_table st)) \<and>
     mac_value (macros st) (NR ''syscalls'') = Some 445 \<and>
     (\<forall>(n, h)\<in>set (syscall_table st). n < 445 \<and> \<not> reserved n)"
  by (rule unistd_table_in_order [OF sem_is_new machine_ok(1)])

lemma unistd_names_reach_functions_witness:
  "\<exists>st. include_unistd unistd_new_sem (machine 64) = Some st \<and>
     mac_value (macros st) (NR ''csc452_up'') = Some 444 \<and> table_at st 444 = Some (Sys ''csc452_up'')"
proof -
  obtain st where st: "include_unistd unistd_new_sem (machine 64) = Some st"
    using machine_run [OF sem_is_new] by blast
  have "(444, SYSCALL (NR ''csc452_up'') (Sys ''csc452_up'')) \<in> set (plain_calls unistd_new_sem)"
    by (simp add: unistd_new_sem_def)
  then have "(NR ''csc452_up'', 444, Sys ''csc452_up'') \<in> set (entries st)"
    using header_entries(3) [OF sem_is_new machine_ok(1) st machine_ok(2)]
      new_in_body(1) [OF sem_is_new] by fastforce
  then show ?thesis
    using unistd_names_reach_functions [OF sem_is_new machine_ok(1) st] st by blast
qed

lemma new_calls_reached_witness:
  "\<exists>st. include_unistd unistd_new_msg (machine 32) = Some st \<and>
     table_at st 443 = Some (Sys ''csc452_send_msg'') \<and> table_at st 444 = Some (Sys ''csc452_get_msg'')"
  using new_calls_reached [OF machine_ok(1) [of 32]] machine_ok(2) [of 32] by simp blast

lemma two_widths_same_number_witness:
  "\<exists>s32 s64. include_unistd unistd_new_sem (machine 32) = Some s32 \<and>
     include_unistd unistd_new_sem (machine 64) = Some s64 \<and>
     mac_value (macros s32) (NR ''llseek'') = Some 62 \<and> table_at s32 62 = Some (Sys ''llseek'') \<and>
     mac_value (macros s64) (NR ''lseek'') = Some 62 \<and> table_at s64 62 = Some (Sys ''lseek'')"
proof -
  have row: "(''llseek'', ''lseek'', ''lseek'', 62, ''llseek'', ''lseek'') \<in> set two_widths"
    by (simp add: two_widths_def)
  obtain s32 s64 where st: "include_unistd unistd_new_sem (machine 32) = Some s32"
    "include_unistd unistd_new_sem (machine 64) = Some s64"
    using machine_run [OF sem_is_new] by metis
  have "\<not> word64 (machine 32)" by (simp add: word64_def machine_def)
  then show ?thesis
    using two_widths_same_number [OF sem_is_new machine_ok(1,2) st(1) row]
      two_widths_same_number [OF sem_is_new machine_ok(1,2) st(2) row] machine_ok(3,4) st by auto
qed

end
