(* ===== verification/Syscall_Protos.thy ===== *)
theory Syscall_Protos
  imports Unistd_Cpp
begin

text \<open>
  The prototypes of \<open>src/Semaphore and Synchronization/syscalls.h\<close>: which \<open>sys_\<close> function takes
  arguments of which C types, in the order of the file and under its configuration conditions.
  Argument names, which C ignores here, are left out.  \<open>protos_new_sem\<close> holds the two calls of the
  semaphore project, \<open>protos_new_msg\<close> the two that stand at the same place in the copy of the
  message project; the two files agree in every other line.
\<close>

section \<open>C types and declarations\<close>

text \<open>\<open>User t\<close> is \<open>t __user\<close>; a pointer to user characters is \<open>Ptr (User (Ty ''char''))\<close>.\<close>

datatype cty = Ty string | Struct string | Union string | Ptr cty | Const cty | User cty

datatype pdecl = Proto string "cty list" | PIf pp_cond "pdecl list" "pdecl list"

text \<open>The declarations a configuration sees, and those of all configurations.\<close>

fun visible :: "macros \<Rightarrow> pdecl list \<Rightarrow> (string \<times> cty list) list" where
  "visible ms [] = []"
| "visible ms (Proto f tys # ds) = (f, tys) # visible ms ds"
| "visible ms (PIf c ts es # ds) =
     (if pp_true ms c then visible ms ts else visible ms es) @ visible ms ds"

fun declared :: "pdecl list \<Rightarrow> (string \<times> cty list) list" where
  "declared [] = []"
| "declared (Proto f tys # ds) = (f, tys) # declared ds"
| "declared (PIf c ts es # ds) = declared ts @ declared es @ declared ds"

text \<open>Those outside every condition.\<close>

fun always :: "pdecl list \<Rightarrow> (string \<times> cty list) list" where
  "always [] = []"
| "always (Proto f tys # ds) = (f, tys) # always ds"
| "always (PIf c ts es # ds) = always ds"

section \<open>The prototypes\<close>

definition protos_aio_fs :: "pdecl list" where
  "protos_aio_fs = [
   Proto ''io_setup'' [Ty ''unsigned'', Ptr (User (Ty ''aio_context_t''))],
   Proto ''io_destroy'' [Ty ''aio_context_t''],
   Proto ''io_submit'' [Ty ''aio_context_t'', Ty ''long'',
       Ptr (User (Ptr (User (Struct ''iocb''))))],
   Proto ''io_cancel'' [Ty ''aio_context_t'', Ptr (User (Struct ''iocb'')),
       Ptr (User (Struct ''io_event''))],
   Proto ''io_getevents'' [Ty ''aio_context_t'', Ty ''long'', Ty ''long'',
       Ptr (User (Struct ''io_event'')), Ptr (User (Struct ''__kernel_timespec''))],
   Proto ''io_getevents_time32'' [Ty ''__u32'', Ty ''__s32'', Ty ''__s32'',
       Ptr (User (Struct ''io_event'')), Ptr (User (Struct ''old_timespec32''))],
   Proto ''io_pgetevents'' [Ty ''aio_context_t'', Ty ''long'', Ty ''long'',
       Ptr (User (Struct ''io_event'')), Ptr (User (Struct ''__kernel_timespec'')),
       Ptr (Const (Struct ''__aio_sigset''))],
   Proto ''io_pgetevents_time32'' [Ty ''aio_context_t'', Ty ''long'', Ty ''long'',
       Ptr (User (Struct ''io_event'')), Ptr (User (Struct ''old_timespec32'')),
       Ptr (Const (Struct ''__aio_sigset''))],
   Proto ''io_uring_setup'' [Ty ''u32'', Ptr (User (Struct ''io_uring_params''))],
   Proto ''io_uring_enter'' [Ty ''unsigned int'', Ty ''u32'', Ty ''u32'', Ty ''u32'',
       Ptr (User (Const (Ty ''void''))), Ty ''size_t''],
   Proto ''io_uring_register'' [Ty ''unsigned int'', Ty ''unsigned int'',
       Ptr (User (Ty ''void'')), Ty ''unsigned int''],
   Proto ''setxattr'' [Ptr (User (Const (Ty ''char''))), Ptr (User (Const (Ty ''char''))),
       Ptr (User (Const (Ty ''void''))), Ty ''size_t'', Ty ''int''],
   Proto ''lsetxattr'' [Ptr (User (Const (Ty ''char''))), Ptr (User (Const (Ty ''char''))),
       Ptr (User (Const (Ty ''void''))), Ty ''size_t'', Ty ''int''],
   Proto ''fsetxattr'' [Ty ''int'', Ptr (User (Const (Ty ''char''))),
       Ptr (User (Const (Ty ''void''))), Ty ''size_t'', Ty ''int''],
   Proto ''getxattr'' [Ptr (User (Const (Ty ''char''))), Ptr (User (Const (Ty ''char''))),
       Ptr (User (Ty ''void'')), Ty ''size_t''],
   Proto ''lgetxattr'' [Ptr (User (Const (Ty ''char''))), Ptr (User (Const (Ty ''char''))),
       Ptr (User (Ty ''void'')), Ty ''size_t''],
   Proto ''fgetxattr'' [Ty ''int'', Ptr (User (Const (Ty ''char''))), Ptr (User (Ty ''void'')),
       Ty ''size_t''],
   Proto ''listxattr'' [Ptr (User (Const (Ty ''char''))), Ptr (User (Ty ''char'')),
       Ty ''size_t''],
   Proto ''llistxattr'' [Ptr (User (Const (Ty ''char''))), Ptr (User (Ty ''char'')),
       Ty ''size_t''],
   Proto ''flistxattr'' [Ty ''int'', Ptr (User (Ty ''char'')), Ty ''size_t''],
   Proto ''removexattr'' [Ptr (User (Const (Ty ''char''))), Ptr (User (Const (Ty ''char'')))],
   Proto ''lremovexattr'' [Ptr (User (Const (Ty ''char''))), Ptr (User (Const (Ty ''char'')))],
   Proto ''fremovexattr'' [Ty ''int'', Ptr (User (Const (Ty ''char'')))],
   Proto ''getcwd'' [Ptr (User (Ty ''char'')), Ty ''unsigned long''],
   Proto ''lookup_dcookie'' [Ty ''u64'', Ptr (User (Ty ''char'')), Ty ''size_t''],
   Proto ''eventfd2'' [Ty ''unsigned int'', Ty ''int''],
   Proto ''epoll_create1'' [Ty ''int''],
   Proto ''epoll_ctl'' [Ty ''int'', Ty ''int'', Ty ''int'', Ptr (User (Struct ''epoll_event''))],
   Proto ''epoll_pwait'' [Ty ''int'', Ptr (User (Struct ''epoll_event'')), Ty ''int'',
       Ty ''int'', Ptr (User (Const (Ty ''sigset_t''))), Ty ''size_t''],
   Proto ''epoll_pwait2'' [Ty ''int'', Ptr (User (Struct ''epoll_event'')), Ty ''int'',
       Ptr (User (Const (Struct ''__kernel_timespec''))), Ptr (User (Const (Ty ''sigset_t''))),
       Ty ''size_t''],
   Proto ''dup'' [Ty ''unsigned int''],
   Proto ''dup3'' [Ty ''unsigned int'', Ty ''unsigned int'', Ty ''int''],
   Proto ''fcntl'' [Ty ''unsigned int'', Ty ''unsigned int'', Ty ''unsigned long''],
   PIf (Equals (Macro ''BITS_PER_LONG'') 32)
    [Proto ''fcntl64'' [Ty ''unsigned int'', Ty ''unsigned int'', Ty ''unsigned long'']]
    [],
   Proto ''inotify_init1'' [Ty ''int''],
   Proto ''inotify_add_watch'' [Ty ''int'', Ptr (User (Const (Ty ''char''))), Ty ''u32''],
   Proto ''inotify_rm_watch'' [Ty ''int'', Ty ''__s32''],
   Proto ''ioctl'' [Ty ''unsigned int'', Ty ''unsigned int'', Ty ''unsigned long''],
   Proto ''ioprio_set'' [Ty ''int'', Ty ''int'', Ty ''int''],
   Proto ''ioprio_get'' [Ty ''int'', Ty ''int''],
   Proto ''flock'' [Ty ''unsigned int'', Ty ''unsigned int''],
   Proto ''mknodat'' [Ty ''int'', Ptr (User (Const (Ty ''char''))), Ty ''umode_t'',
       Ty ''unsigned''],
   Proto ''mkdirat'' [Ty ''int'', Ptr (User (Const (Ty ''char''))), Ty ''umode_t''],
   Proto ''unlinkat'' [Ty ''int'', Ptr (User (Const (Ty ''char''))), Ty ''int''],
   Proto ''symlinkat'' [Ptr (User (Const (Ty ''char''))), Ty ''int'',
       Ptr (User (Const (Ty ''char'')))],
   Proto ''linkat'' [Ty ''int'', Ptr (User (Const (Ty ''char''))), Ty ''int'',
       Ptr (User (Const (Ty ''char''))), Ty ''int''],
   Proto ''renameat'' [Ty ''int'', Ptr (User (Const (Ty ''char''))), Ty ''int'',
       Ptr (User (Const (Ty ''char'')))],
   Proto ''umount'' [Ptr (User (Ty ''char'')), Ty ''int''],
   Proto ''mount'' [Ptr (User (Ty ''char'')), Ptr (User (Ty ''char'')),
       Ptr (User (Ty ''char'')), Ty ''unsigned long'', Ptr (User (Ty ''void''))],
   Proto ''pivot_root'' [Ptr (User (Const (Ty ''char''))), Ptr (User (Const (Ty ''char'')))],
   Proto ''statfs'' [Ptr (User (Const (Ty ''char''))), Ptr (User (Struct ''statfs''))],
   Proto ''statfs64'' [Ptr (User (Const (Ty ''char''))), Ty ''size_t'',
       Ptr (User (Struct ''statfs64''))],
   Proto ''fstatfs'' [Ty ''unsigned int'', Ptr (User (Struct ''statfs''))],
   Proto ''fstatfs64'' [Ty ''unsigned int'', Ty ''size_t'', Ptr (User (Struct ''statfs64''))],
   Proto ''truncate'' [Ptr (User (Const (Ty ''char''))), Ty ''long''],
   Proto ''ftruncate'' [Ty ''unsigned int'', Ty ''unsigned long''],
   PIf (Equals (Macro ''BITS_PER_LONG'') 32)
    [Proto ''truncate64'' [Ptr (User (Const (Ty ''char''))), Ty ''loff_t''],
     Proto ''ftruncate64'' [Ty ''unsigned int'', Ty ''loff_t'']]
    []]"

definition protos_open_rw :: "pdecl list" where
  "protos_open_rw = [
   Proto ''fallocate'' [Ty ''int'', Ty ''int'', Ty ''loff_t'', Ty ''loff_t''],
   Proto ''faccessat'' [Ty ''int'', Ptr (User (Const (Ty ''char''))), Ty ''int''],
   Proto ''faccessat2'' [Ty ''int'', Ptr (User (Const (Ty ''char''))), Ty ''int'', Ty ''int''],
   Proto ''chdir'' [Ptr (User (Const (Ty ''char'')))],
   Proto ''fchdir'' [Ty ''unsigned int''],
   Proto ''chroot'' [Ptr (User (Const (Ty ''char'')))],
   Proto ''fchmod'' [Ty ''unsigned int'', Ty ''umode_t''],
   Proto ''fchmodat'' [Ty ''int'', Ptr (User (Const (Ty ''char''))), Ty ''umode_t''],
   Proto ''fchownat'' [Ty ''int'', Ptr (User (Const (Ty ''char''))), Ty ''uid_t'', Ty ''gid_t'',
       Ty ''int''],
   Proto ''fchown'' [Ty ''unsigned int'', Ty ''uid_t'', Ty ''gid_t''],
   Proto ''openat'' [Ty ''int'', Ptr (User (Const (Ty ''char''))), Ty ''int'', Ty ''umode_t''],
   Proto ''openat2'' [Ty ''int'', Ptr (User (Const (Ty ''char''))), Ptr (Struct ''open_how''),
       Ty ''size_t''],
   Proto ''close'' [Ty ''unsigned int''],
   Proto ''close_range'' [Ty ''unsigned int'', Ty ''unsigned int'', Ty ''unsigned int''],
   Proto ''vhangup'' [],
   Proto ''pipe2'' [Ptr (User (Ty ''int'')), Ty ''int''],
   Proto ''quotactl'' [Ty ''unsigned int'', Ptr (User (Const (Ty ''char''))), Ty ''qid_t'',
       Ptr (User (Ty ''void''))],
   Proto ''getdents64'' [Ty ''unsigned int'', Ptr (User (Struct ''linux_dirent64'')),
       Ty ''unsigned int''],
   Proto ''llseek'' [Ty ''unsigned int'', Ty ''unsigned long'', Ty ''unsigned long'',
       Ptr (User (Ty ''loff_t'')), Ty ''unsigned int''],
   Proto ''lseek'' [Ty ''unsigned int'', Ty ''off_t'', Ty ''unsigned int''],
   Proto ''read'' [Ty ''unsigned int'', Ptr (User (Ty ''char'')), Ty ''size_t''],
   Proto ''write'' [Ty ''unsigned int'', Ptr (User (Const (Ty ''char''))), Ty ''size_t''],
   Proto ''readv'' [Ty ''unsigned long'', Ptr (User (Const (Struct ''iovec''))),
       Ty ''unsigned long''],
   Proto ''writev'' [Ty ''unsigned long'', Ptr (User (Const (Struct ''iovec''))),
       Ty ''unsigned long''],
   Proto ''pread64'' [Ty ''unsigned int'', Ptr (User (Ty ''char'')), Ty ''size_t'',
       Ty ''loff_t''],
   Proto ''pwrite64'' [Ty ''unsigned int'', Ptr (User (Const (Ty ''char''))), Ty ''size_t'',
       Ty ''loff_t''],
   Proto ''preadv'' [Ty ''unsigned long'', Ptr (User (Const (Struct ''iovec''))),
       Ty ''unsigned long'', Ty ''unsigned long'', Ty ''unsigned long''],
   Proto ''pwritev'' [Ty ''unsigned long'', Ptr (User (Const (Struct ''iovec''))),
       Ty ''unsigned long'', Ty ''unsigned long'', Ty ''unsigned long''],
   Proto ''sendfile64'' [Ty ''int'', Ty ''int'', Ptr (User (Ty ''loff_t'')), Ty ''size_t''],
   Proto ''pselect6'' [Ty ''int'', Ptr (User (Ty ''fd_set'')), Ptr (User (Ty ''fd_set'')),
       Ptr (User (Ty ''fd_set'')), Ptr (User (Struct ''__kernel_timespec'')),
       Ptr (User (Ty ''void''))],
   Proto ''pselect6_time32'' [Ty ''int'', Ptr (User (Ty ''fd_set'')),
       Ptr (User (Ty ''fd_set'')), Ptr (User (Ty ''fd_set'')),
       Ptr (User (Struct ''old_timespec32'')), Ptr (User (Ty ''void''))],
   Proto ''ppoll'' [Ptr (User (Struct ''pollfd'')), Ty ''unsigned int'',
       Ptr (User (Struct ''__kernel_timespec'')), Ptr (User (Const (Ty ''sigset_t''))),
       Ty ''size_t''],
   Proto ''ppoll_time32'' [Ptr (User (Struct ''pollfd'')), Ty ''unsigned int'',
       Ptr (User (Struct ''old_timespec32'')), Ptr (User (Const (Ty ''sigset_t''))),
       Ty ''size_t''],
   Proto ''signalfd4'' [Ty ''int'', Ptr (User (Ty ''sigset_t'')), Ty ''size_t'', Ty ''int''],
   Proto ''vmsplice'' [Ty ''int'', Ptr (User (Const (Struct ''iovec''))), Ty ''unsigned long'',
       Ty ''unsigned int''],
   Proto ''splice'' [Ty ''int'', Ptr (User (Ty ''loff_t'')), Ty ''int'',
       Ptr (User (Ty ''loff_t'')), Ty ''size_t'', Ty ''unsigned int''],
   Proto ''tee'' [Ty ''int'', Ty ''int'', Ty ''size_t'', Ty ''unsigned int''],
   Proto ''readlinkat'' [Ty ''int'', Ptr (User (Const (Ty ''char''))), Ptr (User (Ty ''char'')),
       Ty ''int''],
   Proto ''newfstatat'' [Ty ''int'', Ptr (User (Const (Ty ''char''))),
       Ptr (User (Struct ''stat'')), Ty ''int''],
   Proto ''newfstat'' [Ty ''unsigned int'', Ptr (User (Struct ''stat''))],
   PIf (Either (Defined (Macro ''__ARCH_WANT_STAT64''))
     (Defined (Macro ''__ARCH_WANT_COMPAT_STAT64'')))
    [Proto ''fstat64'' [Ty ''unsigned long'', Ptr (User (Struct ''stat64''))],
     Proto ''fstatat64'' [Ty ''int'', Ptr (User (Const (Ty ''char''))),
         Ptr (User (Struct ''stat64'')), Ty ''int'']]
    [],
   Proto ''sync'' [],
   Proto ''fsync'' [Ty ''unsigned int''],
   Proto ''fdatasync'' [Ty ''unsigned int''],
   Proto ''sync_file_range2'' [Ty ''int'', Ty ''unsigned int'', Ty ''loff_t'', Ty ''loff_t''],
   Proto ''sync_file_range'' [Ty ''int'', Ty ''loff_t'', Ty ''loff_t'', Ty ''unsigned int''],
   Proto ''timerfd_create'' [Ty ''int'', Ty ''int''],
   Proto ''timerfd_settime'' [Ty ''int'', Ty ''int'',
       Ptr (User (Const (Struct ''__kernel_itimerspec''))),
       Ptr (User (Struct ''__kernel_itimerspec''))],
   Proto ''timerfd_gettime'' [Ty ''int'', Ptr (User (Struct ''__kernel_itimerspec''))],
   Proto ''timerfd_gettime32'' [Ty ''int'', Ptr (User (Struct ''old_itimerspec32''))],
   Proto ''timerfd_settime32'' [Ty ''int'', Ty ''int'',
       Ptr (User (Const (Struct ''old_itimerspec32''))),
       Ptr (User (Struct ''old_itimerspec32''))],
   Proto ''utimensat'' [Ty ''int'', Ptr (User (Const (Ty ''char''))),
       Ptr (User (Struct ''__kernel_timespec'')), Ty ''int''],
   Proto ''utimensat_time32'' [Ty ''unsigned int'', Ptr (User (Const (Ty ''char''))),
       Ptr (User (Struct ''old_timespec32'')), Ty ''int''],
   Proto ''acct'' [Ptr (User (Const (Ty ''char'')))],
   Proto ''capget'' [Ty ''cap_user_header_t'', Ty ''cap_user_data_t''],
   Proto ''capset'' [Ty ''cap_user_header_t'', Const (Ty ''cap_user_data_t'')],
   Proto ''personality'' [Ty ''unsigned int''],
   Proto ''exit'' [Ty ''int''],
   Proto ''exit_group'' [Ty ''int'']]"

definition protos_kernel :: "pdecl list" where
  "protos_kernel = [
   Proto ''waitid'' [Ty ''int'', Ty ''pid_t'', Ptr (User (Struct ''siginfo'')), Ty ''int'',
       Ptr (User (Struct ''rusage''))],
   Proto ''set_tid_address'' [Ptr (User (Ty ''int''))],
   Proto ''unshare'' [Ty ''unsigned long''],
   Proto ''futex'' [Ptr (User (Ty ''u32'')), Ty ''int'', Ty ''u32'',
       Ptr (User (Const (Struct ''__kernel_timespec''))), Ptr (User (Ty ''u32'')), Ty ''u32''],
   Proto ''futex_time32'' [Ptr (User (Ty ''u32'')), Ty ''int'', Ty ''u32'',
       Ptr (User (Const (Struct ''old_timespec32''))), Ptr (User (Ty ''u32'')), Ty ''u32''],
   Proto ''get_robust_list'' [Ty ''int'', Ptr (User (Ptr (User (Struct ''robust_list_head'')))),
       Ptr (User (Ty ''size_t''))],
   Proto ''set_robust_list'' [Ptr (User (Struct ''robust_list_head'')), Ty ''size_t''],
   Proto ''nanosleep'' [Ptr (User (Struct ''__kernel_timespec'')),
       Ptr (User (Struct ''__kernel_timespec''))],
   Proto ''nanosleep_time32'' [Ptr (User (Struct ''old_timespec32'')),
       Ptr (User (Struct ''old_timespec32''))],
   Proto ''getitimer'' [Ty ''int'', Ptr (User (Struct ''__kernel_old_itimerval''))],
   Proto ''setitimer'' [Ty ''int'', Ptr (User (Struct ''__kernel_old_itimerval'')),
       Ptr (User (Struct ''__kernel_old_itimerval''))],
   Proto ''kexec_load'' [Ty ''unsigned long'', Ty ''unsigned long'',
       Ptr (User (Struct ''kexec_segment'')), Ty ''unsigned long''],
   Proto ''init_module'' [Ptr (User (Ty ''void'')), Ty ''unsigned long'',
       Ptr (User (Const (Ty ''char'')))],
   Proto ''delete_module'' [Ptr (User (Const (Ty ''char''))), Ty ''unsigned int''],
   Proto ''timer_create'' [Ty ''clockid_t'', Ptr (User (Struct ''sigevent'')),
       Ptr (User (Ty ''timer_t''))],
   Proto ''timer_gettime'' [Ty ''timer_t'', Ptr (User (Struct ''__kernel_itimerspec''))],
   Proto ''timer_getoverrun'' [Ty ''timer_t''],
   Proto ''timer_settime'' [Ty ''timer_t'', Ty ''int'',
       Ptr (User (Const (Struct ''__kernel_itimerspec''))),
       Ptr (User (Struct ''__kernel_itimerspec''))],
   Proto ''timer_delete'' [Ty ''timer_t''],
   Proto ''clock_settime'' [Ty ''clockid_t'', Ptr (User (Const (Struct ''__kernel_timespec'')))],
   Proto ''clock_gettime'' [Ty ''clockid_t'', Ptr (User (Struct ''__kernel_timespec''))],
   Proto ''clock_getres'' [Ty ''clockid_t'', Ptr (User (Struct ''__kernel_timespec''))],
   Proto ''clock_nanosleep'' [Ty ''clockid_t'', Ty ''int'',
       Ptr (User (Const (Struct ''__kernel_timespec''))),
       Ptr (User (Struct ''__kernel_timespec''))],
   Proto ''timer_gettime32'' [Ty ''timer_t'', Ptr (User (Struct ''old_itimerspec32''))],
   Proto ''timer_settime32'' [Ty ''timer_t'', Ty ''int'',
       Ptr (User (Struct ''old_itimerspec32'')), Ptr (User (Struct ''old_itimerspec32''))],
   Proto ''clock_settime32'' [Ty ''clockid_t'', Ptr (User (Struct ''old_timespec32''))],
   Proto ''clock_gettime32'' [Ty ''clockid_t'', Ptr (User (Struct ''old_timespec32''))],
   Proto ''clock_getres_time32'' [Ty ''clockid_t'', Ptr (User (Struct ''old_timespec32''))],
   Proto ''clock_nanosleep_time32'' [Ty ''clockid_t'', Ty ''int'',
       Ptr (User (Struct ''old_timespec32'')), Ptr (User (Struct ''old_timespec32''))],
   Proto ''syslog'' [Ty ''int'', Ptr (User (Ty ''char'')), Ty ''int''],
   Proto ''ptrace'' [Ty ''long'', Ty ''long'', Ty ''unsigned long'', Ty ''unsigned long''],
   Proto ''sched_setparam'' [Ty ''pid_t'', Ptr (User (Struct ''sched_param''))],
   Proto ''sched_setscheduler'' [Ty ''pid_t'', Ty ''int'', Ptr (User (Struct ''sched_param''))],
   Proto ''sched_getscheduler'' [Ty ''pid_t''],
   Proto ''sched_getparam'' [Ty ''pid_t'', Ptr (User (Struct ''sched_param''))],
   Proto ''sched_setaffinity'' [Ty ''pid_t'', Ty ''unsigned int'',
       Ptr (User (Ty ''unsigned long''))],
   Proto ''sched_getaffinity'' [Ty ''pid_t'', Ty ''unsigned int'',
       Ptr (User (Ty ''unsigned long''))],
   Proto ''sched_yield'' [],
   Proto ''sched_get_priority_max'' [Ty ''int''],
   Proto ''sched_get_priority_min'' [Ty ''int''],
   Proto ''sched_rr_get_interval'' [Ty ''pid_t'', Ptr (User (Struct ''__kernel_timespec''))],
   Proto ''sched_rr_get_interval_time32'' [Ty ''pid_t'', Ptr (User (Struct ''old_timespec32''))],
   Proto ''restart_syscall'' [],
   Proto ''kill'' [Ty ''pid_t'', Ty ''int''],
   Proto ''tkill'' [Ty ''pid_t'', Ty ''int''],
   Proto ''tgkill'' [Ty ''pid_t'', Ty ''pid_t'', Ty ''int''],
   Proto ''sigaltstack'' [Ptr (User (Const (Struct ''sigaltstack''))),
       Ptr (User (Struct ''sigaltstack''))],
   Proto ''rt_sigsuspend'' [Ptr (User (Ty ''sigset_t'')), Ty ''size_t''],
   PIf (Negated (Defined (Macro ''CONFIG_ODD_RT_SIGACTION'')))
    [Proto ''rt_sigaction'' [Ty ''int'', Ptr (User (Const (Struct ''sigaction''))),
         Ptr (User (Struct ''sigaction'')), Ty ''size_t'']]
    [],
   Proto ''rt_sigprocmask'' [Ty ''int'', Ptr (User (Ty ''sigset_t'')),
       Ptr (User (Ty ''sigset_t'')), Ty ''size_t''],
   Proto ''rt_sigpending'' [Ptr (User (Ty ''sigset_t'')), Ty ''size_t''],
   Proto ''rt_sigtimedwait'' [Ptr (User (Const (Ty ''sigset_t''))),
       Ptr (User (Ty ''siginfo_t'')), Ptr (User (Const (Struct ''__kernel_timespec''))),
       Ty ''size_t''],
   Proto ''rt_sigtimedwait_time32'' [Ptr (User (Const (Ty ''sigset_t''))),
       Ptr (User (Ty ''siginfo_t'')), Ptr (User (Const (Struct ''old_timespec32''))),
       Ty ''size_t''],
   Proto ''rt_sigqueueinfo'' [Ty ''pid_t'', Ty ''int'', Ptr (User (Ty ''siginfo_t''))]]"

definition protos_new_sem :: "pdecl list" where
  "protos_new_sem = [
   Proto ''csc452_down'' [Ptr (Struct ''csc452_sem'')],
   Proto ''csc452_up'' [Ptr (Struct ''csc452_sem'')]]"

definition protos_new_msg :: "pdecl list" where
  "protos_new_msg = [
   Proto ''csc452_send_msg'' [Ptr (User (Const (Ty ''char''))), Ptr (User (Const (Ty ''char''))),
       Ptr (User (Const (Ty ''char'')))],
   Proto ''csc452_get_msg'' [Ptr (User (Const (Ty ''char''))), Ptr (User (Ty ''char'')),
       Ptr (User (Ty ''char''))]]"

definition protos_sys_ipc :: "pdecl list" where
  "protos_sys_ipc = [
   Proto ''setpriority'' [Ty ''int'', Ty ''int'', Ty ''int''],
   Proto ''getpriority'' [Ty ''int'', Ty ''int''],
   Proto ''reboot'' [Ty ''int'', Ty ''int'', Ty ''unsigned int'', Ptr (User (Ty ''void''))],
   Proto ''setregid'' [Ty ''gid_t'', Ty ''gid_t''],
   Proto ''setgid'' [Ty ''gid_t''],
   Proto ''setreuid'' [Ty ''uid_t'', Ty ''uid_t''],
   Proto ''setuid'' [Ty ''uid_t''],
   Proto ''setresuid'' [Ty ''uid_t'', Ty ''uid_t'', Ty ''uid_t''],
   Proto ''getresuid'' [Ptr (User (Ty ''uid_t'')), Ptr (User (Ty ''uid_t'')),
       Ptr (User (Ty ''uid_t''))],
   Proto ''setresgid'' [Ty ''gid_t'', Ty ''gid_t'', Ty ''gid_t''],
   Proto ''getresgid'' [Ptr (User (Ty ''gid_t'')), Ptr (User (Ty ''gid_t'')),
       Ptr (User (Ty ''gid_t''))],
   Proto ''setfsuid'' [Ty ''uid_t''],
   Proto ''setfsgid'' [Ty ''gid_t''],
   Proto ''times'' [Ptr (User (Struct ''tms''))],
   Proto ''setpgid'' [Ty ''pid_t'', Ty ''pid_t''],
   Proto ''getpgid'' [Ty ''pid_t''],
   Proto ''getsid'' [Ty ''pid_t''],
   Proto ''setsid'' [],
   Proto ''getgroups'' [Ty ''int'', Ptr (User (Ty ''gid_t''))],
   Proto ''setgroups'' [Ty ''int'', Ptr (User (Ty ''gid_t''))],
   Proto ''newuname'' [Ptr (User (Struct ''new_utsname''))],
   Proto ''sethostname'' [Ptr (User (Ty ''char'')), Ty ''int''],
   Proto ''setdomainname'' [Ptr (User (Ty ''char'')), Ty ''int''],
   Proto ''getrlimit'' [Ty ''unsigned int'', Ptr (User (Struct ''rlimit''))],
   Proto ''setrlimit'' [Ty ''unsigned int'', Ptr (User (Struct ''rlimit''))],
   Proto ''getrusage'' [Ty ''int'', Ptr (User (Struct ''rusage''))],
   Proto ''umask'' [Ty ''int''],
   Proto ''prctl'' [Ty ''int'', Ty ''unsigned long'', Ty ''unsigned long'',
       Ty ''unsigned long'', Ty ''unsigned long''],
   Proto ''getcpu'' [Ptr (User (Ty ''unsigned'')), Ptr (User (Ty ''unsigned'')),
       Ptr (User (Struct ''getcpu_cache''))],
   Proto ''gettimeofday'' [Ptr (User (Struct ''__kernel_old_timeval'')),
       Ptr (User (Struct ''timezone''))],
   Proto ''settimeofday'' [Ptr (User (Struct ''__kernel_old_timeval'')),
       Ptr (User (Struct ''timezone''))],
   Proto ''adjtimex'' [Ptr (User (Struct ''__kernel_timex''))],
   Proto ''adjtimex_time32'' [Ptr (User (Struct ''old_timex32''))],
   Proto ''getpid'' [],
   Proto ''getppid'' [],
   Proto ''getuid'' [],
   Proto ''geteuid'' [],
   Proto ''getgid'' [],
   Proto ''getegid'' [],
   Proto ''gettid'' [],
   Proto ''sysinfo'' [Ptr (User (Struct ''sysinfo''))],
   Proto ''mq_open'' [Ptr (User (Const (Ty ''char''))), Ty ''int'', Ty ''umode_t'',
       Ptr (User (Struct ''mq_attr''))],
   Proto ''mq_unlink'' [Ptr (User (Const (Ty ''char'')))],
   Proto ''mq_timedsend'' [Ty ''mqd_t'', Ptr (User (Const (Ty ''char''))), Ty ''size_t'',
       Ty ''unsigned int'', Ptr (User (Const (Struct ''__kernel_timespec'')))],
   Proto ''mq_timedreceive'' [Ty ''mqd_t'', Ptr (User (Ty ''char'')), Ty ''size_t'',
       Ptr (User (Ty ''unsigned int'')), Ptr (User (Const (Struct ''__kernel_timespec'')))],
   Proto ''mq_notify'' [Ty ''mqd_t'', Ptr (User (Const (Struct ''sigevent'')))],
   Proto ''mq_getsetattr'' [Ty ''mqd_t'', Ptr (User (Const (Struct ''mq_attr''))),
       Ptr (User (Struct ''mq_attr''))],
   Proto ''mq_timedreceive_time32'' [Ty ''mqd_t'', Ptr (User (Ty ''char'')),
       Ty ''unsigned int'', Ptr (User (Ty ''unsigned int'')),
       Ptr (User (Const (Struct ''old_timespec32'')))],
   Proto ''mq_timedsend_time32'' [Ty ''mqd_t'', Ptr (User (Const (Ty ''char''))),
       Ty ''unsigned int'', Ty ''unsigned int'', Ptr (User (Const (Struct ''old_timespec32'')))],
   Proto ''msgget'' [Ty ''key_t'', Ty ''int'']]"

definition protos_net_mm :: "pdecl list" where
  "protos_net_mm = [
   Proto ''old_msgctl'' [Ty ''int'', Ty ''int'', Ptr (User (Struct ''msqid_ds''))],
   Proto ''msgctl'' [Ty ''int'', Ty ''int'', Ptr (User (Struct ''msqid_ds''))],
   Proto ''msgrcv'' [Ty ''int'', Ptr (User (Struct ''msgbuf'')), Ty ''size_t'', Ty ''long'',
       Ty ''int''],
   Proto ''msgsnd'' [Ty ''int'', Ptr (User (Struct ''msgbuf'')), Ty ''size_t'', Ty ''int''],
   Proto ''semget'' [Ty ''key_t'', Ty ''int'', Ty ''int''],
   Proto ''semctl'' [Ty ''int'', Ty ''int'', Ty ''int'', Ty ''unsigned long''],
   Proto ''old_semctl'' [Ty ''int'', Ty ''int'', Ty ''int'', Ty ''unsigned long''],
   Proto ''semtimedop'' [Ty ''int'', Ptr (User (Struct ''sembuf'')), Ty ''unsigned'',
       Ptr (User (Const (Struct ''__kernel_timespec'')))],
   Proto ''semtimedop_time32'' [Ty ''int'', Ptr (User (Struct ''sembuf'')), Ty ''unsigned'',
       Ptr (User (Const (Struct ''old_timespec32'')))],
   Proto ''semop'' [Ty ''int'', Ptr (User (Struct ''sembuf'')), Ty ''unsigned''],
   Proto ''shmget'' [Ty ''key_t'', Ty ''size_t'', Ty ''int''],
   Proto ''old_shmctl'' [Ty ''int'', Ty ''int'', Ptr (User (Struct ''shmid_ds''))],
   Proto ''shmctl'' [Ty ''int'', Ty ''int'', Ptr (User (Struct ''shmid_ds''))],
   Proto ''shmat'' [Ty ''int'', Ptr (User (Ty ''char'')), Ty ''int''],
   Proto ''shmdt'' [Ptr (User (Ty ''char''))],
   Proto ''socket'' [Ty ''int'', Ty ''int'', Ty ''int''],
   Proto ''socketpair'' [Ty ''int'', Ty ''int'', Ty ''int'', Ptr (User (Ty ''int''))],
   Proto ''bind'' [Ty ''int'', Ptr (User (Struct ''sockaddr'')), Ty ''int''],
   Proto ''listen'' [Ty ''int'', Ty ''int''],
   Proto ''accept'' [Ty ''int'', Ptr (User (Struct ''sockaddr'')), Ptr (User (Ty ''int''))],
   Proto ''connect'' [Ty ''int'', Ptr (User (Struct ''sockaddr'')), Ty ''int''],
   Proto ''getsockname'' [Ty ''int'', Ptr (User (Struct ''sockaddr'')), Ptr (User (Ty ''int''))],
   Proto ''getpeername'' [Ty ''int'', Ptr (User (Struct ''sockaddr'')), Ptr (User (Ty ''int''))],
   Proto ''sendto'' [Ty ''int'', Ptr (User (Ty ''void'')), Ty ''size_t'', Ty ''unsigned'',
       Ptr (User (Struct ''sockaddr'')), Ty ''int''],
   Proto ''recvfrom'' [Ty ''int'', Ptr (User (Ty ''void'')), Ty ''size_t'', Ty ''unsigned'',
       Ptr (User (Struct ''sockaddr'')), Ptr (User (Ty ''int''))],
   Proto ''setsockopt'' [Ty ''int'', Ty ''int'', Ty ''int'', Ptr (User (Ty ''char'')),
       Ty ''int''],
   Proto ''getsockopt'' [Ty ''int'', Ty ''int'', Ty ''int'', Ptr (User (Ty ''char'')),
       Ptr (User (Ty ''int''))],
   Proto ''shutdown'' [Ty ''int'', Ty ''int''],
   Proto ''sendmsg'' [Ty ''int'', Ptr (User (Struct ''user_msghdr'')), Ty ''unsigned''],
   Proto ''recvmsg'' [Ty ''int'', Ptr (User (Struct ''user_msghdr'')), Ty ''unsigned''],
   Proto ''readahead'' [Ty ''int'', Ty ''loff_t'', Ty ''size_t''],
   Proto ''brk'' [Ty ''unsigned long''],
   Proto ''munmap'' [Ty ''unsigned long'', Ty ''size_t''],
   Proto ''mremap'' [Ty ''unsigned long'', Ty ''unsigned long'', Ty ''unsigned long'',
       Ty ''unsigned long'', Ty ''unsigned long''],
   Proto ''add_key'' [Ptr (User (Const (Ty ''char''))), Ptr (User (Const (Ty ''char''))),
       Ptr (User (Const (Ty ''void''))), Ty ''size_t'', Ty ''key_serial_t''],
   Proto ''request_key'' [Ptr (User (Const (Ty ''char''))), Ptr (User (Const (Ty ''char''))),
       Ptr (User (Const (Ty ''char''))), Ty ''key_serial_t''],
   Proto ''keyctl'' [Ty ''int'', Ty ''unsigned long'', Ty ''unsigned long'',
       Ty ''unsigned long'', Ty ''unsigned long''],
   PIf (Defined (Macro ''CONFIG_CLONE_BACKWARDS''))
    [Proto ''clone'' [Ty ''unsigned long'', Ty ''unsigned long'', Ptr (User (Ty ''int'')),
         Ty ''unsigned long'', Ptr (User (Ty ''int''))]]
    [PIf (Defined (Macro ''CONFIG_CLONE_BACKWARDS3''))
      [Proto ''clone'' [Ty ''unsigned long'', Ty ''unsigned long'', Ty ''int'',
           Ptr (User (Ty ''int'')), Ptr (User (Ty ''int'')), Ty ''unsigned long'']]
      [Proto ''clone'' [Ty ''unsigned long'', Ty ''unsigned long'', Ptr (User (Ty ''int'')),
           Ptr (User (Ty ''int'')), Ty ''unsigned long'']]],
   Proto ''clone3'' [Ptr (User (Struct ''clone_args'')), Ty ''size_t''],
   Proto ''execve'' [Ptr (User (Const (Ty ''char''))),
       Ptr (User (Const (Ptr (User (Const (Ty ''char'')))))),
       Ptr (User (Const (Ptr (User (Const (Ty ''char''))))))],
   Proto ''fadvise64_64'' [Ty ''int'', Ty ''loff_t'', Ty ''loff_t'', Ty ''int''],
   Proto ''swapon'' [Ptr (User (Const (Ty ''char''))), Ty ''int''],
   Proto ''swapoff'' [Ptr (User (Const (Ty ''char'')))],
   Proto ''mprotect'' [Ty ''unsigned long'', Ty ''size_t'', Ty ''unsigned long''],
   Proto ''msync'' [Ty ''unsigned long'', Ty ''size_t'', Ty ''int''],
   Proto ''mlock'' [Ty ''unsigned long'', Ty ''size_t''],
   Proto ''munlock'' [Ty ''unsigned long'', Ty ''size_t''],
   Proto ''mlockall'' [Ty ''int''],
   Proto ''munlockall'' [],
   Proto ''mincore'' [Ty ''unsigned long'', Ty ''size_t'', Ptr (User (Ty ''unsigned char''))],
   Proto ''madvise'' [Ty ''unsigned long'', Ty ''size_t'', Ty ''int''],
   Proto ''process_madvise'' [Ty ''int'', Ptr (User (Const (Struct ''iovec''))), Ty ''size_t'',
       Ty ''int'', Ty ''unsigned int''],
   Proto ''remap_file_pages'' [Ty ''unsigned long'', Ty ''unsigned long'', Ty ''unsigned long'',
       Ty ''unsigned long'', Ty ''unsigned long''],
   Proto ''mbind'' [Ty ''unsigned long'', Ty ''unsigned long'', Ty ''unsigned long'',
       Ptr (User (Const (Ty ''unsigned long''))), Ty ''unsigned long'', Ty ''unsigned''],
   Proto ''get_mempolicy'' [Ptr (User (Ty ''int'')), Ptr (User (Ty ''unsigned long'')),
       Ty ''unsigned long'', Ty ''unsigned long'', Ty ''unsigned long''],
   Proto ''set_mempolicy'' [Ty ''int'', Ptr (User (Const (Ty ''unsigned long''))),
       Ty ''unsigned long''],
   Proto ''migrate_pages'' [Ty ''pid_t'', Ty ''unsigned long'',
       Ptr (User (Const (Ty ''unsigned long''))), Ptr (User (Const (Ty ''unsigned long'')))],
   Proto ''move_pages'' [Ty ''pid_t'', Ty ''unsigned long'',
       Ptr (User (Ptr (User (Const (Ty ''void''))))), Ptr (User (Const (Ty ''int''))),
       Ptr (User (Ty ''int'')), Ty ''int''],
   Proto ''rt_tgsigqueueinfo'' [Ty ''pid_t'', Ty ''pid_t'', Ty ''int'',
       Ptr (User (Ty ''siginfo_t''))]]"

definition protos_events :: "pdecl list" where
  "protos_events = [
   Proto ''perf_event_open'' [Ptr (User (Struct ''perf_event_attr'')), Ty ''pid_t'', Ty ''int'',
       Ty ''int'', Ty ''unsigned long''],
   Proto ''accept4'' [Ty ''int'', Ptr (User (Struct ''sockaddr'')), Ptr (User (Ty ''int'')),
       Ty ''int''],
   Proto ''recvmmsg'' [Ty ''int'', Ptr (User (Struct ''mmsghdr'')), Ty ''unsigned int'',
       Ty ''unsigned'', Ptr (User (Struct ''__kernel_timespec''))],
   Proto ''recvmmsg_time32'' [Ty ''int'', Ptr (User (Struct ''mmsghdr'')), Ty ''unsigned int'',
       Ty ''unsigned'', Ptr (User (Struct ''old_timespec32''))],
   Proto ''wait4'' [Ty ''pid_t'', Ptr (User (Ty ''int'')), Ty ''int'',
       Ptr (User (Struct ''rusage''))],
   Proto ''prlimit64'' [Ty ''pid_t'', Ty ''unsigned int'',
       Ptr (User (Const (Struct ''rlimit64''))), Ptr (User (Struct ''rlimit64''))],
   Proto ''fanotify_init'' [Ty ''unsigned int'', Ty ''unsigned int''],
   Proto ''fanotify_mark'' [Ty ''int'', Ty ''unsigned int'', Ty ''u64'', Ty ''int'',
       Ptr (User (Const (Ty ''char'')))],
   Proto ''name_to_handle_at'' [Ty ''int'', Ptr (User (Const (Ty ''char''))),
       Ptr (User (Struct ''file_handle'')), Ptr (User (Ty ''int'')), Ty ''int''],
   Proto ''open_by_handle_at'' [Ty ''int'', Ptr (User (Struct ''file_handle'')), Ty ''int''],
   Proto ''clock_adjtime'' [Ty ''clockid_t'', Ptr (User (Struct ''__kernel_timex''))],
   Proto ''clock_adjtime32'' [Ty ''clockid_t'', Ptr (User (Struct ''old_timex32''))],
   Proto ''syncfs'' [Ty ''int''],
   Proto ''setns'' [Ty ''int'', Ty ''int''],
   Proto ''pidfd_open'' [Ty ''pid_t'', Ty ''unsigned int''],
   Proto ''sendmmsg'' [Ty ''int'', Ptr (User (Struct ''mmsghdr'')), Ty ''unsigned int'',
       Ty ''unsigned''],
   Proto ''process_vm_readv'' [Ty ''pid_t'', Ptr (User (Const (Struct ''iovec''))),
       Ty ''unsigned long'', Ptr (User (Const (Struct ''iovec''))), Ty ''unsigned long'',
       Ty ''unsigned long''],
   Proto ''process_vm_writev'' [Ty ''pid_t'', Ptr (User (Const (Struct ''iovec''))),
       Ty ''unsigned long'', Ptr (User (Const (Struct ''iovec''))), Ty ''unsigned long'',
       Ty ''unsigned long''],
   Proto ''kcmp'' [Ty ''pid_t'', Ty ''pid_t'', Ty ''int'', Ty ''unsigned long'',
       Ty ''unsigned long''],
   Proto ''finit_module'' [Ty ''int'', Ptr (User (Const (Ty ''char''))), Ty ''int''],
   Proto ''sched_setattr'' [Ty ''pid_t'', Ptr (User (Struct ''sched_attr'')),
       Ty ''unsigned int''],
   Proto ''sched_getattr'' [Ty ''pid_t'', Ptr (User (Struct ''sched_attr'')),
       Ty ''unsigned int'', Ty ''unsigned int''],
   Proto ''renameat2'' [Ty ''int'', Ptr (User (Const (Ty ''char''))), Ty ''int'',
       Ptr (User (Const (Ty ''char''))), Ty ''unsigned int''],
   Proto ''seccomp'' [Ty ''unsigned int'', Ty ''unsigned int'', Ptr (User (Ty ''void''))],
   Proto ''getrandom'' [Ptr (User (Ty ''char'')), Ty ''size_t'', Ty ''unsigned int''],
   Proto ''memfd_create'' [Ptr (User (Const (Ty ''char''))), Ty ''unsigned int''],
   Proto ''bpf'' [Ty ''int'', Ptr (Union ''bpf_attr''), Ty ''unsigned int''],
   Proto ''execveat'' [Ty ''int'', Ptr (User (Const (Ty ''char''))),
       Ptr (User (Const (Ptr (User (Const (Ty ''char'')))))),
       Ptr (User (Const (Ptr (User (Const (Ty ''char'')))))), Ty ''int''],
   Proto ''userfaultfd'' [Ty ''int''],
   Proto ''membarrier'' [Ty ''int'', Ty ''unsigned int'', Ty ''int''],
   Proto ''mlock2'' [Ty ''unsigned long'', Ty ''size_t'', Ty ''int''],
   Proto ''copy_file_range'' [Ty ''int'', Ptr (User (Ty ''loff_t'')), Ty ''int'',
       Ptr (User (Ty ''loff_t'')), Ty ''size_t'', Ty ''unsigned int''],
   Proto ''preadv2'' [Ty ''unsigned long'', Ptr (User (Const (Struct ''iovec''))),
       Ty ''unsigned long'', Ty ''unsigned long'', Ty ''unsigned long'', Ty ''rwf_t''],
   Proto ''pwritev2'' [Ty ''unsigned long'', Ptr (User (Const (Struct ''iovec''))),
       Ty ''unsigned long'', Ty ''unsigned long'', Ty ''unsigned long'', Ty ''rwf_t''],
   Proto ''pkey_mprotect'' [Ty ''unsigned long'', Ty ''size_t'', Ty ''unsigned long'',
       Ty ''int''],
   Proto ''pkey_alloc'' [Ty ''unsigned long'', Ty ''unsigned long''],
   Proto ''pkey_free'' [Ty ''int''],
   Proto ''statx'' [Ty ''int'', Ptr (User (Const (Ty ''char''))), Ty ''unsigned'',
       Ty ''unsigned'', Ptr (User (Struct ''statx''))],
   Proto ''rseq'' [Ptr (User (Struct ''rseq'')), Ty ''uint32_t'', Ty ''int'', Ty ''uint32_t''],
   Proto ''open_tree'' [Ty ''int'', Ptr (User (Const (Ty ''char''))), Ty ''unsigned''],
   Proto ''move_mount'' [Ty ''int'', Ptr (User (Const (Ty ''char''))), Ty ''int'',
       Ptr (User (Const (Ty ''char''))), Ty ''unsigned int''],
   Proto ''mount_setattr'' [Ty ''int'', Ptr (User (Const (Ty ''char''))), Ty ''unsigned int'',
       Ptr (User (Struct ''mount_attr'')), Ty ''size_t''],
   Proto ''fsopen'' [Ptr (User (Const (Ty ''char''))), Ty ''unsigned int''],
   Proto ''fsconfig'' [Ty ''int'', Ty ''unsigned int'', Ptr (User (Const (Ty ''char''))),
       Ptr (User (Const (Ty ''void''))), Ty ''int''],
   Proto ''fsmount'' [Ty ''int'', Ty ''unsigned int'', Ty ''unsigned int''],
   Proto ''fspick'' [Ty ''int'', Ptr (User (Const (Ty ''char''))), Ty ''unsigned int''],
   Proto ''pidfd_send_signal'' [Ty ''int'', Ty ''int'', Ptr (User (Ty ''siginfo_t'')),
       Ty ''unsigned int''],
   Proto ''pidfd_getfd'' [Ty ''int'', Ty ''int'', Ty ''unsigned int''],
   Proto ''ioperm'' [Ty ''unsigned long'', Ty ''unsigned long'', Ty ''int''],
   Proto ''pciconfig_read'' [Ty ''unsigned long'', Ty ''unsigned long'', Ty ''unsigned long'',
       Ty ''unsigned long'', Ptr (User (Ty ''void''))],
   Proto ''pciconfig_write'' [Ty ''unsigned long'', Ty ''unsigned long'', Ty ''unsigned long'',
       Ty ''unsigned long'', Ptr (User (Ty ''void''))],
   Proto ''pciconfig_iobase'' [Ty ''long'', Ty ''unsigned long'', Ty ''unsigned long''],
   Proto ''spu_run'' [Ty ''int'', Ptr (User (Ty ''__u32'')), Ptr (User (Ty ''__u32''))],
   Proto ''spu_create'' [Ptr (User (Const (Ty ''char''))), Ty ''unsigned int'', Ty ''umode_t'',
       Ty ''int'']]"

definition protos_arch :: "pdecl list" where
  "protos_arch = [
   Proto ''open'' [Ptr (User (Const (Ty ''char''))), Ty ''int'', Ty ''umode_t''],
   Proto ''link'' [Ptr (User (Const (Ty ''char''))), Ptr (User (Const (Ty ''char'')))],
   Proto ''unlink'' [Ptr (User (Const (Ty ''char'')))],
   Proto ''mknod'' [Ptr (User (Const (Ty ''char''))), Ty ''umode_t'', Ty ''unsigned''],
   Proto ''chmod'' [Ptr (User (Const (Ty ''char''))), Ty ''umode_t''],
   Proto ''chown'' [Ptr (User (Const (Ty ''char''))), Ty ''uid_t'', Ty ''gid_t''],
   Proto ''mkdir'' [Ptr (User (Const (Ty ''char''))), Ty ''umode_t''],
   Proto ''rmdir'' [Ptr (User (Const (Ty ''char'')))],
   Proto ''lchown'' [Ptr (User (Const (Ty ''char''))), Ty ''uid_t'', Ty ''gid_t''],
   Proto ''access'' [Ptr (User (Const (Ty ''char''))), Ty ''int''],
   Proto ''rename'' [Ptr (User (Const (Ty ''char''))), Ptr (User (Const (Ty ''char'')))],
   Proto ''symlink'' [Ptr (User (Const (Ty ''char''))), Ptr (User (Const (Ty ''char'')))],
   PIf (Either (Defined (Macro ''__ARCH_WANT_STAT64''))
     (Defined (Macro ''__ARCH_WANT_COMPAT_STAT64'')))
    [Proto ''stat64'' [Ptr (User (Const (Ty ''char''))), Ptr (User (Struct ''stat64''))],
     Proto ''lstat64'' [Ptr (User (Const (Ty ''char''))), Ptr (User (Struct ''stat64''))]]
    [],
   Proto ''pipe'' [Ptr (User (Ty ''int''))],
   Proto ''dup2'' [Ty ''unsigned int'', Ty ''unsigned int''],
   Proto ''epoll_create'' [Ty ''int''],
   Proto ''inotify_init'' [],
   Proto ''eventfd'' [Ty ''unsigned int''],
   Proto ''signalfd'' [Ty ''int'', Ptr (User (Ty ''sigset_t'')), Ty ''size_t''],
   Proto ''sendfile'' [Ty ''int'', Ty ''int'', Ptr (User (Ty ''off_t'')), Ty ''size_t''],
   Proto ''newstat'' [Ptr (User (Const (Ty ''char''))), Ptr (User (Struct ''stat''))],
   Proto ''newlstat'' [Ptr (User (Const (Ty ''char''))), Ptr (User (Struct ''stat''))],
   Proto ''fadvise64'' [Ty ''int'', Ty ''loff_t'', Ty ''size_t'', Ty ''int''],
   Proto ''alarm'' [Ty ''unsigned int''],
   Proto ''getpgrp'' [],
   Proto ''pause'' [],
   Proto ''time'' [Ptr (User (Ty ''__kernel_old_time_t''))],
   Proto ''time32'' [Ptr (User (Ty ''old_time32_t''))],
   PIf (Defined (Macro ''__ARCH_WANT_SYS_UTIME''))
    [Proto ''utime'' [Ptr (User (Ty ''char'')), Ptr (User (Struct ''utimbuf''))],
     Proto ''utimes'' [Ptr (User (Ty ''char'')), Ptr (User (Struct ''__kernel_old_timeval''))],
     Proto ''futimesat'' [Ty ''int'', Ptr (User (Const (Ty ''char''))),
         Ptr (User (Struct ''__kernel_old_timeval''))]]
    [],
   Proto ''futimesat_time32'' [Ty ''unsigned int'', Ptr (User (Const (Ty ''char''))),
       Ptr (User (Struct ''old_timeval32''))],
   Proto ''utime32'' [Ptr (User (Const (Ty ''char''))), Ptr (User (Struct ''old_utimbuf32''))],
   Proto ''utimes_time32'' [Ptr (User (Const (Ty ''char''))),
       Ptr (User (Struct ''old_timeval32''))],
   Proto ''creat'' [Ptr (User (Const (Ty ''char''))), Ty ''umode_t''],
   Proto ''getdents'' [Ty ''unsigned int'', Ptr (User (Struct ''linux_dirent'')),
       Ty ''unsigned int''],
   Proto ''select'' [Ty ''int'', Ptr (User (Ty ''fd_set'')), Ptr (User (Ty ''fd_set'')),
       Ptr (User (Ty ''fd_set'')), Ptr (User (Struct ''__kernel_old_timeval''))],
   Proto ''poll'' [Ptr (User (Struct ''pollfd'')), Ty ''unsigned int'', Ty ''int''],
   Proto ''epoll_wait'' [Ty ''int'', Ptr (User (Struct ''epoll_event'')), Ty ''int'', Ty ''int''],
   Proto ''ustat'' [Ty ''unsigned'', Ptr (User (Struct ''ustat''))],
   Proto ''vfork'' [],
   Proto ''recv'' [Ty ''int'', Ptr (User (Ty ''void'')), Ty ''size_t'', Ty ''unsigned''],
   Proto ''send'' [Ty ''int'', Ptr (User (Ty ''void'')), Ty ''size_t'', Ty ''unsigned''],
   Proto ''bdflush'' [Ty ''int'', Ty ''long''],
   Proto ''oldumount'' [Ptr (User (Ty ''char''))],
   Proto ''uselib'' [Ptr (User (Const (Ty ''char'')))],
   Proto ''sysfs'' [Ty ''int'', Ty ''unsigned long'', Ty ''unsigned long''],
   Proto ''fork'' [],
   Proto ''stime'' [Ptr (User (Ty ''__kernel_old_time_t''))],
   Proto ''stime32'' [Ptr (User (Ty ''old_time32_t''))],
   Proto ''sigpending'' [Ptr (User (Ty ''old_sigset_t''))],
   Proto ''sigprocmask'' [Ty ''int'', Ptr (User (Ty ''old_sigset_t'')),
       Ptr (User (Ty ''old_sigset_t''))],
   PIf (Defined (Macro ''CONFIG_OLD_SIGSUSPEND''))
    [Proto ''sigsuspend'' [Ty ''old_sigset_t'']]
    [],
   PIf (Defined (Macro ''CONFIG_OLD_SIGSUSPEND3''))
    [Proto ''sigsuspend'' [Ty ''int'', Ty ''int'', Ty ''old_sigset_t'']]
    [],
   PIf (Defined (Macro ''CONFIG_OLD_SIGACTION''))
    [Proto ''sigaction'' [Ty ''int'', Ptr (User (Const (Struct ''old_sigaction''))),
         Ptr (User (Struct ''old_sigaction''))]]
    [],
   Proto ''sgetmask'' [],
   Proto ''ssetmask'' [Ty ''int''],
   Proto ''signal'' [Ty ''int'', Ty ''__sighandler_t''],
   Proto ''nice'' [Ty ''int''],
   Proto ''kexec_file_load'' [Ty ''int'', Ty ''int'', Ty ''unsigned long'',
       Ptr (User (Const (Ty ''char''))), Ty ''unsigned long''],
   Proto ''waitpid'' [Ty ''pid_t'', Ptr (User (Ty ''int'')), Ty ''int''],
   PIf (Defined (Macro ''CONFIG_HAVE_UID16''))
    [Proto ''chown16'' [Ptr (User (Const (Ty ''char''))), Ty ''old_uid_t'', Ty ''old_gid_t''],
     Proto ''lchown16'' [Ptr (User (Const (Ty ''char''))), Ty ''old_uid_t'', Ty ''old_gid_t''],
     Proto ''fchown16'' [Ty ''unsigned int'', Ty ''old_uid_t'', Ty ''old_gid_t''],
     Proto ''setregid16'' [Ty ''old_gid_t'', Ty ''old_gid_t''],
     Proto ''setgid16'' [Ty ''old_gid_t''],
     Proto ''setreuid16'' [Ty ''old_uid_t'', Ty ''old_uid_t''],
     Proto ''setuid16'' [Ty ''old_uid_t''],
     Proto ''setresuid16'' [Ty ''old_uid_t'', Ty ''old_uid_t'', Ty ''old_uid_t''],
     Proto ''getresuid16'' [Ptr (User (Ty ''old_uid_t'')), Ptr (User (Ty ''old_uid_t'')),
         Ptr (User (Ty ''old_uid_t''))],
     Proto ''setresgid16'' [Ty ''old_gid_t'', Ty ''old_gid_t'', Ty ''old_gid_t''],
     Proto ''getresgid16'' [Ptr (User (Ty ''old_gid_t'')), Ptr (User (Ty ''old_gid_t'')),
         Ptr (User (Ty ''old_gid_t''))],
     Proto ''setfsuid16'' [Ty ''old_uid_t''],
     Proto ''setfsgid16'' [Ty ''old_gid_t''],
     Proto ''getgroups16'' [Ty ''int'', Ptr (User (Ty ''old_gid_t''))],
     Proto ''setgroups16'' [Ty ''int'', Ptr (User (Ty ''old_gid_t''))],
     Proto ''getuid16'' [],
     Proto ''geteuid16'' [],
     Proto ''getgid16'' [],
     Proto ''getegid16'' []]
    []]"

definition protos_obsolete :: "pdecl list" where
  "protos_obsolete = [
   Proto ''socketcall'' [Ty ''int'', Ptr (User (Ty ''unsigned long''))],
   Proto ''stat'' [Ptr (User (Const (Ty ''char''))), Ptr (User (Struct ''__old_kernel_stat''))],
   Proto ''lstat'' [Ptr (User (Const (Ty ''char''))), Ptr (User (Struct ''__old_kernel_stat''))],
   Proto ''fstat'' [Ty ''unsigned int'', Ptr (User (Struct ''__old_kernel_stat''))],
   Proto ''readlink'' [Ptr (User (Const (Ty ''char''))), Ptr (User (Ty ''char'')), Ty ''int''],
   Proto ''old_select'' [Ptr (User (Struct ''sel_arg_struct''))],
   Proto ''old_readdir'' [Ty ''unsigned int'', Ptr (User (Struct ''old_linux_dirent'')),
       Ty ''unsigned int''],
   Proto ''gethostname'' [Ptr (User (Ty ''char'')), Ty ''int''],
   Proto ''uname'' [Ptr (User (Struct ''old_utsname''))],
   Proto ''olduname'' [Ptr (User (Struct ''oldold_utsname''))],
   PIf (Defined (Macro ''__ARCH_WANT_SYS_OLD_GETRLIMIT''))
    [Proto ''old_getrlimit'' [Ty ''unsigned int'', Ptr (User (Struct ''rlimit''))]]
    [],
   Proto ''ipc'' [Ty ''unsigned int'', Ty ''int'', Ty ''unsigned long'', Ty ''unsigned long'',
       Ptr (User (Ty ''void'')), Ty ''long''],
   Proto ''mmap_pgoff'' [Ty ''unsigned long'', Ty ''unsigned long'', Ty ''unsigned long'',
       Ty ''unsigned long'', Ty ''unsigned long'', Ty ''unsigned long''],
   Proto ''old_mmap'' [Ptr (User (Struct ''mmap_arg_struct''))],
   Proto ''ni_syscall'' []]"

section \<open>The header\<close>

definition sys_protos :: "pdecl list \<Rightarrow> pdecl list" where
  "sys_protos new = protos_aio_fs @ protos_open_rw @ protos_kernel @ new @ protos_sys_ipc @
     protos_net_mm @ protos_events @ protos_arch @ protos_obsolete"

definition syscalls_h :: "pdecl list \<Rightarrow> pdecl list" where
  "syscalls_h new =
     [PIf (Negated (Defined (Macro ''CONFIG_ARCH_HAS_SYSCALL_WRAPPER''))) (sys_protos new) []]"

lemmas protos_chunk_defs = protos_aio_fs_def protos_open_rw_def protos_kernel_def
  protos_sys_ipc_def protos_net_mm_def protos_events_def protos_arch_def protos_obsolete_def
  protos_new_sem_def protos_new_msg_def

lemma visible_append: "visible ms (xs @ ys) = visible ms xs @ visible ms ys"
  by (induction xs rule: declared.induct) simp_all

lemma declared_append: "declared (xs @ ys) = declared xs @ declared ys"
  by (induction xs rule: declared.induct) simp_all

lemma always_append: "always (xs @ ys) = always xs @ always ys"
  by (induction xs rule: declared.induct) simp_all

lemma visible_declared: "set (visible ms ds) \<subseteq> set (declared ds)"
  by (induction ds rule: declared.induct) auto

lemma always_visible: "set (always ds) \<subseteq> set (visible ms ds)"
  by (induction ds rule: declared.induct) auto

end
