(* ===== verification/Syscall_Define.thy ===== *)
theory Syscall_Define
  imports Syscall_Table Syscall_Protos
begin

text \<open>
  The macros \<open>SYSCALL_DEFINE0\<close> to \<open>SYSCALL_DEFINE6\<close> of \<open>syscalls.h\<close>: the function they declare, the
  stub that turns the machine words of a system call into arguments of the declared C types, and
  the record that tracing keeps of the call; and every use of them in the two projects' \<open>sys.c\<close>.
  The theorems relate the three places a call is written down: its definition, its prototype and
  its entry of the table.
\<close>

section \<open>A definition of a system call\<close>

text \<open>\<open>SYSCALL_DEFINE f n [(t1, a1), \<dots>]\<close> is \<open>SYSCALL_DEFINEn(f, t1, a1, \<dots>)\<close>.\<close>

datatype sc_define = SYSCALL_DEFINE string nat "(cty \<times> string) list"

fun def_name :: "sc_define \<Rightarrow> string" where
  "def_name (SYSCALL_DEFINE f n args) = f"

fun def_args :: "sc_define \<Rightarrow> (cty \<times> string) list" where
  "def_args (SYSCALL_DEFINE f n args) = args"

text \<open>The number in the macro's name is the number of arguments, and there are at most six.\<close>

definition SYSCALL_DEFINE_MAXARGS :: nat where
  "SYSCALL_DEFINE_MAXARGS = 6"

fun def_ok :: "sc_define \<Rightarrow> bool" where
  "def_ok (SYSCALL_DEFINE f n args) \<longleftrightarrow> n = length args \<and> n \<le> SYSCALL_DEFINE_MAXARGS"

text \<open>\<open>__MAP\<close> applies a macro to the first \<open>n\<close> pairs.\<close>

fun sc_map :: "nat \<Rightarrow> (cty \<Rightarrow> string \<Rightarrow> 'a) \<Rightarrow> (cty \<times> string) list \<Rightarrow> 'a list" where
  "sc_map 0 m args = []"
| "sc_map (Suc n) m ((t, a) # args) = m t a # sc_map n m args"
| "sc_map (Suc n) m [] = []"

lemma sc_map_numeral [simp]:
  "sc_map (numeral k) m ((t, a) # args) = m t a # sc_map (pred_numeral k) m args"
  by (simp add: numeral_eq_Suc)

lemma sc_map_all [simp]: "sc_map (length args) m args = map (\<lambda>(t, a). m t a) args"
  by (induction args) auto

text \<open>The function the macro declares, \<open>long sys_f(t1 a1, \<dots>)\<close>, with the names that the file
  itself gives to structures replaced. This is the generic macro; an architecture that sets
  \<open>CONFIG_ARCH_HAS_SYSCALL_WRAPPER\<close> replaces it by one of its own, which is not in the repository.\<close>

fun expand_ty :: "(string \<Rightarrow> cty option) \<Rightarrow> cty \<Rightarrow> cty" where
  "expand_ty td (Ty x) = (case td x of Some t \<Rightarrow> t | None \<Rightarrow> Ty x)"
| "expand_ty td (Ptr t) = Ptr (expand_ty td t)"
| "expand_ty td (Const t) = Const (expand_ty td t)"
| "expand_ty td (User t) = User (expand_ty td t)"
| "expand_ty td t = t"

definition sys_c_typedef :: "string \<Rightarrow> cty option" where
  "sys_c_typedef x = (if x = ''csc452_sem'' then Some (Struct ''csc452_sem'') else None)"

fun stub_decl :: "sc_define \<Rightarrow> string \<times> cty list" where
  "stub_decl (SYSCALL_DEFINE f n args) = (f, sc_map n (\<lambda>t a. expand_ty sys_c_typedef t) args)"

section \<open>Arguments in machine words\<close>

text \<open>The integer types: those of at most 32 bits, \<open>long\<close> and \<open>long long\<close>.  Which of them a
  typedef of the kernel's \<open>types.h\<close> stands for is a parameter.\<close>

datatype ckind = Small bool nat | Long bool | Long_Long bool

fun builtin_kind :: "string \<Rightarrow> ckind option" where
  "builtin_kind x =
     (if x = ''int'' then Some (Small True 32)
      else if x = ''unsigned int'' \<or> x = ''unsigned'' then Some (Small False 32)
      else if x = ''long'' then Some (Long True)
      else if x = ''unsigned long'' then Some (Long False)
      else None)"

fun kind_of :: "(string \<Rightarrow> ckind option) \<Rightarrow> cty \<Rightarrow> ckind option" where
  "kind_of td (Ty x) = (case builtin_kind x of Some k \<Rightarrow> Some k | None \<Rightarrow> td x)"
| "kind_of td (Ptr t) = Some (Long False)"
| "kind_of td (Const t) = kind_of td t"
| "kind_of td (User t) = kind_of td t"
| "kind_of td (Struct x) = None"
| "kind_of td (Union x) = None"

fun kind_signed :: "ckind \<Rightarrow> bool" where
  "kind_signed (Small s w) = s"
| "kind_signed (Long s) = s"
| "kind_signed (Long_Long s) = s"

fun kind_size :: "nat \<Rightarrow> ckind \<Rightarrow> nat" where
  "kind_size bits (Small s w) = w"
| "kind_size bits (Long s) = bits"
| "kind_size bits (Long_Long s) = 64"

text \<open>Conversion to a type, and its range.\<close>

definition to_kind :: "nat \<Rightarrow> ckind \<Rightarrow> int \<Rightarrow> int" where
  "to_kind bits k v = (if kind_signed k then signed_take_bit (kind_size bits k - 1) v
     else take_bit (kind_size bits k) v)"

definition in_kind :: "nat \<Rightarrow> ckind \<Rightarrow> int \<Rightarrow> bool" where
  "in_kind bits k v \<longleftrightarrow>
     (if kind_signed k then - (2 ^ (kind_size bits k - 1)) \<le> v \<and> v < 2 ^ (kind_size bits k - 1)
      else 0 \<le> v \<and> v < 2 ^ kind_size bits k)"

fun type_is_ll :: "ckind \<Rightarrow> bool" where
  "type_is_ll (Long_Long s) = True"
| "type_is_ll _ = False"

text \<open>\<open>__SC_LONG\<close>: the stub's own parameter is a \<open>long long\<close> or a \<open>long\<close>; \<open>__SC_TEST\<close>: the build
  fails for a type wider than \<open>long\<close> that is not a \<open>long long\<close>.\<close>

definition sc_long :: "ckind \<Rightarrow> ckind" where
  "sc_long k = (if type_is_ll k then Long_Long True else Long True)"

definition sc_test :: "nat \<Rightarrow> ckind \<Rightarrow> bool" where
  "sc_test bits k \<longleftrightarrow> \<not> (\<not> type_is_ll k \<and> bits < kind_size bits k)"

definition sc_cast :: "nat \<Rightarrow> ckind \<Rightarrow> int \<Rightarrow> int" where
  "sc_cast bits k r = to_kind bits k (to_kind bits (sc_long k) r)"

text \<open>The stub \<open>__se_sys_f\<close> on the machine words \<open>rs\<close>: it passes the converted words on to
  \<open>__do_sys_f\<close>.  \<open>None\<close>: the code does not compile, or the number of words is wrong.\<close>

fun sc_args :: "nat \<Rightarrow> (string \<Rightarrow> ckind option) \<Rightarrow> cty list \<Rightarrow> int list \<Rightarrow> int list option" where
  "sc_args bits td [] [] = Some []"
| "sc_args bits td (t # ts) (r # rs) =
     (case (kind_of td t, sc_args bits td ts rs) of
        (Some k, Some vs) \<Rightarrow> if sc_test bits k then Some (sc_cast bits k r # vs) else None
      | _ \<Rightarrow> None)"
| "sc_args bits td _ _ = None"

fun se_sys :: "nat \<Rightarrow> (string \<Rightarrow> ckind option) \<Rightarrow> sc_define \<Rightarrow> (int list \<Rightarrow> 'r option) \<Rightarrow>
    int list \<Rightarrow> 'r option" where
  "se_sys bits td (SYSCALL_DEFINE f n args) do_sys rs =
     (case sc_args bits td (sc_map n (\<lambda>t a. t) args) rs of None \<Rightarrow> None | Some vs \<Rightarrow> do_sys vs)"

section \<open>The calls of \<open>sys.c\<close>\<close>

definition define_csc452_down :: sc_define where
  "define_csc452_down = SYSCALL_DEFINE ''csc452_down'' 1 [(Ptr (Ty ''csc452_sem''), ''sem'')]"

definition define_csc452_up :: sc_define where
  "define_csc452_up = SYSCALL_DEFINE ''csc452_up'' 1 [(Ptr (Ty ''csc452_sem''), ''sem'')]"

definition define_setpriority :: sc_define where
  "define_setpriority = SYSCALL_DEFINE ''setpriority'' 3
     [(Ty ''int'', ''which''), (Ty ''int'', ''who''), (Ty ''int'', ''niceval'')]"

definition define_getpriority :: sc_define where
  "define_getpriority = SYSCALL_DEFINE ''getpriority'' 2
     [(Ty ''int'', ''which''), (Ty ''int'', ''who'')]"

definition define_setregid :: sc_define where
  "define_setregid = SYSCALL_DEFINE ''setregid'' 2
     [(Ty ''gid_t'', ''rgid''), (Ty ''gid_t'', ''egid'')]"

definition define_setgid :: sc_define where
  "define_setgid = SYSCALL_DEFINE ''setgid'' 1 [(Ty ''gid_t'', ''gid'')]"

definition define_setreuid :: sc_define where
  "define_setreuid = SYSCALL_DEFINE ''setreuid'' 2
     [(Ty ''uid_t'', ''ruid''), (Ty ''uid_t'', ''euid'')]"

definition define_setuid :: sc_define where
  "define_setuid = SYSCALL_DEFINE ''setuid'' 1 [(Ty ''uid_t'', ''uid'')]"

definition define_setresuid :: sc_define where
  "define_setresuid = SYSCALL_DEFINE ''setresuid'' 3
     [(Ty ''uid_t'', ''ruid''), (Ty ''uid_t'', ''euid''), (Ty ''uid_t'', ''suid'')]"

definition define_getresuid :: sc_define where
  "define_getresuid = SYSCALL_DEFINE ''getresuid'' 3
     [(Ptr (User (Ty ''uid_t'')), ''ruidp''), (Ptr (User (Ty ''uid_t'')), ''euidp''),
         (Ptr (User (Ty ''uid_t'')), ''suidp'')]"

definition define_setresgid :: sc_define where
  "define_setresgid = SYSCALL_DEFINE ''setresgid'' 3
     [(Ty ''gid_t'', ''rgid''), (Ty ''gid_t'', ''egid''), (Ty ''gid_t'', ''sgid'')]"

definition define_getresgid :: sc_define where
  "define_getresgid = SYSCALL_DEFINE ''getresgid'' 3
     [(Ptr (User (Ty ''gid_t'')), ''rgidp''), (Ptr (User (Ty ''gid_t'')), ''egidp''),
         (Ptr (User (Ty ''gid_t'')), ''sgidp'')]"

definition define_setfsuid :: sc_define where
  "define_setfsuid = SYSCALL_DEFINE ''setfsuid'' 1 [(Ty ''uid_t'', ''uid'')]"

definition define_setfsgid :: sc_define where
  "define_setfsgid = SYSCALL_DEFINE ''setfsgid'' 1 [(Ty ''gid_t'', ''gid'')]"

definition define_getpid :: sc_define where
  "define_getpid = SYSCALL_DEFINE ''getpid'' 0 []"

definition define_gettid :: sc_define where
  "define_gettid = SYSCALL_DEFINE ''gettid'' 0 []"

definition define_getppid :: sc_define where
  "define_getppid = SYSCALL_DEFINE ''getppid'' 0 []"

definition define_getuid :: sc_define where
  "define_getuid = SYSCALL_DEFINE ''getuid'' 0 []"

definition define_geteuid :: sc_define where
  "define_geteuid = SYSCALL_DEFINE ''geteuid'' 0 []"

definition define_getgid :: sc_define where
  "define_getgid = SYSCALL_DEFINE ''getgid'' 0 []"

definition define_getegid :: sc_define where
  "define_getegid = SYSCALL_DEFINE ''getegid'' 0 []"

definition define_times :: sc_define where
  "define_times = SYSCALL_DEFINE ''times'' 1 [(Ptr (User (Struct ''tms'')), ''tbuf'')]"

definition define_setpgid :: sc_define where
  "define_setpgid = SYSCALL_DEFINE ''setpgid'' 2
     [(Ty ''pid_t'', ''pid''), (Ty ''pid_t'', ''pgid'')]"

definition define_getpgid :: sc_define where
  "define_getpgid = SYSCALL_DEFINE ''getpgid'' 1 [(Ty ''pid_t'', ''pid'')]"

definition define_getpgrp :: sc_define where
  "define_getpgrp = SYSCALL_DEFINE ''getpgrp'' 0 []"

definition define_getsid :: sc_define where
  "define_getsid = SYSCALL_DEFINE ''getsid'' 1 [(Ty ''pid_t'', ''pid'')]"

definition define_setsid :: sc_define where
  "define_setsid = SYSCALL_DEFINE ''setsid'' 0 []"

definition define_newuname :: sc_define where
  "define_newuname = SYSCALL_DEFINE ''newuname'' 1
     [(Ptr (User (Struct ''new_utsname'')), ''name'')]"

definition define_uname :: sc_define where
  "define_uname = SYSCALL_DEFINE ''uname'' 1 [(Ptr (User (Struct ''old_utsname'')), ''name'')]"

definition define_olduname :: sc_define where
  "define_olduname = SYSCALL_DEFINE ''olduname'' 1
     [(Ptr (User (Struct ''oldold_utsname'')), ''name'')]"

definition define_sethostname :: sc_define where
  "define_sethostname = SYSCALL_DEFINE ''sethostname'' 2
     [(Ptr (User (Ty ''char'')), ''name''), (Ty ''int'', ''len'')]"

definition define_gethostname :: sc_define where
  "define_gethostname = SYSCALL_DEFINE ''gethostname'' 2
     [(Ptr (User (Ty ''char'')), ''name''), (Ty ''int'', ''len'')]"

definition define_setdomainname :: sc_define where
  "define_setdomainname = SYSCALL_DEFINE ''setdomainname'' 2
     [(Ptr (User (Ty ''char'')), ''name''), (Ty ''int'', ''len'')]"

definition define_getrlimit :: sc_define where
  "define_getrlimit = SYSCALL_DEFINE ''getrlimit'' 2
     [(Ty ''unsigned int'', ''resource''), (Ptr (User (Struct ''rlimit'')), ''rlim'')]"

definition define_old_getrlimit :: sc_define where
  "define_old_getrlimit = SYSCALL_DEFINE ''old_getrlimit'' 2
     [(Ty ''unsigned int'', ''resource''), (Ptr (User (Struct ''rlimit'')), ''rlim'')]"

definition define_prlimit64 :: sc_define where
  "define_prlimit64 = SYSCALL_DEFINE ''prlimit64'' 4
     [(Ty ''pid_t'', ''pid''), (Ty ''unsigned int'', ''resource''),
         (Ptr (User (Const (Struct ''rlimit64''))), ''new_rlim''),
         (Ptr (User (Struct ''rlimit64'')), ''old_rlim'')]"

definition define_setrlimit :: sc_define where
  "define_setrlimit = SYSCALL_DEFINE ''setrlimit'' 2
     [(Ty ''unsigned int'', ''resource''), (Ptr (User (Struct ''rlimit'')), ''rlim'')]"

definition define_getrusage :: sc_define where
  "define_getrusage = SYSCALL_DEFINE ''getrusage'' 2
     [(Ty ''int'', ''who''), (Ptr (User (Struct ''rusage'')), ''ru'')]"

definition define_umask :: sc_define where
  "define_umask = SYSCALL_DEFINE ''umask'' 1 [(Ty ''int'', ''mask'')]"

definition define_prctl :: sc_define where
  "define_prctl = SYSCALL_DEFINE ''prctl'' 5
     [(Ty ''int'', ''option''), (Ty ''unsigned long'', ''arg2''), (Ty ''unsigned long'',
         ''arg3''), (Ty ''unsigned long'', ''arg4''), (Ty ''unsigned long'', ''arg5'')]"

definition define_getcpu :: sc_define where
  "define_getcpu = SYSCALL_DEFINE ''getcpu'' 3
     [(Ptr (User (Ty ''unsigned'')), ''cpup''), (Ptr (User (Ty ''unsigned'')), ''nodep''),
         (Ptr (User (Struct ''getcpu_cache'')), ''unused'')]"

definition define_sysinfo :: sc_define where
  "define_sysinfo = SYSCALL_DEFINE ''sysinfo'' 1 [(Ptr (User (Struct ''sysinfo'')), ''info'')]"

definition define_csc452_send_msg :: sc_define where
  "define_csc452_send_msg = SYSCALL_DEFINE ''csc452_send_msg'' 3
     [(Ptr (User (Const (Ty ''char''))), ''to''), (Ptr (User (Const (Ty ''char''))), ''msg''),
         (Ptr (User (Const (Ty ''char''))), ''from'')]"

definition define_csc452_get_msg :: sc_define where
  "define_csc452_get_msg = SYSCALL_DEFINE ''csc452_get_msg'' 3
     [(Ptr (User (Const (Ty ''char''))), ''to''), (Ptr (User (Ty ''char'')), ''msg''),
         (Ptr (User (Ty ''char'')), ''from'')]"

text \<open>The \<open>COMPAT_SYSCALL_DEFINE\<close>s: the 32-bit versions on a 64-bit kernel, functions \<open>compat_sys_f\<close>.\<close>

definition compat_define_times :: sc_define where
  "compat_define_times = SYSCALL_DEFINE ''times'' 1 [(Ptr (User (Struct ''compat_tms'')), ''tbuf'')]"

definition compat_define_setrlimit :: sc_define where
  "compat_define_setrlimit = SYSCALL_DEFINE ''setrlimit'' 2
     [(Ty ''unsigned int'', ''resource''), (Ptr (User (Struct ''compat_rlimit'')), ''rlim'')]"

definition compat_define_getrlimit :: sc_define where
  "compat_define_getrlimit = SYSCALL_DEFINE ''getrlimit'' 2
     [(Ty ''unsigned int'', ''resource''), (Ptr (User (Struct ''compat_rlimit'')), ''rlim'')]"

definition compat_define_old_getrlimit :: sc_define where
  "compat_define_old_getrlimit = SYSCALL_DEFINE ''old_getrlimit'' 2
     [(Ty ''unsigned int'', ''resource''), (Ptr (User (Struct ''compat_rlimit'')), ''rlim'')]"

definition compat_define_getrusage :: sc_define where
  "compat_define_getrusage = SYSCALL_DEFINE ''getrusage'' 2
     [(Ty ''int'', ''who''), (Ptr (User (Struct ''compat_rusage'')), ''ru'')]"

definition compat_define_sysinfo :: sc_define where
  "compat_define_sysinfo = SYSCALL_DEFINE ''sysinfo'' 1
     [(Ptr (User (Struct ''compat_sysinfo'')), ''info'')]"

section \<open>Both projects\<close>

datatype project = Semaphores | Messages

fun new_unistd :: "project \<Rightarrow> pp_line list" where
  "new_unistd Semaphores = unistd_new_sem"
| "new_unistd Messages = unistd_new_msg"

fun new_protos :: "project \<Rightarrow> pdecl list" where
  "new_protos Semaphores = protos_new_sem"
| "new_protos Messages = protos_new_msg"

fun new_defines :: "project \<Rightarrow> sc_define list" where
  "new_defines Semaphores = [define_csc452_down, define_csc452_up]"
| "new_defines Messages = [define_csc452_send_msg, define_csc452_get_msg]"

text \<open>The calls of \<open>sys.c\<close> that have a place in the table, with the number and the name a program
  uses; then those only older architectures keep.\<close>

definition tabled_defines :: "(nat \<times> string \<times> sc_define) list" where
  "tabled_defines = [
   (140, ''setpriority'', define_setpriority),
   (141, ''getpriority'', define_getpriority),
   (143, ''setregid'', define_setregid),
   (144, ''setgid'', define_setgid),
   (145, ''setreuid'', define_setreuid),
   (146, ''setuid'', define_setuid),
   (147, ''setresuid'', define_setresuid),
   (148, ''getresuid'', define_getresuid),
   (149, ''setresgid'', define_setresgid),
   (150, ''getresgid'', define_getresgid),
   (151, ''setfsuid'', define_setfsuid),
   (152, ''setfsgid'', define_setfsgid),
   (153, ''times'', define_times),
   (154, ''setpgid'', define_setpgid),
   (155, ''getpgid'', define_getpgid),
   (156, ''getsid'', define_getsid),
   (157, ''setsid'', define_setsid),
   (160, ''uname'', define_newuname),
   (161, ''sethostname'', define_sethostname),
   (162, ''setdomainname'', define_setdomainname),
   (165, ''getrusage'', define_getrusage),
   (166, ''umask'', define_umask),
   (167, ''prctl'', define_prctl),
   (168, ''getcpu'', define_getcpu),
   (172, ''getpid'', define_getpid),
   (173, ''getppid'', define_getppid),
   (174, ''getuid'', define_getuid),
   (175, ''geteuid'', define_geteuid),
   (176, ''getgid'', define_getgid),
   (177, ''getegid'', define_getegid),
   (178, ''gettid'', define_gettid),
   (179, ''sysinfo'', define_sysinfo),
   (261, ''prlimit64'', define_prlimit64)]"

definition other_defines :: "sc_define list" where
  "other_defines = [define_getrlimit, define_setrlimit, define_getpgrp, define_gethostname,
     define_uname, define_olduname]"

definition sys_c_defines :: "project \<Rightarrow> sc_define list" where
  "sys_c_defines p = new_defines p @ map (\<lambda>(n, x, d). d) tabled_defines @ other_defines @
     [define_old_getrlimit]"

definition compat_defines :: "sc_define list" where
  "compat_defines = [compat_define_times, compat_define_setrlimit, compat_define_getrlimit,
     compat_define_old_getrlimit, compat_define_getrusage, compat_define_sysinfo]"

text \<open>The function a table entry of \<open>sys.c\<close> has to name: the 32-bit version, where there is one,
  in the table for 32-bit programs.\<close>

definition sys_c_function :: "bool \<Rightarrow> sc_define \<Rightarrow> handler" where
  "sys_c_function for_compat d =
     (if for_compat \<and> def_name d \<in> set (map def_name compat_defines)
      then Compat (def_name d) else Sys (def_name d))"

lemmas compat_defs = compat_defines_def compat_define_times_def compat_define_setrlimit_def
  compat_define_getrlimit_def compat_define_old_getrlimit_def compat_define_getrusage_def
  compat_define_sysinfo_def

lemmas define_defs =
  define_csc452_down_def define_csc452_up_def define_setpriority_def define_getpriority_def
  define_setregid_def define_setgid_def define_setreuid_def define_setuid_def
  define_setresuid_def define_getresuid_def define_setresgid_def define_getresgid_def
  define_setfsuid_def define_setfsgid_def define_getpid_def define_gettid_def
  define_getppid_def define_getuid_def define_geteuid_def define_getgid_def define_getegid_def
  define_times_def define_setpgid_def define_getpgid_def define_getpgrp_def define_getsid_def
  define_setsid_def define_newuname_def define_uname_def define_olduname_def
  define_sethostname_def define_gethostname_def define_setdomainname_def define_getrlimit_def
  define_old_getrlimit_def define_prlimit64_def define_setrlimit_def define_getrusage_def
  define_umask_def define_prctl_def define_getcpu_def define_sysinfo_def
  define_csc452_send_msg_def define_csc452_get_msg_def

section \<open>Definitions, prototypes and table agree\<close>

lemma all_defs_ok: "list_all def_ok (sys_c_defines p)"
  by (cases p) (simp_all add: sys_c_defines_def tabled_defines_def other_defines_def define_defs
      SYSCALL_DEFINE_MAXARGS_def)

text \<open>Every definition of the list has the first prototype of its name (outside every condition),
  and these prototypes stand in the order of the list.\<close>

fun protos_in_order :: "pdecl list \<Rightarrow> sc_define list \<Rightarrow> bool" where
  "protos_in_order ds [] = True"
| "protos_in_order [] (d # es) = False"
| "protos_in_order (Proto g tys # ds) (d # es) =
     (if fst (stub_decl d) = g then snd (stub_decl d) = tys \<and> protos_in_order ds es
      else protos_in_order ds (d # es))"
| "protos_in_order (PIf c ts es # ds) (d # des) = protos_in_order ds (d # des)"

lemma protos_in_order_always:
  "protos_in_order ds es \<Longrightarrow> d \<in> set es \<Longrightarrow> stub_decl d \<in> set (always ds)"
  by (induction ds es rule: protos_in_order.induct) (auto split: if_splits simp: prod_eq_iff)

lemma tabled_protos_in_order:
  "protos_in_order (protos_sys_ipc @ protos_events) (map (\<lambda>(n, x, d). d) tabled_defines)"
  by (simp add: tabled_defines_def define_defs protos_sys_ipc_def protos_events_def
      sys_c_typedef_def)

lemma other_protos_in_order:
  "protos_in_order (protos_sys_ipc @ protos_arch @ protos_obsolete) other_defines"
  by (simp add: other_defines_def define_defs protos_sys_ipc_def protos_arch_def
      protos_obsolete_def sys_c_typedef_def)

lemma new_protos_in_order: "protos_in_order (new_protos p) (new_defines p)"
  by (cases p; simp add: define_defs protos_new_sem_def protos_new_msg_def sys_c_typedef_def)

lemma visible_wrap:
  "visible ms (syscalls_h new) =
     (if ms (Macro ''CONFIG_ARCH_HAS_SYSCALL_WRAPPER'') = None then visible ms (sys_protos new) else [])"
  by (auto simp: syscalls_h_def)

lemma always_chunks:
  "set (always (protos_sys_ipc @ protos_events)) \<subseteq> set (always (sys_protos new))"
  "set (always (protos_sys_ipc @ protos_arch @ protos_obsolete)) \<subseteq> set (always (sys_protos new))"
  "set (always new) \<subseteq> set (always (sys_protos new))"
  by (auto simp: sys_protos_def always_append)

text \<open>\<open>old_getrlimit\<close> is declared under the condition it is defined under.\<close>

lemma old_getrlimit_visible:
  assumes "ms (Macro ''__ARCH_WANT_SYS_OLD_GETRLIMIT'') \<noteq> None"
  shows "stub_decl define_old_getrlimit \<in> set (visible ms protos_obsolete)"
proof -
  obtain b where "ms (Macro ''__ARCH_WANT_SYS_OLD_GETRLIMIT'') = Some b" using assms by blast
  then show ?thesis by (simp add: protos_obsolete_def define_old_getrlimit_def sys_c_typedef_def)
qed

lemma old_getrlimit_elsewhere:
  "''old_getrlimit'' \<notin> fst ` set (declared (protos_aio_fs @ protos_open_rw @ protos_kernel))"
  "''old_getrlimit'' \<notin> fst ` set (declared (protos_sys_ipc @ protos_net_mm))"
  "''old_getrlimit'' \<notin> fst ` set (declared (protos_events @ protos_arch))"
  "''old_getrlimit'' \<notin> fst ` set (declared (new_protos p))"
  by (simp_all add: declared_append protos_chunk_defs) (cases p; simp add: protos_chunk_defs)

lemma old_getrlimit_hidden:
  assumes "ms (Macro ''__ARCH_WANT_SYS_OLD_GETRLIMIT'') = None"
  shows "stub_decl define_old_getrlimit \<notin> set (visible ms (sys_protos (new_protos p)))"
proof -
  have "''old_getrlimit'' \<notin> fst ` set (visible ms protos_obsolete)"
    using assms by (simp add: protos_obsolete_def)
  then have "''old_getrlimit'' \<notin> fst ` set (visible ms (sys_protos (new_protos p)))"
    using old_getrlimit_elsewhere visible_declared
    unfolding sys_protos_def visible_append declared_append set_append image_Un by blast
  moreover have "fst (stub_decl define_old_getrlimit) = ''old_getrlimit''" by (simp add: define_old_getrlimit_def)
  ultimately show ?thesis by (metis image_eqI)
qed

text \<open>
  C17. Every system call that \<open>sys.c\<close> of either project defines has the number of arguments its
  macro names, at most six. The function it expands to (by the generic \<open>__SYSCALL_DEFINEx\<close> of
  \<open>syscalls.h\<close>) stands, with the same C type, among the prototypes of \<open>syscalls.h\<close> in exactly these
  configurations: those without \<open>CONFIG_ARCH_HAS_SYSCALL_WRAPPER\<close>, under which the header leaves
  all prototypes out because the architecture has macros of its own; and for \<open>old_getrlimit\<close> those with
  \<open>__ARCH_WANT_SYS_OLD_GETRLIMIT\<close>, the condition under which \<open>sys.c\<close> defines it.
\<close>

theorem sys_c_matches_prototypes:
  assumes "d \<in> set (sys_c_defines p)"
  shows "def_ok d \<and>
    (stub_decl d \<in> set (visible ms (syscalls_h (new_protos p))) \<longleftrightarrow>
       ms (Macro ''CONFIG_ARCH_HAS_SYSCALL_WRAPPER'') = None \<and>
       (d = define_old_getrlimit \<longrightarrow> ms (Macro ''__ARCH_WANT_SYS_OLD_GETRLIMIT'') \<noteq> None))"
proof -
  have vis: "stub_decl d \<in> set (visible ms (sys_protos (new_protos p))) \<longleftrightarrow>
    (d = define_old_getrlimit \<longrightarrow> ms (Macro ''__ARCH_WANT_SYS_OLD_GETRLIMIT'') \<noteq> None)"
  proof (cases "d = define_old_getrlimit")
    case True
    then show ?thesis
      using old_getrlimit_visible [of ms] old_getrlimit_hidden [of ms p] by (auto simp: sys_protos_def visible_append)
  next
    case False
    then consider "d \<in> set (new_defines p)" | "d \<in> set (map (\<lambda>(n, x, d). d) tabled_defines)"
      | "d \<in> set other_defines"
      using assms(1) False unfolding sys_c_defines_def set_append list.set by blast
    then have "stub_decl d \<in> set (always (sys_protos (new_protos p)))"
    proof cases
      case 1
      then show ?thesis
        using protos_in_order_always [OF new_protos_in_order] always_chunks(3) by blast
    next
      case 2
      then show ?thesis
        using protos_in_order_always [OF tabled_protos_in_order] always_chunks(1) by blast
    next
      case 3
      then show ?thesis
        using protos_in_order_always [OF other_protos_in_order] always_chunks(2) by blast
    qed
    with False show ?thesis using always_visible by blast
  qed
  moreover have "def_ok d" using all_defs_ok [of p] assms(1) by (simp add: list_all_iff)
  ultimately show ?thesis by (simp add: visible_wrap)
qed

lemma sys_c_matches_prototypes_witness:
  "stub_decl define_csc452_up \<in> set (visible (machine 64) (syscalls_h protos_new_sem)) \<and>
   stub_decl define_csc452_up = (''csc452_up'', [Ptr (Struct ''csc452_sem'')]) \<and>
   stub_decl define_old_getrlimit \<notin> set (visible (machine 64) (syscalls_h protos_new_sem)) \<and>
   stub_decl define_old_getrlimit \<in>
     set (visible ((machine 64)(Macro ''__ARCH_WANT_SYS_OLD_GETRLIMIT'' \<mapsto> Blank)) (syscalls_h protos_new_sem))"
proof -
  note t = sys_c_matches_prototypes [where p = Semaphores]
  have "define_csc452_up \<in> set (sys_c_defines Semaphores)" "define_old_getrlimit \<in> set (sys_c_defines Semaphores)"
    by (simp_all add: sys_c_defines_def other_defines_def)
  from t [OF this(1), of "machine 64"] t [OF this(2), of "machine 64"]
    t [OF this(2), of "(machine 64)(Macro ''__ARCH_WANT_SYS_OLD_GETRLIMIT'' \<mapsto> Blank)"]
  show ?thesis by (simp add: machine_def define_csc452_up_def define_old_getrlimit_def sys_c_typedef_def)
qed

text \<open>The rows of the table for the calls of \<open>sys.c\<close>, in order.\<close>

fun tabled_rows :: "project \<Rightarrow> (nat \<times> string \<times> sc_define) list" where
  "tabled_rows Semaphores = tabled_defines @
     [(443, ''csc452_down'', define_csc452_down), (444, ''csc452_up'', define_csc452_up)]"
| "tabled_rows Messages = tabled_defines @
     [(443, ''csc452_send_msg'', define_csc452_send_msg), (444, ''csc452_get_msg'', define_csc452_get_msg)]"

fun call_compat :: "sc_call \<Rightarrow> handler" where
  "call_compat (SYSCALL x h) = h"
| "call_compat (SC_3264 x h32 h64) = h32"
| "call_compat (SC_COMP x h comp32) = comp32"
| "call_compat (SC_COMP_3264 x h32 h64 comp32) = comp32"

definition compat_table :: "macros \<Rightarrow> bool" where
  "compat_table env \<longleftrightarrow> env (Macro ''__SYSCALL_COMPAT'') \<noteq> None"

lemma call_compat: "compat_table env \<Longrightarrow> call_handler env c = call_compat c"
  by (cases c) (simp_all add: compat_table_def sc_3264_def sc_comp_def sc_comp_3264_def narrow_def)

definition row_ok :: "sc_call \<Rightarrow> string \<Rightarrow> sc_define \<Rightarrow> bool" where
  "row_ok c x d \<longleftrightarrow> call_nr c = NR x \<and> call_native True c = Sys (def_name d) \<and>
     call_native False c = Sys (def_name d) \<and> call_compat c = sys_c_function True d"

fun rows_in_order :: "(nat \<times> sc_call) list \<Rightarrow> (nat \<times> string \<times> sc_define) list \<Rightarrow> bool" where
  "rows_in_order cs [] = True"
| "rows_in_order [] (r # rs) = False"
| "rows_in_order ((n, c) # cs) ((nr, x, d) # rs) =
     (if n = nr then row_ok c x d \<and> rows_in_order cs rs else rows_in_order cs ((nr, x, d) # rs))"

lemma rows_in_order_ex:
  "rows_in_order cs rs \<Longrightarrow> (nr, x, d) \<in> set rs \<Longrightarrow> \<exists>c. (nr, c) \<in> set cs \<and> row_ok c x d"
  by (induction cs rs rule: rows_in_order.induct) (auto split: if_splits)

lemma new_unistd_is_new: "is_new (new_unistd p)"
  by (cases p) (simp_all add: is_new_def)

lemma tabled_rows_in_order:
  "rows_in_order (plain_calls unistd_kernel2 @ plain_calls unistd_late1 @ plain_calls (new_unistd p))
     (tabled_rows p)"
  by (cases p) (simp_all add: unistd_kernel2_def unistd_late1_def unistd_new_defs tabled_defines_def
      define_defs row_ok_def sys_c_function_def compat_defs)

lemma rows_in_body:
  "set (plain_calls unistd_kernel2 @ plain_calls unistd_late1 @ plain_calls (new_unistd p)) \<subseteq>
     set (plain_calls (unistd_body (new_unistd p)))"
  using new_starts [OF new_unistd_is_new [of p]]
  by (auto simp: unistd_body_def plain_calls_append chunk_starts)

lemma row_handler:
  assumes "row_ok c x d" "word64 env \<or> word32 env \<or> compat_table env"
  shows "call_handler env c = sys_c_function (compat_table env) d"
  using assms call_native [of env c] call_compat [of env c]
  by (auto simp: row_ok_def sys_c_function_def word64_def word32_def compat_table_def)

text \<open>
  Every call of \<open>sys.c\<close> that has a place in the table is found there: under the number its
  name stands for, the table of a 32-bit and of a 64-bit machine holds the function that its
  \<open>SYSCALL_DEFINE\<close> declares, and the table for 32-bit programs on a 64-bit kernel the function of
  its \<open>COMPAT_SYSCALL_DEFINE\<close> where \<open>sys.c\<close> has one, else the same function.
\<close>

theorem sys_c_calls_in_table:
  assumes "clean env" "emits env" "word64 env \<or> word32 env \<or> compat_table env"
    "include_unistd (new_unistd p) env = Some st" "(nr, x, d) \<in> set (tabled_rows p)"
  shows "mac_value (macros st) (NR x) = Some nr \<and>
     table_at st nr = Some (sys_c_function (compat_table env) d)"
proof -
  note new = new_unistd_is_new [of p]
  obtain c where c: "(nr, c) \<in> set (plain_calls (unistd_body (new_unistd p)))" "row_ok c x d"
    using rows_in_order_ex [OF tabled_rows_in_order assms(5)] rows_in_body [of p] by blast
  have "(NR x, nr, sys_c_function (compat_table env) d) \<in> set (entries st)"
    using header_entries(3) [OF new assms(1,4,2) c(1)] row_handler [OF c(2) assms(3)] c(2)
    by (simp add: row_ok_def)
  then show ?thesis
    using header_entries(2) [OF new assms(1,4)] table_at_entry [OF new assms(1,4)]
    by (simp add: mac_value_def)
qed

lemma sys_c_calls_in_table_witness:
  "\<exists>st. include_unistd unistd_new_msg ((machine 64)(Macro ''__SYSCALL_COMPAT'' \<mapsto> Blank)) = Some st \<and>
     mac_value (macros st) (NR ''uname'') = Some 160 \<and> table_at st 160 = Some (Sys ''newuname'') \<and>
     table_at st 179 = Some (Compat ''sysinfo'') \<and> table_at st 444 = Some (Sys ''csc452_get_msg'')"
proof -
  let ?m = "(machine 64)(Macro ''__SYSCALL_COMPAT'' \<mapsto> Blank)"
  have m: "clean ?m" "emits ?m" "compat_table ?m"
    by (simp_all add: machine_def clean_def word_size_known_def emits_def compat_table_def)
  obtain st where st: "include_unistd (new_unistd Messages) ?m = Some st"
    using header_runs [OF new_unistd_is_new [of Messages] m(1)] by metis
  have rows: "(160, ''uname'', define_newuname) \<in> set (tabled_rows Messages)"
    "(179, ''sysinfo'', define_sysinfo) \<in> set (tabled_rows Messages)"
    "(444, ''csc452_get_msg'', define_csc452_get_msg) \<in> set (tabled_rows Messages)"
    by (simp_all add: tabled_defines_def)
  note t = sys_c_calls_in_table [OF m(1,2) _ st]
  show ?thesis
    using t [OF _ rows(1)] t [OF _ rows(2)] t [OF _ rows(3)] m(3) st
    by (simp add: sys_c_function_def compat_defs define_defs)
qed

end
