(* ===== verification/Syscall_Stub.thy ===== *)
theory Syscall_Stub
  imports Syscall_Define
begin

text \<open>
  What the stub of a system call does with the machine words it is given, the split of a 64-bit
  argument over two words, the tracing record of a call, and the inline functions at the end of
  \<open>syscalls.h\<close>.
\<close>

section \<open>One argument\<close>

definition kind_ok :: "nat \<Rightarrow> ckind \<Rightarrow> bool" where
  "kind_ok bits k \<longleftrightarrow> 0 < kind_size bits k \<and> kind_size bits k \<le> kind_size bits (sc_long k)"

lemma kind_test: "0 < bits \<Longrightarrow> 0 < kind_size bits k \<Longrightarrow> sc_test bits k \<Longrightarrow> kind_ok bits k"
  by (cases k) (auto simp: kind_ok_def sc_test_def sc_long_def)

lemma kind_ok_test: "kind_ok bits k \<Longrightarrow> sc_test bits k"
  by (cases k) (auto simp: kind_ok_def sc_test_def sc_long_def)

lemma to_kind_range: "0 < kind_size bits k \<Longrightarrow> in_kind bits k (to_kind bits k v)"
  by (simp add: in_kind_def to_kind_def signed_take_bit_int_greater_eq_minus_exp
      signed_take_bit_int_less_exp)

lemma to_kind_id: "0 < kind_size bits k \<Longrightarrow> in_kind bits k v \<Longrightarrow> to_kind bits k v = v"
  by (auto simp: in_kind_def to_kind_def signed_take_bit_int_eq_self take_bit_int_eq_self
      split: if_splits)

lemma sc_long_signed: "kind_signed (sc_long k)"
  by (simp add: sc_long_def)

text \<open>The detour over the stub's own parameter loses nothing: the argument depends exactly on
  the low bits of the word.\<close>

lemma sc_cast_direct: "kind_ok bits k \<Longrightarrow> sc_cast bits k r = to_kind bits k r"
proof -
  assume k: "kind_ok bits k"
  let ?n = "kind_size bits k" and ?m = "kind_size bits (sc_long k)"
  have "signed_take_bit (?n - 1) (signed_take_bit (?m - 1) r) = signed_take_bit (?n - 1) r"
    using k by (simp add: kind_ok_def min_absorb1 diff_le_mono)
  moreover have "take_bit ?n (signed_take_bit (?m - 1) r) = take_bit ?n r"
    using k by (intro take_bit_signed_take_bit) (simp add: kind_ok_def)
  ultimately show ?thesis by (simp add: sc_cast_def to_kind_def sc_long_signed)
qed

lemma to_kind_cong:
  assumes "0 < kind_size bits k" "take_bit (kind_size bits k) r = take_bit (kind_size bits k) v"
  shows "to_kind bits k r = to_kind bits k v"
proof -
  have "signed_take_bit (kind_size bits k - 1) r = signed_take_bit (kind_size bits k - 1) v"
    using assms signed_take_bit_eq_iff_take_bit_eq [of "kind_size bits k - 1" r v] by simp
  then show ?thesis using assms(2) by (simp add: to_kind_def)
qed

text \<open>A word carries a value of a type when its low bits are those of the value; the rest of the
  word is whatever the caller left there.\<close>

definition carries :: "nat \<Rightarrow> ckind \<Rightarrow> int \<Rightarrow> int \<Rightarrow> bool" where
  "carries bits k v r \<longleftrightarrow> in_kind bits k v \<and>
     take_bit (kind_size bits k) r = take_bit (kind_size bits k) v"

lemma sc_cast_carries: "kind_ok bits k \<Longrightarrow> carries bits k v r \<Longrightarrow> sc_cast bits k r = v"
  using to_kind_cong [of bits k r v] to_kind_id [of bits k v]
  by (simp add: sc_cast_direct carries_def kind_ok_def)

section \<open>All arguments\<close>

text \<open>The kinds a typedef may stand for: an integer of at least one bit.\<close>

definition typedefs_ok :: "nat \<Rightarrow> (string \<Rightarrow> ckind option) \<Rightarrow> bool" where
  "typedefs_ok bits td \<longleftrightarrow> 0 < bits \<and> (\<forall>x k. td x = Some k \<longrightarrow> 0 < kind_size bits k)"

lemma kind_of_pos: "typedefs_ok bits td \<Longrightarrow> kind_of td t = Some k \<Longrightarrow> 0 < kind_size bits k"
  by (induction t) (auto simp: typedefs_ok_def split: option.splits if_splits)

definition typed_value :: "nat \<Rightarrow> (string \<Rightarrow> ckind option) \<Rightarrow> cty \<Rightarrow> int \<Rightarrow> bool" where
  "typed_value bits td t v \<longleftrightarrow> (case kind_of td t of None \<Rightarrow> False | Some k \<Rightarrow> in_kind bits k v)"

lemma sc_args_typed:
  "typedefs_ok bits td \<Longrightarrow> sc_args bits td ts rs = Some vs \<Longrightarrow> list_all2 (typed_value bits td) ts vs"
proof (induction bits td ts rs arbitrary: vs rule: sc_args.induct)
  case (2 bits td t ts r rs)
  then obtain k ws where k: "kind_of td t = Some k" "sc_args bits td ts rs = Some ws"
    "sc_test bits k" "vs = sc_cast bits k r # ws"
    by (auto split: option.splits if_splits)
  have "in_kind bits k (sc_cast bits k r)"
    unfolding sc_cast_def by (rule to_kind_range [OF kind_of_pos [OF "2.prems"(1) k(1)]])
  then show ?case using "2.IH" [OF "2.prems"(1) k(2)] k(1,4) by (simp add: typed_value_def)
qed simp_all

definition carried :: "nat \<Rightarrow> (string \<Rightarrow> ckind option) \<Rightarrow> cty \<Rightarrow> int \<Rightarrow> int \<Rightarrow> bool" where
  "carried bits td t v r \<longleftrightarrow>
     (case kind_of td t of None \<Rightarrow> False | Some k \<Rightarrow> kind_ok bits k \<and> carries bits k v r)"

lemma sc_args_carried:
  "length vs = length ts \<Longrightarrow> length rs = length ts \<Longrightarrow>
   \<forall>i<length ts. carried bits td (ts ! i) (vs ! i) (rs ! i) \<Longrightarrow> sc_args bits td ts rs = Some vs"
proof (induction ts arbitrary: vs rs)
  case (Cons t ts)
  obtain v vs' r rs' where v: "vs = v # vs'" "rs = r # rs'"
    using Cons.prems(1,2) by (metis length_Suc_conv)
  have head: "carried bits td t v r" using Cons.prems(3) v by force
  have "\<forall>i<length ts. carried bits td (ts ! i) (vs' ! i) (rs' ! i)"
    using Cons.prems(3) v by (metis Suc_less_eq length_Cons nth_Cons_Suc)
  then have "sc_args bits td ts rs' = Some vs'" using Cons.IH Cons.prems(1,2) v by simp
  then show ?case
    using head v sc_cast_carries kind_ok_test by (auto simp: carried_def split: option.splits)
qed simp

definition def_types :: "sc_define \<Rightarrow> cty list" where
  "def_types d = map fst (def_args d)"

lemma se_sys_args:
  assumes "def_ok d"
  shows "se_sys bits td d do_sys rs =
    (case sc_args bits td (def_types d) rs of None \<Rightarrow> None | Some vs \<Rightarrow> do_sys vs)"
proof (cases d)
  case (SYSCALL_DEFINE f n args)
  have fst: "(\<lambda>(t, a). t) = (fst :: cty \<times> string \<Rightarrow> cty)" by auto
  show ?thesis using assms SYSCALL_DEFINE by (simp add: def_types_def fst)
qed

lemma stub_carried:
  assumes "d \<in> set (sys_c_defines p)" "length vs = length (def_types d)"
    "length rs = length (def_types d)"
    "\<forall>i<length (def_types d). carried bits td (def_types d ! i) (vs ! i) (rs ! i)"
  shows "se_sys bits td d do_sys rs = do_sys vs"
proof -
  have "def_ok d" using all_defs_ok [of p] assms(1) by (simp add: list_all_iff)
  then show ?thesis using sc_args_carried [OF assms(2-4)] by (simp add: se_sys_args)
qed

section \<open>Properties of the stub\<close>

text \<open>
  Whatever the machine words of a system call hold, the function behind the stub is called
  with values inside the ranges of its declared C types, one for each parameter.
\<close>

theorem stub_arguments_typed:
  assumes "d \<in> set (sys_c_defines p)" "typedefs_ok bits td" "se_sys bits td d Some rs = Some vs"
  shows "list_all2 (typed_value bits td) (def_types d) vs"
proof -
  have "def_ok d" using all_defs_ok [of p] assms(1) by (simp add: list_all_iff)
  then have "sc_args bits td (def_types d) rs = Some vs"
    using assms(3) by (simp add: se_sys_args split: option.splits)
  then show ?thesis by (rule sc_args_typed [OF assms(2)])
qed

lemma stub_arguments_typed_witness:
  "typed_value 64 (\<lambda>x. None) (Ty ''int'') (- 3) \<and> \<not> typed_value 64 (\<lambda>x. None) (Ty ''int'') 4294967293 \<and>
   se_sys 64 (\<lambda>x. None) define_umask Some [4294967293] = Some [- 3]"
proof -
  have call: "se_sys 64 (\<lambda>x. None) define_umask Some [4294967293] = Some [- 3]"
    by (simp add: define_umask_def sc_cast_def to_kind_def sc_long_def sc_test_def
        signed_take_bit_eq_take_bit_minus take_bit_int_def bit_iff_odd)
  have mem: "define_umask \<in> set (sys_c_defines Semaphores)"
    by (simp add: sys_c_defines_def tabled_defines_def)
  have "typedefs_ok 64 (\<lambda>x. None)" by (simp add: typedefs_ok_def)
  then have "list_all2 (typed_value 64 (\<lambda>x. None)) (def_types define_umask) [- 3]"
    by (rule stub_arguments_typed [OF mem _ call])
  then show ?thesis
    using call by (simp add: def_types_def define_umask_def typed_value_def in_kind_def)
qed

text \<open>
  C25. A caller that puts the values of the arguments into the low bits of the machine words gets
  the function called on exactly these values, whatever it leaves in the other bits: a 32-bit
  argument is sign-extended by the stub and not by the caller.
\<close>

theorem stub_passes_values:
  assumes "d \<in> set (sys_c_defines p)" "length vs = length (def_types d)"
    "length rs = length (def_types d)"
    "\<forall>i<length (def_types d). carried bits td (def_types d ! i) (vs ! i) (rs ! i)"
  shows "se_sys bits td d do_sys rs = do_sys vs"
  using assms by (rule stub_carried)

lemma stub_passes_values_witness:
  "se_sys 64 (\<lambda>x. None) define_setpriority Some [0, 4294968296, 4294967291] = Some [0, 1000, - 5]"
proof (rule stub_passes_values [where p = Semaphores])
  show "define_setpriority \<in> set (sys_c_defines Semaphores)"
    by (simp add: sys_c_defines_def tabled_defines_def)
  show "\<forall>i<length (def_types define_setpriority). carried 64 (\<lambda>x. None) (def_types define_setpriority ! i)
      ([0, 1000, - 5] ! i) ([0, 4294968296, 4294967291] ! i)"
    by (simp add: def_types_def define_setpriority_def carried_def carries_def kind_ok_def
        sc_long_def in_kind_def take_bit_int_def less_Suc_eq numeral_eq_Suc)
qed (simp_all add: def_types_def define_setpriority_def)

end
