(* ===== verification/Syscall_Inline.thy ===== *)
theory Syscall_Inline
  imports Syscall_Define
begin

text \<open>
  The rest of \<open>syscalls.h\<close>: 64-bit arguments split over two 32-bit words, the record that tracing
  keeps of each call, the check made on the way back to user mode, and the inline functions
  \<open>ksys_\<close>.  Functions that other files of the kernel define are arguments of the definitions.
\<close>

unbundle bit_operations_syntax

section \<open>Split 64-bit arguments\<close>

text \<open>\<open>SC_ARG64(x)\<close>: two parameters, in the order of the machine's bytes.  \<open>SC_VAL64\<close>: the value.\<close>

definition sc_arg64 :: "bool \<Rightarrow> string \<Rightarrow> (cty \<times> string) list" where
  "sc_arg64 little_endian x =
     (if little_endian then [(Ty ''u32'', x @ ''_lo''), (Ty ''u32'', x @ ''_hi'')]
      else [(Ty ''u32'', x @ ''_hi''), (Ty ''u32'', x @ ''_lo'')])"

definition sc_val64 :: "bool \<Rightarrow> int \<Rightarrow> int \<Rightarrow> int" where
  "sc_val64 sg hi lo =
     (let t = to_kind 32 (Long_Long sg) in t (t (push_bit 32 (t hi)) OR t lo))"

text \<open>The words a caller on such a machine passes.\<close>

definition split64 :: "bool \<Rightarrow> int \<Rightarrow> int list" where
  "split64 little_endian v =
     (let lo = take_bit 32 v; hi = take_bit 32 (drop_bit 32 v)
      in if little_endian then [lo, hi] else [hi, lo])"

definition join64 :: "bool \<Rightarrow> bool \<Rightarrow> int list \<Rightarrow> int" where
  "join64 little_endian sg ws =
     (if little_endian then sc_val64 sg (ws ! 1) (ws ! 0) else sc_val64 sg (ws ! 0) (ws ! 1))"

lemma join_bits: "push_bit 32 (take_bit 32 (drop_bit 32 v)) OR take_bit 32 v = take_bit 64 (v :: int)"
  by (rule bit_eqI) (auto simp: bit_simps)

lemma sc_val64_take:
  "sc_val64 s (take_bit 32 (drop_bit 32 v)) (take_bit 32 v) = to_kind 32 (Long_Long s) v"
proof -
  let ?hi = "take_bit 32 (drop_bit 32 v)" and ?t = "to_kind 32 (Long_Long s)"
  have low: "?t (take_bit 32 w) = take_bit 32 w" for w
    by (simp add: to_kind_def signed_take_bit_eq_if_positive bit_take_bit_iff)
  have "?t (?t (push_bit 32 ?hi) OR take_bit 32 v) = ?t (push_bit 32 ?hi OR take_bit 32 v)"
    by (rule bit_eqI) (auto simp: to_kind_def bit_simps min_def)
  also have "\<dots> = ?t v"
    by (simp only: join_bits) (rule bit_eqI, auto simp: to_kind_def bit_simps min_def)
  finally show ?thesis by (simp add: sc_val64_def Let_def low)
qed

text \<open>
  A 64-bit value that travels in two 32-bit words arrives unchanged, on machines of either
  byte order and for signed and unsigned types.
\<close>

theorem split_argument_round_trip:
  assumes "in_kind 32 (Long_Long s) v"
  shows "join64 le s (split64 le v) = v"
  using assms
  by (auto simp: join64_def split64_def Let_def sc_val64_take to_kind_def in_kind_def
      signed_take_bit_int_eq_self take_bit_int_eq_self split: if_splits)

lemma split_argument_round_trip_witness:
  "join64 True True (split64 True (- 8589934591)) = - 8589934591 \<and>
   split64 False (- 8589934591) = [4294967294, 1]"
  using split_argument_round_trip [of True "- 8589934591" True]
  by (simp add: in_kind_def split64_def take_bit_int_def drop_bit_int_def)

section \<open>Calls for 32-bit programs\<close>

text \<open>\<open>SYSCALL32_DEFINE1(f, \<dots>)\<close> to \<open>SYSCALL32_DEFINE6(f, \<dots>)\<close> define \<open>compat_sys_f\<close> on a kernel that
  also runs 32-bit programs and \<open>sys_f\<close> on any other.\<close>

definition syscall32_define :: "bool \<Rightarrow> string \<Rightarrow> handler" where
  "syscall32_define config_compat f = (if config_compat then Compat f else Sys f)"

section \<open>The record of a call\<close>

datatype trace_class = Syscall_Enter | Syscall_Exit | Other_Class string

record trace_event_call =
  ev_class :: trace_class
  ev_name :: string

definition SYSCALL_TRACE_ENTER_EVENT :: "string \<Rightarrow> trace_event_call" where
  "SYSCALL_TRACE_ENTER_EVENT sname = \<lparr>ev_class = Syscall_Enter, ev_name = ''sys_enter'' @ sname\<rparr>"

definition SYSCALL_TRACE_EXIT_EVENT :: "string \<Rightarrow> trace_event_call" where
  "SYSCALL_TRACE_EXIT_EVENT sname = \<lparr>ev_class = Syscall_Exit, ev_name = ''sys_exit'' @ sname\<rparr>"

record syscall_metadata =
  md_name :: string
  syscall_nr :: int
  nb_args :: nat
  md_types :: "cty list option"
  md_args :: "string list option"
  enter_event :: trace_event_call
  exit_event :: trace_event_call

text \<open>The number \<open>-1\<close> is filled in at boot; a call without arguments has no arrays.\<close>

fun SYSCALL_METADATA :: "sc_define \<Rightarrow> syscall_metadata" where
  "SYSCALL_METADATA (SYSCALL_DEFINE f n args) =
     \<lparr>md_name = ''sys_'' @ f, syscall_nr = - 1, nb_args = n,
      md_types = (if n \<noteq> 0 then Some (sc_map n (\<lambda>t a. t) args) else None),
      md_args = (if n \<noteq> 0 then Some (sc_map n (\<lambda>t a. a) args) else None),
      enter_event = SYSCALL_TRACE_ENTER_EVENT (''_'' @ f),
      exit_event = SYSCALL_TRACE_EXIT_EVENT (''_'' @ f)\<rparr>"

text \<open>With and without \<open>CONFIG_FTRACE_SYSCALLS\<close>.\<close>

definition is_syscall_trace_event :: "bool \<Rightarrow> trace_event_call \<Rightarrow> bool" where
  "is_syscall_trace_event ftrace ev \<longleftrightarrow>
     ftrace \<and> (ev_class ev = Syscall_Enter \<or> ev_class ev = Syscall_Exit)"

lemma metadata_events:
  "is_syscall_trace_event True (enter_event (SYSCALL_METADATA d))"
  "is_syscall_trace_event True (exit_event (SYSCALL_METADATA d))"
  "\<not> is_syscall_trace_event False ev"
  by (cases d; simp add: is_syscall_trace_event_def SYSCALL_TRACE_ENTER_EVENT_def
      SYSCALL_TRACE_EXIT_EVENT_def)+

lemma metadata_lengths:
  "def_ok d \<Longrightarrow> case md_types (SYSCALL_METADATA d) of None \<Rightarrow> nb_args (SYSCALL_METADATA d) = 0
     | Some ts \<Rightarrow> length ts = nb_args (SYSCALL_METADATA d)"
  by (cases d) auto

section \<open>Back to user mode\<close>

record thread =
  tif_fscheck :: bool
  kernel_limit :: bool
  kill_sent :: bool

text \<open>\<open>has_flag\<close>: the machine has \<open>TIF_FSCHECK\<close>; \<open>corruption\<close> is \<open>CHECK_DATA_CORRUPTION\<close>, which
  reports its condition and hands it back; \<open>uaccess_kernel()\<close> is \<open>kernel_limit\<close>.\<close>

definition addr_limit_user_check :: "bool \<Rightarrow> (bool \<Rightarrow> bool) \<Rightarrow> thread \<Rightarrow> thread" where
  "addr_limit_user_check has_flag corruption t =
     (if has_flag \<and> \<not> tif_fscheck t then t
      else
        let t1 = (if corruption (kernel_limit t) then t\<lparr>kill_sent := True\<rparr> else t)
        in if has_flag then t1\<lparr>tif_fscheck := False\<rparr> else t1)"

lemma addr_limit_kills:
  assumes "kernel_limit t" "has_flag \<longrightarrow> tif_fscheck t"
  shows "kill_sent (addr_limit_user_check has_flag (\<lambda>c. c) t)"
  using assms by (simp add: addr_limit_user_check_def Let_def)

lemma addr_limit_spares:
  "\<not> kernel_limit t \<Longrightarrow> kill_sent (addr_limit_user_check has_flag (\<lambda>c. c) t) = kill_sent t"
  by (simp add: addr_limit_user_check_def Let_def)

section \<open>Inline functions\<close>

definition ksys_fadvise64_64 ::
  "bool \<Rightarrow> (int \<Rightarrow> int \<Rightarrow> int \<Rightarrow> int \<Rightarrow> int) \<Rightarrow> int \<Rightarrow> int \<Rightarrow> int \<Rightarrow> int \<Rightarrow> int" where
  "ksys_fadvise64_64 advise fadvise fd off len advice =
     (if advise then fadvise fd off len advice else - EINVAL)"

definition ksys_chown :: "(int \<Rightarrow> 'p \<Rightarrow> int \<Rightarrow> int \<Rightarrow> int \<Rightarrow> 'r) \<Rightarrow> int \<Rightarrow> 'p \<Rightarrow> int \<Rightarrow> int \<Rightarrow> 'r" where
  "ksys_chown do_fchownat at_fdcwd filename uid gid = do_fchownat at_fdcwd filename uid gid 0"

definition ksys_lchown ::
  "(int \<Rightarrow> 'p \<Rightarrow> int \<Rightarrow> int \<Rightarrow> int \<Rightarrow> 'r) \<Rightarrow> int \<Rightarrow> int \<Rightarrow> 'p \<Rightarrow> int \<Rightarrow> int \<Rightarrow> 'r" where
  "ksys_lchown do_fchownat at_fdcwd at_symlink_nofollow filename uid gid =
     do_fchownat at_fdcwd filename uid gid at_symlink_nofollow"

definition ksys_ftruncate :: "(int \<Rightarrow> int \<Rightarrow> int \<Rightarrow> 'r) \<Rightarrow> int \<Rightarrow> int \<Rightarrow> 'r" where
  "ksys_ftruncate do_sys_ftruncate fd len = do_sys_ftruncate fd len 1"

definition ksys_truncate :: "('p \<Rightarrow> int \<Rightarrow> 'r) \<Rightarrow> 'p \<Rightarrow> int \<Rightarrow> 'r" where
  "ksys_truncate do_sys_truncate pathname len = do_sys_truncate pathname len"

text \<open>The old personality, and the task with the new one unless the argument is all ones.\<close>

definition ksys_personality ::
  "('t \<Rightarrow> int) \<Rightarrow> (int \<Rightarrow> 't \<Rightarrow> 't) \<Rightarrow> int \<Rightarrow> 't \<Rightarrow> int \<times> 't" where
  "ksys_personality get_pers set_pers pers task =
     (let old = get_pers task
      in (old, if pers \<noteq> 0xffffffff then set_pers pers task else task))"

lemma personality_query: "ksys_personality get_p set_p 0xffffffff task = (get_p task, task)"
  by (simp add: ksys_personality_def)

end
