(* ===== verification/Syscall_Reach.thy ===== *)
theory Syscall_Reach
  imports Sem_Syscalls Syscall_Stub
begin

text \<open>
  A system call of the semaphore project from the user's number and machine words to the kernel
  function: through the table of \<open>unistd.h\<close>, the stub of \<open>SYSCALL_DEFINE1\<close> and the functions of
  \<open>sys.c\<close>.  It is shown to be the direct dispatch that the simulations are built on.
\<close>

section \<open>The path of a call\<close>

text \<open>
  Number and machine words arrive in the kernel: the table gives the function's name, \<open>fn\<close> is what \<open>sys.c\<close> defines under a name,
  its definition (for the stub) and its body.
\<close>

definition enter_call :: "pp_state \<Rightarrow> nat \<Rightarrow> (string \<Rightarrow> ckind option) \<Rightarrow>
    (string \<Rightarrow> (sc_define \<times> (int list \<Rightarrow> 'r option)) option) \<Rightarrow> nat \<Rightarrow> int list \<Rightarrow> 'r option" where
  "enter_call st bits td fn nr rs =
     (case table_at st nr of
        Some (Sys f) \<Rightarrow> (case fn f of
            Some (d, body) \<Rightarrow> se_sys bits td d body rs
          | None \<Rightarrow> None)
      | _ \<Rightarrow> None)"

text \<open>What \<open>sys.c\<close> defines under the two names of the semaphore project.\<close>

definition sem_function :: "sem_env \<Rightarrow> nat \<Rightarrow> sem_state \<Rightarrow> string \<Rightarrow>
    (sc_define \<times> (int list \<Rightarrow> (int \<times> sem_state) option)) option" where
  "sem_function env current k f =
     (if f = ''csc452_down''
      then Some (define_csc452_down, \<lambda>vs. csc452_down env current (nat (vs ! 0)) k)
      else if f = ''csc452_up'' then Some (define_csc452_up, \<lambda>vs. csc452_up env (nat (vs ! 0)) k)
      else None)"

definition enter_kernel :: "pp_state \<Rightarrow> nat \<Rightarrow> (string \<Rightarrow> ckind option) \<Rightarrow> sem_env \<Rightarrow> nat \<Rightarrow> nat \<Rightarrow>
    int list \<Rightarrow> sem_state \<Rightarrow> (int \<times> sem_state) option" where
  "enter_kernel st bits td env current nr rs k = enter_call st bits td (sem_function env current k) nr rs"

section \<open>The table leads to a function under one number\<close>

lemma handler_among: "call_handler ms c \<in> set (call_handlers c)"
  by (cases c) (simp_all add: sc_3264_def sc_comp_def sc_comp_3264_def)

lemma table_only:
  assumes new: "is_new new" "clean m" "include_unistd new m = Some st" and at: "table_at st nr = Some (Sys f)"
    and only: "list_all (\<lambda>(n, c). Sys f \<in> set (call_handlers c) \<longrightarrow> n = N) (calls (unistd_body new))"
  shows "nr = N"
proof -
  have "(nr, Sys f) \<in> set (syscall_table st)"
    using at by (simp add: table_at_def map_of_SomeD)
  then obtain x where "(x, nr, Sys f) \<in> set (entries st)"
    by (auto simp: syscall_table_def)
  then obtain c where c: "(nr, c) \<in> set (calls (unistd_body new))" "Sys f = call_handler m c"
    using header_entries(2) [OF new] by blast
  have "Sys f \<in> set (call_handlers c)" using handler_among [of m c] c(2) by simp
  then show ?thesis using only c(1) by (auto simp: list_all_iff)
qed

text \<open>A project with two functions, at 443 and 444: every other number leads to neither.\<close>

lemma enter_two_calls:
  assumes new: "is_new new" "clean m" "include_unistd new m = Some st"
    and at: "table_at st 443 = Some (Sys f)" "table_at st 444 = Some (Sys g)"
    and only: "list_all (\<lambda>(n, c). Sys f \<in> set (call_handlers c) \<longrightarrow> n = 443) (calls (unistd_body new))"
      "list_all (\<lambda>(n, c). Sys g \<in> set (call_handlers c) \<longrightarrow> n = 444) (calls (unistd_body new))"
    and fn: "fn f = Some (df, bf)" "fn g = Some (dg, bg)" "\<And>x. x \<noteq> f \<Longrightarrow> x \<noteq> g \<Longrightarrow> fn x = None"
  shows "enter_call st bits td fn nr rs =
    (if nr = 443 then se_sys bits td df bf rs else if nr = 444 then se_sys bits td dg bg rs else None)"
proof -
  consider "nr = 443" | "nr = 444" | "nr \<noteq> 443" "nr \<noteq> 444" by blast
  then show ?thesis
  proof cases
    case 3
    have "fn x = None" if "table_at st nr = Some (Sys x)" for x
      using table_only [OF new that] only 3 fn(3) [of x] by blast
    then show ?thesis using 3 by (simp add: enter_call_def split: option.splits handler.splits)
  qed (simp_all add: enter_call_def at fn)
qed

lemma sem_only:
  "list_all (\<lambda>(n, c). Sys ''csc452_down'' \<in> set (call_handlers c) \<longrightarrow> n = 443) (calls (unistd_body unistd_new_sem))"
  "list_all (\<lambda>(n, c). Sys ''csc452_up'' \<in> set (call_handlers c) \<longrightarrow> n = 444) (calls (unistd_body unistd_new_sem))"
  by (simp_all add: unistd_body_def unistd_stock_defs unistd_new_sem_def)

text \<open>A stub whose parameters are all pointers passes the addresses in the low bits of the words.\<close>

definition address_in :: "nat \<Rightarrow> nat \<Rightarrow> int \<Rightarrow> bool" where
  "address_in bits a r \<longleftrightarrow> a < 2 ^ bits \<and> take_bit bits r = int a"

lemma pointer_stub:
  assumes d: "d \<in> set (sys_c_defines p)" "\<forall>t \<in> set (def_types d). kind_of td t = Some (Long False)"
    and len: "length as = length (def_types d)" and rs: "list_all2 (address_in bits) as rs" and bits: "0 < bits"
  shows "se_sys bits td d body rs = body (map int as)"
proof (rule stub_carried [OF d(1)])
  show "length (map int as) = length (def_types d)" "length rs = length (def_types d)"
    using len list_all2_lengthD [OF rs] by simp_all
  have "carried bits td (def_types d ! i) (map int as ! i) (rs ! i)" if "i < length (def_types d)" for i
  proof -
    have a: "as ! i < 2 ^ bits" "take_bit bits (rs ! i) = int (as ! i)"
      using list_all2_nthD [OF rs, of i] that len by (simp_all add: address_in_def)
    have "int (as ! i) < 2 ^ bits" using a(1) by (metis of_nat_less_iff of_nat_numeral of_nat_power)
    then have "carries bits (Long False) (int (as ! i)) (rs ! i)"
      using a(2) by (simp add: carries_def in_kind_def take_bit_int_eq_self)
    moreover have "kind_of td (def_types d ! i) = Some (Long False)" using d(2) that by simp
    ultimately show ?thesis using bits that len by (simp add: carried_def kind_ok_def sc_long_def)
  qed
  then show "\<forall>i<length (def_types d). carried bits td (def_types d ! i) (map int as ! i) (rs ! i)" by blast
qed

text \<open>
  C14. In every configuration a system call with any number, made with the address of a semaphore
  in the low bits of its argument word, does through table and stub exactly what the dispatch of
  \<open>sem_syscall\<close> does: down under 443, up under 444 and neither of them under another number.
\<close>

theorem calls_reach_semaphores:
  assumes "clean m" "emits m" "include_unistd unistd_new_sem m = Some st" "0 < bits"
    "sem < 2 ^ bits" "take_bit bits r = int sem"
  shows "enter_kernel st bits td env current nr [r] k = sem_syscall env current nr sem k"
proof -
  have t: "table_at st 443 = Some (Sys ''csc452_down'')" "table_at st 444 = Some (Sys ''csc452_up'')"
    using new_call_entries [OF assms(1,3)] assms(2) by simp_all
  have stub: "se_sys bits td d body [r] = body [int sem]" if "d = define_csc452_down \<or> d = define_csc452_up"
    for d and body :: "int list \<Rightarrow> (int \<times> sem_state) option"
  proof -
    have "d \<in> set (sys_c_defines Semaphores)" using that by (auto simp: sys_c_defines_def)
    moreover have "def_types d = [Ptr (Ty ''csc452_sem'')]"
      using that by (auto simp: def_types_def define_csc452_down_def define_csc452_up_def)
    ultimately have "se_sys bits td d body [r] = body (map int [sem])"
      using assms(4-6) by (intro pointer_stub) (simp_all add: address_in_def)
    then show ?thesis by simp
  qed
  show ?thesis
    unfolding enter_kernel_def
    by (subst enter_two_calls [OF sem_is_new assms(1,3) t sem_only])
      (auto simp: sem_function_def stub sem_syscall_def NR_csc452_down_def NR_csc452_up_def)
qed

lemma calls_reach_semaphores_witness:
  "\<exists>st. include_unistd unistd_new_sem (machine 64) = Some st \<and>
     (\<forall>env t k. enter_kernel st 64 (\<lambda>x. None) env t 443 [16] k = ts_down env t 16 k \<and>
        enter_kernel st 64 (\<lambda>x. None) env t 444 [16] k = pc_up env t 16 k)"
proof -
  obtain st where st: "include_unistd unistd_new_sem (machine 64) = Some st"
    using machine_run [OF sem_is_new] by blast
  have "enter_kernel st 64 (\<lambda>x. None) env t nr [16] k = sem_syscall env t nr 16 k" for env t nr k
    by (rule calls_reach_semaphores [OF machine_ok(1,2) st]) (simp_all add: take_bit_int_def)
  then show ?thesis
    using st by (auto simp: sem_syscall_def NR_csc452_down_def NR_csc452_up_def)
qed

end
