(* ===== verification/Syscall_Messages.thy ===== *)
theory Syscall_Messages
  imports Syscall_Reach Osmsg
begin

text \<open>
  A system call of the message project from the user's number and three machine words to the kernel function, through the table of its
  \<open>unistd.h\<close>, the stub of \<open>SYSCALL_DEFINE3\<close> and the functions of its \<open>sys.c\<close>. It is what the wrappers of \<open>osmsg.c\<close> call.
\<close>

section \<open>The path of a call\<close>

text \<open>
  The words are addresses: \<open>mem\<close> is the string that can be read at an address, \<open>buf\<close> the array of the caller that starts there. A call returns the
  arrays \<open>msg\<close> and \<open>from\<close> as it leaves them; \<open>csc452_send_msg\<close> only reads.
\<close>

type_synonym msg_result = "int \<times> char list \<times> char list \<times> msg_state"

definition message_function :: "msg_env \<Rightarrow> (nat \<Rightarrow> user_ptr) \<Rightarrow> (nat \<Rightarrow> char list) \<Rightarrow> msg_state \<Rightarrow> string \<Rightarrow>
    (sc_define \<times> (int list \<Rightarrow> msg_result option)) option" where
  "message_function env mem buf s f =
     (if f = ''csc452_send_msg''
      then Some (define_csc452_send_msg, \<lambda>vs. do {
        (r, s) \<leftarrow> csc452_send_msg env (mem (nat (vs ! 0))) (mem (nat (vs ! 1))) (mem (nat (vs ! 2))) s;
        Some (r, buf (nat (vs ! 1)), buf (nat (vs ! 2)), s) })
      else if f = ''csc452_get_msg''
      then Some (define_csc452_get_msg, \<lambda>vs.
        csc452_get_msg env (mem (nat (vs ! 0))) (buf (nat (vs ! 1))) (buf (nat (vs ! 2))) s)
      else None)"

definition enter_message :: "pp_state \<Rightarrow> nat \<Rightarrow> (string \<Rightarrow> ckind option) \<Rightarrow> msg_env \<Rightarrow> (nat \<Rightarrow> user_ptr) \<Rightarrow>
    (nat \<Rightarrow> char list) \<Rightarrow> nat \<Rightarrow> int list \<Rightarrow> msg_state \<Rightarrow> msg_result option" where
  "enter_message st bits td env mem buf nr rs s = enter_call st bits td (message_function env mem buf s) nr rs"

text \<open>The direct dispatch that the client is built on.\<close>

definition message_syscall :: "msg_env \<Rightarrow> (nat \<Rightarrow> user_ptr) \<Rightarrow> (nat \<Rightarrow> char list) \<Rightarrow> nat \<Rightarrow> nat \<Rightarrow> nat \<Rightarrow> nat \<Rightarrow>
    msg_state \<Rightarrow> msg_result option" where
  "message_syscall env mem buf nr to msg from s =
     (if nr = NR_csc452_send_msg
      then do {
        (r, s) \<leftarrow> syscall_in env nr (mem to) (mem msg) (mem from) s;
        Some (r, buf msg, buf from, s) }
      else syscall_out env nr (mem to) (buf msg) (buf from) s)"

section \<open>It is the direct dispatch\<close>

lemma msg_only:
  "list_all (\<lambda>(n, c). Sys ''csc452_send_msg'' \<in> set (call_handlers c) \<longrightarrow> n = 443) (calls (unistd_body unistd_new_msg))"
  "list_all (\<lambda>(n, c). Sys ''csc452_get_msg'' \<in> set (call_handlers c) \<longrightarrow> n = 444) (calls (unistd_body unistd_new_msg))"
  by (simp_all add: unistd_body_def unistd_stock_defs unistd_new_msg_def)

text \<open>
  C15. In every configuration of the message project a system call with any number and three words whose low bits are user addresses does, through table and stub,
  exactly what the dispatch of \<open>osmsg.c\<close> does: sending under 443, receiving under 444, with the strings and arrays at these addresses in this order.
\<close>

theorem calls_reach_messages:
  assumes "clean m" "emits m" "include_unistd unistd_new_msg m = Some st" "0 < bits"
    and "list_all2 (address_in bits) [to, msg, from] rs"
  shows "enter_message st bits td env mem buf nr rs s = message_syscall env mem buf nr to msg from s"
proof -
  have t: "table_at st 443 = Some (Sys ''csc452_send_msg'')" "table_at st 444 = Some (Sys ''csc452_get_msg'')"
    using new_msg_entries [OF assms(1,3)] assms(2) by simp_all
  have stub: "se_sys bits td d body rs = body [int to, int msg, int from]"
    if "d = define_csc452_send_msg \<or> d = define_csc452_get_msg" for d and body :: "int list \<Rightarrow> msg_result option"
  proof -
    have "d \<in> set (sys_c_defines Messages)" using that by (auto simp: sys_c_defines_def)
    moreover have "\<forall>x \<in> set (def_types d). kind_of td x = Some (Long False)" "length (def_types d) = 3"
      using that by (auto simp: def_types_def define_csc452_send_msg_def define_csc452_get_msg_def)
    ultimately have "se_sys bits td d body rs = body (map int [to, msg, from])"
      using assms(4,5) by (intro pointer_stub) simp_all
    then show ?thesis by simp
  qed
  show ?thesis
    unfolding enter_message_def
    by (subst enter_two_calls [OF msg_is_new assms(1,3) t msg_only])
      (auto simp: message_function_def stub message_syscall_def syscall_in_def syscall_out_def
        NR_csc452_send_msg_def NR_csc452_get_msg_def)
qed

lemma calls_reach_messages_witness:
  "\<exists>st. include_unistd unistd_new_msg (machine 64) = Some st \<and>
     (\<forall>env mem buf s. enter_message st 64 (\<lambda>x. None) env mem buf 444 [16, 32, 48] s = get_msg env (mem 16) (buf 32) (buf 48) s)"
proof -
  obtain st where st: "include_unistd unistd_new_msg (machine 64) = Some st"
    using machine_run [OF msg_is_new] by blast
  have "enter_message st 64 (\<lambda>x. None) env mem buf 444 [16, 32, 48] s = message_syscall env mem buf 444 16 32 48 s" for env mem buf s
    by (rule calls_reach_messages [OF machine_ok(1,2) st]) (simp_all add: address_in_def take_bit_int_def)
  then show ?thesis
    using st by (auto simp: message_syscall_def syscall_out_def NR_csc452_send_msg_def NR_csc452_get_msg_def)
qed

end
